(* ===== verification/JsPrelude.thy ===== *)
theory JsPrelude
  imports Main "HOL-Library.List_Lexorder" "HOL-Library.Sublist" "HOL-Library.Code_Target_Nat"
begin

text \<open>
  What every component shares: JavaScript strings as sequences of UTF-16 code units, the string
  and container operations of the standard library that the console's code calls, and thrown
  errors as the left summand of a sum type.

  A JavaScript string is a list of code units, each a natural number below 65536.  A literal of
  the source is written \<open>js ''...''\<close>; code units outside ASCII are written as numbers.  The order
  of strings is the lexicographic order of code units, which is the order of the instance
  of \<open>linorder\<close> for lists in \<open>List_Lexorder\<close>.
\<close>

named_theorems js_list \<open>facts about the list and string operations of the standard library\<close>
named_theorems and_then_simps \<open>inversion of sequenced computations that may throw\<close>

section \<open>Computations that may throw\<close>

text \<open>A computation that may throw returns \<open>Inl\<close> the thrown error or \<open>Inr\<close> its value.\<close>

definition and_then :: "'e + 'a \<Rightarrow> ('a \<Rightarrow> 'e + 'b) \<Rightarrow> 'e + 'b" where
  "and_then m f = (case m of Inl e \<Rightarrow> Inl e | Inr a \<Rightarrow> f a)"

text \<open>The error that reading a property of \<open>null\<close> or \<open>undefined\<close>, or calling a method a value lacks, throws.\<close>

datatype js_error = TypeError

section \<open>Code units and strings\<close>

type_synonym jsstr = "nat list"

definition js :: "string \<Rightarrow> jsstr" where
  "js s = map of_char s"

abbreviation ch :: "char \<Rightarrow> nat" where
  "ch c \<equiv> of_char c"

text \<open>
  The code units that \<open>\s\<close> matches and \<open>trim()\<close> removes: \<open>WhiteSpace\<close> and
  \<open>LineTerminator\<close> of ECMAScript.
\<close>

definition is_ws :: "nat \<Rightarrow> bool" where
  "is_ws c \<longleftrightarrow> (9 \<le> c \<and> c \<le> 13) \<or> c = 32 \<or> c = 160 \<or> c = 0x1680 \<or> (0x2000 \<le> c \<and> c \<le> 0x200A)
     \<or> c = 0x2028 \<or> c = 0x2029 \<or> c = 0x202F \<or> c = 0x205F \<or> c = 0x3000 \<or> c = 0xFEFF"

definition is_digit :: "nat \<Rightarrow> bool" where
  "is_digit c \<longleftrightarrow> 48 \<le> c \<and> c \<le> 57"

definition is_upper :: "nat \<Rightarrow> bool" where
  "is_upper c \<longleftrightarrow> 65 \<le> c \<and> c \<le> 90"

definition is_lower :: "nat \<Rightarrow> bool" where
  "is_lower c \<longleftrightarrow> 97 \<le> c \<and> c \<le> 122"

text \<open>The character class \<open>\w\<close>.\<close>

definition is_word :: "nat \<Rightarrow> bool" where
  "is_word c \<longleftrightarrow> is_upper c \<or> is_lower c \<or> is_digit c \<or> c = 95"

definition is_hex :: "nat \<Rightarrow> bool" where
  "is_hex c \<longleftrightarrow> is_digit c \<or> (65 \<le> c \<and> c \<le> 70) \<or> (97 \<le> c \<and> c \<le> 102)"

definition hex_digit :: "nat \<Rightarrow> nat" where
  "hex_digit c = (if is_digit c then c - 48 else if 97 \<le> c then c - 87 else c - 55)"

definition hex_value :: "jsstr \<Rightarrow> nat" where
  "hex_value s = foldl (\<lambda>v c. 16 * v + hex_digit c) 0 s"

definition dec_value :: "jsstr \<Rightarrow> nat" where
  "dec_value s = foldl (\<lambda>v c. 10 * v + (c - 48)) 0 s"

text \<open>The decimal numeral of a natural number, without leading zeros.\<close>

fun dec_string :: "nat \<Rightarrow> jsstr" where
  "dec_string n = (if n < 10 then [48 + n] else dec_string (n div 10) @ [48 + n mod 10])"

declare dec_string.simps [simp del]

definition trim_start :: "jsstr \<Rightarrow> jsstr" where
  "trim_start s = dropWhile is_ws s"

definition trim_end :: "jsstr \<Rightarrow> jsstr" where
  "trim_end s = rev (dropWhile is_ws (rev s))"

definition trim :: "jsstr \<Rightarrow> jsstr" where
  "trim s = trim_end (trim_start s)"

text \<open>\<open>s.slice(a, b)\<close> for non-negative indices.\<close>

definition slice :: "nat \<Rightarrow> nat \<Rightarrow> 'a list \<Rightarrow> 'a list" where
  "slice a b s = take (b - a) (drop a s)"

definition starts_with :: "jsstr \<Rightarrow> jsstr \<Rightarrow> bool" where
  "starts_with p s \<longleftrightarrow> take (length p) s = p"

text \<open>\<open>s.indexOf(p)\<close>, \<open>None\<close> for -1.\<close>

fun index_of :: "jsstr \<Rightarrow> jsstr \<Rightarrow> nat option" where
  "index_of p [] = (if p = [] then Some 0 else None)"
| "index_of p (c # cs) =
     (if starts_with p (c # cs) then Some 0 else map_option Suc (index_of p cs))"

definition str_includes :: "jsstr \<Rightarrow> jsstr \<Rightarrow> bool" where
  "str_includes p s \<longleftrightarrow> index_of p s \<noteq> None"

text \<open>\<open>s.split(c)\<close> for a separator of one code unit, and \<open>xs.join(sep)\<close>.\<close>

fun split_on :: "nat \<Rightarrow> jsstr \<Rightarrow> jsstr list" where
  "split_on c [] = [[]]"
| "split_on c (x # xs) =
     (if x = c then [] # split_on c xs
      else (case split_on c xs of [] \<Rightarrow> [[x]] | p # ps \<Rightarrow> (x # p) # ps))"

fun join :: "jsstr \<Rightarrow> jsstr list \<Rightarrow> jsstr" where
  "join sep [] = []"
| "join sep [x] = x"
| "join sep (x # y # ys) = x @ sep @ join sep (y # ys)"

text \<open>
  \<open>object[key]\<close> on a plain object reads an own property, or one of the properties that every object
  inherits, none of which is a string.
\<close>

definition inherited_properties :: "jsstr list" where
  "inherited_properties = map js
     [''constructor'', ''__proto__'', ''hasOwnProperty'', ''isPrototypeOf'', ''propertyIsEnumerable'',
      ''toLocaleString'', ''toString'', ''valueOf'', ''__defineGetter__'', ''__defineSetter__'',
      ''__lookupGetter__'', ''__lookupSetter__'']"

section \<open>Sets and maps in insertion order\<close>

text \<open>\<open>[...new Set(xs)]\<close>: the first occurrence of each element, in order.\<close>

definition set_add :: "'a list \<Rightarrow> 'a \<Rightarrow> 'a list" where
  "set_add xs x = (if x \<in> set xs then xs else xs @ [x])"

definition uniq :: "'a list \<Rightarrow> 'a list" where
  "uniq xs = foldl set_add [] xs"

text \<open>
  A \<open>Map\<close> or a plain object as the list of its entries in insertion order: \<open>set\<close> overwrites an
  entry in place or appends one, \<open>get\<close> is \<^const>\<open>map_of\<close>.
\<close>

fun map_set :: "'k \<Rightarrow> 'v \<Rightarrow> ('k \<times> 'v) list \<Rightarrow> ('k \<times> 'v) list" where
  "map_set k v [] = [(k, v)]"
| "map_set k v ((k', v') # m) = (if k' = k then (k, v) # m else (k', v') # map_set k v m)"

definition map_delete :: "'k \<Rightarrow> ('k \<times> 'v) list \<Rightarrow> ('k \<times> 'v) list" where
  "map_delete k m = filter (\<lambda>(k', v). k' \<noteq> k) m"

text \<open>\<open>Object.fromEntries\<close> and \<open>new Map(entries)\<close>: a later entry overwrites an earlier one.\<close>

definition from_entries :: "('k \<times> 'v) list \<Rightarrow> ('k \<times> 'v) list" where
  "from_entries es = foldl (\<lambda>m (k, v). map_set k v m) [] es"

text \<open>\<open>xs.findIndex(p)\<close>, \<open>None\<close> for -1.\<close>

fun find_index :: "('a \<Rightarrow> bool) \<Rightarrow> 'a list \<Rightarrow> nat option" where
  "find_index p [] = None"
| "find_index p (x # xs) = (if p x then Some 0 else map_option Suc (find_index p xs))"

section \<open>Lemmas\<close>

lemma and_then_Inl [simp]: "and_then (Inl e) f = Inl e"
  by (simp add: and_then_def)

lemma and_then_Inr [simp]: "and_then (Inr a) f = f a"
  by (simp add: and_then_def)

lemma and_then_eq_Inr [and_then_simps]:
  "and_then m f = Inr b \<longleftrightarrow> (\<exists>a. m = Inr a \<and> f a = Inr b)"
  by (cases m) simp_all

lemma and_then_eq_Inl [and_then_simps]:
  "and_then m f = Inl e \<longleftrightarrow> m = Inl e \<or> (\<exists>a. m = Inr a \<and> f a = Inl e)"
  by (cases m) simp_all

lemma and_then_assoc: "and_then (and_then m f) g = and_then m (\<lambda>a. and_then (f a) g)"
  by (cases m) simp_all

lemma and_then_cong [fundef_cong]:
  "m = m' \<Longrightarrow> (\<And>a. m' = Inr a \<Longrightarrow> f a = f' a) \<Longrightarrow> and_then m f = and_then m' f'"
  by (cases m') simp_all

subsection \<open>Strings\<close>

lemma js_Nil [simp]: "js [] = []"
  by (simp add: js_def)

lemma js_Cons: "js (c # cs) = ch c # js cs"
  by (simp add: js_def)

lemma length_js [simp]: "length (js s) = length s"
  by (simp add: js_def)

lemma js_eq_Nil [simp]: "js s = [] \<longleftrightarrow> s = []" "[] = js s \<longleftrightarrow> s = []"
  by (auto simp: js_def)

lemma of_char_nat_inj: "(of_char c :: nat) = of_char d \<longleftrightarrow> c = d"
  by (metis char_of_char)

lemma js_eq_js [simp]: "js s = js t \<longleftrightarrow> s = t"
  unfolding js_def by (metis of_char_nat_inj map_injective injI)

lemma js_append: "js (s @ t) = js s @ js t"
  by (simp add: js_def)

lemma trim_Nil [simp]: "trim [] = []"
  by (simp add: trim_def trim_start_def trim_end_def)

lemma trim_end_prefix: "prefix (trim_end s) s"
proof -
  have "suffix (dropWhile is_ws (rev s)) (rev s)"
    by (rule suffix_dropWhile)
  then show ?thesis
    by (simp add: trim_end_def suffix_to_prefix)
qed

lemma trim_end_last: "trim_end s \<noteq> [] \<Longrightarrow> \<not> is_ws (last (trim_end s))"
  unfolding trim_end_def by (simp add: last_rev hd_dropWhile)

lemma trim_start_hd: "trim_start s \<noteq> [] \<Longrightarrow> \<not> is_ws (hd (trim_start s))"
  unfolding trim_start_def by (rule hd_dropWhile)

lemma trim_start_id: "s = [] \<or> \<not> is_ws (hd s) \<Longrightarrow> trim_start s = s"
  by (cases s) (auto simp: trim_start_def)

lemma trim_end_id: "s = [] \<or> \<not> is_ws (last s) \<Longrightarrow> trim_end s = s"
  using trim_start_id [of "rev s"] by (auto simp: trim_end_def trim_start_def hd_rev)

lemma trim_hd: "trim s \<noteq> [] \<Longrightarrow> \<not> is_ws (hd (trim s))"
proof -
  assume ne: "trim s \<noteq> []"
  have pre: "prefix (trim s) (trim_start s)"
    unfolding trim_def by (rule trim_end_prefix)
  with ne have "hd (trim s) = hd (trim_start s)"
    by (auto simp: prefix_def)
  moreover from ne pre have "trim_start s \<noteq> []"
    by (auto simp: prefix_def)
  ultimately show ?thesis
    using trim_start_hd by simp
qed

lemma trim_last: "trim s \<noteq> [] \<Longrightarrow> \<not> is_ws (last (trim s))"
  unfolding trim_def by (rule trim_end_last)

lemma trim_trim [simp]: "trim (trim s) = trim s"
proof -
  have "trim_start (trim s) = trim s"
    by (rule trim_start_id) (use trim_hd in blast)
  moreover have "trim_end (trim s) = trim s"
    by (rule trim_end_id) (use trim_last in blast)
  ultimately show ?thesis
    by (simp add: trim_def [of "trim s"])
qed

lemma trim_id: "s = [] \<or> \<not> is_ws (hd s) \<and> \<not> is_ws (last s) \<Longrightarrow> trim s = s"
  unfolding trim_def by (metis trim_start_id trim_end_id)

lemma length_trim: "length (trim s) \<le> length s"
proof -
  have "length (trim s) \<le> length (trim_start s)"
    unfolding trim_def by (rule prefix_length_le [OF trim_end_prefix])
  also have "\<dots> \<le> length s"
    by (simp add: trim_start_def length_dropWhile_le)
  finally show ?thesis .
qed

lemma length_slice [simp]: "length (slice a b s) = min (b - a) (length s - a)"
  by (simp add: slice_def)

lemma slice_append_slice:
  "a \<le> b \<Longrightarrow> b \<le> c \<Longrightarrow> slice a b s @ slice b c s = slice a c s"
proof -
  assume ab: "a \<le> b" and bc: "b \<le> c"
  then have "c - a = (b - a) + (c - b)" by simp
  then have "slice a c s = take (b - a) (drop a s) @ take (c - b) (drop (b - a) (drop a s))"
    by (simp only: slice_def take_add)
  with ab show ?thesis by (simp add: slice_def)
qed

lemma slice_full [simp]: "slice 0 (length s) s = s"
  by (simp add: slice_def)

lemma starts_with_prefix: "starts_with p s \<longleftrightarrow> prefix p s"
  unfolding starts_with_def by (metis append_eq_conv_conj prefix_def append_take_drop_id)

lemma starts_with_append [simp]: "starts_with p (p @ s)"
  by (simp add: starts_with_def)

lemma index_of_Some:
  "index_of p s = Some i \<Longrightarrow>
     i + length p \<le> length s \<and> starts_with p (drop i s) \<and> (\<forall>j<i. \<not> starts_with p (drop j s))"
proof (induction s arbitrary: i)
  case Nil
  then show ?case by (auto simp: starts_with_def split: if_splits)
next
  case (Cons c cs)
  show ?case
  proof (cases "starts_with p (c # cs)")
    case True
    then have "length p \<le> length (c # cs)"
      by (metis starts_with_prefix prefix_length_le)
    with Cons.prems True show ?thesis by auto
  next
    case False
    with Cons.prems obtain k where k: "index_of p cs = Some k" "i = Suc k"
      by auto
    from Cons.IH [OF k(1)] have IH: "k + length p \<le> length cs" "starts_with p (drop k cs)"
      "\<forall>j<k. \<not> starts_with p (drop j cs)" by auto
    have "\<not> starts_with p (drop j (c # cs))" if "j < i" for j
      using that IH(3) False k(2) by (cases j) auto
    with IH k show ?thesis by auto
  qed
qed

lemma index_of_None:
  "index_of p s = None \<longleftrightarrow> (\<forall>i. \<not> starts_with p (drop i s))"
proof (induction s)
  case Nil
  show ?case by (auto simp: starts_with_def)
next
  case (Cons c cs)
  show ?case
  proof
    assume a: "index_of p (c # cs) = None"
    then have nc: "\<not> starts_with p (c # cs)" "index_of p cs = None"
      by (auto split: if_splits)
    show "\<forall>i. \<not> starts_with p (drop i (c # cs))"
    proof
      fix i show "\<not> starts_with p (drop i (c # cs))"
        using nc Cons.IH by (cases i) auto
    qed
  next
    assume a: "\<forall>i. \<not> starts_with p (drop i (c # cs))"
    have "\<not> starts_with p (c # cs)" using a [rule_format, of 0] by simp
    moreover have "\<forall>i. \<not> starts_with p (drop i cs)"
      using a [rule_format, of "Suc i" for i] by simp
    ultimately show "index_of p (c # cs) = None" using Cons.IH by simp
  qed
qed

lemma split_on_ne [simp]: "split_on c s \<noteq> []"
  by (induction s) (auto split: list.splits)

lemma join_split_on [simp]: "join [c] (split_on c s) = s"
proof (induction s)
  case Nil
  show ?case by simp
next
  case (Cons x xs)
  obtain p ps where p: "split_on c xs = p # ps"
    using split_on_ne by (cases "split_on c xs") auto
  with Cons show ?case by (cases ps) auto
qed

lemma split_on_parts: "q \<in> set (split_on c s) \<Longrightarrow> c \<notin> set q"
  by (induction s arbitrary: q) (auto split: list.splits if_splits)

lemma split_on_no_sep: "c \<notin> set s \<Longrightarrow> split_on c s = [s]"
  by (induction s) auto

lemma split_on_append:
  "c \<notin> set p \<Longrightarrow> split_on c (p @ c # s) = p # split_on c s"
  by (induction p) auto

lemma split_on_join:
  "xs \<noteq> [] \<Longrightarrow> \<forall>x \<in> set xs. c \<notin> set x \<Longrightarrow> split_on c (join [c] xs) = xs"
proof (induction xs rule: induct_list012)
  case (3 x y zs)
  then show ?case by (simp add: split_on_append)
qed (auto simp: split_on_no_sep)

subsection \<open>Sets and maps\<close>

lemma set_foldl_set_add [simp]: "set (foldl set_add acc xs) = set acc \<union> set xs"
  by (induction xs arbitrary: acc) (auto simp: set_add_def)

lemma distinct_foldl_set_add: "distinct acc \<Longrightarrow> distinct (foldl set_add acc xs)"
  by (induction xs arbitrary: acc) (auto simp: set_add_def)

lemma set_uniq [simp]: "set (uniq xs) = set xs"
  by (simp add: uniq_def)

lemma distinct_uniq [simp]: "distinct (uniq xs)"
  by (simp add: uniq_def distinct_foldl_set_add)

lemma foldl_set_add_distinct:
  "distinct xs \<Longrightarrow> set acc \<inter> set xs = {} \<Longrightarrow> foldl set_add acc xs = acc @ xs"
  by (induction xs arbitrary: acc) (auto simp: set_add_def)

lemma uniq_distinct: "distinct xs \<Longrightarrow> uniq xs = xs"
  by (simp add: uniq_def foldl_set_add_distinct)

lemma map_of_map_set [simp]: "map_of (map_set k v m) = (map_of m)(k \<mapsto> v)"
  by (induction m) auto

lemma keys_map_set [simp]: "fst ` set (map_set k v m) = insert k (fst ` set m)"
  by (induction k v m rule: map_set.induct) (simp_all add: insert_commute)

lemma distinct_map_set: "distinct (map fst m) \<Longrightarrow> distinct (map fst (map_set k v m))"
  by (induction k v m rule: map_set.induct) (simp_all, blast)

lemma length_map_set:
  "length (map_set k v m) = (if k \<in> fst ` set m then length m else Suc (length m))"
  by (induction k v m rule: map_set.induct) simp_all

lemma map_of_map_delete: "map_of (map_delete k m) k' = (if k' = k then None else map_of m k')"
  by (induction m) (auto simp: map_delete_def)

lemma find_index_Some:
  "find_index p xs = Some i \<longleftrightarrow> i < length xs \<and> p (xs ! i) \<and> (\<forall>j<i. \<not> p (xs ! j))"
proof (induction xs arbitrary: i)
  case Nil
  show ?case by simp
next
  case (Cons x xs)
  show ?case
  proof (cases i)
    case 0
    then show ?thesis by auto
  next
    case (Suc k)
    have "(\<forall>j<Suc k. \<not> p ((x # xs) ! j)) \<longleftrightarrow> \<not> p x \<and> (\<forall>j<k. \<not> p (xs ! j))"
      by (auto simp: less_Suc_eq_0_disj)
    with Suc Cons.IH [of k] show ?thesis by auto
  qed
qed

lemma find_index_None: "find_index p xs = None \<longleftrightarrow> (\<forall>x \<in> set xs. \<not> p x)"
  by (induction xs) auto

text \<open>Decimal numerals.\<close>

lemma dec_string_digits: "list_all is_digit (dec_string n) \<and> dec_string n \<noteq> []"
proof (induction n rule: dec_string.induct)
  case (1 n)
  have d: "n < 10 \<Longrightarrow> is_digit (48 + n)" "is_digit (48 + n mod 10)" by (auto simp: is_digit_def)
  show ?case using 1 d by (cases "n < 10") (simp_all add: dec_string.simps [of n])
qed

lemma dec_value_snoc: "dec_value (s @ [c]) = 10 * dec_value s + (c - 48)"
  by (simp add: dec_value_def)

lemma dec_value_string [simp]: "dec_value (dec_string n) = n"
proof (induction n rule: dec_string.induct)
  case (1 n)
  show ?case
  proof (cases "n < 10")
    case True
    then show ?thesis by (subst dec_string.simps) (simp add: dec_value_def)
  next
    case False
    with 1 show ?thesis by (subst dec_string.simps) (simp add: dec_value_snoc)
  qed
qed

lemma set_trim: "set (trim s) \<subseteq> set s"
  using set_mono_prefix [OF trim_end_prefix] by (auto simp: trim_def trim_start_def dest: set_dropWhileD)

lemma list_all2_member: "list_all2 P xs ys \<Longrightarrow> y \<in> set ys \<Longrightarrow> \<exists>x\<in>set xs. P x y"
  by (induction rule: list_all2_induct) auto

end
