(* ===== verification/JsNumber.thy ===== *)
theory JsNumber
  imports JsPrelude Complex_Main
begin

text \<open>
  The \<open>Number\<close> type of JavaScript: IEEE 754 binary64.  A finite value other than \<open>-0\<close> is the
  rational it denotes; \<open>dround\<close> rounds a rational to the nearest double, ties to even, with
  overflow to an infinity and underflow to a signed zero.  The arithmetic operations, the
  comparisons, \<open>Math\<close> and \<open>Number\<close> functions and the conversions between numbers and strings
  are those of ECMAScript, restricted to what the modelled code calls.
\<close>

section \<open>Doubles and rounding\<close>

datatype jsnum = NaN | PosInf | NegInf | NegZero | Fin rat

text \<open>The number of binary digits of a natural number.\<close>

fun bits :: "nat \<Rightarrow> nat" where
  "bits n = (if n = 0 then 0 else Suc (bits (n div 2)))"

declare bits.simps [simp del]

text \<open>The exponent of the leading binary digit of a positive rational.\<close>

definition ilog2 :: "rat \<Rightarrow> int" where
  "ilog2 q = (case quotient_of q of (p, d) \<Rightarrow>
     let k = int (bits (nat p)) - int (bits (nat d)) in
     if 2 powi k \<le> q then k else k - 1)"

text \<open>Round to the nearest integer, ties to even.\<close>

definition rne :: "rat \<Rightarrow> int" where
  "rne q = (let f = \<lfloor>q\<rfloor>; d = q - of_int f in
     if d < 1 / 2 then f else if 1 / 2 < d then f + 1 else if even f then f else f + 1)"

definition unit_exp :: "rat \<Rightarrow> int" where
  "unit_exp m = max (ilog2 m - 52) (- 1074)"

text \<open>
  \<open>dround neg q\<close>: the double nearest to \<open>q\<close>; \<open>neg\<close> is the sign of an exact zero.  A rounded
  significand \<open>k\<close> is at most \<open>2 ^ 53\<close>, so \<open>k * 2 powi u\<close> overflows, that is reaches
  \<open>2 ^ 1024\<close>, exactly when \<open>u\<close> exceeds 971 or is 971 with \<open>k\<close> at its bound.
\<close>

definition dround :: "bool \<Rightarrow> rat \<Rightarrow> jsnum" where
  "dround neg q =
     (if q = 0 then (if neg then NegZero else Fin 0)
      else let m = \<bar>q\<bar>; u = unit_exp m; k = rne (m * 2 powi (- u)); v = of_int k * 2 powi u in
        if 971 < u \<or> u = 971 \<and> 2 ^ 53 \<le> k then (if q < 0 then NegInf else PosInf)
        else if k = 0 then (if q < 0 then NegZero else Fin 0)
        else Fin (if q < 0 then - v else v))"

definition num_of_int :: "int \<Rightarrow> jsnum" where
  "num_of_int z = dround False (of_int z)"

definition num_of_nat :: "nat \<Rightarrow> jsnum" where
  "num_of_nat n = num_of_int (int n)"

section \<open>Arithmetic, comparison, Math and Number\<close>

fun is_finite :: "jsnum \<Rightarrow> bool" where
  "is_finite (Fin q) = True"
| "is_finite NegZero = True"
| "is_finite _ = False"

fun num_neg :: "jsnum \<Rightarrow> bool" where
  "num_neg (Fin q) = (q < 0)"
| "num_neg NegZero = True"
| "num_neg NegInf = True"
| "num_neg _ = False"

text \<open>The rational a finite double denotes.\<close>

fun num_val :: "jsnum \<Rightarrow> rat" where
  "num_val (Fin q) = q"
| "num_val _ = 0"

fun num_uminus :: "jsnum \<Rightarrow> jsnum" where
  "num_uminus NaN = NaN"
| "num_uminus PosInf = NegInf"
| "num_uminus NegInf = PosInf"
| "num_uminus NegZero = Fin 0"
| "num_uminus (Fin q) = (if q = 0 then NegZero else Fin (- q))"

fun num_add :: "jsnum \<Rightarrow> jsnum \<Rightarrow> jsnum" where
  "num_add NaN _ = NaN"
| "num_add _ NaN = NaN"
| "num_add PosInf NegInf = NaN"
| "num_add NegInf PosInf = NaN"
| "num_add PosInf _ = PosInf"
| "num_add _ PosInf = PosInf"
| "num_add NegInf _ = NegInf"
| "num_add _ NegInf = NegInf"
| "num_add a b = dround (a = NegZero \<and> b = NegZero) (num_val a + num_val b)"

definition num_sub :: "jsnum \<Rightarrow> jsnum \<Rightarrow> jsnum" where
  "num_sub a b = num_add a (num_uminus b)"

definition num_zero :: "jsnum \<Rightarrow> bool" where
  "num_zero a \<longleftrightarrow> a = NegZero \<or> a = Fin 0"

definition signed_inf :: "bool \<Rightarrow> jsnum" where
  "signed_inf neg = (if neg then NegInf else PosInf)"

definition num_mul :: "jsnum \<Rightarrow> jsnum \<Rightarrow> jsnum" where
  "num_mul a b =
     (let neg = (num_neg a \<noteq> num_neg b) in
      if a = NaN \<or> b = NaN then NaN
      else if is_finite a \<and> is_finite b then dround neg (num_val a * num_val b)
      else if num_zero a \<or> num_zero b then NaN
      else signed_inf neg)"

definition num_div :: "jsnum \<Rightarrow> jsnum \<Rightarrow> jsnum" where
  "num_div a b =
     (let neg = (num_neg a \<noteq> num_neg b) in
      if a = NaN \<or> b = NaN then NaN
      else if is_finite a \<and> is_finite b then
        (if num_zero b then (if num_zero a then NaN else signed_inf neg)
         else dround neg (num_val a / num_val b))
      else if is_finite a then (if neg then NegZero else Fin 0)
      else if is_finite b then signed_inf neg
      else NaN)"

text \<open>Truncation towards zero, and the remainder \<open>a % b\<close>, which has the sign of the dividend.\<close>

definition rtrunc :: "rat \<Rightarrow> int" where
  "rtrunc q = (if q < 0 then \<lceil>q\<rceil> else \<lfloor>q\<rfloor>)"

definition num_mod :: "jsnum \<Rightarrow> jsnum \<Rightarrow> jsnum" where
  "num_mod a b =
     (if \<not> is_finite a \<or> b = NaN \<or> num_zero b then NaN
      else if \<not> is_finite b then a
      else let x = num_val a; y = num_val b in
        dround (num_neg a) (x - y * of_int (rtrunc (x / y))))"

fun num_lt :: "jsnum \<Rightarrow> jsnum \<Rightarrow> bool" where
  "num_lt NaN _ = False"
| "num_lt _ NaN = False"
| "num_lt NegInf b = (b \<noteq> NegInf)"
| "num_lt _ NegInf = False"
| "num_lt PosInf _ = False"
| "num_lt _ PosInf = True"
| "num_lt a b = (num_val a < num_val b)"

text \<open>The operator \<open>===\<close> on numbers: \<open>NaN\<close> differs from itself, \<open>0\<close> and \<open>-0\<close> agree.\<close>

fun num_eq :: "jsnum \<Rightarrow> jsnum \<Rightarrow> bool" where
  "num_eq NaN _ = False"
| "num_eq _ NaN = False"
| "num_eq PosInf b = (b = PosInf)"
| "num_eq NegInf b = (b = NegInf)"
| "num_eq _ PosInf = False"
| "num_eq _ NegInf = False"
| "num_eq a b = (num_val a = num_val b)"

definition num_le :: "jsnum \<Rightarrow> jsnum \<Rightarrow> bool" where
  "num_le a b \<longleftrightarrow> num_lt a b \<or> num_eq a b"

definition num_min :: "jsnum \<Rightarrow> jsnum \<Rightarrow> jsnum" where
  "num_min a b =
     (if a = NaN \<or> b = NaN then NaN
      else if num_zero a \<and> num_zero b then (if num_neg a then a else b)
      else if num_lt b a then b else a)"

definition num_max :: "jsnum \<Rightarrow> jsnum \<Rightarrow> jsnum" where
  "num_max a b =
     (if a = NaN \<or> b = NaN then NaN
      else if num_zero a \<and> num_zero b then (if num_neg a then b else a)
      else if num_lt a b then b else a)"

definition num_abs :: "jsnum \<Rightarrow> jsnum" where
  "num_abs a = (if num_neg a then num_uminus a else a)"

fun num_floor :: "jsnum \<Rightarrow> jsnum" where
  "num_floor (Fin q) = Fin (of_int \<lfloor>q\<rfloor>)"
| "num_floor a = a"

fun num_ceil :: "jsnum \<Rightarrow> jsnum" where
  "num_ceil (Fin q) = (if q < 0 \<and> \<lceil>q\<rceil> = 0 then NegZero else Fin (of_int \<lceil>q\<rceil>))"
| "num_ceil a = a"

fun is_integer :: "jsnum \<Rightarrow> bool" where
  "is_integer (Fin q) = (of_int \<lfloor>q\<rfloor> = q)"
| "is_integer NegZero = True"
| "is_integer _ = False"

definition max_safe :: int where
  "max_safe = 9007199254740991"

definition is_safe_integer :: "jsnum \<Rightarrow> bool" where
  "is_safe_integer a \<longleftrightarrow> is_integer a \<and> \<bar>num_val a\<bar> \<le> of_int max_safe"

section \<open>Decimal numerals\<close>

text \<open>
  The longest prefix of a string that the regular expression
  \<open>(?:\d+(?:\.\d*)?|\.\d+)(?:[eE][+-]?\d+)?\<close> matches, \<open>None\<close> when it does not match.  It is
  also the grammar \<open>StrUnsignedDecimalLiteral\<close> of \<open>Number(string)\<close> without \<open>Infinity\<close>.
\<close>

definition match_exponent :: "jsstr \<Rightarrow> nat" where
  "match_exponent s =
     (case s of [] \<Rightarrow> 0
      | c # r \<Rightarrow>
          if c = ch (CHR ''e'') \<or> c = ch (CHR ''E'') then
            (case r of [] \<Rightarrow> 0
             | d # r' \<Rightarrow>
                 if d = ch (CHR ''+'') \<or> d = ch (CHR ''-'') then
                   (let k = length (takeWhile is_digit r') in if k = 0 then 0 else k + 2)
                 else (let k = length (takeWhile is_digit r) in if k = 0 then 0 else k + 1))
          else 0)"

definition match_mantissa :: "jsstr \<Rightarrow> nat option" where
  "match_mantissa s =
     (let n = length (takeWhile is_digit s); r = drop n s in
      if n > 0 then
        (case r of [] \<Rightarrow> Some n
         | c # r' \<Rightarrow>
             if c = ch (CHR ''.'') then Some (n + 1 + length (takeWhile is_digit r')) else Some n)
      else (case s of [] \<Rightarrow> None
            | c # r' \<Rightarrow>
                if c = ch (CHR ''.'') \<and> takeWhile is_digit r' \<noteq> []
                then Some (1 + length (takeWhile is_digit r')) else None))"

definition match_number :: "jsstr \<Rightarrow> jsstr option" where
  "match_number s =
     (case match_mantissa s of None \<Rightarrow> None
      | Some n \<Rightarrow> Some (take (n + match_exponent (drop n s)) s))"

text \<open>The rational a decimal numeral denotes.\<close>

definition exponent_value :: "jsstr \<Rightarrow> int" where
  "exponent_value s =
     (case s of [] \<Rightarrow> 0
      | c # r \<Rightarrow> (case r of [] \<Rightarrow> 0
         | d # r' \<Rightarrow> if d = ch (CHR ''-'') then - int (dec_value r')
                     else if d = ch (CHR ''+'') then int (dec_value r')
                     else int (dec_value r)))"

definition decimal_value :: "jsstr \<Rightarrow> rat" where
  "decimal_value s =
     (let ip = takeWhile is_digit s; r = drop (length ip) s;
          fp = (case r of [] \<Rightarrow> [] | c # r' \<Rightarrow> if c = ch (CHR ''.'') then takeWhile is_digit r' else []);
          ex = (case r of [] \<Rightarrow> [] | c # r' \<Rightarrow> if c = ch (CHR ''.'') then drop (length fp) r' else r)
      in of_nat (dec_value (ip @ fp)) * 10 powi (exponent_value ex - int (length fp)))"

text \<open>\<open>Number(s)\<close> for a string.\<close>

definition radix_value :: "nat \<Rightarrow> jsstr \<Rightarrow> jsnum" where
  "radix_value b s =
     (if s \<noteq> [] \<and> list_all (\<lambda>c. is_hex c \<and> hex_digit c < b) s
      then dround False (of_nat (foldl (\<lambda>v c. b * v + hex_digit c) 0 s)) else NaN)"

definition unsigned_number :: "jsstr \<Rightarrow> bool \<Rightarrow> jsnum" where
  "unsigned_number s neg =
     (if s = js ''Infinity'' then signed_inf neg
      else if match_number s = Some s
      then dround neg (if neg then - decimal_value s else decimal_value s) else NaN)"

definition number_of_string :: "jsstr \<Rightarrow> jsnum" where
  "number_of_string str =
     (let s = trim str in
      if s = [] then Fin 0
      else if starts_with (js ''0x'') s \<or> starts_with (js ''0X'') s then radix_value 16 (drop 2 s)
      else if starts_with (js ''0o'') s \<or> starts_with (js ''0O'') s then radix_value 8 (drop 2 s)
      else if starts_with (js ''0b'') s \<or> starts_with (js ''0B'') s then radix_value 2 (drop 2 s)
      else if starts_with (js ''+'') s then unsigned_number (drop 1 s) False
      else if starts_with (js ''-'') s then unsigned_number (drop 1 s) True
      else unsigned_number s False)"

section \<open>Numbers as strings\<close>

definition ilog10 :: "rat \<Rightarrow> int" where
  "ilog10 q = (case quotient_of q of (p, d) \<Rightarrow>
     let k = int (length (dec_string (nat p))) - int (length (dec_string (nat d))) in
     if 10 powi k \<le> q then k else k - 1)"

text \<open>
  The digits of \<open>Number::toString\<close>: the least \<open>k\<close> for which some \<open>n\<close> of \<open>k\<close> digits, scaled by
  a power of ten, rounds to the value, and the closest such \<open>n\<close>.  The result is the pair of the
  digits and the decimal exponent of the first one.  Seventeen digits always suffice for
  binary64, so the search never reaches its default.
\<close>

definition digits_at :: "rat \<Rightarrow> int \<Rightarrow> nat \<Rightarrow> (nat \<times> int) option" where
  "digits_at v x k =
     (let scale = 10 powi (x - int k + 1); t = v / scale; lo = nat \<lfloor>t\<rfloor>; hi = lo + 1;
          ok = (\<lambda>n. dround False (of_nat n * scale) = Fin v);
          dl = t - of_nat lo; dh = of_nat hi - t;
          fix_up = (\<lambda>n. if n = 10 ^ k then (10 ^ (k - 1), x + 1) else (n, x))
      in if ok lo \<and> ok hi then
           Some (fix_up (if dl < dh \<or> dl = dh \<and> even lo then lo else hi))
         else if ok lo then Some (fix_up lo) else if ok hi then Some (fix_up hi) else None)"

fun shortest_from :: "rat \<Rightarrow> int \<Rightarrow> nat list \<Rightarrow> nat \<times> int" where
  "shortest_from v x [] = (nat \<lfloor>v / 10 powi (x - 16)\<rfloor>, x)"
| "shortest_from v x (k # ks) =
     (case digits_at v x k of Some r \<Rightarrow> r | None \<Rightarrow> shortest_from v x ks)"

definition shortest_digits :: "rat \<Rightarrow> jsstr \<times> int" where
  "shortest_digits v =
     (case shortest_from v (ilog10 v) [1..<18] of (n, x) \<Rightarrow> (dec_string n, x))"

definition int_string :: "int \<Rightarrow> jsstr" where
  "int_string z = (if z < 0 then js ''-'' @ dec_string (nat (- z)) else dec_string (nat z))"

definition exp_notation :: "jsstr \<Rightarrow> int \<Rightarrow> jsstr" where
  "exp_notation ds x =
     (if length ds = 1 then ds else take 1 ds @ js ''.'' @ drop 1 ds)
     @ js ''e'' @ (if x < 0 then js ''-'' else js ''+'') @ dec_string (nat \<bar>x\<bar>)"

definition positive_string :: "rat \<Rightarrow> jsstr" where
  "positive_string v =
     (case shortest_digits v of (ds, x) \<Rightarrow>
       let k = int (length ds); pos = x + 1 in
       if k \<le> pos \<and> pos \<le> 21 then ds @ replicate (nat (pos - k)) 48
       else if 0 < pos \<and> pos \<le> 21 then take (nat pos) ds @ js ''.'' @ drop (nat pos) ds
       else if - 6 < pos \<and> pos \<le> 0 then js ''0.'' @ replicate (nat (- pos)) 48 @ ds
       else exp_notation ds x)"

text \<open>\<open>String(x)\<close> and \<open>x.toExponential()\<close> for a number.\<close>

fun num_to_string :: "jsnum \<Rightarrow> jsstr" where
  "num_to_string NaN = js ''NaN''"
| "num_to_string PosInf = js ''Infinity''"
| "num_to_string NegInf = js ''-Infinity''"
| "num_to_string NegZero = js ''0''"
| "num_to_string (Fin q) =
     (if q = 0 then js ''0'' else if q < 0 then js ''-'' @ positive_string (- q) else positive_string q)"

text \<open>The mantissa and the exponent of \<open>x.toExponential()\<close> for a finite number.\<close>

definition exponential_parts :: "rat \<Rightarrow> jsstr \<times> int" where
  "exponential_parts q =
     (if q = 0 then (js ''0'', 0)
      else case shortest_digits \<bar>q\<bar> of (ds, x) \<Rightarrow>
        ((if q < 0 then js ''-'' else [])
         @ (if length ds = 1 then ds else take 1 ds @ js ''.'' @ drop 1 ds), x))"

section \<open>Lemmas: rounding is exact on doubles\<close>

lemma bits_bounds: "0 < n \<Longrightarrow> 2 ^ (bits n - 1) \<le> n \<and> n < 2 ^ bits n \<and> 0 < bits n"
proof (induction n rule: bits.induct)
  case (1 n)
  show ?case
  proof (cases "n div 2 = 0")
    case True
    with "1.prems" have "n = 1" by simp
    then show ?thesis by (simp add: bits.simps)
  next
    case False
    with "1.IH" "1.prems" have IH: "2 ^ (bits (n div 2) - 1) \<le> n div 2"
      "n div 2 < 2 ^ bits (n div 2)" "0 < bits (n div 2)" by auto
    have b: "bits n = Suc (bits (n div 2))"
      using "1.prems" by (simp add: bits.simps [of n])
    have "(2::nat) ^ bits (n div 2) = 2 * 2 ^ (bits (n div 2) - 1)"
      using IH(3) by (cases "bits (n div 2)") auto
    then have "2 ^ bits (n div 2) \<le> n" using IH(1) by linarith
    moreover have "n < 2 * 2 ^ bits (n div 2)" using IH(2) by linarith
    ultimately show ?thesis by (simp add: b)
  qed
qed

lemma powi2_mono: "a \<le> b \<Longrightarrow> (2::rat) powi a \<le> 2 powi b"
  by (rule power_int_increasing) simp_all

lemma powi2_pos [simp]: "0 < (2::rat) powi a"
  by (rule zero_less_power_int) simp

lemma powi2_nonzero [simp]: "(2::rat) powi a \<noteq> 0"
  using powi2_pos [of a] by linarith

lemma powi2_strict_mono_iff: "(2::rat) powi a < 2 powi b \<longleftrightarrow> a < b"
proof
  assume "a < b"
  then show "(2::rat) powi a < 2 powi b" by (intro power_int_strict_increasing) simp_all
next
  assume "(2::rat) powi a < 2 powi b"
  then show "a < b" using powi2_mono [of b a] by force
qed

lemma powi2_add: "(2::rat) powi (a + b) = 2 powi a * 2 powi b"
  by (simp add: power_int_add)

lemma powi2_nat: "(2::rat) powi (int n) = 2 ^ n"
  by simp

lemma ilog2_bounds:
  assumes "0 < q"
  shows "2 powi (ilog2 q) \<le> q \<and> q < 2 powi (ilog2 q + 1)"
proof -
  obtain p d where pd: "quotient_of q = (p, d)" by (cases "quotient_of q")
  then have d: "0 < d" and q: "q = of_int p / of_int d"
    by (auto simp: quotient_of_denom_pos quotient_of_div)
  with assms have p: "0 < p"
    by (simp add: zero_less_divide_iff)
  define a where "a = bits (nat p)"
  define b where "b = bits (nat d)"
  from bits_bounds [of "nat p"] p have pa: "2 ^ (a - 1) \<le> nat p" "nat p < 2 ^ a" "0 < a"
    by (auto simp: a_def)
  from bits_bounds [of "nat d"] d have db: "2 ^ (b - 1) \<le> nat d" "nat d < 2 ^ b" "0 < b"
    by (auto simp: b_def)
  have lift: "\<And>m n. (m::nat) \<le> n \<Longrightarrow> (of_nat m :: rat) \<le> of_nat n"
    "\<And>m n. (m::nat) < n \<Longrightarrow> (of_nat m :: rat) < of_nat n" by auto
  have P: "(2::rat) powi (int a - 1) \<le> of_int p" "(of_int p :: rat) < 2 powi (int a)"
    using lift(1) [OF pa(1)] lift(2) [OF pa(2)] p pa(3) powi2_nat [of "a - 1"]
    by (simp_all add: of_nat_nat of_nat_diff)
  have D: "(2::rat) powi (int b - 1) \<le> of_int d" "(of_int d :: rat) < 2 powi (int b)"
    using lift(1) [OF db(1)] lift(2) [OF db(2)] d db(3) powi2_nat [of "b - 1"]
    by (simp_all add: of_nat_nat of_nat_diff)
  define k where "k = int a - int b"
  have dpos: "(0::rat) < of_int d" using d by simp
  have up: "q < 2 powi (k + 1)"
  proof -
    have "(of_int p :: rat) < 2 powi (int a)" by (rule P(2))
    also have "\<dots> = 2 powi (k + 1) * 2 powi (int b - 1)"
      by (simp add: k_def flip: powi2_add)
    also have "\<dots> \<le> 2 powi (k + 1) * of_int d"
      using D(1) by (simp add: mult_left_mono)
    finally show ?thesis using dpos by (simp add: q pos_divide_less_eq)
  qed
  have lo: "2 powi (k - 1) \<le> q"
  proof -
    have "(2::rat) powi (k - 1) * of_int d \<le> 2 powi (k - 1) * 2 powi (int b)"
      using D(2) by (simp add: mult_left_mono)
    also have "\<dots> = 2 powi (int a - 1)"
      by (simp only: powi2_add [symmetric]) (simp add: k_def)
    also have "\<dots> \<le> of_int p" by (rule P(1))
    finally show ?thesis using dpos by (simp add: q pos_le_divide_eq)
  qed
  have "ilog2 q = (if 2 powi k \<le> q then k else k - 1)"
    by (simp add: ilog2_def pd k_def a_def b_def Let_def)
  with up lo show ?thesis by (auto split: if_splits)
qed

lemma ilog2_lt: "0 < q \<Longrightarrow> q < 2 powi x \<Longrightarrow> ilog2 q < x"
  using ilog2_bounds [of q] powi2_mono [of x "ilog2 q"] by force

lemma ilog2_ge: "0 < q \<Longrightarrow> 2 powi x \<le> q \<Longrightarrow> x \<le> ilog2 q"
  using ilog2_bounds [of q] powi2_mono [of "ilog2 q + 1" x] by force

lemma rne_of_int [simp]: "rne (of_int z) = z"
  by (simp add: rne_def)

lemma rne_ge: "of_int z \<le> q \<Longrightarrow> z \<le> rne q"
proof -
  assume "of_int z \<le> q"
  then have "z \<le> \<lfloor>q\<rfloor>" by (simp add: le_floor_iff)
  moreover have "\<lfloor>q\<rfloor> \<le> rne q" by (simp add: rne_def Let_def)
  ultimately show ?thesis by linarith
qed

text \<open>
  A value with a significand of at most 53 bits and an exponent in the range of binary64 is a
  double: rounding leaves it as it is.
\<close>

lemma dround_representable:
  assumes q: "q = of_int k * 2 powi x" and k: "k \<noteq> 0" "\<bar>k\<bar> < 2 ^ 53" and x: "- 1074 \<le> x" "x \<le> 971"
  shows "dround neg q = Fin q"
proof -
  define m where "m = \<bar>q\<bar>"
  have m: "m = of_int \<bar>k\<bar> * 2 powi x" by (simp add: m_def q abs_mult)
  have q0: "q \<noteq> 0" using k by (simp add: q)
  then have m0: "0 < m" by (simp add: m_def)
  have k53: "(of_int \<bar>k\<bar> :: rat) < 2 ^ 53"
    using k(2) by (metis of_int_less_iff of_int_numeral of_int_power)
  have "m < 2 ^ 53 * 2 powi x" using k53 by (simp add: m)
  also have "\<dots> = 2 powi (53 + x)" by (simp add: power_int_add)
  finally have "ilog2 m < 53 + x" by (rule ilog2_lt [OF m0])
  then have u: "unit_exp m \<le> x" "- 1074 \<le> unit_exp m"
    using x by (auto simp: unit_exp_def)
  define n where "n = nat (x - unit_exp m)"
  have "m * 2 powi (- unit_exp m) = of_int \<bar>k\<bar> * 2 powi (x - unit_exp m)"
    by (simp add: m flip: power_int_add)
  also have "\<dots> = of_int (\<bar>k\<bar> * 2 ^ n)"
    using u(1) by (simp add: n_def power_int_def)
  finally have r: "rne (m * 2 powi (- unit_exp m)) = \<bar>k\<bar> * 2 ^ n" by (simp only: rne_of_int)
  have v: "of_int (\<bar>k\<bar> * 2 ^ n) * 2 powi (unit_exp m) = m"
  proof -
    have "(2::rat) ^ n * 2 powi (unit_exp m) = 2 powi x"
      using u(1) by (simp only: powi2_nat [symmetric] powi2_add [symmetric]) (simp add: n_def)
    then show ?thesis by (simp add: m mult.assoc)
  qed
  have pos: "0 < \<bar>k\<bar> * 2 ^ n" using k by simp
  have big: "\<not> (971 < unit_exp m \<or> unit_exp m = 971 \<and> 2 ^ 53 \<le> \<bar>k\<bar> * 2 ^ n)"
    using u(1) x(2) k(2) by (auto simp: n_def)
  have "dround neg q = Fin (if q < 0 then - m else m)"
    unfolding dround_def Let_def m_def [symmetric] r v
    using q0 pos big k(1) by (simp only: if_False) simp
  then show ?thesis by (simp add: m_def)
qed

lemma dround_of_int:
  assumes "\<bar>z\<bar> \<le> max_safe"
  shows "dround neg (of_int z) = (if z = 0 then (if neg then NegZero else Fin 0) else Fin (of_int z))"
proof (cases "z = 0")
  case True
  then show ?thesis by (simp add: dround_def)
next
  case False
  from assms have "\<bar>z\<bar> < 2 ^ 53" by (simp add: max_safe_def)
  with False show ?thesis
    using dround_representable [of "of_int z" z 0 neg] by simp
qed

text \<open>A rational of magnitude at least \<open>2 ^ 53\<close> never rounds to a safe integer.\<close>

lemma dround_unsafe:
  assumes "2 ^ 53 \<le> \<bar>q\<bar>"
  shows "\<not> is_safe_integer (dround neg q)"
proof -
  define m where "m = \<bar>q\<bar>"
  have m0: "0 < m" and mq: "2 powi 53 \<le> m" using assms by (auto simp: m_def)
  have e: "53 \<le> ilog2 m" by (rule ilog2_ge [OF m0 mq])
  then have u: "unit_exp m = ilog2 m - 52" by (simp add: unit_exp_def)
  define r where "r = rne (m * 2 powi (- unit_exp m))"
  have "2 powi 52 \<le> m * 2 powi (- unit_exp m)"
  proof -
    have "(2::rat) powi 52 = 2 powi (ilog2 m) * 2 powi (- unit_exp m)"
      by (simp add: u flip: powi2_add)
    also have "\<dots> \<le> m * 2 powi (- unit_exp m)"
      using ilog2_bounds [OF m0] by (intro mult_right_mono) (auto simp: less_imp_le)
    finally show ?thesis .
  qed
  then have r: "2 ^ 52 \<le> r" unfolding r_def by (intro rne_ge) simp
  have "(2::rat) ^ 53 = of_int (2 ^ 52) * 2 powi 1" by simp
  also have "\<dots> \<le> of_int r * 2 powi (unit_exp m)"
    using r powi2_mono [of 1 "unit_exp m"] e u
    by (intro mult_mono) (simp_all only: of_int_le_iff, auto)
  finally have "(2::rat) ^ 53 \<le> of_int r * 2 powi (unit_exp m)" .
  moreover have "q \<noteq> 0" "r \<noteq> 0" using assms r by auto
  ultimately show ?thesis
    by (auto simp: dround_def Let_def m_def [symmetric] r_def [symmetric] is_safe_integer_def max_safe_def)
qed

end
