(* ===== verification/BillingTypes.thy ===== *)
theory BillingTypes
  imports JsPrelude JsNumber
begin

text \<open>
  The billing expression language of \<open>billing-expression/types.ts\<close>: its variables and functions,
  the syntax tree with source spans, diagnostics, and the bounded postorder traversal that
  the checker and the rule collector share.  The traversal is the source's loop over
  an explicit stack; \<open>visit_postorder\<close> shows that within its depth bound it is the fold of the
  visitor over the recursive postorder.
\<close>

section \<open>Vocabulary\<close>

definition TOKEN_VARIABLES :: "jsstr list" where
  "TOKEN_VARIABLES =
     [js ''p'', js ''c'', js ''len'', js ''cr'', js ''cc'', js ''cc1h'', js ''img'', js ''img_cr'',
      js ''img_o'', js ''ai'', js ''ao'']"

definition BILLING_VARIABLES :: "jsstr list" where
  "BILLING_VARIABLES = TOKEN_VARIABLES @ [js ''image_count'']"

definition TIME_FUNCTIONS :: "jsstr list" where
  "TIME_FUNCTIONS = [js ''hour'', js ''minute'', js ''weekday'', js ''month'', js ''day'']"

definition BILLING_FUNCTIONS :: "(jsstr \<times> nat) list" where
  "BILLING_FUNCTIONS =
     [(js ''tier'', 2), (js ''fixed'', 1), (js ''param'', 1), (js ''header'', 1), (js ''has'', 2),
      (js ''u'', 1), (js ''hour'', 1), (js ''minute'', 1), (js ''weekday'', 1), (js ''month'', 1),
      (js ''day'', 1), (js ''min'', 2), (js ''max'', 2), (js ''abs'', 1), (js ''ceil'', 1),
      (js ''floor'', 1)]"

section \<open>Syntax trees and diagnostics\<close>

datatype literal = LStr jsstr | LNum jsnum | LBool bool | LNull

text \<open>
  The tagged union \<open>ExpressionNode\<close>; every node carries its span.  The optional flag \<open>integer\<close>
  of a literal is only tested for truth, so a missing flag is \<open>False\<close>.
\<close>

datatype node =
    Literal literal bool (n_start: nat) (n_end: nat)
  | Variable jsstr (n_start: nat) (n_end: nat)
  | Call jsstr "node list" (n_start: nat) (n_end: nat)
  | Unary jsstr node (n_start: nat) (n_end: nat)
  | Binary jsstr node node (n_start: nat) (n_end: nat)
  | Conditional node node node (n_start: nat) (n_end: nat)

datatype diagnostic_code = Syntax | Unsupported | MissingContext | TypeCode | NumberCode | Limit

record diagnostic =
  code :: diagnostic_code
  detail :: jsstr
  position :: "nat option"

definition diag :: "diagnostic_code \<Rightarrow> jsstr \<Rightarrow> diagnostic" where
  "diag c d = \<lparr>code = c, detail = d, position = None\<rparr>"

definition diag_at :: "diagnostic_code \<Rightarrow> jsstr \<Rightarrow> nat \<Rightarrow> diagnostic" where
  "diag_at c d p = \<lparr>code = c, detail = d, position = Some p\<rparr>"

datatype failure_status = FUnsupported | FInvalid | FMissingContext

record expression_failure =
  f_status :: failure_status
  f_diagnostic :: diagnostic

definition expressionFailure :: "diagnostic \<Rightarrow> expression_failure" where
  "expressionFailure d =
     \<lparr>f_status =
        (if code d = Unsupported \<or> code d = Limit then FUnsupported
         else if code d = MissingContext then FMissingContext
         else FInvalid),
      f_diagnostic = d\<rparr>"

section \<open>Traversal\<close>

fun children :: "node \<Rightarrow> node list" where
  "children (Call f args s e) = args"
| "children (Unary op x s e) = [x]"
| "children (Binary op l r s e) = [l, r]"
| "children (Conditional c y n s e) = [c, y, n]"
| "children _ = []"

fun node_count :: "node \<Rightarrow> nat" where
  "node_count (Call f args s e) = Suc (sum_list (map node_count args))"
| "node_count (Unary op x s e) = Suc (node_count x)"
| "node_count (Binary op l r s e) = Suc (node_count l + node_count r)"
| "node_count (Conditional c y n s e) = Suc (node_count c + node_count y + node_count n)"
| "node_count _ = 1"

definition entry_weight :: "node \<times> bool \<times> nat \<Rightarrow> nat" where
  "entry_weight x = (case x of (n, visited, d) \<Rightarrow> if visited then 1 else 2 * node_count n)"

lemma node_count_children: "node_count n = Suc (sum_list (map node_count (children n)))"
  by (cases n) auto

text \<open>
  The loop of \<open>visitExpression\<close>.  The head of the list is the top of the stack, so the children
  pushed in reverse come off in source order.  The visitor threads a state and may throw.
\<close>

function visit_loop ::
  "(node \<Rightarrow> 's \<Rightarrow> diagnostic + 's) \<Rightarrow> (node \<times> bool \<times> nat) list \<Rightarrow> 's \<Rightarrow> diagnostic + 's" where
  "visit_loop f [] s = Inr s"
| "visit_loop f ((n, visited, d) # stack) s =
     (if 256 < d then Inl (diag Limit (js ''expression depth''))
      else if visited then and_then (f n s) (\<lambda>s'. visit_loop f stack s')
      else visit_loop f (map (\<lambda>c. (c, False, Suc d)) (children n) @ (n, True, d) # stack) s)"
  by pat_completeness auto
termination
proof (relation "measure (\<lambda>(f, stack, s). sum_list (map entry_weight stack))", goal_cases)
  case 1
  show ?case by simp
next
  case 2
  then show ?case by (simp add: entry_weight_def)
next
  case (3 f n visited d stack s)
  have "sum_list (map (entry_weight \<circ> (\<lambda>c. (c, False, Suc d))) (children n))
      = 2 * sum_list (map node_count (children n))"
    by (induction "children n" rule: rev_induct) (simp_all add: entry_weight_def comp_def sum_list_const_mult)
  with 3 show ?case
    using node_count_children [of n] by (simp add: entry_weight_def)
qed

definition visitExpression ::
  "node \<Rightarrow> (node \<Rightarrow> 's \<Rightarrow> diagnostic + 's) \<Rightarrow> 's \<Rightarrow> diagnostic + 's" where
  "visitExpression n f s = visit_loop f [(n, False, 0)] s"

definition expressionDependencies :: "node \<Rightarrow> diagnostic + jsstr list \<times> jsstr list" where
  "expressionDependencies n =
     visitExpression n
       (\<lambda>part (vars, funs).
          (case part of
             Variable name s e \<Rightarrow> Inr (set_add vars name, funs)
           | Call name args s e \<Rightarrow> Inr (vars, set_add funs name)
           | _ \<Rightarrow> Inr (vars, funs)))
       ([], [])"

section \<open>The recursive reference\<close>

fun postorder :: "node \<Rightarrow> node list" where
  "postorder (Call f args s e) = concat (map postorder args) @ [Call f args s e]"
| "postorder (Unary op x s e) = postorder x @ [Unary op x s e]"
| "postorder (Binary op l r s e) = postorder l @ postorder r @ [Binary op l r s e]"
| "postorder (Conditional c y n s e) =
     postorder c @ postorder y @ postorder n @ [Conditional c y n s e]"
| "postorder x = [x]"

fun height :: "node \<Rightarrow> nat" where
  "height (Call f args s e) = (if args = [] then 0 else Suc (Max (set (map height args))))"
| "height (Unary op x s e) = Suc (height x)"
| "height (Binary op l r s e) = Suc (max (height l) (height r))"
| "height (Conditional c y n s e) = Suc (max (height c) (max (height y) (height n)))"
| "height _ = 0"

fun foldM :: "('a \<Rightarrow> 's \<Rightarrow> 'e + 's) \<Rightarrow> 'a list \<Rightarrow> 's \<Rightarrow> 'e + 's" where
  "foldM f [] s = Inr s"
| "foldM f (x # xs) s = and_then (f x s) (\<lambda>s'. foldM f xs s')"

declare visit_loop.simps(2) [simp del]

lemma foldM_append: "foldM f (xs @ ys) s = and_then (foldM f xs s) (\<lambda>s'. foldM f ys s')"
proof (induction xs arbitrary: s)
  case (Cons x xs)
  then show ?case by (cases "f x s") simp_all
qed simp

lemma postorder_children: "postorder n = concat (map postorder (children n)) @ [n]"
  by (cases n) auto

lemma height_child: "c \<in> set (children n) \<Longrightarrow> height c < height n"
  by (cases n) (auto simp: less_Suc_eq_le)

lemma height_attained:
  assumes "height n \<noteq> 0"
  obtains c where "c \<in> set (children n)" "height n = Suc (height c)"
proof -
  have "\<exists>c \<in> set (children n). height n = Suc (height c)"
  proof (cases n)
    case (Call fn args s e)
    with assms have "args \<noteq> []" by auto
    then have "Max (height ` set args) \<in> height ` set args"
      by (intro Max_in) auto
    then obtain c where "c \<in> set args" "Max (height ` set args) = height c"
      by (elim imageE)
    with Call \<open>args \<noteq> []\<close> show ?thesis by auto
  next
    case (Conditional c y x s e)
    then show ?thesis by (simp add: max_def)
  qed (use assms in \<open>auto simp: max_def\<close>)
  with that show ?thesis by blast
qed

lemma self_in_postorder [simp]: "n \<in> set (postorder n)"
  by (cases n) auto

lemma node_count_child: "c \<in> set (children n) \<Longrightarrow> node_count c < node_count n"
  by (cases n) (auto simp: less_Suc_eq_le member_le_sum_list)

text \<open>Induction over a tree with the hypothesis for every child.\<close>

lemma node_induct: "(\<And>n. (\<And>c. c \<in> set (children n) \<Longrightarrow> P c) \<Longrightarrow> P n) \<Longrightarrow> P n"
  by (induction "node_count n" arbitrary: n rule: less_induct) (blast intro: node_count_child)

lemma visit_loop_postorder:
  "d + height n \<le> 256 \<Longrightarrow>
   visit_loop f ((n, False, d) # stack) s =
     and_then (foldM f (postorder n) s) (\<lambda>s'. visit_loop f stack s')"
proof (induction n arbitrary: d stack s rule: node_induct)
  case (1 n)
  have *: "visit_loop f (map (\<lambda>c. (c, False, Suc d)) cs @ stk) s =
      and_then (foldM f (concat (map postorder cs)) s) (\<lambda>s'. visit_loop f stk s')"
    if "set cs \<subseteq> set (children n)" for cs stk s
    using that
  proof (induction cs arbitrary: s)
    case Nil
    show ?case by simp
  next
    case (Cons c cs)
    then have "Suc d + height c \<le> 256"
      using "1.prems" height_child [of c n] by auto
    with Cons "1.IH" [of c "Suc d"] show ?case
      by (cases "foldM f (postorder c) s") (simp_all add: foldM_append)
  qed
  from "1.prems" have d: "\<not> 256 < d" by simp
  then have "visit_loop f ((n, False, d) # stack) s
      = visit_loop f (map (\<lambda>c. (c, False, Suc d)) (children n) @ (n, True, d) # stack) s"
    by (simp add: visit_loop.simps(2) [of f n False])
  also have "\<dots> = and_then (foldM f (concat (map postorder (children n))) s)
      (\<lambda>s'. visit_loop f ((n, True, d) # stack) s')"
    by (rule * [OF subset_refl])
  also have "\<dots> = and_then (foldM f (postorder n) s) (\<lambda>s'. visit_loop f stack s')"
    using d by (cases "foldM f (concat (map postorder (children n))) s")
      (simp_all add: postorder_children [of n] foldM_append visit_loop.simps(2) and_then_assoc)
  finally show ?case .
qed

text \<open>A tree deeper than the bound is never traversed to the end.\<close>

lemma visit_loop_too_deep:
  "256 < d + height n \<Longrightarrow> \<exists>e. visit_loop f ((n, False, d) # stack) s = Inl e"
proof (induction n arbitrary: d stack s rule: node_induct)
  case (1 n)
  show ?case
  proof (cases "256 < d")
    case False
    with "1.prems" have "height n \<noteq> 0" by simp
    then obtain c where c: "c \<in> set (children n)" "height n = Suc (height c)"
      by (rule height_attained)
    then obtain pre post where ch: "children n = pre @ c # post"
      by (meson split_list)
    have *: "\<exists>e. visit_loop f (map (\<lambda>c. (c, False, Suc d)) (xs @ c # post) @ stk) s = Inl e"
      if "set xs \<subseteq> set (children n)" for xs stk s
      using that
    proof (induction xs arbitrary: s)
      case Nil
      show ?case using "1.IH" [OF c(1), of "Suc d"] "1.prems" c(2) by simp
    next
      case (Cons x xs)
      show ?case
      proof (cases "256 < Suc d + height x")
        case True
        then show ?thesis using "1.IH" [of x "Suc d"] Cons.prems by simp
      next
        case False
        then show ?thesis
          using Cons by (cases "foldM f (postorder x) s")
            (simp_all add: visit_loop_postorder)
      qed
    qed
    have "set pre \<subseteq> set (children n)" by (auto simp: ch)
    from * [OF this, of "(n, True, d) # stack" s] False show ?thesis
      by (simp add: ch visit_loop.simps(2) [of f n False])
  qed (simp add: visit_loop.simps(2))
qed

lemma visit_postorder:
  "height n \<le> 256 \<Longrightarrow> visitExpression n f s = foldM f (postorder n) s"
  unfolding visitExpression_def
  by (subst visit_loop_postorder) (simp_all, cases "foldM f (postorder n) s", simp_all)

lemma visit_Inr_height: "visitExpression n f s = Inr r \<Longrightarrow> height n \<le> 256"
  unfolding visitExpression_def using visit_loop_too_deep [of 0 n f "[]" s] by fastforce

lemma visit_Inr: "visitExpression n f s = Inr r \<longleftrightarrow> height n \<le> 256 \<and> foldM f (postorder n) s = Inr r"
  using visit_Inr_height visit_postorder by metis

end
