(* ===== verification/BillingLexer.thy ===== *)
theory BillingLexer
  imports BillingTypes
begin

text \<open>
  The scanner of \<open>BillingParser\<close> in \<open>billing-expression/parser.ts\<close>: the method \<open>next\<close>, one
  definition per branch, with its token budget, and the facts the parser's proofs use: a
  successful call spends one unit of the budget, stays within the source, and returns the
  exact slice of the source it consumed.
\<close>

section \<open>Lexemes\<close>

datatype lex_kind = KNumber | KString | KSymbol | KName | KEnd

record lexeme =
  l_text :: jsstr
  l_start :: nat
  l_end :: nat
  l_value :: "literal option"
  l_integer :: bool
  l_kind :: lex_kind

type_synonym scan_result = "diagnostic + lexeme \<times> nat"

section \<open>The branches of next\<close>

definition lex_number :: "jsstr \<Rightarrow> nat \<Rightarrow> scan_result" where
  "lex_number txt start =
     (let value = number_of_string txt;
          integer = list_all (\<lambda>c. c \<notin> {ch (CHR ''.''), ch (CHR ''e''), ch (CHR ''E'')}) txt;
          cursor = start + length txt in
      if \<not> is_finite value then Inl (diag_at NumberCode txt start)
      else if integer \<and> \<not> is_safe_integer value
      then Inl (diag_at Unsupported (js ''integer precision'') start)
      else Inr (\<lparr>l_text = txt, l_start = start, l_end = cursor, l_value = Some (LNum value),
                 l_integer = integer, l_kind = KNumber\<rparr>, cursor))"

text \<open>The table \<open>escapes\<close>; \<open>None\<close> stands for reading past the end of the source.\<close>

definition escapes :: "(nat \<times> nat) list" where
  "escapes = [(ch (CHR ''n''), 10), (ch (CHR ''r''), 13), (ch (CHR ''t''), 9), (ch (CHR ''b''), 8),
     (ch (CHR ''f''), 12), (ch (CHR ''v''), 11), (92, 92), (34, 34), (39, 39), (47, 47)]"

function string_loop :: "jsstr \<Rightarrow> nat \<Rightarrow> nat \<Rightarrow> nat \<Rightarrow> jsstr \<Rightarrow> diagnostic + jsstr \<times> nat" where
  "string_loop source quote start cursor value =
     (if length source \<le> cursor then Inl (diag_at Syntax (js ''unterminated string'') start)
      else let char = source ! cursor; c1 = cursor + 1 in
        if char = quote then Inr (value, c1)
        else if char = 10 \<or> char = 13 then Inl (diag_at Syntax (js ''unterminated string'') start)
        else if char \<noteq> 92 then string_loop source quote start c1 (value @ [char])
        else
          let escaped = (if c1 < length source then Some (source ! c1) else None); c2 = c1 + 1 in
          (case Option.bind escaped (map_of escapes) of
             Some c \<Rightarrow> string_loop source quote start c2 (value @ [c])
           | None \<Rightarrow>
               if escaped = Some (ch (CHR ''u'')) \<or> escaped = Some (ch (CHR ''x'')) then
                 (let n = (if escaped = Some (ch (CHR ''u'')) then 4 else 2);
                      hex = slice c2 (c2 + n) source in
                  if length hex \<noteq> n \<or> \<not> list_all is_hex hex
                  then Inl (diag_at Syntax (js ''unterminated string'') start)
                  else string_loop source quote start (c2 + n) (value @ [hex_value hex]))
               else Inl (diag_at Unsupported (js ''string escape'') (c2 - 1))))"
  by pat_completeness auto
termination
  by (relation "measure (\<lambda>(source, quote, start, cursor, value). length source - cursor)") auto

declare string_loop.simps [simp del]

definition lex_string :: "jsstr \<Rightarrow> nat \<Rightarrow> scan_result" where
  "lex_string source start =
     and_then (string_loop source (source ! start) start (start + 1) [])
       (\<lambda>(value, cursor).
          Inr (\<lparr>l_text = slice start cursor source, l_start = start, l_end = cursor,
                l_value = Some (LStr value), l_integer = False, l_kind = KString\<rparr>, cursor))"

definition is_name_start :: "nat \<Rightarrow> bool" where
  "is_name_start c \<longleftrightarrow> is_upper c \<or> is_lower c \<or> c = 95"

definition plain_lexeme :: "lex_kind \<Rightarrow> jsstr \<Rightarrow> nat \<Rightarrow> lexeme" where
  "plain_lexeme k txt start =
     \<lparr>l_text = txt, l_start = start, l_end = start + length txt, l_value = None,
      l_integer = False, l_kind = k\<rparr>"

definition match_operator :: "jsstr \<Rightarrow> jsstr option" where
  "match_operator rest =
     (if take 2 rest \<in> set [js ''&&'', js ''||'', js ''=='', js ''!='', js ''<='', js ''>='']
      then Some (take 2 rest)
      else if rest \<noteq> [] \<and> hd rest \<in> set (js ''+-*/%<>()!?:,'')
      then Some (take 1 rest)
      else None)"

text \<open>The method \<open>next\<close>: the lexeme, the new cursor and the new count.\<close>

definition next_lexeme :: "jsstr \<Rightarrow> nat \<Rightarrow> nat \<Rightarrow> diagnostic + lexeme \<times> nat \<times> nat" where
  "next_lexeme source cursor0 count0 =
     (let count = count0 + 1 in
      if 10000 < count then Inl (diag Limit (js ''expression tokens''))
      else
        let start = cursor0 + length (takeWhile is_ws (drop cursor0 source));
            rest = drop start source in
        if rest = [] then Inr (plain_lexeme KEnd [] start, start, count)
        else
          and_then
            (case match_number rest of
               Some txt \<Rightarrow> lex_number txt start
             | None \<Rightarrow>
                 if hd rest = 34 \<or> hd rest = 39 then lex_string source start
                 else if is_name_start (hd rest) then
                   (let name = takeWhile is_word rest in
                    Inr (plain_lexeme KName name start, start + length name))
                 else (case match_operator rest of
                     None \<Rightarrow> Inl (diag_at Unsupported [hd rest] start)
                   | Some op \<Rightarrow> Inr (plain_lexeme KSymbol op start, start + length op)))
            (\<lambda>(lx, cursor). Inr (lx, cursor, count)))"

section \<open>Lemmas\<close>

text \<open>What a branch that scans a lexeme at \<open>start\<close> guarantees.\<close>

definition scans :: "jsstr \<Rightarrow> nat \<Rightarrow> lexeme \<Rightarrow> nat \<Rightarrow> bool" where
  "scans source start lx cursor \<longleftrightarrow>
     l_start lx = start \<and> l_end lx = cursor \<and> start < cursor \<and> cursor \<le> length source
     \<and> l_text lx = slice start cursor source \<and> l_kind lx \<noteq> KEnd"

lemma takeWhile_prefix_slice:
  "takeWhile P (drop n s) = slice n (n + length (takeWhile P (drop n s))) s"
  by (simp add: slice_def takeWhile_eq_take [symmetric])

lemma length_takeWhile_drop: "length (takeWhile P (drop n s)) \<le> length s - n"
  by (metis length_drop length_takeWhile_le)

lemma match_mantissa_pos: "match_mantissa s = Some n \<Longrightarrow> 0 < n \<and> s \<noteq> []"
  by (auto simp: match_mantissa_def Let_def split: list.splits if_splits)

lemma match_number_prefix:
  "match_number s = Some w \<Longrightarrow> prefix w s \<and> w \<noteq> []"
  by (auto simp: match_number_def take_is_prefix dest: match_mantissa_pos split: option.splits)

lemma match_operator_prefix:
  "match_operator s = Some w \<Longrightarrow> prefix w s \<and> w \<noteq> []"
proof -
  assume a: "match_operator s = Some w"
  then have "s \<noteq> []" by (auto simp: match_operator_def split: if_splits)
  moreover from a have "w = take 2 s \<or> w = take 1 s"
    unfolding match_operator_def by (simp only: option.inject split: if_splits) auto
  ultimately show ?thesis by (auto simp: take_is_prefix)
qed

lemma prefix_slice:
  "prefix w (drop start source) \<Longrightarrow> start \<le> length source \<Longrightarrow>
     slice start (start + length w) source = w \<and> start + length w \<le> length source"
  using prefix_length_le [of w "drop start source"]
  by (auto simp: slice_def prefix_def)

lemma plain_scans:
  assumes "prefix w (drop start source)" "w \<noteq> []" "start < length source" "k \<noteq> KEnd"
  shows "scans source start (plain_lexeme k w start) (start + length w)"
  using prefix_slice [OF assms(1)] assms(2-4) by (simp add: scans_def plain_lexeme_def)

lemma lex_number_scans:
  assumes "lex_number w start = Inr (lx, cursor)"
    and "prefix w (drop start source)" "w \<noteq> []" "start < length source"
  shows "scans source start lx cursor"
proof -
  have "0 < length w" using assms(3) by simp
  moreover have "cursor = start + length w" "l_start lx = start" "l_end lx = cursor" "l_text lx = w"
    "l_kind lx = KNumber"
    using assms(1) by (auto simp: lex_number_def Let_def split: if_splits)
  ultimately show ?thesis
    using prefix_slice [OF assms(2)] assms(4) by (simp add: scans_def)
qed

lemma string_loop_cursor:
  "string_loop source quote start cursor v0 = Inr (v, c) \<Longrightarrow> cursor < c \<and> c \<le> length source"
proof (induction "length source - cursor" arbitrary: cursor v0 rule: less_induct)
  case less
  have IH: "string_loop source quote start c' v' = Inr (v, c) \<Longrightarrow> cursor < c' \<Longrightarrow>
      cursor < length source \<Longrightarrow> cursor < c \<and> c \<le> length source" for c' v'
    using less.hyps [of c' v'] by fastforce
  show ?case
    using less.prems
    by (subst (asm) string_loop.simps)
      (auto simp: Let_def not_le split: if_splits option.splits dest: IH)
qed

lemma lex_string_scans:
  assumes "lex_string source start = Inr (lx, cursor)"
  shows "scans source start lx cursor"
  using assms
  by (auto simp: lex_string_def scans_def and_then_simps dest!: string_loop_cursor)

text \<open>The contract of \<open>next\<close> on which the parser relies.\<close>

lemma next_lexeme_Inr:
  assumes "next_lexeme source cursor count = Inr (lx, cursor', count')"
  shows "count' = Suc count" "count' \<le> 10000"
    "cursor \<le> length source \<Longrightarrow>
       cursor \<le> l_start lx \<and> l_end lx = cursor' \<and> l_start lx \<le> cursor' \<and> cursor' \<le> length source
       \<and> l_text lx = slice (l_start lx) cursor' source
       \<and> list_all is_ws (slice cursor (l_start lx) source)
       \<and> (if l_kind lx = KEnd then l_start lx = length source else l_start lx < cursor')"
proof -
  define start where "start = cursor + length (takeWhile is_ws (drop cursor source))"
  show cnt: "count' = Suc count" "count' \<le> 10000"
    using assms by (auto simp: next_lexeme_def Let_def and_then_simps split: if_splits)
  assume cur: "cursor \<le> length source"
  have ws: "list_all is_ws (slice cursor start source)"
    unfolding start_def takeWhile_prefix_slice [symmetric]
    by (simp add: list_all_iff) (meson set_takeWhileD)
  have sl: "start \<le> length source"
    using length_takeWhile_drop [of is_ws cursor source] cur by (simp add: start_def)
  have "scans source start lx cursor'"
    if ne: "drop start source \<noteq> []"
  proof -
    from ne have st: "start < length source" by simp
    have "\<exists>w. prefix w (drop start source) \<and> w \<noteq> [] \<and> lex_number w start = Inr (lx, cursor')
      \<or> lex_string source start = Inr (lx, cursor')
      \<or> (\<exists>k w. prefix w (drop start source) \<and> w \<noteq> [] \<and> k \<noteq> KEnd
          \<and> lx = plain_lexeme k w start \<and> cursor' = start + length w)"
    proof (cases "match_number (drop start source)")
      case (Some w)
      with assms ne cnt match_number_prefix [OF Some] show ?thesis
        by (auto simp: next_lexeme_def Let_def start_def [symmetric] and_then_simps)
    next
      case None
      have nm: "prefix (takeWhile is_word (drop start source)) (drop start source)"
        by (rule takeWhile_is_prefix)
      have hd_word: "is_name_start (hd (drop start source)) \<Longrightarrow>
          takeWhile is_word (drop start source) \<noteq> []"
        using ne by (cases "drop start source") (auto simp: is_name_start_def is_word_def)
      from None assms ne cnt nm hd_word show ?thesis
        by (auto simp: next_lexeme_def Let_def start_def [symmetric] and_then_simps
            split: if_splits option.splits dest!: match_operator_prefix)
    qed
    then show ?thesis
      using st by (auto dest: lex_number_scans lex_string_scans intro: plain_scans)
  qed
  moreover have "lx = plain_lexeme KEnd [] start \<and> cursor' = start \<and> start = length source"
    if "drop start source = []"
    using that assms sl cnt by (auto simp: next_lexeme_def Let_def start_def [symmetric])
  ultimately show "cursor \<le> l_start lx \<and> l_end lx = cursor' \<and> l_start lx \<le> cursor' \<and> cursor' \<le> length source
       \<and> l_text lx = slice (l_start lx) cursor' source
       \<and> list_all is_ws (slice cursor (l_start lx) source)
       \<and> (if l_kind lx = KEnd then l_start lx = length source else l_start lx < cursor')"
  proof (cases "drop start source = []")
    case True
    with \<open>drop start source = [] \<Longrightarrow> _\<close> ws show ?thesis
      by (simp add: plain_lexeme_def slice_def start_def)
  next
    case False
    with \<open>drop start source \<noteq> [] \<Longrightarrow> _\<close> have "scans source start lx cursor'" by blast
    with ws show ?thesis
      by (simp add: scans_def start_def)
  qed
qed

end
