(* ===== verification/BillingParser.thy ===== *)
theory BillingParser
  imports BillingLexer
begin

text \<open>
  The precedence-climbing parser \<open>BillingParser\<close> of \<open>billing-expression/parser.ts\<close>.  The mutable
  fields of the class are a record that every method takes and returns; a thrown
  \<open>BillingExpressionError\<close> is \<open>Throw\<close>.  The recursion of \<open>expression\<close> and \<open>primary\<close> is bounded
  by the token budget of \<open>next\<close>, which the definitions carry as fuel: every call spends one unit,
  running out is \<open>NoFuel\<close>, and \<open>parse_never_out_of_fuel\<close> shows that the fuel \<open>parse\<close>
  starts with is enough for every source.
\<close>

section \<open>State and control\<close>

record parser =
  cursor :: nat
  count :: nat
  depth :: nat
  current :: lexeme

datatype 'a outcome = Ok 'a | Throw diagnostic | NoFuel

definition obind :: "'a outcome \<Rightarrow> ('a \<Rightarrow> 'b outcome) \<Rightarrow> 'b outcome" where
  "obind m f = (case m of Ok a \<Rightarrow> f a | Throw d \<Rightarrow> Throw d | NoFuel \<Rightarrow> NoFuel)"

definition lift_sum :: "diagnostic + 'a \<Rightarrow> 'a outcome" where
  "lift_sum m = (case m of Inl d \<Rightarrow> Throw d | Inr a \<Rightarrow> Ok a)"

definition PRECEDENCE :: "(jsstr \<times> nat) list" where
  "PRECEDENCE =
     [(js ''||'', 1), (js ''&&'', 2), (js ''=='', 3), (js ''!='', 3), (js ''<'', 4), (js ''<='', 4),
      (js ''>'', 4), (js ''>='', 4), (js ''+'', 5), (js ''-'', 5), (js ''*'', 6), (js ''/'', 6),
      (js ''%'', 6)]"

text \<open>The version prefix \<open>/^\s*v(\d+):/\<close>: its digits and the length of the whole match.\<close>

definition match_version :: "jsstr \<Rightarrow> (jsstr \<times> nat) option" where
  "match_version source =
     (let n = length (takeWhile is_ws source); r = drop n source in
      case r of [] \<Rightarrow> None
      | v # r' \<Rightarrow>
          let ds = takeWhile is_digit r' in
          if v = ch (CHR ''v'') \<and> ds \<noteq> [] \<and> take 1 (drop (length ds) r') = js '':''
          then Some (ds, n + 1 + length ds + 1) else None)"

definition parser_constructor :: "jsstr \<Rightarrow> diagnostic + parser" where
  "parser_constructor source =
     (if 65536 < length source then Inl (diag Limit (js ''expression length''))
      else
        let begin_at = (\<lambda>c. and_then (next_lexeme source c 0)
              (\<lambda>(lx, c', n). Inr \<lparr>cursor = c', count = n, depth = 0, current = lx\<rparr>)) in
        (case match_version source of
           None \<Rightarrow> begin_at 0
         | Some (ds, len) \<Rightarrow>
             if ds \<noteq> js ''1'' then Inl (diag Unsupported (take len source))
             else begin_at len))"

definition take_token :: "jsstr \<Rightarrow> parser \<Rightarrow> (lexeme \<times> parser) outcome" where
  "take_token source st =
     lift_sum (and_then (next_lexeme source (cursor st) (count st))
       (\<lambda>(lx, c, n). Inr (current st, st\<lparr>cursor := c, count := n, current := lx\<rparr>)))"

definition is_token :: "parser \<Rightarrow> jsstr \<Rightarrow> bool" where
  "is_token st t \<longleftrightarrow> l_text (current st) = t"

definition expect_token :: "jsstr \<Rightarrow> jsstr \<Rightarrow> parser \<Rightarrow> (lexeme \<times> parser) outcome" where
  "expect_token source t st =
     (if l_text (current st) \<noteq> t
      then Throw (diag_at Syntax (js ''expected '' @ t) (l_start (current st)))
      else take_token source st)"

text \<open>\<open>{...node, start, end}\<close>: a copy of the node with another span.\<close>

fun respan :: "node \<Rightarrow> nat \<Rightarrow> nat \<Rightarrow> node" where
  "respan (Literal v i _ _) s e = Literal v i s e"
| "respan (Variable x _ _) s e = Variable x s e"
| "respan (Call f args _ _) s e = Call f args s e"
| "respan (Unary op x _ _) s e = Unary op x s e"
| "respan (Binary op l r _ _) s e = Binary op l r s e"
| "respan (Conditional c y n _ _) s e = Conditional c y n s e"

section \<open>Expressions\<close>

text \<open>
  \<open>expression\<close>, the \<open>while\<close> loop in it over binary operators (\<open>operators\<close>), \<open>primary\<close> and the
  \<open>while\<close> loop in it over arguments (\<open>call_args\<close>).
\<close>

definition push_depth :: "parser \<Rightarrow> parser" where
  "push_depth st = st\<lparr>depth := depth st + 1\<rparr>"

definition pop_depth :: "parser \<Rightarrow> parser" where
  "pop_depth st = st\<lparr>depth := depth st - 1\<rparr>"

definition atom :: "lexeme \<Rightarrow> node option" where
  "atom token =
     (let s = l_start token; e = l_end token in
      case l_value token of
        Some v \<Rightarrow> Some (Literal v (l_integer token) s e)
      | None \<Rightarrow> None)"

definition name_literal :: "lexeme \<Rightarrow> node option" where
  "name_literal token =
     (let s = l_start token; e = l_end token in
      if l_text token = js ''nil'' then Some (Literal LNull False s e)
      else if l_text token = js ''true'' \<or> l_text token = js ''false''
      then Some (Literal (LBool (l_text token = js ''true'')) False s e)
      else None)"

text \<open>
  The bodies of the four, over the functions they call; \<open>expression\<close>, \<open>operators\<close>,
  \<open>primary\<close> and \<open>call_args\<close> below tie the knot.
\<close>

type_synonym node_parser = "parser \<Rightarrow> (node \<times> parser) outcome"
type_synonym args_parser = "node list \<Rightarrow> parser \<Rightarrow> (node list \<times> parser) outcome"

definition conditional_tail ::
  "(nat \<Rightarrow> node_parser) \<Rightarrow> jsstr \<Rightarrow> node \<Rightarrow> parser \<Rightarrow> (node \<times> parser) outcome" where
  "conditional_tail ex source left st =
     obind (take_token source st) (\<lambda>(_, st).
     obind (ex 0 st) (\<lambda>(yes, st).
     obind (expect_token source (js '':'') st) (\<lambda>(_, st).
     obind (ex 0 st) (\<lambda>(no, st).
       Ok (Conditional left yes no (n_start left) (n_end no), st)))))"

definition expression_body ::
  "(nat \<Rightarrow> node_parser) \<Rightarrow> (nat \<Rightarrow> node \<Rightarrow> node_parser) \<Rightarrow> node_parser \<Rightarrow>
     jsstr \<Rightarrow> nat \<Rightarrow> parser \<Rightarrow> (node \<times> parser) outcome" where
  "expression_body ex ops pr source minimum st =
     (let st = push_depth st in
      if 128 < depth st then Throw (diag Limit (js ''expression depth''))
      else
        obind (pr st) (\<lambda>(left, st).
        obind (ops minimum left st) (\<lambda>(left, st).
        obind (if minimum = 0 \<and> is_token st (js ''?'')
               then conditional_tail ex source left st else Ok (left, st))
          (\<lambda>(left, st). Ok (left, pop_depth st)))))"

definition operators_body ::
  "(nat \<Rightarrow> node_parser) \<Rightarrow> (nat \<Rightarrow> node \<Rightarrow> node_parser) \<Rightarrow>
     jsstr \<Rightarrow> nat \<Rightarrow> node \<Rightarrow> parser \<Rightarrow> (node \<times> parser) outcome" where
  "operators_body ex ops source minimum left st =
     (case map_of PRECEDENCE (l_text (current st)) of
        None \<Rightarrow> Ok (left, st)
      | Some p \<Rightarrow>
          if p < minimum then Ok (left, st)
          else
            obind (take_token source st) (\<lambda>(operator, st).
            obind (ex (p + 1) st) (\<lambda>(right, st).
              ops minimum
                (Binary (l_text operator) left right (n_start left) (n_end right)) st)))"

definition call_expression ::
  "args_parser \<Rightarrow> jsstr \<Rightarrow> lexeme \<Rightarrow> parser \<Rightarrow> (node \<times> parser) outcome" where
  "call_expression cargs source token st =
     (case map_of BILLING_FUNCTIONS (l_text token) of
        None \<Rightarrow> Throw (diag_at Unsupported (l_text token) (l_start token))
      | Some arity \<Rightarrow>
          obind (take_token source st) (\<lambda>(_, st).
          obind (cargs [] st) (\<lambda>(args, st).
          obind (expect_token source (js '')'') st) (\<lambda>(close, st).
            if length args \<noteq> arity
            then Throw (diag_at TypeCode (l_text token) (l_start token))
            else Ok (Call (l_text token) args (l_start token) (l_end close), st)))))"

definition name_expression ::
  "args_parser \<Rightarrow> jsstr \<Rightarrow> lexeme \<Rightarrow> parser \<Rightarrow> (node \<times> parser) outcome" where
  "name_expression cargs source token st =
     (case name_literal token of
        Some n \<Rightarrow> Ok (n, st)
      | None \<Rightarrow>
          if l_text (current st) \<noteq> js ''('' then
            (if l_text token \<notin> set BILLING_VARIABLES
             then Throw (diag_at Unsupported (l_text token) (l_start token))
             else Ok (Variable (l_text token) (l_start token) (l_end token), st))
          else call_expression cargs source token st)"

definition primary_body ::
  "(nat \<Rightarrow> node_parser) \<Rightarrow> args_parser \<Rightarrow> jsstr \<Rightarrow> parser \<Rightarrow> (node \<times> parser) outcome" where
  "primary_body ex cargs source st =
     obind (take_token source st) (\<lambda>(token, st).
       if l_kind token = KNumber \<or> l_kind token = KString then
         (case atom token of
            Some n \<Rightarrow> Ok (n, st)
          | None \<Rightarrow> Throw (diag_at Syntax (l_text token) (l_start token)))
       else if l_text token = js ''('' then
         obind (ex 0 st) (\<lambda>(x, st).
         obind (expect_token source (js '')'') st) (\<lambda>(close, st).
           Ok (respan x (l_start token) (l_end close), st)))
       else if l_text token \<in> set [js ''!'', js ''+'', js ''-''] then
         obind (ex 7 st) (\<lambda>(x, st).
           Ok (Unary (l_text token) x (l_start token) (n_end x), st))
       else if l_kind token \<noteq> KName
       then Throw (diag_at Syntax (l_text token) (l_start token))
       else name_expression cargs source token st)"

definition call_args_body ::
  "(nat \<Rightarrow> node_parser) \<Rightarrow> args_parser \<Rightarrow> jsstr \<Rightarrow> node list \<Rightarrow> parser \<Rightarrow>
     (node list \<times> parser) outcome" where
  "call_args_body ex cargs source args st =
     (if is_token st (js '')'') then Ok (args, st)
      else
        obind (ex 0 st) (\<lambda>(x, st).
          if \<not> is_token st (js '','') then Ok (args @ [x], st)
          else obind (take_token source st) (\<lambda>(_, st). cargs (args @ [x]) st)))"

function expression :: "nat \<Rightarrow> jsstr \<Rightarrow> nat \<Rightarrow> parser \<Rightarrow> (node \<times> parser) outcome"
  and operators :: "nat \<Rightarrow> jsstr \<Rightarrow> nat \<Rightarrow> node \<Rightarrow> parser \<Rightarrow> (node \<times> parser) outcome"
  and primary :: "nat \<Rightarrow> jsstr \<Rightarrow> parser \<Rightarrow> (node \<times> parser) outcome"
  and call_args :: "nat \<Rightarrow> jsstr \<Rightarrow> node list \<Rightarrow> parser \<Rightarrow> (node list \<times> parser) outcome" where
  "expression 0 source minimum st = NoFuel"
| "expression (Suc k) source minimum st =
     expression_body (expression k source) (operators k source) (primary k source)
       source minimum st"
| "operators 0 source minimum left st = NoFuel"
| "operators (Suc k) source minimum left st =
     operators_body (expression k source) (operators k source) source minimum left st"
| "primary 0 source st = NoFuel"
| "primary (Suc k) source st =
     primary_body (expression k source) (call_args k source) source st"
| "call_args 0 source args st = NoFuel"
| "call_args (Suc k) source args st =
     call_args_body (expression k source) (call_args k source) source args st"
  by pat_completeness auto
termination
  by (relation "measure (\<lambda>x. case x of
        Inl y \<Rightarrow> (case y of Inl z \<Rightarrow> fst z | Inr z \<Rightarrow> fst z)
      | Inr y \<Rightarrow> (case y of Inl z \<Rightarrow> fst z | Inr z \<Rightarrow> fst z))") auto

definition parse_fuel :: nat where
  "parse_fuel = 30010"

definition parse_outcome :: "jsstr \<Rightarrow> node outcome" where
  "parse_outcome source =
     obind (lift_sum (parser_constructor source)) (\<lambda>st.
     obind (expression parse_fuel source 0 st) (\<lambda>(n, st).
       if l_kind (current st) \<noteq> KEnd
       then Throw (diag_at Unsupported (l_text (current st)) (l_start (current st)))
       else Ok n))"

text \<open>\<open>new BillingParser(source).parse()\<close>; the last case does not arise.\<close>

definition parse :: "jsstr \<Rightarrow> diagnostic + node" where
  "parse source =
     (case parse_outcome source of
        Ok n \<Rightarrow> Inr n | Throw d \<Rightarrow> Inl d | NoFuel \<Rightarrow> Inl (diag Limit (js ''fuel'')))"

section \<open>Lemmas: sequencing\<close>

named_theorems obind_simps \<open>inversion of sequenced parser calls\<close>

lemma obind_Ok [simp]: "obind (Ok a) f = f a"
  by (simp add: obind_def)

lemma obind_Throw [simp]: "obind (Throw d) f = Throw d"
  by (simp add: obind_def)

lemma obind_NoFuel [simp]: "obind NoFuel f = NoFuel"
  by (simp add: obind_def)

lemma obind_eq_Ok [obind_simps]: "obind m f = Ok b \<longleftrightarrow> (\<exists>a. m = Ok a \<and> f a = Ok b)"
  by (cases m) simp_all

lemma obind_eq_NoFuel [obind_simps]:
  "obind m f = NoFuel \<longleftrightarrow> m = NoFuel \<or> (\<exists>a. m = Ok a \<and> f a = NoFuel)"
  by (cases m) simp_all

lemma lift_sum_eq_Ok [obind_simps]: "lift_sum m = Ok a \<longleftrightarrow> m = Inr a"
  by (cases m) (simp_all add: lift_sum_def)

lemma lift_sum_not_NoFuel [simp]: "lift_sum m \<noteq> NoFuel"
  by (cases m) (simp_all add: lift_sum_def)

lemma take_token_not_NoFuel [simp]: "take_token source st \<noteq> NoFuel"
  by (simp add: take_token_def)

lemma expect_token_not_NoFuel [simp]: "expect_token source t st \<noteq> NoFuel"
  by (simp add: expect_token_def)

section \<open>Lemmas: the parser's state\<close>

text \<open>
  The invariant of the parser's fields between method calls: the budget is not exceeded, the
  cursor is at the end of the current lexeme, and that lexeme is a slice of the source.
\<close>

definition lexeme_ok :: "jsstr \<Rightarrow> lexeme \<Rightarrow> bool" where
  "lexeme_ok source lx \<longleftrightarrow>
     l_end lx \<le> length source \<and> l_start lx \<le> l_end lx
     \<and> l_text lx = slice (l_start lx) (l_end lx) source
     \<and> (if l_kind lx = KEnd then l_start lx = length source else l_start lx < l_end lx)"

definition parser_ok :: "jsstr \<Rightarrow> parser \<Rightarrow> bool" where
  "parser_ok source st \<longleftrightarrow>
     count st \<le> 10000 \<and> cursor st = l_end (current st) \<and> lexeme_ok source (current st)"

lemma next_lexeme_ok:
  assumes "next_lexeme source c n = Inr (lx, c', n')" and "c \<le> length source"
  shows "lexeme_ok source lx" "c' = l_end lx" "c \<le> l_start lx" "n' = Suc n" "n' \<le> 10000"
  using next_lexeme_Inr [OF assms(1)] assms(2)
  by (auto simp: lexeme_ok_def split: if_splits)

lemma take_token_ok:
  assumes "take_token source st = Ok (tok, st')" and "parser_ok source st"
  shows "tok = current st" "parser_ok source st'" "count st' = Suc (count st)"
    "depth st' = depth st" "l_end (current st) \<le> l_start (current st')"
proof -
  from assms(1) obtain lx c n where
    nx: "next_lexeme source (cursor st) (count st) = Inr (lx, c, n)" and
    t: "tok = current st" "st' = st\<lparr>cursor := c, count := n, current := lx\<rparr>"
    by (auto simp: take_token_def obind_simps and_then_simps)
  have "cursor st \<le> length source"
    using assms(2) by (simp add: parser_ok_def lexeme_ok_def)
  note ok = next_lexeme_ok [OF nx this]
  show "tok = current st" "parser_ok source st'" "count st' = Suc (count st)"
    "depth st' = depth st" "l_end (current st) \<le> l_start (current st')"
    using t ok assms(2) by (simp_all add: parser_ok_def)
qed

lemma expect_token_ok:
  assumes "expect_token source t st = Ok (tok, st')" and "parser_ok source st"
  shows "tok = current st" "l_text tok = t" "parser_ok source st'" "count st' = Suc (count st)"
    "depth st' = depth st" "l_end (current st) \<le> l_start (current st')"
  using assms take_token_ok [of source st tok st']
  by (auto simp: expect_token_def split: if_splits)

lemma depth_simps [simp]:
  "depth (push_depth st) = Suc (depth st)" "depth (pop_depth st) = depth st - 1"
  "count (push_depth st) = count st" "count (pop_depth st) = count st"
  "current (push_depth st) = current st" "current (pop_depth st) = current st"
  "parser_ok source (push_depth st) = parser_ok source st"
  "parser_ok source (pop_depth st) = parser_ok source st"
  by (simp_all add: push_depth_def pop_depth_def parser_ok_def)

lemma constructor_ok: "parser_constructor source = Inr st \<Longrightarrow> parser_ok source st \<and> depth st = 0"
proof -
  assume a: "parser_constructor source = Inr st"
  have version: "len \<le> length source" if "match_version source = Some (ds, len)" for ds len
  proof -
    define n where "n = length (takeWhile is_ws source)"
    from that obtain v r where r: "drop n source = v # r" and ds: "ds = takeWhile is_digit r"
      and colon: "take 1 (drop (length ds) r) = js '':''" and len: "len = n + 1 + length ds + 1"
      by (auto simp: match_version_def Let_def n_def split: list.splits if_splits)
    from colon have "drop (length ds) r \<noteq> []" by (auto simp: js_Cons)
    then have "length ds < length r" by simp
    moreover have "length source = n + Suc (length r)"
      using r by (metis append_take_drop_id length_Cons length_append length_takeWhile_le n_def
          length_take min.absorb2)
    ultimately show ?thesis using len by simp
  qed
  have start: "parser_ok source st \<and> depth st = 0"
    if "c \<le> length source"
      "and_then (next_lexeme source c 0)
         (\<lambda>(lx, c', n). Inr \<lparr>cursor = c', count = n, depth = 0, current = lx\<rparr>) = Inr st" for c
    using that by (auto simp: and_then_simps parser_ok_def dest: next_lexeme_ok)
  show ?thesis
    using a start version
    by (auto simp: parser_constructor_def Let_def split: if_splits option.splits)
qed

section \<open>Lemmas: what a parse returns\<close>

text \<open>
  A well-formed tree: every name, function arity and operator is of the language, the children
  of a node lie in source order inside the span of the node, and each is shorter than it.
\<close>

fun ordered :: "nat \<Rightarrow> nat \<Rightarrow> node list \<Rightarrow> bool" where
  "ordered lo hi [] = (lo \<le> hi)"
| "ordered lo hi (n # ns) = (lo \<le> n_start n \<and> n_start n < n_end n \<and> ordered (n_end n) hi ns)"

definition span :: "node \<Rightarrow> nat" where
  "span n = n_end n - n_start n"

fun vocabulary_ok :: "node \<Rightarrow> bool" where
  "vocabulary_ok (Literal v i s e) = True"
| "vocabulary_ok (Variable x s e) = (x \<in> set BILLING_VARIABLES)"
| "vocabulary_ok (Call f args s e) = (map_of BILLING_FUNCTIONS f = Some (length args))"
| "vocabulary_ok (Unary op x s e) = (op \<in> set [js ''!'', js ''+'', js ''-''])"
| "vocabulary_ok (Binary op l r s e) = (op \<in> fst ` set PRECEDENCE)"
| "vocabulary_ok (Conditional c y n s e) = True"

definition shape_ok :: "node \<Rightarrow> bool" where
  "shape_ok n \<longleftrightarrow> n_start n < n_end n \<and> vocabulary_ok n
     \<and> ordered (n_start n) (n_end n) (children n) \<and> (\<forall>c \<in> set (children n). span c < span n)"

definition node_ok :: "node \<Rightarrow> bool" where
  "node_ok n \<longleftrightarrow> list_all shape_ok (postorder n)"

lemma node_ok_iff: "node_ok n \<longleftrightarrow> shape_ok n \<and> list_all node_ok (children n)"
  unfolding node_ok_def by (subst postorder_children) (auto simp: list_all_iff node_ok_def)

lemma respan_simps [simp]:
  "n_start (respan n s e) = s" "n_end (respan n s e) = e" "children (respan n s e) = children n"
  "vocabulary_ok (respan n s e) = vocabulary_ok n"
  by (cases n; simp)+

lemma ordered_mono: "ordered lo hi ns \<Longrightarrow> lo' \<le> lo \<Longrightarrow> hi \<le> hi' \<Longrightarrow> ordered lo' hi' ns"
proof (induction ns arbitrary: lo lo')
  case (Cons n ns)
  then show ?case using Cons.IH [of "n_end n" "n_end n"] by auto
qed simp

lemma ordered_snoc:
  "ordered lo hi (ns @ [n]) \<longleftrightarrow>
     ordered lo (n_start n) ns \<and> n_start n < n_end n \<and> n_end n \<le> hi"
  by (induction ns arbitrary: lo) auto

lemma ordered_bounds: "ordered lo hi ns \<Longrightarrow> c \<in> set ns \<Longrightarrow> lo \<le> n_start c \<and> n_end c \<le> hi"
proof (induction ns arbitrary: lo)
  case (Cons n ns)
  have le: "ordered a b ms \<Longrightarrow> a \<le> b" for a b ms
    by (induction ms arbitrary: a) (auto, force)
  from Cons show ?case using le [of "n_end n" hi ns] by force
qed simp

lemma respan_ok:
  assumes "node_ok n" "s < n_start n" "n_end n \<le> e"
  shows "node_ok (respan n s e)"
proof -
  from assms have sh: "shape_ok n" "list_all node_ok (children n)" by (simp_all add: node_ok_iff)
  then have "ordered s e (children n)"
    using assms ordered_mono [of "n_start n" "n_end n" "children n" s e] by (simp add: shape_ok_def)
  moreover have "span c < span (respan n s e)" if "c \<in> set (children n)" for c
    using sh(1) that assms by (auto simp: shape_ok_def span_def)
  ultimately show ?thesis
    using sh assms by (simp add: node_ok_iff shape_ok_def)
qed

text \<open>
  What a successful call guarantees: the state invariant, progress in the budget, the depth
  restored, and a well-formed node that starts at the lexeme the call started with and ends
  before the current one.
\<close>

definition parsed :: "jsstr \<Rightarrow> parser \<Rightarrow> node \<Rightarrow> parser \<Rightarrow> bool" where
  "parsed source st n st' \<longleftrightarrow>
     parser_ok source st' \<and> count st < count st' \<and> depth st' = depth st \<and> node_ok n
     \<and> n_start n = l_start (current st) \<and> n_end n \<le> l_start (current st')"

definition extended :: "jsstr \<Rightarrow> parser \<Rightarrow> node \<Rightarrow> node \<Rightarrow> parser \<Rightarrow> bool" where
  "extended source st left n st' \<longleftrightarrow>
     parser_ok source st' \<and> count st \<le> count st' \<and> depth st' = depth st \<and> node_ok n
     \<and> n_start n = n_start left \<and> n_end n \<le> l_start (current st')"

definition parsed_args :: "jsstr \<Rightarrow> nat \<Rightarrow> parser \<Rightarrow> node list \<Rightarrow> parser \<Rightarrow> bool" where
  "parsed_args source lo st args st' \<longleftrightarrow>
     parser_ok source st' \<and> count st \<le> count st' \<and> depth st' = depth st
     \<and> list_all node_ok args \<and> ordered lo (l_start (current st')) args"

lemma node_ok_nonempty: "node_ok n \<Longrightarrow> n_start n < n_end n"
  by (simp add: node_ok_iff shape_ok_def)

lemma leaf_ok:
  "s < e \<Longrightarrow> node_ok (Literal v i s e)"
  "s < e \<Longrightarrow> x \<in> set BILLING_VARIABLES \<Longrightarrow> node_ok (Variable x s e)"
  by (simp_all add: node_ok_iff shape_ok_def)

lemma binary_ok:
  "node_ok l \<Longrightarrow> node_ok r \<Longrightarrow> n_end l \<le> n_start r \<Longrightarrow> op \<in> fst ` set PRECEDENCE \<Longrightarrow>
     node_ok (Binary op l r (n_start l) (n_end r))"
  using node_ok_nonempty [of l] node_ok_nonempty [of r]
  by (simp add: node_ok_iff [of "Binary op l r (n_start l) (n_end r)"] shape_ok_def span_def) linarith

lemma unary_ok:
  "node_ok x \<Longrightarrow> s < n_start x \<Longrightarrow> op \<in> set [js ''!'', js ''+'', js ''-''] \<Longrightarrow>
     node_ok (Unary op x s (n_end x))"
  using node_ok_nonempty [of x]
  by (simp add: node_ok_iff [of "Unary op x s (n_end x)"] shape_ok_def span_def)

lemma conditional_ok:
  "node_ok c \<Longrightarrow> node_ok y \<Longrightarrow> node_ok n \<Longrightarrow> n_end c \<le> n_start y \<Longrightarrow> n_end y \<le> n_start n \<Longrightarrow>
     node_ok (Conditional c y n (n_start c) (n_end n))"
  using node_ok_nonempty [of c] node_ok_nonempty [of y] node_ok_nonempty [of n]
  by (simp add: node_ok_iff [of "Conditional c y n (n_start c) (n_end n)"] shape_ok_def span_def)
    linarith

lemma call_ok:
  assumes "list_all node_ok args" "ordered lo hi args" "s < lo" "hi \<le> e"
    "map_of BILLING_FUNCTIONS f = Some (length args)" "lo \<le> hi"
  shows "node_ok (Call f args s e)"
proof -
  have "span c < e - s" if "c \<in> set args" for c
    using ordered_bounds [OF assms(2) that] assms(3,4,6) node_ok_nonempty [of c] that assms(1)
    by (auto simp: span_def list_all_iff)
  then show ?thesis
    using assms ordered_mono [OF assms(2), of s e]
    by (simp add: node_ok_iff [of "Call f args s e"] shape_ok_def) (simp add: span_def)
qed

text \<open>
  The contract between the four methods: what each may assume of the calls it makes.  The
  lemmas of the locale show that the bodies keep the contract, so the functions that tie the
  knot satisfy it for every amount of fuel.
\<close>

locale parser_methods =
  fixes source :: jsstr
    and ex :: "nat \<Rightarrow> node_parser"
    and ops :: "nat \<Rightarrow> node \<Rightarrow> node_parser"
    and pr :: node_parser
    and cargs :: args_parser
  assumes ex_parsed: "ex m st = Ok (n, st') \<Longrightarrow> parser_ok source st \<Longrightarrow> parsed source st n st'"
    and ops_extended: "ops m left st = Ok (n, st') \<Longrightarrow> parser_ok source st \<Longrightarrow> node_ok left \<Longrightarrow>
      n_end left \<le> l_start (current st) \<Longrightarrow> extended source st left n st'"
    and pr_parsed: "pr st = Ok (n, st') \<Longrightarrow> parser_ok source st \<Longrightarrow> parsed source st n st'"
    and cargs_parsed: "cargs args st = Ok (args', st') \<Longrightarrow> parser_ok source st \<Longrightarrow>
      list_all node_ok args \<Longrightarrow> ordered lo (l_start (current st)) args \<Longrightarrow>
      parsed_args source lo st args' st'"
begin

lemma conditional_tail_extended:
  assumes "conditional_tail ex source left st = Ok (n, st')" "parser_ok source st" "node_ok left"
    "n_end left \<le> l_start (current st)"
  shows "extended source st left n st'"
proof -
  from assms(1) obtain t1 st1 yes st2 t2 st3 no where
    1: "take_token source st = Ok (t1, st1)" and 2: "ex 0 st1 = Ok (yes, st2)" and
    3: "expect_token source (js '':'') st2 = Ok (t2, st3)" and 4: "ex 0 st3 = Ok (no, st')" and
    n: "n = Conditional left yes no (n_start left) (n_end no)"
    by (auto simp: conditional_tail_def obind_simps)
  note a1 = take_token_ok [OF 1 assms(2)]
  note a2 = ex_parsed [OF 2 a1(2), unfolded parsed_def]
  note a3 = expect_token_ok [OF 3 conjunct1 [OF a2]]
  note a4 = ex_parsed [OF 4 a3(3), unfolded parsed_def]
  have le: "l_start (current st) \<le> l_end (current st)" "l_start (current st2) \<le> l_end (current st2)"
    using assms(2) a2 by (auto simp: parser_ok_def lexeme_ok_def)
  have "node_ok n"
    unfolding n by (rule conditional_ok) (use a1 a2 a3 a4 le assms in auto)
  then show ?thesis
    using a1 a2 a3 a4 n by (simp add: extended_def)
qed

lemma expression_body_parsed:
  assumes "expression_body ex ops pr source m st = Ok (n, st')" "parser_ok source st"
  shows "parsed source st n st'"
proof -
  from assms(1) obtain l1 st1 l2 st2 st3 where
    1: "pr (push_depth st) = Ok (l1, st1)" and 2: "ops m l1 st1 = Ok (l2, st2)" and
    3: "(if m = 0 \<and> is_token st2 (js ''?'') then conditional_tail ex source l2 st2
         else Ok (l2, st2)) = Ok (n, st3)" and st': "st' = pop_depth st3"
    by (cases "128 < Suc (depth st)") (auto simp: expression_body_def Let_def obind_simps)
  from assms(2) have "parser_ok source (push_depth st)" by simp
  note a1 = pr_parsed [OF 1 this, unfolded parsed_def]
  note a2 = ops_extended [OF 2, unfolded extended_def]
  have a3: "extended source st2 l2 n st3"
    using 3 a1 a2 conditional_tail_extended [of l2 st2 n st3]
    by (auto simp: extended_def split: if_splits)
  show ?thesis
    using a1 a2 a3 by (auto simp: st' parsed_def extended_def)
qed

lemma operators_body_extended:
  assumes "operators_body ex ops source m left st = Ok (n, st')" "parser_ok source st" "node_ok left"
    "n_end left \<le> l_start (current st)"
  shows "extended source st left n st'"
proof (cases "map_of PRECEDENCE (l_text (current st))")
  case None
  with assms show ?thesis by (simp add: operators_body_def extended_def)
next
  case (Some p)
  show ?thesis
  proof (cases "p < m")
    case True
    with assms Some show ?thesis by (simp add: operators_body_def extended_def)
  next
    case False
    with assms(1) Some obtain t1 st1 right st2 where
      1: "take_token source st = Ok (t1, st1)" and 2: "ex (p + 1) st1 = Ok (right, st2)" and
      3: "ops m (Binary (l_text t1) left right (n_start left) (n_end right)) st2 = Ok (n, st')"
      by (auto simp: operators_body_def obind_simps)
    note a1 = take_token_ok [OF 1 assms(2)]
    note a2 = ex_parsed [OF 2 a1(2), unfolded parsed_def]
    have le: "l_start (current st) \<le> l_end (current st)"
      using assms(2) by (auto simp: parser_ok_def lexeme_ok_def)
    have op: "l_text t1 \<in> fst ` set PRECEDENCE"
      using map_of_SomeD [OF Some] a1(1) by force
    have "node_ok (Binary (l_text t1) left right (n_start left) (n_end right))"
      by (rule binary_ok) (use a1 a2 le op assms in auto)
    from ops_extended [OF 3 _ this] a1 a2 show ?thesis
      by (auto simp: extended_def)
  qed
qed

lemma call_expression_parsed:
  assumes "call_expression cargs source token st = Ok (n, st')" "parser_ok source st"
    "l_start token < l_start (current st)"
  shows "parser_ok source st' \<and> count st < count st' \<and> depth st' = depth st \<and> node_ok n
    \<and> n_start n = l_start token \<and> n_end n \<le> l_start (current st')"
proof -
  from assms(1) obtain arity t1 st1 args st2 close where
    0: "map_of BILLING_FUNCTIONS (l_text token) = Some arity" and
    1: "take_token source st = Ok (t1, st1)" and 2: "cargs [] st1 = Ok (args, st2)" and
    3: "expect_token source (js '')'') st2 = Ok (close, st')" and
    n: "length args = arity" "n = Call (l_text token) args (l_start token) (l_end close)"
    by (auto simp: call_expression_def obind_simps split: option.splits if_splits)
  note a1 = take_token_ok [OF 1 assms(2)]
  have "parsed_args source (l_start (current st1)) st1 args st2"
    by (rule cargs_parsed [OF 2 a1(2)]) simp_all
  note a2 = this [unfolded parsed_args_def]
  note a3 = expect_token_ok [OF 3 conjunct1 [OF a2]]
  have le: "l_start (current st) \<le> l_end (current st)" "l_start (current st2) \<le> l_end (current st2)"
    using assms(2) a2 by (auto simp: parser_ok_def lexeme_ok_def)
  have mono: "ordered a b ms \<Longrightarrow> a \<le> b" for a b ms
    by (induction ms arbitrary: a) (auto, force)
  have "node_ok n"
    unfolding n(2)
    by (rule call_ok [where lo = "l_start (current st1)" and hi = "l_start (current st2)"])
      (use a1 a2 a3 le n 0 assms mono in auto)
  with a1 a2 a3 n show ?thesis by simp
qed

lemma name_expression_parsed:
  assumes "name_expression cargs source token st = Ok (n, st')" "parser_ok source st"
    "l_start token < l_end token" "l_end token \<le> l_start (current st)"
  shows "parser_ok source st' \<and> count st \<le> count st' \<and> depth st' = depth st \<and> node_ok n
    \<and> n_start n = l_start token \<and> n_end n \<le> l_start (current st')"
  using assms call_expression_parsed [of token st n st']
  by (auto simp: name_expression_def name_literal_def Let_def leaf_ok
      split: option.splits if_splits)

lemma primary_body_parsed:
  assumes "primary_body ex cargs source st = Ok (n, st')" "parser_ok source st"
  shows "parsed source st n st'"
proof -
  from assms(1) obtain token st1 where 1: "take_token source st = Ok (token, st1)"
    by (auto simp: primary_body_def obind_simps)
  note a1 = take_token_ok [OF 1 assms(2)]
  show ?thesis
  proof (cases "l_kind token = KEnd")
    case True
    then have "l_text token = []"
      using assms(2) a1(1) by (simp add: parser_ok_def lexeme_ok_def slice_def)
    with assms(1) 1 True show ?thesis by (simp add: primary_body_def)
  next
    case False
    then have lt: "l_start token < l_end token"
      using assms(2) a1(1) by (simp add: parser_ok_def lexeme_ok_def)
    consider
        (lit) v where "n = Literal v (l_integer token) (l_start token) (l_end token)" "st' = st1"
      | (paren) x st2 close where "ex 0 st1 = Ok (x, st2)"
          "expect_token source (js '')'') st2 = Ok (close, st')"
          "n = respan x (l_start token) (l_end close)"
      | (unary) x where "ex 7 st1 = Ok (x, st')" "l_text token \<in> set [js ''!'', js ''+'', js ''-'']"
          "n = Unary (l_text token) x (l_start token) (n_end x)"
      | (name) "name_expression cargs source token st1 = Ok (n, st')"
      using assms(1) 1
      by (auto simp: primary_body_def obind_simps atom_def Let_def simp del: set_simps
          split: if_splits option.splits)
    then show ?thesis
    proof cases
      case lit
      with a1 lt show ?thesis by (simp add: parsed_def leaf_ok)
    next
      case paren
      note a2 = ex_parsed [OF paren(1) a1(2), unfolded parsed_def]
      note a3 = expect_token_ok [OF paren(2) conjunct1 [OF a2]]
      have "l_start (current st2) \<le> l_end (current st2)"
        using a2 by (auto simp: parser_ok_def lexeme_ok_def)
      then have "node_ok (respan x (l_start token) (l_end close))"
        by (intro respan_ok) (use a1 a2 a3 lt in auto)
      with a1 a2 a3 paren(3) show ?thesis by (auto simp: parsed_def)
    next
      case unary
      note a2 = ex_parsed [OF unary(1) a1(2), unfolded parsed_def]
      have "node_ok (Unary (l_text token) x (l_start token) (n_end x))"
        by (rule unary_ok) (use a1 a2 lt unary(2) in auto)
      with a1 a2 unary(3) show ?thesis by (auto simp: parsed_def)
    next
      case name
      from name_expression_parsed [OF name a1(2) lt] a1 show ?thesis
        by (auto simp: parsed_def)
    qed
  qed
qed

lemma call_args_body_parsed:
  assumes "call_args_body ex cargs source args st = Ok (args', st')" "parser_ok source st"
    "list_all node_ok args" "ordered lo (l_start (current st)) args"
  shows "parsed_args source lo st args' st'"
proof (cases "is_token st (js '')'')")
  case True
  with assms show ?thesis by (simp add: call_args_body_def parsed_args_def)
next
  case False
  with assms(1) obtain x st1 where 1: "ex 0 st = Ok (x, st1)" and
    2: "(if \<not> is_token st1 (js '','') then Ok (args @ [x], st1)
         else obind (take_token source st1) (\<lambda>(_, st). cargs (args @ [x]) st)) = Ok (args', st')"
    by (auto simp: call_args_body_def obind_simps)
  note a1 = ex_parsed [OF 1 assms(2), unfolded parsed_def]
  have args: "list_all node_ok (args @ [x])"
    "ordered lo (l_start (current st1)) (args @ [x])"
    using assms a1 node_ok_nonempty [of x] by (auto simp: ordered_snoc)
  show ?thesis
  proof (cases "is_token st1 (js '','')")
    case True
    with 2 obtain t2 st2 where 3: "take_token source st1 = Ok (t2, st2)"
      "cargs (args @ [x]) st2 = Ok (args', st')"
      by (auto simp: obind_simps)
    note a2 = take_token_ok [OF 3(1) conjunct1 [OF a1]]
    have "l_start (current st1) \<le> l_end (current st1)"
      using a1 by (auto simp: parser_ok_def lexeme_ok_def)
    then have "ordered lo (l_start (current st2)) (args @ [x])"
      using args(2) a2(5) by (auto intro: ordered_mono)
    from cargs_parsed [OF 3(2) a2(2) args(1) this] a1 a2 show ?thesis
      by (auto simp: parsed_args_def)
  next
    case False
    with 2 a1 args show ?thesis by (auto simp: parsed_args_def)
  qed
qed

end

lemma methods_sound:
  "parser_methods source (expression k source) (operators k source) (primary k source)
     (call_args k source)"
proof (induction k)
  case 0
  show ?case by unfold_locales simp_all
next
  case (Suc k)
  note step = parser_methods.expression_body_parsed [OF Suc]
    parser_methods.operators_body_extended [OF Suc]
    parser_methods.primary_body_parsed [OF Suc]
    parser_methods.call_args_body_parsed [OF Suc]
  show ?case by unfold_locales (simp_all add: step)
qed

interpretation methods: parser_methods source "expression k source" "operators k source"
  "primary k source" "call_args k source" for k source
  by (rule methods_sound)

section \<open>Lemmas: the fuel is enough\<close>

text \<open>
  A state with \<open>c\<close> tokens consumed has \<open>10001 - c\<close> left; three units of fuel for each of them,
  and a constant per method, keep every call from running out.
\<close>

definition tokens_left :: "parser \<Rightarrow> nat" where
  "tokens_left st = 10001 - count st"

locale fueled_methods = parser_methods +
  fixes k :: nat
  assumes ex_fuel: "parser_ok source st \<Longrightarrow> 3 * tokens_left st + 3 \<le> k \<Longrightarrow> ex m st \<noteq> NoFuel"
    and ops_fuel: "parser_ok source st \<Longrightarrow> node_ok left \<Longrightarrow> n_end left \<le> l_start (current st) \<Longrightarrow>
      3 * tokens_left st + 2 \<le> k \<Longrightarrow> ops m left st \<noteq> NoFuel"
    and pr_fuel: "parser_ok source st \<Longrightarrow> 3 * tokens_left st + 2 \<le> k \<Longrightarrow> pr st \<noteq> NoFuel"
    and cargs_fuel: "parser_ok source st \<Longrightarrow> list_all node_ok args \<Longrightarrow>
      ordered lo (l_start (current st)) args \<Longrightarrow> 3 * tokens_left st + 4 \<le> k \<Longrightarrow>
      cargs args st \<noteq> NoFuel"
begin

lemma ex_fuel_later:
  "parser_ok source st \<Longrightarrow> parser_ok source st' \<Longrightarrow> count st < count st' \<Longrightarrow>
     3 * tokens_left st + 1 \<le> Suc k \<Longrightarrow> ex m st' \<noteq> NoFuel"
  by (rule ex_fuel) (auto simp: tokens_left_def parser_ok_def)

lemma conditional_tail_fuel:
  assumes "parser_ok source st" "3 * tokens_left st + 1 \<le> Suc k"
  shows "conditional_tail ex source left st \<noteq> NoFuel"
proof
  assume a: "conditional_tail ex source left st = NoFuel"
  then obtain t1 st1 where 1: "take_token source st = Ok (t1, st1)"
    by (auto simp: conditional_tail_def obind_simps)
  note a1 = take_token_ok [OF 1 assms(1)]
  have "ex 0 st1 \<noteq> NoFuel" by (rule ex_fuel_later [OF assms(1)]) (use a1 assms in auto)
  with a 1 obtain yes st2 t2 st3 where 2: "ex 0 st1 = Ok (yes, st2)" and
    3: "expect_token source (js '':'') st2 = Ok (t2, st3)" and 4: "ex 0 st3 = NoFuel"
    by (auto simp: conditional_tail_def obind_simps)
  note a2 = ex_parsed [OF 2 a1(2), unfolded parsed_def]
  note a3 = expect_token_ok [OF 3 conjunct1 [OF a2]]
  have "ex 0 st3 \<noteq> NoFuel" by (rule ex_fuel_later [OF assms(1)]) (use a1 a2 a3 assms in auto)
  with 4 show False by simp
qed

lemma expression_body_fuel:
  assumes "parser_ok source st" "3 * tokens_left st + 3 \<le> Suc k"
  shows "expression_body ex ops pr source m st \<noteq> NoFuel"
proof (cases "128 < Suc (depth st)")
  case True
  then show ?thesis by (simp add: expression_body_def Let_def)
next
  case False
  have ok: "parser_ok source (push_depth st)" using assms by simp
  have "pr (push_depth st) \<noteq> NoFuel"
    by (rule pr_fuel [OF ok]) (use assms in \<open>simp add: tokens_left_def\<close>)
  moreover have "ops m l st1 \<noteq> NoFuel" if "pr (push_depth st) = Ok (l, st1)" for l st1
    using pr_parsed [OF that ok] assms
    by (intro ops_fuel) (auto simp: parsed_def tokens_left_def parser_ok_def)
  moreover have "conditional_tail ex source l2 st2 \<noteq> NoFuel"
    if 1: "pr (push_depth st) = Ok (l, st1)" and 2: "ops m l st1 = Ok (l2, st2)" for l st1 l2 st2
  proof -
    note a1 = pr_parsed [OF 1 ok, unfolded parsed_def]
    have "extended source st1 l l2 st2" by (rule ops_extended [OF 2]) (use a1 in auto)
    then show ?thesis
      using a1 assms by (intro conditional_tail_fuel)
        (auto simp: extended_def tokens_left_def parser_ok_def)
  qed
  ultimately show ?thesis
    using False by (auto simp: expression_body_def Let_def obind_simps split: if_splits)
qed

lemma operators_body_fuel:
  assumes "parser_ok source st" "node_ok left" "n_end left \<le> l_start (current st)"
    "3 * tokens_left st + 2 \<le> Suc k"
  shows "operators_body ex ops source m left st \<noteq> NoFuel"
proof
  assume a: "operators_body ex ops source m left st = NoFuel"
  then obtain p t1 st1 where p: "map_of PRECEDENCE (l_text (current st)) = Some p" "\<not> p < m" and
    1: "take_token source st = Ok (t1, st1)"
    by (auto simp: operators_body_def obind_simps split: option.splits if_splits)
  note a1 = take_token_ok [OF 1 assms(1)]
  have "ex (p + 1) st1 \<noteq> NoFuel" by (rule ex_fuel_later [OF assms(1)]) (use a1 assms in auto)
  with a p 1 obtain right st2 where 2: "ex (p + 1) st1 = Ok (right, st2)" and
    3: "ops m (Binary (l_text t1) left right (n_start left) (n_end right)) st2 = NoFuel"
    by (auto simp: operators_body_def obind_simps)
  note a2 = ex_parsed [OF 2 a1(2), unfolded parsed_def]
  have le: "l_start (current st) \<le> l_end (current st)"
    using assms(1) by (auto simp: parser_ok_def lexeme_ok_def)
  have op: "l_text t1 \<in> fst ` set PRECEDENCE"
    using map_of_SomeD [OF p(1)] a1(1) by force
  have "node_ok (Binary (l_text t1) left right (n_start left) (n_end right))"
    by (rule binary_ok) (use a1 a2 le op assms in auto)
  then have "ops m (Binary (l_text t1) left right (n_start left) (n_end right)) st2 \<noteq> NoFuel"
    using a1 a2 assms by (intro ops_fuel) (auto simp: tokens_left_def parser_ok_def)
  with 3 show False by simp
qed

lemma name_expression_fuel:
  assumes "parser_ok source st" "3 * tokens_left st + 3 \<le> Suc k"
  shows "name_expression cargs source token st \<noteq> NoFuel"
proof -
  have "cargs [] st1 \<noteq> NoFuel" if 1: "take_token source st = Ok (t1, st1)" for t1 st1
  proof -
    note a1 = take_token_ok [OF 1 assms(1)]
    show ?thesis
      by (rule cargs_fuel [where lo = 0])
        (use a1 assms in \<open>auto simp: tokens_left_def parser_ok_def\<close>)
  qed
  then show ?thesis
    by (auto simp: name_expression_def call_expression_def obind_simps
        split: option.splits if_splits)
qed

lemma primary_body_fuel:
  assumes "parser_ok source st" "3 * tokens_left st + 2 \<le> Suc k"
  shows "primary_body ex cargs source st \<noteq> NoFuel"
proof
  assume a: "primary_body ex cargs source st = NoFuel"
  then obtain t1 st1 where 1: "take_token source st = Ok (t1, st1)"
    by (auto simp: primary_body_def obind_simps)
  note a1 = take_token_ok [OF 1 assms(1)]
  have "ex m st1 \<noteq> NoFuel" for m by (rule ex_fuel_later [OF assms(1)]) (use a1 assms in auto)
  moreover have "name_expression cargs source t1 st1 \<noteq> NoFuel"
    by (rule name_expression_fuel) (use a1 assms in \<open>auto simp: tokens_left_def parser_ok_def\<close>)
  ultimately show False
    using a 1 by (auto simp: primary_body_def obind_simps simp del: set_simps
        split: if_splits option.splits)
qed

lemma call_args_body_fuel:
  assumes "parser_ok source st" "list_all node_ok args" "ordered lo (l_start (current st)) args"
    "3 * tokens_left st + 4 \<le> Suc k"
  shows "call_args_body ex cargs source args st \<noteq> NoFuel"
proof
  assume a: "call_args_body ex cargs source args st = NoFuel"
  have "ex 0 st \<noteq> NoFuel" by (rule ex_fuel) (use assms in auto)
  with a obtain x st1 t2 st2 where 1: "ex 0 st = Ok (x, st1)" and
    2: "take_token source st1 = Ok (t2, st2)" and 3: "cargs (args @ [x]) st2 = NoFuel"
    by (auto simp: call_args_body_def obind_simps split: if_splits)
  note a1 = ex_parsed [OF 1 assms(1), unfolded parsed_def]
  note a2 = take_token_ok [OF 2 conjunct1 [OF a1]]
  have "l_start (current st1) \<le> l_end (current st1)"
    using a1 by (auto simp: parser_ok_def lexeme_ok_def)
  then have "ordered lo (l_start (current st2)) (args @ [x])"
    using assms a1 a2 node_ok_nonempty [of x] by (auto simp: ordered_snoc)
  then have "cargs (args @ [x]) st2 \<noteq> NoFuel"
    using assms a1 a2 by (intro cargs_fuel) (auto simp: tokens_left_def parser_ok_def)
  with 3 show False by simp
qed

end

lemma methods_fueled:
  "fueled_methods source (expression k source) (operators k source) (primary k source)
     (call_args k source) k"
proof (induction k)
  case 0
  show ?case by unfold_locales (simp_all add: tokens_left_def parser_ok_def)
next
  case (Suc k)
  note step = fueled_methods.expression_body_fuel [OF Suc]
    fueled_methods.operators_body_fuel [OF Suc]
    fueled_methods.primary_body_fuel [OF Suc]
    fueled_methods.call_args_body_fuel [OF Suc]
  show ?case by unfold_locales (simp_all add: step)
qed

interpretation fueled: fueled_methods source "expression k source" "operators k source"
  "primary k source" "call_args k source" k for source k
  by (rule methods_fueled)

lemma parse_outcome_total: "parse_outcome source \<noteq> NoFuel"
proof
  assume a: "parse_outcome source = NoFuel"
  then obtain st where c: "parser_constructor source = Inr st"
    and e: "expression parse_fuel source 0 st = NoFuel"
    by (auto simp: parse_outcome_def obind_simps split: if_splits)
  from constructor_ok [OF c] fueled.ex_fuel [of source st parse_fuel 0] e show False
    by (simp add: tokens_left_def parse_fuel_def)
qed

lemma parse_Inr:
  assumes "parse source = Inr n"
  shows "node_ok n" "n_end n \<le> length source"
proof -
  from assms obtain st st' where c: "parser_constructor source = Inr st"
    and e: "expression parse_fuel source 0 st = Ok (n, st')"
    by (auto simp: parse_def parse_outcome_def obind_simps split: outcome.splits if_splits)
  from constructor_ok [OF c] methods.ex_parsed [OF e] have "parsed source st n st'" by blast
  then show "node_ok n" "n_end n \<le> length source"
    by (auto simp: parsed_def parser_ok_def lexeme_ok_def)
qed

end
