(* ===== verification/Memo.thy ===== *)
theory Memo
  imports JsPrelude
begin

text \<open>
  Memo tables.  The console keeps two: the module-level cache of compiled billing expressions,
  which evicts its oldest entry, and the table of zone times inside one evaluation.  Both look a
  key up, compute the value on a miss and store it.  The locale states what such a table must
  satisfy for the caller not to notice it; the lemmas are used through its interpretations.
\<close>

definition memo_call ::
  "('m \<Rightarrow> 'k \<Rightarrow> 'v option) \<Rightarrow> ('k \<Rightarrow> 'v \<Rightarrow> 'm \<Rightarrow> 'm) \<Rightarrow> ('k \<Rightarrow> 'e + 'v) \<Rightarrow> 'm \<Rightarrow> 'k \<Rightarrow> 'e + 'v \<times> 'm" where
  "memo_call lookup store compute m k =
     (case lookup m k of
        Some v \<Rightarrow> Inr (v, m)
      | None \<Rightarrow> and_then (compute k) (\<lambda>v. Inr (v, store k v m)))"

text \<open>Every stored value is the value of its key.\<close>

definition coherent :: "('m \<Rightarrow> 'k \<Rightarrow> 'v option) \<Rightarrow> ('k \<Rightarrow> 'e + 'v) \<Rightarrow> 'm \<Rightarrow> bool" where
  "coherent lookup compute m \<longleftrightarrow> (\<forall>k v. lookup m k = Some v \<longrightarrow> compute k = Inr v)"

locale memo_table =
  fixes lookup :: "'m \<Rightarrow> 'k \<Rightarrow> 'v option"
    and store :: "'k \<Rightarrow> 'v \<Rightarrow> 'm \<Rightarrow> 'm"
  assumes lookup_store:
    "lookup (store k v m) k' = Some w \<Longrightarrow> (k' = k \<and> w = v) \<or> lookup m k' = Some w"
begin

lemma coherent_store:
  "coherent lookup compute m \<Longrightarrow> compute k = Inr v \<Longrightarrow> coherent lookup compute (store k v m)"
  using lookup_store unfolding coherent_def by blast

lemma memo_call_Inr:
  assumes "coherent lookup compute m" "memo_call lookup store compute m k = Inr (v, m')"
  shows "compute k = Inr v \<and> coherent lookup compute m'"
proof (cases "lookup m k")
  case None
  with assms(2) have "compute k = Inr v" "m' = store k v m"
    by (auto simp: memo_call_def and_then_simps)
  with coherent_store [OF assms(1)] show ?thesis by blast
next
  case (Some w)
  with assms show ?thesis by (simp add: memo_call_def coherent_def)
qed

lemma memo_call_Inl:
  assumes "memo_call lookup store compute m k = Inl e"
  shows "compute k = Inl e"
  using assms by (auto simp: memo_call_def and_then_simps split: option.splits)

text \<open>A caller that only sees the value cannot tell the table from the computation.\<close>

lemma memo_call_value:
  assumes "coherent lookup compute m"
  shows "and_then (memo_call lookup store compute m k) (\<lambda>(v, m'). Inr v) = compute k"
proof (cases "lookup m k")
  case None
  then show ?thesis by (cases "compute k") (simp_all add: memo_call_def)
next
  case (Some w)
  with assms show ?thesis by (simp add: memo_call_def coherent_def)
qed

end

interpretation map_table: memo_table map_of map_set
  by unfold_locales (auto split: if_splits)

end
