(* ===== verification/BillingCompile.thy ===== *)
theory BillingCompile
  imports BillingParser Memo
begin

text \<open>
  The static half of \<open>billing-expression/parser.ts\<close> after parsing: the type checker, the search
  for request rules, the validation of fixed pricing and \<open>compileBillingExpression\<close> with its
  cache of the last 128 sources.  Two nodes are the same object exactly when they are equal
  values: a parsed tree never holds two nodes with the same span (\<open>distinct_postorder\<close>).
\<close>

section \<open>Type checking\<close>

datatype expression_type = TNumber | TString | TBoolean | TNil | TDynamic

definition type_name :: "expression_type \<Rightarrow> jsstr" where
  "type_name t = (case t of TNumber \<Rightarrow> js ''number'' | TString \<Rightarrow> js ''string''
     | TBoolean \<Rightarrow> js ''boolean'' | TNil \<Rightarrow> js ''nil'' | TDynamic \<Rightarrow> js ''dynamic'')"

text \<open>
  Reading a property of \<open>undefined\<close>, here of a missing argument, throws a \<open>TypeError\<close>, which
  \<open>expressionFailure\<close> reports with the code \<open>syntax\<close>.  The parser checks arities, so no
  compiled expression reaches it.
\<close>

definition undefined_access :: diagnostic where
  "undefined_access = diag Syntax (js ''TypeError'')"

definition requireType ::
  "(node \<Rightarrow> expression_type option) \<Rightarrow> node \<Rightarrow> expression_type \<Rightarrow> diagnostic + unit" where
  "requireType types child expected =
     (if types child \<noteq> Some expected \<and> types child \<noteq> Some TDynamic
      then Inl (diag_at TypeCode (type_name expected @ js '' operand'') (n_start child))
      else Inr ())"

definition requireArg ::
  "(node \<Rightarrow> expression_type option) \<Rightarrow> node list \<Rightarrow> nat \<Rightarrow> expression_type \<Rightarrow> diagnostic + unit" where
  "requireArg types args i expected =
     (if i < length args then requireType types (args ! i) expected else Inl undefined_access)"

fun requireAll ::
  "(node \<Rightarrow> expression_type option) \<Rightarrow> node list \<Rightarrow> expression_type \<Rightarrow> diagnostic + unit" where
  "requireAll types [] expected = Inr ()"
| "requireAll types (x # xs) expected =
     and_then (requireType types x expected) (\<lambda>_. requireAll types xs expected)"

definition literal_type :: "literal \<Rightarrow> expression_type" where
  "literal_type v = (case v of LNull \<Rightarrow> TNil | LNum _ \<Rightarrow> TNumber | LStr _ \<Rightarrow> TString
     | LBool _ \<Rightarrow> TBoolean)"

definition logical_ops :: "jsstr list" where
  "logical_ops = [js ''&&'', js ''||'']"

definition comparison_ops :: "jsstr list" where
  "comparison_ops = [js ''=='', js ''!='', js ''<'', js ''<='', js ''>'', js ''>='']"

definition numeric_functions :: "jsstr list" where
  "numeric_functions =
     [js ''fixed'', js ''min'', js ''max'', js ''abs'', js ''ceil'', js ''floor'']"

definition binary_type ::
  "(node \<Rightarrow> expression_type option) \<Rightarrow> jsstr \<Rightarrow> node \<Rightarrow> node \<Rightarrow> diagnostic + expression_type" where
  "binary_type types op l r =
     (if op \<in> set logical_ops then
        and_then (requireType types l TBoolean) (\<lambda>_.
        and_then (requireType types r TBoolean) (\<lambda>_. Inr TBoolean))
      else if op \<in> set comparison_ops then Inr TBoolean
      else if op = js ''+'' \<and> types l = Some TString \<and> types r = Some TString then Inr TString
      else
        and_then (requireType types l TNumber) (\<lambda>_.
        and_then (requireType types r TNumber) (\<lambda>_. Inr TNumber)))"

definition call_type ::
  "(node \<Rightarrow> expression_type option) \<Rightarrow> jsstr \<Rightarrow> node list \<Rightarrow> diagnostic + expression_type" where
  "call_type types name args =
     and_then
       (if name \<in> set ([js ''param'', js ''header'', js ''u''] @ TIME_FUNCTIONS)
        then requireArg types args 0 TString else Inr ())
       (\<lambda>_.
          if name = js ''header'' then Inr TString
          else if name = js ''has'' then
            and_then (requireArg types args 1 TString) (\<lambda>_. Inr TBoolean)
          else if name = js ''tier'' then
            and_then (requireArg types args 0 TString) (\<lambda>_.
            and_then (requireArg types args 1 TNumber) (\<lambda>_. Inr TNumber))
          else if name \<in> set TIME_FUNCTIONS then Inr TNumber
          else if name \<in> set numeric_functions then
            and_then (requireAll types args TNumber) (\<lambda>_. Inr TNumber)
          else Inr TDynamic)"

text \<open>The visitor of \<open>checkExpressionTypes\<close> at one node, over the types of the visited nodes.\<close>

fun node_type ::
  "(node \<Rightarrow> expression_type option) \<Rightarrow> node \<Rightarrow> diagnostic + expression_type" where
  "node_type types (Literal v i s e) = Inr (literal_type v)"
| "node_type types (Variable x s e) = Inr TNumber"
| "node_type types (Unary op x s e) =
     (let result = (if op = js ''!'' then TBoolean else TNumber) in
      and_then (requireType types x result) (\<lambda>_. Inr result))"
| "node_type types (Conditional c y n s e) =
     and_then (requireType types c TBoolean)
       (\<lambda>_. Inr (if types y = types n then (case types y of Some t \<Rightarrow> t | None \<Rightarrow> TDynamic)
                 else TDynamic))"
| "node_type types (Binary op l r s e) = binary_type types op l r"
| "node_type types (Call name args s e) = call_type types name args"

definition check_node ::
  "node \<Rightarrow> (node \<times> expression_type) list \<Rightarrow> diagnostic + (node \<times> expression_type) list" where
  "check_node n types =
     and_then (node_type (map_of types) n) (\<lambda>t. Inr (map_set n t types))"

definition checkExpressionTypes :: "node \<Rightarrow> diagnostic + unit" where
  "checkExpressionTypes ast = and_then (visitExpression ast check_node []) (\<lambda>_. Inr ())"

section \<open>Request rules and fixed pricing\<close>

record request_rule =
  r_node :: node
  r_condition :: node
  r_multiplier :: jsnum
  r_cond :: jsstr

definition containsPricingMarker :: "node \<Rightarrow> diagnostic + bool" where
  "containsPricingMarker n =
     and_then (expressionDependencies n)
       (\<lambda>(vars, calls). Inr (js ''tier'' \<in> set calls \<or> js ''fixed'' \<in> set calls))"

definition rule_functions :: "jsstr list" where
  "rule_functions = [js ''param'', js ''header''] @ TIME_FUNCTIONS"

text \<open>The visitor that collects the request rules of \<open>compileBillingExpression\<close>.\<close>

definition collect_rule ::
  "jsstr \<Rightarrow> node \<Rightarrow> request_rule list \<Rightarrow> diagnostic + request_rule list" where
  "collect_rule source n rules =
     (case n of
        Conditional c (Literal (LNum m) mi ms me) (Literal (LNum one) oi os oe) s e \<Rightarrow>
          if \<not> num_eq one (Fin 1) then Inr rules
          else
            and_then (expressionDependencies c) (\<lambda>(vars, calls).
              if \<not> list_ex (\<lambda>name. name \<in> set rule_functions) calls then Inr rules
              else Inr (rules @
                [\<lparr>r_node = n, r_condition = c, r_multiplier = m,
                  r_cond = slice (n_start c) (n_end c) source\<rparr>]))
      | _ \<Rightarrow> Inr rules)"

definition pricing_factor :: "node \<Rightarrow> request_rule list \<Rightarrow> diagnostic + bool" where
  "pricing_factor factor rules =
     (if (case factor of Variable name s e \<Rightarrow> name = js ''image_count'' | _ \<Rightarrow> False) then Inr True
      else (case find (\<lambda>candidate. r_node candidate = factor) rules of
          None \<Rightarrow> Inr False
        | Some rule \<Rightarrow>
            if num_le (Fin 0) (r_multiplier rule)
            then and_then (containsPricingMarker (r_condition rule)) (\<lambda>m. Inr (\<not> m))
            else Inr False))"

definition pricing_error :: "node \<Rightarrow> diagnostic" where
  "pricing_error n = diag_at TypeCode
     (js ''Use tier(name, fixed(amount)) with a finite, non-negative numeric literal; combine pricing branches only with conditions and request multipliers.'')
     (n_start n)"

definition fixed_amount_ok :: "node \<Rightarrow> bool" where
  "fixed_amount_ok amount =
     (case amount of
        Literal (LNum v) i s e \<Rightarrow>
          num_le (Fin 0) v \<and> is_finite (num_mul v (Fin 1000000))
      | _ \<Rightarrow> False)"

definition tier_price_ok :: "node \<Rightarrow> diagnostic + bool" where
  "tier_price_ok price =
     (case price of
        Call name pargs s e \<Rightarrow>
          if name = js ''fixed''
          then (case pargs of [] \<Rightarrow> Inl undefined_access
                | amount # _ \<Rightarrow> Inr (fixed_amount_ok amount))
          else and_then (containsPricingMarker price) (\<lambda>m. Inr (\<not> m))
      | _ \<Rightarrow> and_then (containsPricingMarker price) (\<lambda>m. Inr (\<not> m)))"

function validateFixedPricingTree :: "node \<Rightarrow> request_rule list \<Rightarrow> diagnostic + unit" where
  "validateFixedPricingTree (Conditional c y n s e) rules =
     and_then (containsPricingMarker c) (\<lambda>marked.
       if marked then Inl (pricing_error (Conditional c y n s e))
       else and_then (validateFixedPricingTree y rules) (\<lambda>_. validateFixedPricingTree n rules))"
| "validateFixedPricingTree (Binary op l r s e) rules =
     (if op = js ''*'' then
        and_then (pricing_factor r rules) (\<lambda>right_factor.
          if right_factor then validateFixedPricingTree l rules
          else and_then (pricing_factor l rules) (\<lambda>left_factor.
            if left_factor then validateFixedPricingTree r rules
            else Inl (pricing_error (Binary op l r s e))))
      else Inl (pricing_error (Binary op l r s e)))"
| "validateFixedPricingTree (Call name args s e) rules =
     (if name = js ''tier'' then
        (case args of
           label # price # _ \<Rightarrow>
             and_then (containsPricingMarker label) (\<lambda>marked.
               if marked then Inl (pricing_error (Call name args s e))
               else and_then (tier_price_ok price) (\<lambda>ok.
                 if ok then Inr () else Inl (pricing_error (Call name args s e))))
         | _ \<Rightarrow> Inl undefined_access)
      else Inl (pricing_error (Call name args s e)))"
| "validateFixedPricingTree (Literal v i s e) rules = Inl (pricing_error (Literal v i s e))"
| "validateFixedPricingTree (Variable x s e) rules = Inl (pricing_error (Variable x s e))"
| "validateFixedPricingTree (Unary op x s e) rules = Inl (pricing_error (Unary op x s e))"
  by pat_completeness auto
termination
  by (relation "measure (\<lambda>(n, rules). node_count n)") auto

section \<open>Compilation\<close>

record compiled_expression =
  c_source :: jsstr
  c_ast :: node
  c_variables :: "jsstr list"
  c_functions :: "jsstr list"
  c_rules :: "request_rule list"

datatype compilation_result = Ready compiled_expression | CompileFailed expression_failure

text \<open>The \<open>try\<close> block of \<open>compileBillingExpression\<close>.\<close>

definition compile_steps :: "jsstr \<Rightarrow> diagnostic + compiled_expression" where
  "compile_steps source =
     and_then (parse source) (\<lambda>ast.
     and_then (checkExpressionTypes ast) (\<lambda>_.
     and_then (expressionDependencies ast) (\<lambda>(vars, funs).
     and_then (visitExpression ast (collect_rule source) []) (\<lambda>rules.
     and_then (if js ''fixed'' \<in> set funs then validateFixedPricingTree ast rules else Inr ())
       (\<lambda>_. Inr \<lparr>c_source = source, c_ast = ast, c_variables = vars, c_functions = funs,
                 c_rules = rules\<rparr>)))))"

definition compile_fresh :: "jsstr \<Rightarrow> compilation_result" where
  "compile_fresh source =
     (case compile_steps source of
        Inl d \<Rightarrow> CompileFailed (expressionFailure d) | Inr c \<Rightarrow> Ready c)"

type_synonym compile_cache = "(jsstr \<times> compilation_result) list"

definition cache_store ::
  "jsstr \<Rightarrow> compilation_result \<Rightarrow> compile_cache \<Rightarrow> compile_cache" where
  "cache_store source result cache =
     map_set source result
       (case cache of
          (oldest, _) # _ \<Rightarrow> if 128 \<le> length cache then map_delete oldest cache else cache
        | [] \<Rightarrow> cache)"

text \<open>The compilation never throws, so the error summand of the memo call is empty.\<close>

definition compileBillingExpression ::
  "compile_cache \<Rightarrow> jsstr \<Rightarrow> compilation_result \<times> compile_cache" where
  "compileBillingExpression cache source =
     (case memo_call map_of cache_store (\<lambda>s. Inr (compile_fresh s) :: unit + _) cache source of
        Inr r \<Rightarrow> r | Inl _ \<Rightarrow> (compile_fresh source, cache))"

section \<open>Lemmas: nodes are identified by their spans\<close>

lemma postorder_within:
  "node_ok n \<Longrightarrow> m \<in> set (postorder n) \<Longrightarrow>
     n_start n \<le> n_start m \<and> n_end m \<le> n_end n \<and> n_start m < n_end m
     \<and> node_ok m \<and> (m = n \<or> span m < span n)"
proof (induction n rule: node_induct)
  case (1 n)
  from "1.prems"(2) consider "m = n" | c where "c \<in> set (children n)" "m \<in> set (postorder c)"
    by (subst (asm) postorder_children) auto
  then show ?case
  proof cases
    case 1
    with "1.prems" show ?thesis by (auto simp: node_ok_nonempty)
  next
    case (2 c)
    from "1.prems"(1) have sh: "shape_ok n" and ch: "list_all node_ok (children n)"
      by (simp_all add: node_ok_iff)
    with 2 have "node_ok c" by (auto simp: list_all_iff)
    from "1.IH" [OF 2(1) this 2(2)] ordered_bounds [of "n_start n" "n_end n" "children n" c] sh 2(1)
    show ?thesis by (auto simp: shape_ok_def)
  qed
qed

lemma distinct_siblings:
  "ordered lo hi ns \<Longrightarrow> list_all node_ok ns \<Longrightarrow> \<forall>n \<in> set ns. distinct (postorder n) \<Longrightarrow>
     distinct (concat (map postorder ns))"
proof (induction ns arbitrary: lo)
  case (Cons n ns)
  have "set (postorder n) \<inter> set (concat (map postorder ns)) = {}"
  proof (rule ccontr)
    assume "\<not> ?thesis"
    then obtain m n' where m: "m \<in> set (postorder n)" "n' \<in> set ns" "m \<in> set (postorder n')"
      by auto
    with Cons.prems have ok: "node_ok n" "node_ok n'" by (auto simp: list_all_iff)
    have "n_end n \<le> n_start n'"
      using ordered_bounds [of "n_end n" hi ns n'] Cons.prems(1) m(2) by simp
    with postorder_within [OF ok(1) m(1)] postorder_within [OF ok(2) m(3)] show False by linarith
  qed
  with Cons show ?case by (auto simp: list_all_iff)
qed simp

lemma distinct_postorder: "node_ok n \<Longrightarrow> distinct (postorder n)"
proof (induction n rule: node_induct)
  case (1 n)
  then have sh: "shape_ok n" and ch: "list_all node_ok (children n)"
    by (simp_all add: node_ok_iff)
  with "1.IH" have "distinct (concat (map postorder (children n)))"
    by (intro distinct_siblings) (auto simp: shape_ok_def list_all_iff)
  moreover have "n \<notin> set (postorder c)" if c: "c \<in> set (children n)" for c
  proof
    assume "n \<in> set (postorder c)"
    moreover have "node_ok c" "span c < span n" using ch sh c by (auto simp: list_all_iff shape_ok_def)
    ultimately show False using postorder_within [of c n] by auto
  qed
  ultimately show ?case by (subst postorder_children) auto
qed

text \<open>Two nodes of a parsed tree with the same span are the same node.\<close>

lemma same_span_same_node:
  "node_ok n \<Longrightarrow> a \<in> set (postorder n) \<Longrightarrow> b \<in> set (postorder n) \<Longrightarrow>
     n_start a = n_start b \<Longrightarrow> n_end a = n_end b \<Longrightarrow> a = b"
proof (induction n rule: node_induct)
  case (1 n)
  from "1.prems"(1) have sh: "shape_ok n" and ch: "list_all node_ok (children n)"
    by (simp_all add: node_ok_iff)
  have span: "span a = span b" using "1.prems" by (simp add: span_def)
  have inner: "\<exists>c \<in> set (children n). m \<in> set (postorder c) \<and> node_ok c \<and> span m < span n"
    if "m \<in> set (postorder n)" "m \<noteq> n" for m
    using that ch postorder_within [OF "1.prems"(1) that(1)]
    by (subst (asm) postorder_children) (auto simp: list_all_iff)
  show ?case
  proof (cases "a = n \<or> b = n")
    case True
    show ?thesis
    proof (rule ccontr)
      assume "a \<noteq> b"
      with True consider "a = n" "b \<noteq> n" | "b = n" "a \<noteq> n" by blast
      then show False
        using inner [of a] inner [of b] span "1.prems"(2,3) by cases auto
    qed
  next
    case False
    then obtain c d where c: "c \<in> set (children n)" "a \<in> set (postorder c)" "node_ok c"
      and d: "d \<in> set (children n)" "b \<in> set (postorder d)" "node_ok d"
      using inner [OF "1.prems"(2)] inner [OF "1.prems"(3)] by blast
    show ?thesis
    proof (cases "c = d")
      case True
      then show ?thesis using "1.IH" [OF c(1,3,2)] d "1.prems" by blast
    next
      case False
      have disj: "n_end x \<le> n_start y \<or> n_end y \<le> n_start x"
        if "ordered lo hi ns" "x \<in> set ns" "y \<in> set ns" "x \<noteq> y" for lo hi ns x y
        using that
      proof (induction ns arbitrary: lo)
        case (Cons z zs)
        then show ?case using ordered_bounds [of "n_end z" hi zs] by auto
      qed simp
      from disj [of _ _ "children n" c d] sh c(1) d(1) False
      have "n_end c \<le> n_start d \<or> n_end d \<le> n_start c" by (auto simp: shape_ok_def)
      with postorder_within [OF c(3,2)] postorder_within [OF d(3,2)] "1.prems"
      show ?thesis by linarith
    qed
  qed
qed

section \<open>Lemmas: dependencies\<close>

definition calls :: "jsstr \<Rightarrow> node \<Rightarrow> bool" where
  "calls f n \<longleftrightarrow> (\<exists>args s e. Call f args s e \<in> set (postorder n))"

definition uses :: "jsstr \<Rightarrow> node \<Rightarrow> bool" where
  "uses x n \<longleftrightarrow> (\<exists>s e. Variable x s e \<in> set (postorder n))"

lemma calls_children: "calls f n \<longleftrightarrow> (\<exists>args s e. n = Call f args s e) \<or> (\<exists>c \<in> set (children n). calls f c)"
  unfolding calls_def by (subst postorder_children) auto

lemma dependencies_fold:
  "foldM (\<lambda>part (vars, funs).
      (case part of Variable name s e \<Rightarrow> Inr (set_add vars name, funs)
       | Call name args s e \<Rightarrow> Inr (vars, set_add funs name) | _ \<Rightarrow> Inr (vars, funs))) ns (vs, fs)
   = (Inr r :: diagnostic + _) \<Longrightarrow>
   set (fst r) = set vs \<union> {x. \<exists>s e. Variable x s e \<in> set ns} \<and>
   set (snd r) = set fs \<union> {f. \<exists>args s e. Call f args s e \<in> set ns}"
proof (induction ns arbitrary: vs fs)
  case (Cons n ns)
  then show ?case by (cases n) (auto simp: set_add_def split: if_splits)
qed auto

lemma dependencies_total:
  "\<exists>r. foldM (\<lambda>part (vars, funs).
      (case part of Variable name s e \<Rightarrow> Inr (set_add vars name, funs)
       | Call name args s e \<Rightarrow> Inr (vars, set_add funs name) | _ \<Rightarrow> Inr (vars, funs))) ns (vs, fs)
   = (Inr r :: diagnostic + _)"
proof (induction ns arbitrary: vs fs)
  case (Cons n ns)
  then show ?case by (cases n) auto
qed simp

lemma expressionDependencies_Inr:
  assumes "expressionDependencies n = Inr (vs, fs)"
  shows "height n \<le> 256" "x \<in> set vs \<longleftrightarrow> uses x n" "f \<in> set fs \<longleftrightarrow> calls f n"
  using assms dependencies_fold [of "postorder n" "[]" "[]" "(vs, fs)"]
  by (auto simp: expressionDependencies_def visit_Inr uses_def calls_def)

lemma expressionDependencies_total:
  "height n \<le> 256 \<Longrightarrow> \<exists>r. expressionDependencies n = Inr r"
  using dependencies_total [of "postorder n" "[]" "[]"]
  by (simp add: expressionDependencies_def visit_postorder)

lemma containsPricingMarker_Inr:
  "containsPricingMarker n = Inr b \<Longrightarrow> b = (calls (js ''tier'') n \<or> calls (js ''fixed'') n)"
  using expressionDependencies_Inr(3)
  by (fastforce simp: containsPricingMarker_def and_then_simps)

section \<open>Lemmas: the type checker and its recursive specification\<close>

definition binary_result :: "jsstr \<Rightarrow> expression_type \<Rightarrow> expression_type \<Rightarrow> expression_type" where
  "binary_result op a b =
     (if op \<in> set logical_ops \<or> op \<in> set comparison_ops then TBoolean
      else if op = js ''+'' \<and> a = TString \<and> b = TString then TString else TNumber)"

definition call_result :: "jsstr \<Rightarrow> expression_type" where
  "call_result name =
     (if name = js ''header'' then TString else if name = js ''has'' then TBoolean
      else if name = js ''tier'' \<or> name \<in> set TIME_FUNCTIONS \<or> name \<in> set numeric_functions
      then TNumber else TDynamic)"

fun type_of :: "node \<Rightarrow> expression_type" where
  "type_of (Literal v i s e) = literal_type v"
| "type_of (Variable x s e) = TNumber"
| "type_of (Unary op x s e) = (if op = js ''!'' then TBoolean else TNumber)"
| "type_of (Conditional c y n s e) = (if type_of y = type_of n then type_of y else TDynamic)"
| "type_of (Binary op l r s e) = binary_result op (type_of l) (type_of r)"
| "type_of (Call name args s e) = call_result name"

definition typed :: "node \<Rightarrow> bool" where
  "typed n \<longleftrightarrow> node_type (\<lambda>c. Some (type_of c)) n = Inr (type_of n)"

definition well_typed :: "node \<Rightarrow> bool" where
  "well_typed n \<longleftrightarrow> list_all typed (postorder n)"

lemma node_type_result:
  "node_type (\<lambda>c. Some (type_of c)) n = Inr t \<Longrightarrow> t = type_of n"
proof (cases n)
  case (Binary op l r s e)
  then show "node_type (\<lambda>c. Some (type_of c)) n = Inr t \<Longrightarrow> ?thesis"
    by (auto simp: binary_type_def binary_result_def and_then_simps split: if_splits)
next
  case (Call f args s e)
  assume "node_type (\<lambda>c. Some (type_of c)) n = Inr t"
  with Call have "call_type (\<lambda>c. Some (type_of c)) f args = Inr t" by simp
  then show ?thesis
    unfolding call_type_def Call type_of.simps call_result_def and_then_eq_Inr
    by (elim exE conjE) (simp only: and_then_eq_Inr split: if_splits; auto)
qed (auto simp: and_then_simps Let_def split: if_splits)

lemma requireType_cong: "types c = types' c \<Longrightarrow> requireType types c t = requireType types' c t"
  by (simp add: requireType_def)

lemma requireAll_cong:
  "\<forall>c \<in> set cs. types c = types' c \<Longrightarrow> requireAll types cs t = requireAll types' cs t"
  by (induction cs) (simp_all add: requireType_def)

lemma requireArg_cong:
  "\<forall>c \<in> set cs. types c = types' c \<Longrightarrow> requireArg types cs i t = requireArg types' cs i t"
  by (simp add: requireArg_def requireType_def)

lemma node_type_cong:
  assumes "\<forall>c \<in> set (children n). types c = types' c"
  shows "node_type types n = node_type types' n"
proof (cases n)
  case (Call f args s e)
  with assms have "requireArg types args = requireArg types' args"
    "requireAll types args = requireAll types' args"
    by (simp_all add: fun_eq_iff requireArg_cong requireAll_cong)
  then show ?thesis by (simp only: Call node_type.simps call_type_def)
qed (use assms in \<open>simp_all add: binary_type_def requireType_def\<close>)

text \<open>
  The loop keeps the invariant that the table holds the types of the visited nodes; a node is
  visited after its children.
\<close>

lemma check_fold:
  assumes "\<forall>m \<in> set seen. map_of types m = Some (type_of m)"
    and "\<And>pre m post. ns = pre @ m # post \<Longrightarrow> set (children m) \<subseteq> set seen \<union> set pre"
  shows "(\<exists>types'. foldM check_node ns types = Inr types') \<longleftrightarrow> list_all typed ns"
  using assms
proof (induction ns arbitrary: types seen)
  case (Cons n ns)
  have "\<forall>c \<in> set (children n). map_of types c = Some (type_of c)"
    using Cons.prems(1) Cons.prems(2) [of "[]" n ns] by auto
  then have nt: "node_type (map_of types) n = node_type (\<lambda>c. Some (type_of c)) n"
    by (intro node_type_cong) simp
  show ?case
  proof (cases "typed n")
    case True
    then have "check_node n types = Inr (map_set n (type_of n) types)"
      by (simp add: check_node_def nt typed_def)
    moreover have "(\<exists>types'. foldM check_node ns (map_set n (type_of n) types) = Inr types')
        \<longleftrightarrow> list_all typed ns"
    proof (rule Cons.IH [of "n # seen"])
      show "\<forall>m \<in> set (n # seen). map_of (map_set n (type_of n) types) m = Some (type_of m)"
        using Cons.prems(1) by auto
      show "set (children m) \<subseteq> set (n # seen) \<union> set pre" if "ns = pre @ m # post" for pre m post
        using Cons.prems(2) [of "n # pre" m post] that by auto
    qed
    ultimately show ?thesis using True by simp
  next
    case False
    then have "\<exists>e. check_node n types = Inl e"
      using node_type_result [of n] unfolding check_node_def nt typed_def
      by (cases "node_type (\<lambda>c. Some (type_of c)) n") auto
    with False show ?thesis by auto
  qed
qed simp

lemma postorder_children_before:
  "postorder n = pre @ m # post \<Longrightarrow> set (children m) \<subseteq> set pre"
proof (induction n arbitrary: pre m post rule: node_induct)
  case (1 n)
  have *: "set (children m) \<subseteq> set pre"
    if "concat (map postorder cs) = pre @ m # post" "set cs \<subseteq> set (children n)" for cs pre post
    using that
  proof (induction cs arbitrary: pre)
    case (Cons c cs)
    show ?case
    proof (cases "length pre < length (postorder c)")
      case True
      with Cons.prems(1) obtain post' where "postorder c = pre @ m # post'"
        by (auto simp: append_eq_append_conv2 append_eq_Cons_conv Cons_eq_append_conv)
      with "1.IH" [of c pre m post'] Cons.prems(2) show ?thesis by simp
    next
      case False
      with Cons.prems(1) obtain pre' where "pre = postorder c @ pre'"
        "concat (map postorder cs) = pre' @ m # post"
        by (auto simp: append_eq_append_conv2)
      with Cons.IH [of pre'] Cons.prems(2) show ?thesis by auto
    qed
  qed simp
  show ?case
  proof (cases "post = []")
    case True
    with "1.prems" postorder_children [of n] have "m = n" "pre = concat (map postorder (children n))"
      by auto
    then show ?thesis by auto
  next
    case False
    then obtain post' x where "post = post' @ [x]" by (cases post rule: rev_cases) auto
    with "1.prems" postorder_children [of n] have "concat (map postorder (children n)) = pre @ m # post'"
      by auto
    from * [OF this] show ?thesis by simp
  qed
qed

lemma checkExpressionTypes_iff:
  "checkExpressionTypes n = Inr () \<longleftrightarrow> height n \<le> 256 \<and> well_typed n"
proof -
  have "(\<exists>types. foldM check_node (postorder n) [] = Inr types) \<longleftrightarrow> list_all typed (postorder n)"
    by (rule check_fold [where seen = "[]"]) (auto dest: postorder_children_before)
  then show ?thesis
    by (auto simp: checkExpressionTypes_def and_then_simps visit_Inr well_typed_def)
qed

section \<open>Lemmas: request rules\<close>

text \<open>The conditionals that count as request rules, and the rule each gives.\<close>

definition is_rule :: "node \<Rightarrow> bool" where
  "is_rule n \<longleftrightarrow>
     (case n of
        Conditional c (Literal (LNum m) mi ms me) (Literal (LNum one) oi os oe) s e \<Rightarrow>
          num_eq one (Fin 1) \<and> (\<exists>f \<in> set rule_functions. calls f c)
      | _ \<Rightarrow> False)"

definition rule_of :: "jsstr \<Rightarrow> node \<Rightarrow> request_rule" where
  "rule_of source n =
     (case n of
        Conditional c (Literal (LNum m) mi ms me) no s e \<Rightarrow>
          \<lparr>r_node = n, r_condition = c, r_multiplier = m,
           r_cond = slice (n_start c) (n_end c) source\<rparr>
      | _ \<Rightarrow> \<lparr>r_node = n, r_condition = n, r_multiplier = NaN, r_cond = []\<rparr>)"

lemma collect_rule_eq:
  assumes "height n \<le> 256"
  shows "collect_rule source n rules =
    Inr (if is_rule n then rules @ [rule_of source n] else rules)"
proof (cases "\<exists>c m mi ms me one oi os oe s e.
    n = Conditional c (Literal (LNum m) mi ms me) (Literal (LNum one) oi os oe) s e")
  case True
  then obtain c m mi ms me one oi os oe s e where
    n: "n = Conditional c (Literal (LNum m) mi ms me) (Literal (LNum one) oi os oe) s e" by blast
  from assms n have "height c \<le> 256" by simp
  then obtain vs fs where d: "expressionDependencies c = Inr (vs, fs)"
    using expressionDependencies_total by (metis surj_pair)
  have "list_ex (\<lambda>name. name \<in> set rule_functions) fs \<longleftrightarrow> (\<exists>f \<in> set rule_functions. calls f c)"
    using expressionDependencies_Inr(3) [OF d] by (auto simp: list_ex_iff)
  then show ?thesis
    by (simp add: n d collect_rule_def is_rule_def rule_of_def)
next
  case False
  then show ?thesis
    by (auto simp: collect_rule_def is_rule_def split: node.splits literal.splits)
qed

lemma collect_rules_fold:
  "\<forall>n \<in> set ns. height n \<le> 256 \<Longrightarrow>
     foldM (collect_rule source) ns rules = Inr (rules @ map (rule_of source) (filter is_rule ns))"
  by (induction ns arbitrary: rules) (simp_all add: collect_rule_eq)

lemma height_postorder: "m \<in> set (postorder n) \<Longrightarrow> height m \<le> height n"
proof (induction n rule: node_induct)
  case (1 n)
  from "1.prems" consider "m = n" | c where "c \<in> set (children n)" "m \<in> set (postorder c)"
    by (subst (asm) postorder_children) auto
  then show ?case
  proof cases
    case (2 c)
    with "1.IH" [OF 2] height_child [OF 2(1)] show ?thesis by simp
  qed simp
qed

lemma collect_rules:
  assumes "height n \<le> 256"
  shows "visitExpression n (collect_rule source) [] =
    Inr (map (rule_of source) (filter is_rule (postorder n)))"
  using assms height_postorder [of _ n]
  by (subst visit_postorder) (auto intro!: collect_rules_fold [THEN trans] dest: le_trans)

section \<open>Lemmas: fixed pricing\<close>

definition fixed_calls_ok :: "node \<Rightarrow> bool" where
  "fixed_calls_ok n \<longleftrightarrow>
     (\<forall>args s e. Call (js ''fixed'') args s e \<in> set (postorder n) \<longrightarrow>
        (\<exists>amount. args = [amount] \<and> fixed_amount_ok amount))"

lemma fixed_calls_ok_children:
  assumes "\<forall>c \<in> set (children n). fixed_calls_ok c" "\<forall>args s e. n \<noteq> Call (js ''fixed'') args s e"
  shows "fixed_calls_ok n"
  using assms unfolding fixed_calls_ok_def by (subst postorder_children) (auto, blast)

lemma no_fixed_ok: "\<not> calls (js ''fixed'') n \<Longrightarrow> fixed_calls_ok n"
  by (auto simp: fixed_calls_ok_def calls_def)

lemma pricing_factor_ok:
  assumes "pricing_factor factor (map (rule_of source) (filter is_rule ns)) = Inr True"
  shows "fixed_calls_ok factor"
proof (cases "\<exists>s e. factor = Variable (js ''image_count'') s e")
  case True
  then show ?thesis by (auto simp: fixed_calls_ok_def)
next
  case False
  then have nv: "\<not> (case factor of Variable name s e \<Rightarrow> name = js ''image_count'' | _ \<Rightarrow> False)"
    by (cases factor) auto
  with assms obtain rule where
    f: "find (\<lambda>candidate. r_node candidate = factor) (map (rule_of source) (filter is_rule ns)) = Some rule"
    and cm: "containsPricingMarker (r_condition rule) = Inr False"
    by (auto simp: pricing_factor_def and_then_simps split: option.splits if_splits)
  from f have rn: "r_node rule = factor" and
    "rule \<in> set (map (rule_of source) (filter is_rule ns))"
    by (metis (mono_tags, lifting) find_Some_iff nth_mem)+
  then obtain n where n: "is_rule n" "rule = rule_of source n" by auto
  then obtain c m mi ms me one oi os oe s e where
    n': "n = Conditional c (Literal (LNum m) mi ms me) (Literal (LNum one) oi os oe) s e"
    by (auto simp: is_rule_def split: node.splits literal.splits)
  from containsPricingMarker_Inr [OF cm] n(2) n' have "\<not> calls (js ''fixed'') c"
    by (simp add: rule_of_def)
  then have "\<not> calls (js ''fixed'') factor"
    using rn n(2) n' by (auto simp: rule_of_def calls_children [of _ "Conditional _ _ _ _ _"]
        calls_children [of _ "Literal _ _ _ _"])
  then show ?thesis by (rule no_fixed_ok)
qed

lemma tier_price_fixed:
  assumes "tier_price_ok price = Inr True" "node_ok price"
  shows "fixed_calls_ok price"
proof (cases "\<exists>args s e. price = Call (js ''fixed'') args s e")
  case True
  then obtain args s e where p: "price = Call (js ''fixed'') args s e" by blast
  with assms(2) have "length args = 1"
    by (simp add: node_ok_iff [of "Call (js ''fixed'') args s e"] shape_ok_def BILLING_FUNCTIONS_def)
  then obtain a where a: "args = [a]" by (cases args) auto
  with assms(1) p have ok: "fixed_amount_ok a" by (simp add: tier_price_ok_def)
  then obtain v i s' e' where "a = Literal (LNum v) i s' e'"
    by (auto simp: fixed_amount_ok_def split: node.splits literal.splits)
  with p a ok show ?thesis by (auto simp: fixed_calls_ok_def)
next
  case False
  with assms(1) have "containsPricingMarker price = Inr False"
    by (auto simp: tier_price_ok_def and_then_simps split: node.splits if_splits)
  from containsPricingMarker_Inr [OF this] show ?thesis by (intro no_fixed_ok) simp
qed

lemma validate_fixed_calls:
  assumes "validateFixedPricingTree n (map (rule_of source) (filter is_rule ns)) = Inr ()" "node_ok n"
  shows "fixed_calls_ok n"
  using assms
proof (induction n rule: node_induct)
  case (1 n)
  from "1.prems"(2) have ch: "\<forall>c \<in> set (children n). node_ok c"
    by (simp add: node_ok_iff [of n] list_all_iff)
  show ?case
  proof (cases n)
    case (Conditional c y x s e)
    with "1.prems"(1) have "containsPricingMarker c = Inr False"
      and yx: "validateFixedPricingTree y (map (rule_of source) (filter is_rule ns)) = Inr ()"
        "validateFixedPricingTree x (map (rule_of source) (filter is_rule ns)) = Inr ()"
      by (auto simp: and_then_simps split: if_splits)
    then have "\<not> calls (js ''fixed'') c" using containsPricingMarker_Inr by blast
    then have "fixed_calls_ok c" by (rule no_fixed_ok)
    with "1.IH" [OF _ yx(1)] "1.IH" [OF _ yx(2)] ch Conditional show ?thesis
      by (intro fixed_calls_ok_children) auto
  next
    case (Binary op l r s e)
    with "1.prems"(1) consider
        "pricing_factor r (map (rule_of source) (filter is_rule ns)) = Inr True"
        "validateFixedPricingTree l (map (rule_of source) (filter is_rule ns)) = Inr ()"
      | "pricing_factor l (map (rule_of source) (filter is_rule ns)) = Inr True"
        "validateFixedPricingTree r (map (rule_of source) (filter is_rule ns)) = Inr ()"
      by (auto simp: and_then_simps split: if_splits)
    then have lr: "fixed_calls_ok l \<and> fixed_calls_ok r"
    proof cases
      case 1
      from 1(2) have "fixed_calls_ok l" using "1.IH" [of l] ch Binary by simp
      with pricing_factor_ok [OF 1(1)] show ?thesis by simp
    next
      case 2
      from 2(2) have "fixed_calls_ok r" using "1.IH" [of r] ch Binary by simp
      with pricing_factor_ok [OF 2(1)] show ?thesis by simp
    qed
    show ?thesis by (rule fixed_calls_ok_children) (use lr Binary in simp_all)
  next
    case (Call f args s e)
    from "1.prems"(2) Call have "map_of BILLING_FUNCTIONS f = Some (length args)"
      by (simp add: node_ok_iff [of "Call f args s e"] shape_ok_def)
    with "1.prems"(1) Call have f: "f = js ''tier''" and len: "length args = 2"
      by (auto simp: BILLING_FUNCTIONS_def split: if_splits)
    then obtain label price where args: "args = [label, price]"
      by (auto simp: length_Suc_conv numeral_2_eq_2)
    with "1.prems"(1) Call f have cm: "containsPricingMarker label = Inr False"
      and tp: "tier_price_ok price = Inr True"
      by (auto simp: and_then_simps split: if_splits)
    then have "fixed_calls_ok label" using containsPricingMarker_Inr no_fixed_ok by blast
    moreover have "fixed_calls_ok price" using tier_price_fixed [OF tp] ch Call args by simp
    ultimately show ?thesis using Call args f by (intro fixed_calls_ok_children) auto
  qed (use "1.prems"(1) in auto)
qed

section \<open>Lemmas: compilation and its cache\<close>

lemma compile_steps_Inr:
  assumes "compile_steps source = Inr c"
  shows "parse source = Inr (c_ast c)" "height (c_ast c) \<le> 256" "well_typed (c_ast c)"
    "c_source c = source" "f \<in> set (c_functions c) \<longleftrightarrow> calls f (c_ast c)"
    "x \<in> set (c_variables c) \<longleftrightarrow> uses x (c_ast c)"
    "c_rules c = map (rule_of source) (filter is_rule (postorder (c_ast c)))"
    "js ''fixed'' \<in> set (c_functions c) \<Longrightarrow> validateFixedPricingTree (c_ast c) (c_rules c) = Inr ()"
proof -
  from assms obtain ast vs fs rules where
    p: "parse source = Inr ast" and t: "checkExpressionTypes ast = Inr ()" and
    d: "expressionDependencies ast = Inr (vs, fs)" and
    r: "visitExpression ast (collect_rule source) [] = Inr rules" and
    v: "(if js ''fixed'' \<in> set fs then validateFixedPricingTree ast rules else Inr ()) = Inr ()" and
    c: "c = \<lparr>c_source = source, c_ast = ast, c_variables = vs, c_functions = fs, c_rules = rules\<rparr>"
    by (auto simp: compile_steps_def and_then_simps)
  note ht = checkExpressionTypes_iff [THEN iffD1, OF t]
  show "parse source = Inr (c_ast c)" "height (c_ast c) \<le> 256" "well_typed (c_ast c)"
    "c_source c = source" using p ht c by simp_all
  show "f \<in> set (c_functions c) \<longleftrightarrow> calls f (c_ast c)" "x \<in> set (c_variables c) \<longleftrightarrow> uses x (c_ast c)"
    using expressionDependencies_Inr [OF d] c by simp_all
  show "c_rules c = map (rule_of source) (filter is_rule (postorder (c_ast c)))"
    using r collect_rules ht c by simp
  show "validateFixedPricingTree (c_ast c) (c_rules c) = Inr ()" if "js ''fixed'' \<in> set (c_functions c)"
    using v c that by simp
qed

lemma compile_fresh_Ready: "compile_fresh source = Ready c \<longleftrightarrow> compile_steps source = Inr c"
  by (auto simp: compile_fresh_def split: sum.splits)

interpretation cache_table: memo_table map_of cache_store
proof
  fix k :: jsstr and v m k' w
  assume "map_of (cache_store k v m) k' = Some w"
  then show "(k' = k \<and> w = v) \<or> map_of m k' = Some w"
    by (auto simp: cache_store_def map_of_map_delete split: list.splits if_splits)
qed

definition cache_ok :: "compile_cache \<Rightarrow> bool" where
  "cache_ok cache \<longleftrightarrow>
     coherent map_of (\<lambda>s. Inr (compile_fresh s) :: unit + _) cache
     \<and> distinct (map fst cache) \<and> length cache \<le> 128"

lemma keys_map_delete: "map fst (map_delete k m) = filter (\<lambda>k'. k' \<noteq> k) (map fst m)"
  by (induction m) (auto simp: map_delete_def)

lemma cache_store_ok:
  assumes "distinct (map fst cache)" "length cache \<le> 128"
  shows "distinct (map fst (cache_store k v cache)) \<and> length (cache_store k v cache) \<le> 128"
proof (cases cache)
  case Nil
  then show ?thesis by (simp add: cache_store_def)
next
  case (Cons x xs)
  obtain k0 v0 where x: "x = (k0, v0)" by (cases x)
  show ?thesis
  proof (cases "128 \<le> length cache")
    case True
    have "map fst (map_delete k0 cache) = map fst xs"
      using assms(1) by (auto simp: keys_map_delete Cons x filter_id_conv)
    then have "length (map_delete k0 cache) = length xs" "distinct (map fst (map_delete k0 cache))"
      using assms(1) Cons by (metis length_map, simp)
    with True assms Cons x show ?thesis
      by (simp add: cache_store_def distinct_map_set length_map_set)
  next
    case False
    with assms Cons x show ?thesis
      by (simp add: cache_store_def distinct_map_set length_map_set del: map_set.simps)
  qed
qed

lemma compile_cached:
  assumes "cache_ok cache"
  shows "fst (compileBillingExpression cache source) = compile_fresh source"
    "cache_ok (snd (compileBillingExpression cache source))"
proof -
  let ?compute = "\<lambda>s. Inr (compile_fresh s) :: unit + compilation_result"
  have coh: "coherent map_of ?compute cache" using assms by (simp add: cache_ok_def)
  obtain r cache' where m: "memo_call map_of cache_store ?compute cache source = Inr (r, cache')"
    by (cases "map_of cache source") (auto simp: memo_call_def)
  from cache_table.memo_call_Inr [OF coh m]
  have r: "r = compile_fresh source" "coherent map_of ?compute cache'" by simp_all
  have "cache' = cache \<or> cache' = cache_store source r cache"
    using m by (auto simp: memo_call_def split: option.splits)
  with assms cache_store_ok [of cache source r] r have "cache_ok cache'"
    by (auto simp: cache_ok_def)
  with m r show "fst (compileBillingExpression cache source) = compile_fresh source"
    "cache_ok (snd (compileBillingExpression cache source))"
    by (simp_all add: compileBillingExpression_def)
qed

end
