(* ===== verification/JsValue.thy ===== *)
theory JsValue
  imports JsPrelude JsNumber
begin

text \<open>
  JavaScript values of type \<open>unknown\<close> as the console meets them: the primitives, arrays and plain
  objects.  The entries of an object are listed in the order of \<open>Object.entries\<close>.
\<close>

datatype jsval =
    JUndef
  | JNull
  | JBool bool
  | JNum jsnum
  | JStr jsstr
  | JArr "jsval list"
  | JObj "(jsstr \<times> jsval) list"

text \<open>\<open>value == null\<close> and \<open>value ?? null\<close>.\<close>

definition nullish :: "jsval \<Rightarrow> bool" where
  "nullish v \<longleftrightarrow> v = JUndef \<or> v = JNull"

definition or_null :: "jsval \<Rightarrow> jsval" where
  "or_null v = (if nullish v then JNull else v)"

text \<open>\<open>typeof value === 'object'\<close>, which holds of \<open>null\<close> too.\<close>

definition typeof_object :: "jsval \<Rightarrow> bool" where
  "typeof_object v = (case v of JNull \<Rightarrow> True | JArr _ \<Rightarrow> True | JObj _ \<Rightarrow> True | _ \<Rightarrow> False)"

text \<open>\<open>xs[i]\<close> of an array, \<open>undefined\<close> past its end.\<close>

definition array_get :: "jsval list \<Rightarrow> nat \<Rightarrow> jsval" where
  "array_get xs i = (if i < length xs then xs ! i else JUndef)"

text \<open>\<open>a === b\<close>, for operands of which at most one is an array or an object.\<close>

fun strict_eq :: "jsval \<Rightarrow> jsval \<Rightarrow> bool" where
  "strict_eq (JNum a) (JNum b) = num_eq a b"
| "strict_eq a b = (a = b)"

text \<open>\<open>xs.map(f)\<close> for a function that may throw.\<close>

fun mapM :: "('a \<Rightarrow> 'e + 'b) \<Rightarrow> 'a list \<Rightarrow> 'e + 'b list" where
  "mapM f [] = Inr []"
| "mapM f (x # xs) = and_then (f x) (\<lambda>y. and_then (mapM f xs) (\<lambda>ys. Inr (y # ys)))"

lemma mapM_cong [fundef_cong]:
  "xs = ys \<Longrightarrow> (\<And>x. x \<in> set ys \<Longrightarrow> f x = g x) \<Longrightarrow> mapM f xs = mapM g ys"
  by (induction ys arbitrary: xs) auto

lemma mapM_Inr: "mapM f xs = Inr ys \<longleftrightarrow> list_all2 (\<lambda>x y. f x = Inr y) xs ys"
  by (induction xs arbitrary: ys) (auto simp: and_then_simps list_all2_Cons1)

lemma mapM_Inl: "mapM f xs = Inl e \<Longrightarrow> \<exists>x \<in> set xs. f x = Inl e"
  by (induction xs) (auto simp: and_then_simps)

lemma size_JArr_elem: "x \<in> set xs \<Longrightarrow> size x < size (JArr xs)"
  by (induction xs) auto

lemma size_JObj_entry: "(k, v) \<in> set es \<Longrightarrow> size v < size (JObj es)"
  by (induction es) auto

end
