(* ===== verification/JsDate.thy ===== *)
theory JsDate
  imports Main "HOL-Library.Code_Target_Nat"
begin

text \<open>
  The UTC getters of \<open>Date\<close>.  A valid date is its time value, the milliseconds since 1970-01-01;
  the day of the year and of the month are those of the proleptic Gregorian calendar, counted
  in 400-year cycles of 146097 days from 1 March of the year 0, which is 719468 days
  before the epoch.
\<close>

definition day_number :: "int \<Rightarrow> int" where
  "day_number t = t div 86400000"

definition utc_hours :: "int \<Rightarrow> int" where
  "utc_hours t = (t mod 86400000) div 3600000"

definition utc_minutes :: "int \<Rightarrow> int" where
  "utc_minutes t = (t mod 3600000) div 60000"

definition utc_day :: "int \<Rightarrow> int" where
  "utc_day t = (day_number t + 4) mod 7"

text \<open>
  The day of the 400-year cycle, and the day of the year from 1 March.  A cycle is four centuries
  of 36524 days and one more day, a century is 4-year groups of 1461 days, a group is four years
  of 365 days and one more day: the leap day is the last one.
\<close>

definition day_of_cycle :: "int \<Rightarrow> int" where
  "day_of_cycle t = (day_number t + 719468) mod 146097"

definition day_of_year :: "int \<Rightarrow> int" where
  "day_of_year d =
     (let r = (d - 36524 * min 3 (d div 36524)) mod 1461 in r - 365 * min 3 (r div 365))"

definition march_month :: "int \<Rightarrow> int" where
  "march_month d = (5 * day_of_year d + 2) div 153"

definition utc_date :: "int \<Rightarrow> int" where
  "utc_date t = (let d = day_of_cycle t in day_of_year d - (153 * march_month d + 2) div 5 + 1)"

text \<open>\<open>getUTCMonth\<close> counts from 0.\<close>

definition utc_month :: "int \<Rightarrow> int" where
  "utc_month t = (march_month (day_of_cycle t) + 2) mod 12"

lemma utc_hours_range: "0 \<le> utc_hours t \<and> utc_hours t < 24"
proof -
  have "0 \<le> t mod 86400000" "t mod 86400000 < 86400000" by simp_all
  then show ?thesis unfolding utc_hours_def by (simp add: div_less_iff_less_mult pos_imp_zdiv_nonneg_iff)
qed

lemma utc_minutes_range: "0 \<le> utc_minutes t \<and> utc_minutes t < 60"
proof -
  have "0 \<le> t mod 3600000" "t mod 3600000 < 3600000" by simp_all
  then show ?thesis unfolding utc_minutes_def by (simp add: div_less_iff_less_mult pos_imp_zdiv_nonneg_iff)
qed

lemma utc_day_range: "0 \<le> utc_day t \<and> utc_day t < 7"
  by (simp add: utc_day_def)

lemma utc_month_range: "0 \<le> utc_month t \<and> utc_month t < 12"
  by (simp add: utc_month_def)

lemma day_of_year_range: "0 \<le> day_of_year d \<and> day_of_year d \<le> 365"
proof -
  define r where "r = (d - 36524 * min 3 (d div 36524)) mod 1461"
  have "0 \<le> r" "r < 1461" by (simp_all add: r_def)
  moreover have "365 * (r div 365) \<le> r" "r < 365 * (r div 365) + 365" by presburger+
  moreover have "day_of_year d = r - 365 * min 3 (r div 365)"
    by (simp add: day_of_year_def r_def Let_def)
  ultimately show ?thesis by linarith
qed

lemma utc_date_range: "1 \<le> utc_date t \<and> utc_date t \<le> 31"
proof -
  define y where "y = day_of_year (day_of_cycle t)"
  define m where "m = (5 * y + 2) div 153"
  define k where "k = (153 * m + 2) div 5"
  have "153 * m \<le> 5 * y + 2" "5 * y + 2 < 153 * m + 153" unfolding m_def by presburger+
  moreover have "5 * k \<le> 153 * m + 2" "153 * m + 2 < 5 * k + 5" unfolding k_def by presburger+
  ultimately have "0 \<le> y - k \<and> y - k \<le> 30" by linarith
  moreover have "utc_date t = y - k + 1"
    by (simp add: utc_date_def y_def k_def m_def march_month_def Let_def)
  ultimately show ?thesis by simp
qed

end
