(* ===== verification/BillingRuntime.thy ===== *)
theory BillingRuntime
  imports BillingCompile JsValue JsDate
begin

text \<open>
  The evaluator of \<open>billing-expression/runtime.ts\<close>.  The fields that the class
  \<open>BillingRuntime\<close> mutates are the record \<open>runtime_state\<close>, the read-only ones the record
  \<open>runtime_env\<close>; a method is a function from the state to a diagnostic or a value with the new
  state.  The methods take \<open>evaluate\<close> as an argument, and \<open>evaluate\<close> closes the recursion, which
  descends to the children of a node.

  The engine's own data are the fields of the record \<open>host\<close>: the Unicode lower-case mapping, the
  time-zone database behind \<open>Intl.DateTimeFormat\<close> and the clock.
\<close>

section \<open>The host and the context\<close>

text \<open>
  \<open>h_zone z\<close> is \<open>None\<close> when the constructor rejects the zone, and otherwise the resolved zone name
  with the parts that \<open>formatToParts\<close> gives at a time.
\<close>

record host =
  h_lower :: "jsstr \<Rightarrow> jsstr"
  h_zone :: "jsstr \<Rightarrow> (jsstr \<times> (int \<Rightarrow> (jsstr \<times> jsstr) list)) option"
  h_now :: int

text \<open>A \<open>Date\<close> is its time value, \<open>None\<close> for an invalid date.\<close>

type_synonym date = "int option"

record simulation_request =
  req_body :: jsval
  req_headers :: "(jsstr \<times> jsval) list option"

record simulation_context =
  imageCount :: "jsnum option"
  tokens :: "(jsstr \<times> jsval) list option"
  request :: "simulation_request option"
  usage :: "(jsstr \<times> jsval) list option"
  ctx_now :: "date option"

section \<open>Request paths\<close>

definition path_metacharacters :: jsstr where
  "path_metacharacters = js ''*?[]()|@!''"

text \<open>The first loop of \<open>readRequestPath\<close>: the rest of the path, then the current part.\<close>

function path_parts :: "jsstr \<Rightarrow> jsstr \<Rightarrow> jsstr \<Rightarrow> diagnostic + jsstr list" where
  "path_parts path [] part = Inr [part]"
| "path_parts path (c # cs) part =
     (if c = 92 then
        (case cs of
           [] \<Rightarrow> Inl (diag Unsupported path)
         | d # ds \<Rightarrow> path_parts path ds (part @ [d]))
      else if c = ch (CHR ''.'') then
        and_then (path_parts path cs []) (\<lambda>parts. Inr (part # parts))
      else if c \<in> set path_metacharacters then Inl (diag Unsupported path)
      else path_parts path cs (part @ [c]))"
  by pat_completeness auto
termination
  by (relation "measure (\<lambda>(path, cs, part). length cs)") auto

text \<open>The second loop: the value reached so far and the keys that remain.\<close>

fun path_lookup :: "jsstr \<Rightarrow> jsval \<Rightarrow> jsstr list \<Rightarrow> diagnostic + jsval" where
  "path_lookup path v [] = Inr (or_null v)"
| "path_lookup path v (key # keys) =
     (case v of
        JArr xs \<Rightarrow>
          if key = js ''#'' \<and> keys = [] then Inr (JNum (num_of_nat (length xs)))
          else if key = js ''#'' then Inl (diag Unsupported path)
          else if \<not> (key \<noteq> [] \<and> list_all is_digit key) then Inr JNull
          else
            (let index = number_of_string key in
             path_lookup path
               (if is_safe_integer index then array_get xs (nat \<lfloor>num_val index\<rfloor>) else JUndef) keys)
      | JObj es \<Rightarrow>
          (case map_of es key of Some w \<Rightarrow> path_lookup path w keys | None \<Rightarrow> Inr JNull)
      | _ \<Rightarrow> Inr JNull)"

definition readRequestPath :: "jsval \<Rightarrow> jsstr \<Rightarrow> diagnostic + jsval" where
  "readRequestPath body rawPath =
     (let path = trim rawPath in
      if path = [] then Inr JNull
      else and_then (path_parts path path []) (\<lambda>parts. path_lookup path body parts))"

section \<open>Values as Go prints them\<close>

definition pad2 :: "jsstr \<Rightarrow> jsstr" where
  "pad2 s = replicate (2 - length s) 48 @ s"

definition billing_number :: "jsnum \<Rightarrow> diagnostic + jsstr" where
  "billing_number x =
     (if \<not> is_finite x then Inl (diag NumberCode (js ''request number''))
      else if x = NegZero then Inr (js ''-0'')
      else (case exponential_parts (num_val x) of (mantissa, exponent) \<Rightarrow>
        if 6 \<le> exponent \<or> exponent < -4 then
          Inr (mantissa @ js ''e'' @ (if exponent < 0 then js ''-'' else js ''+'')
               @ pad2 (dec_string (nat \<bar>exponent\<bar>)))
        else Inr (num_to_string x)))"

function billingString :: "jsval \<Rightarrow> nat \<Rightarrow> diagnostic + jsstr" where
  "billingString v d =
     (if 128 < d then Inl (diag Limit (js ''request value depth''))
      else case v of
        JUndef \<Rightarrow> Inr (js ''<nil>'')
      | JNull \<Rightarrow> Inr (js ''<nil>'')
      | JArr xs \<Rightarrow>
          and_then (mapM (\<lambda>x. billingString x (Suc d)) xs) (\<lambda>items.
            Inr (js ''['' @ join (js '' '') items @ js '']''))
      | JObj es \<Rightarrow>
          and_then
            (mapM (\<lambda>(k, x). and_then (billingString x (Suc d)) (\<lambda>t. Inr (k @ js '':'' @ t)))
               (sort_key fst es))
            (\<lambda>items. Inr (js ''map['' @ join (js '' '') items @ js '']''))
      | JNum x \<Rightarrow> billing_number x
      | JBool b \<Rightarrow> Inr (if b then js ''true'' else js ''false'')
      | JStr s \<Rightarrow> Inr s)"
  by pat_completeness auto
termination
  by (relation "measure (\<lambda>(v, d). size v)") (auto dest: size_JArr_elem size_JObj_entry)

declare billingString.simps [simp del]

section \<open>Zone times\<close>

record time_values =
  tv_hour :: jsnum
  tv_minute :: jsnum
  tv_weekday :: jsnum
  tv_month :: jsnum
  tv_day :: jsnum

text \<open>The regular expression that a zone name must match.\<close>

definition zone_part :: "jsstr \<Rightarrow> bool" where
  "zone_part s = (case s of [] \<Rightarrow> False
     | c # cs \<Rightarrow> is_upper c \<and> list_all (\<lambda>d. is_word d \<or> d = ch (CHR ''+'') \<or> d = ch (CHR ''-'')) cs)"

definition zone_name :: "jsstr \<Rightarrow> bool" where
  "zone_name z = list_all zone_part (split_on (ch (CHR ''/'')) z)"

text \<open>The \<open>try\<close> block: the formatter, \<open>None\<close> when it throws a \<open>RangeError\<close>.\<close>

definition zone_formatter :: "host \<Rightarrow> jsstr \<Rightarrow> (int \<Rightarrow> (jsstr \<times> jsstr) list) option" where
  "zone_formatter h timezone =
     (if \<not> zone_name timezone then None
      else (case h_zone h timezone of
          None \<Rightarrow> None
        | Some (resolved, format) \<Rightarrow>
            if h_lower h resolved = h_lower h timezone \<and> resolved \<noteq> timezone then None
            else Some format))"

definition utc_time_values :: "int \<Rightarrow> time_values" where
  "utc_time_values t =
     \<lparr>tv_hour = num_of_int (utc_hours t), tv_minute = num_of_int (utc_minutes t),
      tv_weekday = num_of_int (utc_day t), tv_month = num_of_int (utc_month t + 1),
      tv_day = num_of_int (utc_date t)\<rparr>"

definition WEEKDAYS :: "jsstr list" where
  "WEEKDAYS = [js ''Sun'', js ''Mon'', js ''Tue'', js ''Wed'', js ''Thu'', js ''Fri'', js ''Sat'']"

text \<open>\<open>Number(parts.name)\<close>, where a missing part is \<open>undefined\<close>.\<close>

definition part_number :: "(jsstr \<times> jsstr) list \<Rightarrow> jsstr \<Rightarrow> jsnum" where
  "part_number parts name = (case map_of parts name of None \<Rightarrow> NaN | Some s \<Rightarrow> number_of_string s)"

definition weekday_number :: "jsstr option \<Rightarrow> jsnum" where
  "weekday_number day =
     (case day of None \<Rightarrow> Fin (-1)
      | Some s \<Rightarrow> (case find_index (\<lambda>d. d = s) WEEKDAYS of None \<Rightarrow> Fin (-1) | Some i \<Rightarrow> num_of_nat i))"

definition timeInBillingZone :: "host \<Rightarrow> date \<Rightarrow> jsstr \<Rightarrow> diagnostic + time_values" where
  "timeInBillingZone h now zone =
     (case now of
        None \<Rightarrow> Inl (diag TypeCode (js ''simulation time''))
      | Some t \<Rightarrow>
          let timezone = (if trim zone = [] then js ''UTC'' else trim zone) in
          if timezone = js ''Local'' then Inl (diag Unsupported (js ''server Local timezone''))
          else (case zone_formatter h timezone of
              None \<Rightarrow> Inr (utc_time_values t)
            | Some format \<Rightarrow>
                let parts = from_entries (format t) in
                Inr \<lparr>tv_hour = part_number parts (js ''hour''),
                     tv_minute = part_number parts (js ''minute''),
                     tv_weekday = weekday_number (map_of parts (js ''weekday'')),
                     tv_month = part_number parts (js ''month''),
                     tv_day = part_number parts (js ''day'')\<rparr>))"

text \<open>\<open>values[name]\<close> for the name of a time function.\<close>

definition time_field :: "time_values \<Rightarrow> jsstr \<Rightarrow> jsnum" where
  "time_field values name =
     (if name = js ''hour'' then tv_hour values
      else if name = js ''minute'' then tv_minute values
      else if name = js ''weekday'' then tv_weekday values
      else if name = js ''month'' then tv_month values
      else tv_day values)"

section \<open>The state of an evaluation\<close>

datatype billing_unit = TokenUnit | RequestUnit

record billing_request_rule =
  b_cond :: jsstr
  b_multiplier :: jsnum
  b_matched :: bool

record runtime_state =
  requestRules :: "billing_request_rule list"
  matchedTier :: jsstr
  billingUnit :: billing_unit
  fixedPrice :: "jsnum option"
  timeValues :: "(jsstr \<times> time_values) list"
  depth :: nat

record runtime_env =
  env_host :: host
  env_rules :: "request_rule list"
  env_context :: simulation_context
  env_now :: date
  env_headers :: "(jsstr \<times> jsstr) list"

text \<open>A \<open>RuntimeValue\<close>: its flag \<open>integer\<close> is only tested for truth.\<close>

record runtime_value =
  rvalue :: jsval
  rinteger :: bool

definition plain_value :: "jsval \<Rightarrow> runtime_value" where
  "plain_value v = \<lparr>rvalue = v, rinteger = False\<rparr>"

definition header_entries :: "simulation_context \<Rightarrow> (jsstr \<times> jsval) list" where
  "header_entries context =
     (case request context of None \<Rightarrow> []
      | Some r \<Rightarrow> (case req_headers r of None \<Rightarrow> [] | Some hs \<Rightarrow> hs))"

text \<open>The loop of the constructor over the headers of the request.\<close>

fun collect_headers ::
  "host \<Rightarrow> (jsstr \<times> jsval) list \<Rightarrow> (jsstr \<times> jsstr) list \<Rightarrow> diagnostic + (jsstr \<times> jsstr) list" where
  "collect_headers h [] headers = Inr headers"
| "collect_headers h ((name, raw) # rest) headers =
     (case raw of
        JStr s \<Rightarrow>
          (let key = h_lower h (trim name); v = trim s in
           collect_headers h rest (if key \<noteq> [] \<and> v \<noteq> [] then map_set key v headers else headers))
      | _ \<Rightarrow> Inl (diag TypeCode (js ''request header'')))"

definition initial_state :: "request_rule list \<Rightarrow> runtime_state" where
  "initial_state rules =
     \<lparr>requestRules =
        map (\<lambda>rule. \<lparr>b_cond = r_cond rule, b_multiplier = r_multiplier rule, b_matched = False\<rparr>) rules,
      matchedTier = [], billingUnit = TokenUnit, fixedPrice = None, timeValues = [], depth = 0\<rparr>"

definition runtime_constructor ::
  "host \<Rightarrow> compiled_expression \<Rightarrow> simulation_context \<Rightarrow> diagnostic + runtime_env \<times> runtime_state" where
  "runtime_constructor h compiled context =
     and_then (collect_headers h (header_entries context) []) (\<lambda>headers.
       Inr (\<lparr>env_host = h, env_rules = c_rules compiled, env_context = context,
             env_now = (case ctx_now context of Some d \<Rightarrow> d | None \<Rightarrow> Some (h_now h)),
             env_headers = headers\<rparr>,
            initial_state (c_rules compiled)))"

section \<open>The methods\<close>

type_synonym 'a run = "runtime_state \<Rightarrow> diagnostic + 'a \<times> runtime_state"

definition run_return :: "'a \<Rightarrow> 'a run" where
  "run_return a = (\<lambda>s. Inr (a, s))"

definition run_throw :: "diagnostic \<Rightarrow> 'a run" where
  "run_throw d = (\<lambda>s. Inl d)"

definition run_bind :: "'a run \<Rightarrow> ('a \<Rightarrow> 'b run) \<Rightarrow> 'b run" where
  "run_bind m f = (\<lambda>s. and_then (m s) (\<lambda>(a, s'). f a s'))"

definition run_lift :: "diagnostic + 'a \<Rightarrow> 'a run" where
  "run_lift r = (\<lambda>s. and_then r (\<lambda>a. Inr (a, s)))"

definition run_modify :: "(runtime_state \<Rightarrow> runtime_state) \<Rightarrow> unit run" where
  "run_modify f = (\<lambda>s. Inr ((), f s))"

type_synonym evaluator = "node \<Rightarrow> runtime_value run"

definition boolean_value :: "evaluator \<Rightarrow> node \<Rightarrow> bool run" where
  "boolean_value ev n =
     run_bind (ev n) (\<lambda>r.
       case rvalue r of JBool b \<Rightarrow> run_return b
       | _ \<Rightarrow> run_throw (diag_at TypeCode (js ''boolean condition'') (n_start n)))"

definition numeric_value :: "evaluator \<Rightarrow> node \<Rightarrow> (jsnum \<times> bool) run" where
  "numeric_value ev n =
     run_bind (ev n) (\<lambda>r.
       case rvalue r of JNum x \<Rightarrow> run_return (x, rinteger r)
       | _ \<Rightarrow> run_throw (diag_at TypeCode (js ''numeric operand'') (n_start n)))"

definition string_value :: "evaluator \<Rightarrow> node \<Rightarrow> jsstr run" where
  "string_value ev n =
     run_bind (ev n) (\<lambda>r.
       case rvalue r of JStr t \<Rightarrow> run_return t
       | _ \<Rightarrow> run_throw (diag_at TypeCode (js ''string argument'') (n_start n)))"

text \<open>The operators other than the logical ones, on the values of both operands.\<close>

definition equality_op :: "jsstr \<Rightarrow> nat \<Rightarrow> jsval \<Rightarrow> jsval \<Rightarrow> diagnostic + runtime_value" where
  "equality_op op pos a b =
     (if a \<noteq> JNull \<and> b \<noteq> JNull \<and> (typeof_object a \<or> typeof_object b)
      then Inl (diag_at Unsupported (js ''object comparison'') pos)
      else Inr (plain_value (JBool (if op = js ''=='' then strict_eq a b else \<not> strict_eq a b))))"

definition relational_ops :: "jsstr list" where
  "relational_ops = [js ''<'', js ''<='', js ''>'', js ''>='']"

definition compare_with :: "jsstr \<Rightarrow> ('a \<Rightarrow> 'a \<Rightarrow> bool) \<Rightarrow> ('a \<Rightarrow> 'a \<Rightarrow> bool) \<Rightarrow> 'a \<Rightarrow> 'a \<Rightarrow> bool" where
  "compare_with op lt le a b =
     (if op = js ''<'' then lt a b
      else if op = js ''<='' then le a b
      else if op = js ''>'' then lt b a
      else le b a)"

definition arithmetic_op ::
  "jsstr \<Rightarrow> nat \<Rightarrow> jsnum \<Rightarrow> jsnum \<Rightarrow> bool \<Rightarrow> diagnostic + runtime_value" where
  "arithmetic_op op pos a b integer =
     (if op = js ''+'' then Inr \<lparr>rvalue = JNum (num_add a b), rinteger = integer\<rparr>
      else if op = js ''-'' then Inr \<lparr>rvalue = JNum (num_sub a b), rinteger = integer\<rparr>
      else if op = js ''*'' then Inr \<lparr>rvalue = JNum (num_mul a b), rinteger = integer\<rparr>
      else if op = js ''/'' then Inr (plain_value (JNum (num_div a b)))
      else if op = js ''%'' then
        (if \<not> integer then Inl (diag_at TypeCode (js ''integer modulo'') pos)
         else Inr \<lparr>rvalue = JNum (num_mod a b), rinteger = True\<rparr>)
      else Inl (diag_at Unsupported op pos))"

definition strict_binary ::
  "jsstr \<Rightarrow> nat \<Rightarrow> runtime_value \<Rightarrow> runtime_value \<Rightarrow> diagnostic + runtime_value" where
  "strict_binary op pos left right =
     (if op = js ''=='' \<or> op = js ''!='' then equality_op op pos (rvalue left) (rvalue right)
      else (case (rvalue left, rvalue right) of
          (JStr a, JStr b) \<Rightarrow>
            if op = js ''+'' then Inr (plain_value (JStr (a @ b)))
            else if op \<in> set relational_ops
            then Inr (plain_value (JBool (compare_with op (<) (\<le>) a b)))
            else Inl (diag_at TypeCode op pos)
        | (JNum a, JNum b) \<Rightarrow>
            if op \<in> set relational_ops
            then Inr (plain_value (JBool (compare_with op num_lt num_le a b)))
            else arithmetic_op op pos a b (rinteger left \<and> rinteger right)
        | _ \<Rightarrow> Inl (diag_at TypeCode op pos)))"

definition binary_value :: "evaluator \<Rightarrow> jsstr \<Rightarrow> node \<Rightarrow> node \<Rightarrow> nat \<Rightarrow> runtime_value run" where
  "binary_value ev op l r pos =
     (if op = js ''&&'' then
        run_bind (boolean_value ev l) (\<lambda>a.
          if a then run_bind (boolean_value ev r) (\<lambda>b. run_return (plain_value (JBool b)))
          else run_return (plain_value (JBool False)))
      else if op = js ''||'' then
        run_bind (boolean_value ev l) (\<lambda>a.
          if a then run_return (plain_value (JBool True))
          else run_bind (boolean_value ev r) (\<lambda>b. run_return (plain_value (JBool b))))
      else
        run_bind (ev l) (\<lambda>left. run_bind (ev r) (\<lambda>right. run_lift (strict_binary op pos left right))))"

text \<open>
  A method applied to the \<open>i\<close>-th argument of a call.  Without that argument \<open>evaluate\<close> gets
  \<open>undefined\<close>: the depth check comes first, then reading its \<open>kind\<close> throws.
\<close>

definition depth_error :: diagnostic where
  "depth_error = diag Limit (js ''evaluation depth'')"

definition with_arg :: "node list \<Rightarrow> nat \<Rightarrow> (node \<Rightarrow> 'a run) \<Rightarrow> 'a run" where
  "with_arg args i m =
     (if i < length args then m (args ! i)
      else (\<lambda>s. Inl (if 256 < Suc (depth s) then depth_error else undefined_access)))"

definition number_result :: "jsnum \<Rightarrow> runtime_value run" where
  "number_result x = run_return (plain_value (JNum x))"

definition time_call :: "runtime_env \<Rightarrow> jsstr \<Rightarrow> jsstr \<Rightarrow> runtime_value run" where
  "time_call env name zone =
     (\<lambda>s. and_then
        (memo_call map_of map_set (timeInBillingZone (env_host env) (env_now env)) (timeValues s) zone)
        (\<lambda>(values, table).
           Inr (\<lparr>rvalue = JNum (time_field values name), rinteger = True\<rparr>, s\<lparr>timeValues := table\<rparr>)))"

definition param_call :: "runtime_env \<Rightarrow> nat \<Rightarrow> jsstr \<Rightarrow> diagnostic + runtime_value" where
  "param_call env pos path =
     (case request (env_context env) of
        None \<Rightarrow> Inl (diag_at MissingContext (js ''request body'') pos)
      | Some r \<Rightarrow> and_then (readRequestPath (req_body r) path) (\<lambda>v. Inr (plain_value v)))"

definition header_call :: "runtime_env \<Rightarrow> nat \<Rightarrow> jsstr \<Rightarrow> diagnostic + runtime_value" where
  "header_call env pos raw =
     (case request (env_context env) of
        None \<Rightarrow> Inl (diag_at MissingContext (js ''request headers'') pos)
      | Some r \<Rightarrow>
          Inr (plain_value (JStr
            (case map_of (env_headers env) (h_lower (env_host env) (trim raw)) of
               None \<Rightarrow> [] | Some v \<Rightarrow> v))))"

definition usage_call :: "runtime_env \<Rightarrow> nat \<Rightarrow> jsstr \<Rightarrow> diagnostic + runtime_value" where
  "usage_call env pos name =
     (case usage (env_context env) of
        None \<Rightarrow> Inl (diag_at MissingContext (js ''task usage'') pos)
      | Some u \<Rightarrow> Inr (plain_value (case map_of u name of Some v \<Rightarrow> v | None \<Rightarrow> JNull)))"

definition has_call :: "jsval \<Rightarrow> jsstr \<Rightarrow> diagnostic + runtime_value" where
  "has_call source substring =
     (if nullish source \<or> substring = [] then Inr (plain_value (JBool False))
      else and_then (billingString source 0) (\<lambda>text.
        Inr (plain_value (JBool (str_includes substring text)))))"

definition call_value ::
  "runtime_env \<Rightarrow> evaluator \<Rightarrow> jsstr \<Rightarrow> node list \<Rightarrow> nat \<Rightarrow> runtime_value run" where
  "call_value env ev name args pos =
     (let num = (\<lambda>i. with_arg args i (numeric_value ev));
          str = (\<lambda>i. with_arg args i (string_value ev)) in
      if name = js ''fixed'' then
        run_bind (num 0) (\<lambda>(amount, _).
        run_bind (run_modify (\<lambda>s. s\<lparr>billingUnit := RequestUnit, fixedPrice := Some amount\<rparr>)) (\<lambda>_.
          number_result (num_mul amount (Fin 1000000))))
      else if name = js ''tier'' then
        run_bind (str 0) (\<lambda>label.
        run_bind (num 1) (\<lambda>(v, _).
        run_bind (run_modify (\<lambda>s. s\<lparr>matchedTier := label\<rparr>)) (\<lambda>_. number_result v)))
      else if name = js ''param'' then
        run_bind (str 0) (\<lambda>path. run_lift (param_call env pos path))
      else if name = js ''header'' then
        run_bind (str 0) (\<lambda>raw. run_lift (header_call env pos raw))
      else if name = js ''u'' then
        run_bind (str 0) (\<lambda>key. run_lift (usage_call env pos key))
      else if name = js ''has'' then
        run_bind (with_arg args 0 ev) (\<lambda>source.
        run_bind (str 1) (\<lambda>substring. run_lift (has_call (rvalue source) substring)))
      else if name = js ''min'' then
        run_bind (num 0) (\<lambda>(a, _). run_bind (num 1) (\<lambda>(b, _). number_result (num_min a b)))
      else if name = js ''max'' then
        run_bind (num 0) (\<lambda>(a, _). run_bind (num 1) (\<lambda>(b, _). number_result (num_max a b)))
      else if name = js ''abs'' then
        run_bind (num 0) (\<lambda>(a, _). number_result (num_abs a))
      else if name = js ''floor'' then
        run_bind (num 0) (\<lambda>(a, _). number_result (num_floor a))
      else if name = js ''ceil'' then
        run_bind (num 0) (\<lambda>(a, _). number_result (num_ceil a))
      else if name \<notin> set TIME_FUNCTIONS then run_throw (diag Unsupported name)
      else run_bind (str 0) (\<lambda>zone. time_call env name (trim zone)))"

fun literal_value :: "literal \<Rightarrow> jsval" where
  "literal_value (LStr s) = JStr s"
| "literal_value (LNum x) = JNum x"
| "literal_value (LBool b) = JBool b"
| "literal_value LNull = JNull"

definition variable_value :: "runtime_env \<Rightarrow> jsstr \<Rightarrow> nat \<Rightarrow> diagnostic + runtime_value" where
  "variable_value env name pos =
     (if name = js ''image_count'' then
        (let v = (case imageCount (env_context env) of Some x \<Rightarrow> x | None \<Rightarrow> Fin 1) in
         if \<not> is_integer v \<or> num_lt v (Fin 1) \<or> num_lt (Fin 128) v
         then Inl (diag_at NumberCode (js ''image_count must be between 1 and 128'') pos)
         else Inr (plain_value (JNum v)))
      else
        (case (case tokens (env_context env) of None \<Rightarrow> None | Some ts \<Rightarrow> map_of ts name) of
           None \<Rightarrow> Inl (diag_at MissingContext name pos)
         | Some JUndef \<Rightarrow> Inl (diag_at MissingContext name pos)
         | Some (JNum x) \<Rightarrow>
             if num_lt x (Fin 0) then Inl (diag_at NumberCode name pos) else Inr (plain_value (JNum x))
         | Some _ \<Rightarrow> Inl (diag_at NumberCode name pos)))"

definition mark_rule :: "request_rule list \<Rightarrow> node \<Rightarrow> runtime_state \<Rightarrow> runtime_state" where
  "mark_rule rules n s =
     (case find_index (\<lambda>rule. r_node rule = n) rules of
        None \<Rightarrow> s
      | Some i \<Rightarrow>
          s\<lparr>requestRules := (requestRules s)[i := (requestRules s ! i)\<lparr>b_matched := True\<rparr>]\<rparr>)"

fun evaluateNode :: "runtime_env \<Rightarrow> evaluator \<Rightarrow> node \<Rightarrow> runtime_value run" where
  "evaluateNode env ev (Literal v i s e) = run_return \<lparr>rvalue = literal_value v, rinteger = i\<rparr>"
| "evaluateNode env ev (Variable name s e) = run_lift (variable_value env name s)"
| "evaluateNode env ev (Conditional c y n s e) =
     run_bind (boolean_value ev c) (\<lambda>condition.
     run_bind (run_modify (\<lambda>st.
         if condition then mark_rule (env_rules env) (Conditional c y n s e) st else st))
       (\<lambda>_. ev (if condition then y else n)))"
| "evaluateNode env ev (Unary op x s e) =
     (if op = js ''!'' then
        run_bind (boolean_value ev x) (\<lambda>b. run_return (plain_value (JBool (\<not> b))))
      else
        run_bind (numeric_value ev x) (\<lambda>(v, i).
          run_return \<lparr>rvalue = JNum (if op = js ''-'' then num_uminus v else v), rinteger = i\<rparr>))"
| "evaluateNode env ev (Binary op l r s e) = binary_value ev op l r s"
| "evaluateNode env ev (Call name args s e) = call_value env ev name args s"

text \<open>The checks of \<open>evaluate\<close> on the value of a node.\<close>

definition check_value :: "node \<Rightarrow> runtime_value \<Rightarrow> diagnostic + runtime_value" where
  "check_value n r =
     (case rvalue r of
        JNum x \<Rightarrow>
          if \<not> is_finite x then Inl (diag_at NumberCode (js ''non-finite result'') (n_start n))
          else if rinteger r \<and> \<not> is_safe_integer x
          then Inl (diag_at Unsupported (js ''integer precision'') (n_start n))
          else Inr r
      | _ \<Rightarrow> Inr r)"

section \<open>Closing the recursion\<close>

lemma with_arg_cong:
  "(\<And>c. c \<in> set args \<Longrightarrow> m c = m' c) \<Longrightarrow> with_arg args i m = with_arg args i m'"
  by (simp add: with_arg_def)

lemma method_congs:
  assumes "ev n = ev' n"
  shows "boolean_value ev n = boolean_value ev' n" "numeric_value ev n = numeric_value ev' n"
    "string_value ev n = string_value ev' n"
  using assms by (simp_all add: boolean_value_def numeric_value_def string_value_def)

text \<open>The body of \<open>evaluateNode\<close> only evaluates the children of its node.\<close>

lemma evaluateNode_cong_children:
  assumes "\<And>c. c \<in> set (children n) \<Longrightarrow> ev c = ev' c"
  shows "evaluateNode env ev n = evaluateNode env ev' n"
proof (cases n)
  case (Call name args s e)
  with assms have "\<And>c. c \<in> set args \<Longrightarrow> ev c = ev' c" by simp
  then have "\<And>i. with_arg args i (numeric_value ev) = with_arg args i (numeric_value ev')"
    "\<And>i. with_arg args i (string_value ev) = with_arg args i (string_value ev')"
    "\<And>i. with_arg args i ev = with_arg args i ev'"
    by (auto intro!: with_arg_cong method_congs)
  then show ?thesis by (simp only: Call evaluateNode.simps call_value_def)
next
  case (Conditional c y x s e)
  with assms have "boolean_value ev c = boolean_value ev' c" by (auto intro: method_congs)
  moreover have "\<And>b. ev (if b then y else x) = ev' (if b then y else x)"
    using assms Conditional by simp
  ultimately show ?thesis by (simp only: Conditional evaluateNode.simps)
next
  case (Binary op l r s e)
  with assms have "ev l = ev' l" "ev r = ev' r" by simp_all
  moreover from this have "boolean_value ev l = boolean_value ev' l" "boolean_value ev r = boolean_value ev' r"
    by (auto intro: method_congs)
  ultimately show ?thesis by (simp only: Binary evaluateNode.simps binary_value_def)
next
  case (Unary op x s e)
  with assms have "ev x = ev' x" by simp
  then show ?thesis by (simp add: Unary method_congs [of ev x ev'])
qed simp_all

lemma evaluateNode_cong [fundef_cong]:
  assumes "env = env'" "n = n'" "st = st'"
    and "\<And>c s. c \<in> set (children n') \<Longrightarrow> ev c s = ev' c s"
  shows "evaluateNode env ev n st = evaluateNode env' ev' n' st'"
  using assms evaluateNode_cong_children [of n' ev ev' env'] by (simp add: fun_eq_iff)

text \<open>The counter of \<open>evaluate\<close> goes up on entry and, in the \<open>finally\<close> block, down on exit.\<close>

function evaluate :: "runtime_env \<Rightarrow> node \<Rightarrow> runtime_value run" where
  "evaluate env n st =
     (if 256 < Suc (depth st) then Inl depth_error
      else
        and_then (evaluateNode env (\<lambda>c s. evaluate env c s) n (st\<lparr>depth := Suc (depth st)\<rparr>))
          (\<lambda>(r, st'). and_then (check_value n r) (\<lambda>r'. Inr (r', st'\<lparr>depth := depth st' - 1\<rparr>))))"
  by pat_completeness auto
termination
  by (relation "measure (\<lambda>(env, n, st). node_count n)") (auto dest: node_count_child)

declare evaluate.simps [simp del]

section \<open>Entry points\<close>

text \<open>\<open>None\<close> is the result \<open>null\<close>.\<close>

definition now_context :: "date \<Rightarrow> simulation_context" where
  "now_context now =
     \<lparr>imageCount = None, tokens = None, request = None, usage = None, ctx_now = Some now\<rparr>"

definition evaluateBillingCondition ::
  "host \<Rightarrow> compiled_expression \<Rightarrow> node \<Rightarrow> date \<Rightarrow> bool option" where
  "evaluateBillingCondition h compiled n now =
     (case and_then (runtime_constructor h compiled (now_context now)) (\<lambda>(env, st). evaluate env n st) of
        Inr (r, _) \<Rightarrow> (case rvalue r of JBool b \<Rightarrow> Some b | _ \<Rightarrow> None)
      | Inl _ \<Rightarrow> None)"

record evaluation_success =
  cost :: jsnum
  res_unit :: billing_unit
  res_fixedPrice :: "jsnum option"
  res_imageCount :: "jsnum option"
  res_matchedTier :: jsstr
  res_rules :: "billing_request_rule list"

datatype evaluation_result = Success evaluation_success | EvaluationFailed expression_failure

text \<open>The loop that checks the token counts of the context.\<close>

fun check_tokens :: "(jsstr \<times> jsval) list \<Rightarrow> diagnostic + unit" where
  "check_tokens [] = Inr ()"
| "check_tokens ((name, v) # rest) =
     (case v of
        JNum x \<Rightarrow>
          if \<not> is_finite x \<or> num_lt x (Fin 0) then Inl (diag NumberCode name) else check_tokens rest
      | _ \<Rightarrow> Inl (diag NumberCode name))"

text \<open>The end of the \<open>try\<close> block of \<open>evaluateBillingExpression\<close>, then the whole block.\<close>

definition billing_result ::
  "compiled_expression \<Rightarrow> simulation_context \<Rightarrow> jsval \<Rightarrow> runtime_state \<Rightarrow> diagnostic + evaluation_success" where
  "billing_result compiled context result st =
     (case result of
        JNum x \<Rightarrow>
          if \<not> is_finite x \<or> num_lt x (Fin 0) then Inl (diag NumberCode (js ''billing result''))
          else Inr
            \<lparr>cost = x, res_unit = billingUnit st, res_fixedPrice = fixedPrice st,
             res_imageCount =
               (if js ''image_count'' \<in> set (c_variables compiled)
                then Some (case imageCount context of Some k \<Rightarrow> k | None \<Rightarrow> Fin 1) else None),
             res_matchedTier = matchedTier st, res_rules = requestRules st\<rparr>
      | _ \<Rightarrow> Inl (diag NumberCode (js ''billing result'')))"

definition evaluate_steps ::
  "host \<Rightarrow> compiled_expression \<Rightarrow> simulation_context \<Rightarrow> diagnostic + evaluation_success" where
  "evaluate_steps h compiled context =
     and_then (check_tokens (case tokens context of None \<Rightarrow> [] | Some ts \<Rightarrow> ts)) (\<lambda>_.
     and_then (runtime_constructor h compiled context) (\<lambda>(env, st0).
     and_then (evaluate env (c_ast compiled) st0) (\<lambda>(r, st).
       billing_result compiled context (rvalue r) st)))"

definition evaluateBillingExpression ::
  "host \<Rightarrow> compile_cache \<Rightarrow> jsstr + compiled_expression \<Rightarrow> simulation_context
     \<Rightarrow> evaluation_result \<times> compile_cache" where
  "evaluateBillingExpression h cache expr context =
     (let (compiled, cache') =
        (case expr of
           Inl source \<Rightarrow> compileBillingExpression cache source
         | Inr c \<Rightarrow> (Ready c, cache))
      in (case compiled of
            CompileFailed f \<Rightarrow> EvaluationFailed f
          | Ready c \<Rightarrow>
              (case evaluate_steps h c context of
                 Inl d \<Rightarrow> EvaluationFailed (expressionFailure d)
               | Inr r \<Rightarrow> Success r), cache'))"

end
