(* ===== verification/RuntimeProofs.thy ===== *)
theory RuntimeProofs
  imports BillingRuntime
begin

text \<open>
  What an evaluation does to the state of the runtime, and what the values it returns are.

  The locale \<open>runtime_relation\<close> is the contract of the state updates: a reflexive and transitive
  relation that holds across each update holds across the evaluation of a node.  Its
  interpretations are the frame properties of the evaluator: the depth counter is restored, the
  request rules are only ever marked, the fixed price is set exactly with the billing unit, and
  the table of zone times stays coherent.
\<close>

named_theorems run_simps \<open>the operations of the evaluator's state monad\<close>

lemmas run_defs [run_simps] =
  run_return_def run_throw_def run_lift_def run_modify_def number_result_def

lemma run_bind_Inr:
  "run_bind m f s = Inr (b, s') \<longleftrightarrow> (\<exists>a t. m s = Inr (a, t) \<and> f a t = Inr (b, s'))"
  by (auto simp: run_bind_def and_then_simps)

lemma boolean_value_Inr:
  "boolean_value ev n s = Inr (b, s') \<longleftrightarrow> (\<exists>r. ev n s = Inr (r, s') \<and> rvalue r = JBool b)"
  by (cases "ev n s") (auto simp: boolean_value_def run_bind_def run_simps split: jsval.splits)

lemma numeric_value_Inr:
  "numeric_value ev n s = Inr ((x, i), s') \<longleftrightarrow>
     (\<exists>r. ev n s = Inr (r, s') \<and> rvalue r = JNum x \<and> i = rinteger r)"
  by (cases "ev n s") (auto simp: numeric_value_def run_bind_def run_simps split: jsval.splits)

lemma string_value_Inr:
  "string_value ev n s = Inr (t, s') \<longleftrightarrow> (\<exists>r. ev n s = Inr (r, s') \<and> rvalue r = JStr t)"
  by (cases "ev n s") (auto simp: string_value_def run_bind_def run_simps split: jsval.splits)

lemma with_arg_Inr:
  "with_arg args i m s = Inr r \<longleftrightarrow> i < length args \<and> m (args ! i) s = Inr r"
  by (auto simp: with_arg_def)

lemmas method_Inr = boolean_value_Inr numeric_value_Inr string_value_Inr with_arg_Inr

lemma check_value_same: "check_value n r = Inr r' \<Longrightarrow> r' = r"
  by (auto simp: check_value_def split: jsval.splits if_splits)

lemma evaluate_Inr:
  "evaluate env n s = Inr (r, s') \<longleftrightarrow>
     depth s < 256 \<and> (\<exists>t. evaluateNode env (evaluate env) n (s\<lparr>depth := Suc (depth s)\<rparr>) = Inr (r, t)
       \<and> check_value n r = Inr r \<and> s' = t\<lparr>depth := depth t - 1\<rparr>)"
  unfolding evaluate.simps [of env n s] and_then_eq_Inr by (auto simp: and_then_eq_Inr dest: check_value_same)

section \<open>Relations that every update of the state respects\<close>

definition run_within :: "(runtime_state \<Rightarrow> runtime_state \<Rightarrow> bool) \<Rightarrow> 'a run \<Rightarrow> bool" where
  "run_within R m \<longleftrightarrow> (\<forall>s a s'. m s = Inr (a, s') \<longrightarrow> R s s')"

locale runtime_relation =
  fixes R :: "runtime_state \<Rightarrow> runtime_state \<Rightarrow> bool"
    and env :: runtime_env
    and amount_ok :: "jsnum \<Rightarrow> bool"
  assumes refl: "R s s"
    and trans: "R s t \<Longrightarrow> R t u \<Longrightarrow> R s u"
    and tier_update: "R s (s\<lparr>matchedTier := label\<rparr>)"
    and fixed_update: "amount_ok a \<Longrightarrow> R s (s\<lparr>billingUnit := RequestUnit, fixedPrice := Some a\<rparr>)"
    and rule_update: "R s (mark_rule (env_rules env) n s)"
    and time_update:
      "memo_call map_of map_set (timeInBillingZone (env_host env) (env_now env)) (timeValues s) zone
         = Inr (v, table) \<Longrightarrow> R s (s\<lparr>timeValues := table\<rparr>)"
begin

lemma within_simple:
  "run_within R (run_return a)" "run_within R (run_throw d)" "run_within R (run_lift r)"
  "run_within R (number_result x)"
  by (auto simp: run_within_def run_simps refl and_then_simps)

lemma within_bind: "run_within R m \<Longrightarrow> (\<And>a. run_within R (f a)) \<Longrightarrow> run_within R (run_bind m f)"
  unfolding run_within_def run_bind_Inr using trans by blast

lemma within_methods:
  assumes "run_within R (ev n)"
  shows "run_within R (boolean_value ev n)" "run_within R (numeric_value ev n)"
    "run_within R (string_value ev n)"
  using assms by (auto simp: run_within_def method_Inr)

lemma within_arg:
  "(i < length args \<Longrightarrow> run_within R (m (args ! i))) \<Longrightarrow> run_within R (with_arg args i m)"
  by (auto simp: run_within_def with_arg_Inr)

lemma within_args:
  assumes "\<And>c. c \<in> set args \<Longrightarrow> run_within R (ev c)"
  shows "run_within R (with_arg args i ev)" "run_within R (with_arg args i (numeric_value ev))"
    "run_within R (with_arg args i (string_value ev))"
  using assms by (auto intro!: within_arg within_methods)

lemma within_if: "run_within R m \<Longrightarrow> run_within R m' \<Longrightarrow> run_within R (if b then m else m')"
  by simp

lemma within_prod: "(\<And>x y. run_within R (f x y)) \<Longrightarrow> run_within R (case p of (x, y) \<Rightarrow> f x y)"
  by (cases p) simp

lemma within_modify: "(\<And>s. R s (f s)) \<Longrightarrow> run_within R (run_modify f)"
  by (simp add: run_within_def run_modify_def)

lemma within_time_call: "run_within R (time_call env name zone)"
  unfolding run_within_def time_call_def by (auto simp: and_then_simps dest: time_update)

lemma within_fixed:
  assumes "\<And>c. c \<in> set args \<Longrightarrow> run_within R (ev c)"
    and "\<And>s a i s'. with_arg args 0 (numeric_value ev) s = Inr ((a, i), s') \<Longrightarrow> amount_ok a"
  shows "run_within R (call_value env ev (js ''fixed'') args pos)"
  unfolding run_within_def
proof (intro allI impI)
  fix s r s'
  assume "call_value env ev (js ''fixed'') args pos s = Inr (r, s')"
  then obtain a i t where a: "with_arg args 0 (numeric_value ev) s = Inr ((a, i), t)"
    and s': "s' = t\<lparr>billingUnit := RequestUnit, fixedPrice := Some a\<rparr>"
    by (auto simp: call_value_def Let_def run_bind_Inr run_simps)
  from a within_args(2) [of args ev 0, OF assms(1)] have "R s t" unfolding run_within_def by blast
  then show "R s s'" using s' trans fixed_update assms(2) [OF a] by blast
qed

lemma within_call:
  assumes "\<And>c. c \<in> set args \<Longrightarrow> run_within R (ev c)" and "name \<noteq> js ''fixed''"
  shows "run_within R (call_value env ev name args pos)"
  unfolding call_value_def Let_def if_not_P [OF assms(2)]
  by (intro within_if within_bind within_prod within_simple within_args assms(1) within_modify
      within_time_call tier_update)

lemma within_node:
  assumes "\<And>c. c \<in> set (children n) \<Longrightarrow> run_within R (ev c)"
    and "\<And>args pos e s a i s'. n = Call (js ''fixed'') args pos e \<Longrightarrow>
        with_arg args 0 (numeric_value ev) s = Inr ((a, i), s') \<Longrightarrow> amount_ok a"
  shows "run_within R (evaluateNode env ev n)"
proof (cases n)
  case (Call name args pos e)
  with assms show ?thesis
    by (cases "name = js ''fixed''") (auto intro: within_fixed within_call)
next
  case (Conditional c y x s e)
  with assms(1) show ?thesis
    by (auto intro!: within_bind within_methods within_modify simp: refl rule_update simp del: fun_upd_apply)
next
  case (Binary op l r s e)
  with assms(1) show ?thesis
    by (auto intro!: within_bind within_methods within_simple simp: binary_value_def)
next
  case (Unary op x s e)
  with assms(1) show ?thesis
    by (auto intro!: within_bind within_methods within_simple simp: case_prod_beta)
qed (simp_all add: within_simple)

end

text \<open>A relation that does not look at the depth counter holds across whole evaluations.\<close>

definition fixed_amounts :: "(jsnum \<Rightarrow> bool) \<Rightarrow> node \<Rightarrow> bool" where
  "fixed_amounts P n \<longleftrightarrow> (\<forall>a. P a) \<or>
     (\<forall>args s e. Call (js ''fixed'') args s e \<in> set (postorder n) \<longrightarrow>
        (\<exists>v i s' e'. args = [Literal (LNum v) i s' e'] \<and> P v))"

lemma fixed_amounts_child: "fixed_amounts P n \<Longrightarrow> c \<in> set (children n) \<Longrightarrow> fixed_amounts P c"
  unfolding fixed_amounts_def by (subst (asm) postorder_children) (auto; blast)

locale runtime_frame = runtime_relation +
  assumes depth_blind: "R (s\<lparr>depth := d\<rparr>) (s'\<lparr>depth := d'\<rparr>) \<longleftrightarrow> R s s'"
begin

lemma depth_blind_left: "R (s\<lparr>depth := d\<rparr>) t \<Longrightarrow> R s (t\<lparr>depth := d'\<rparr>)"
  using depth_blind [where s = s and d = d and s' = t and d' = "depth t"]
    depth_blind [where s = s and d = "depth s" and s' = t and d' = d'] by simp

lemma evaluate_within: "fixed_amounts amount_ok n \<Longrightarrow> run_within R (evaluate env n)"
proof (induction n rule: node_induct)
  case (1 n)
  have "run_within R (evaluateNode env (evaluate env) n)"
  proof (rule within_node)
    show "run_within R (evaluate env c)" if "c \<in> set (children n)" for c
      using "1.IH" [OF that] fixed_amounts_child [OF "1.prems" that] by blast
    fix args pos e s a i s'
    assume n: "n = Call (js ''fixed'') args pos e"
      and a: "with_arg args 0 (numeric_value (evaluate env)) s = Inr ((a, i), s')"
    from "1.prems" n consider "\<forall>a. amount_ok a"
      | v j s' e' where "args = [Literal (LNum v) j s' e']" "amount_ok v"
      unfolding fixed_amounts_def using self_in_postorder [of n] by metis
    then show "amount_ok a"
      using a by cases (auto simp: method_Inr evaluate_Inr run_simps)
  qed
  then show ?case
    unfolding run_within_def by (auto simp: evaluate_Inr dest: depth_blind_left)
qed

lemma evaluate_R:
  assumes "fixed_amounts amount_ok n" "evaluate env n s = Inr (r, s')"
  shows "R s s'"
  using evaluate_within [OF assms(1)] assms(2) unfolding run_within_def by blast

end

section \<open>Frame properties of the evaluator\<close>

interpretation depth_kept: runtime_relation "\<lambda>s s'. depth s' = depth s" env "\<lambda>_. True" for env
  by unfold_locales (auto simp: mark_rule_def split: option.splits)

lemma evaluate_depth: "evaluate env n s = Inr (r, s') \<Longrightarrow> depth s' = depth s"
proof (induction n arbitrary: s r s' rule: node_induct)
  case (1 n)
  have "run_within (\<lambda>s s'. depth s' = depth s) (evaluateNode env (evaluate env) n)"
    by (rule depth_kept.within_node) (use "1.IH" in \<open>auto simp: run_within_def\<close>)
  with "1.prems" show ?case by (auto simp: evaluate_Inr run_within_def)
qed

text \<open>A rule keeps its condition and its multiplier, and its mark once it has one.\<close>

definition rule_marked :: "billing_request_rule \<Rightarrow> billing_request_rule \<Rightarrow> bool" where
  "rule_marked r r' \<longleftrightarrow> b_cond r' = b_cond r \<and> b_multiplier r' = b_multiplier r \<and> (b_matched r \<longrightarrow> b_matched r')"

definition rules_marked :: "runtime_state \<Rightarrow> runtime_state \<Rightarrow> bool" where
  "rules_marked s s' \<longleftrightarrow> list_all2 rule_marked (requestRules s) (requestRules s')"

lemma rules_marked_trans: "rules_marked s t \<Longrightarrow> rules_marked t u \<Longrightarrow> rules_marked s u"
  unfolding rules_marked_def by (rule list_all2_trans) (auto simp: rule_marked_def)

lemma nth_update_in_range: "i < length xs \<Longrightarrow> xs[k := v] ! i = (if k = i then v else xs ! i)"
  by simp

lemma rules_marked_mark: "rules_marked s (mark_rule rules n s)"
  by (auto simp: rules_marked_def mark_rule_def rule_marked_def list_all2_conv_all_nth nth_update_in_range
      split: option.splits)

interpretation rules_kept: runtime_frame rules_marked env "\<lambda>_. True" for env
  by unfold_locales
    (auto simp: rules_marked_mark intro: rules_marked_trans,
     auto simp: rules_marked_def rule_marked_def intro: list_all2_refl)

text \<open>The billing unit is \<open>request\<close> exactly when a fixed price was set, and that price is allowed.\<close>

definition price_ok :: "(jsnum \<Rightarrow> bool) \<Rightarrow> runtime_state \<Rightarrow> bool" where
  "price_ok P s \<longleftrightarrow> (case fixedPrice s of None \<Rightarrow> billingUnit s = TokenUnit
     | Some a \<Rightarrow> billingUnit s = RequestUnit \<and> P a)"

interpretation price_kept: runtime_frame "\<lambda>s s'. price_ok P s \<longrightarrow> price_ok P s'" env P for P env
  by unfold_locales (auto simp: price_ok_def mark_rule_def split: option.splits)

definition times_coherent :: "runtime_env \<Rightarrow> runtime_state \<Rightarrow> bool" where
  "times_coherent env s \<longleftrightarrow>
     coherent map_of (timeInBillingZone (env_host env) (env_now env)) (timeValues s)"

interpretation times_kept: runtime_frame "\<lambda>s s'. times_coherent env s \<longrightarrow> times_coherent env s'" env "\<lambda>_. True"
  for env
  by unfold_locales
    (auto simp: times_coherent_def mark_rule_def dest: map_table.memo_call_Inr split: option.splits)

lemma evaluate_rules: "evaluate env n s = Inr (r, s') \<Longrightarrow> rules_marked s s'"
  by (rule rules_kept.evaluate_R) (simp_all add: fixed_amounts_def)

section \<open>Values\<close>

lemma evaluate_number:
  assumes "evaluate env n s = Inr (r, s')" "rvalue r = JNum x"
  shows "is_finite x" "rinteger r \<Longrightarrow> is_safe_integer x"
  using assms by (auto simp: evaluate_Inr check_value_def split: if_splits)

fun has_type :: "jsval \<Rightarrow> expression_type \<Rightarrow> bool" where
  "has_type v TNumber = (case v of JNum _ \<Rightarrow> True | _ \<Rightarrow> False)"
| "has_type v TString = (case v of JStr _ \<Rightarrow> True | _ \<Rightarrow> False)"
| "has_type v TBoolean = (case v of JBool _ \<Rightarrow> True | _ \<Rightarrow> False)"
| "has_type v TNil = (v = JNull)"
| "has_type v TDynamic = True"

text \<open>
  The operator \<open>+\<close> on two operands of dynamic type is checked as a number, and yields a string when
  both values are strings.
\<close>

definition dynamic_plus :: "node \<Rightarrow> bool" where
  "dynamic_plus n = (case n of Binary op l r s e \<Rightarrow>
     op = js ''+'' \<and> type_of l = TDynamic \<and> type_of r = TDynamic | _ \<Rightarrow> False)"

definition plus_resolved :: "node \<Rightarrow> bool" where
  "plus_resolved n \<longleftrightarrow> list_all (\<lambda>m. \<not> dynamic_plus m) (postorder n)"

lemma well_typed_children:
  "well_typed n \<longleftrightarrow> typed n \<and> (\<forall>c \<in> set (children n). well_typed c)"
  unfolding well_typed_def by (subst postorder_children) (auto simp: list_all_iff)

lemma plus_resolved_children:
  "plus_resolved n \<longleftrightarrow> \<not> dynamic_plus n \<and> (\<forall>c \<in> set (children n). plus_resolved c)"
  unfolding plus_resolved_def by (subst postorder_children) (auto simp: list_all_iff)

lemma equality_op_type: "equality_op op pos a b = Inr r \<Longrightarrow> \<exists>c. rvalue r = JBool c"
  by (auto simp: equality_op_def plain_value_def split: if_splits)

lemma arithmetic_op_type: "arithmetic_op op pos a b i = Inr r \<Longrightarrow> \<exists>x. rvalue r = JNum x"
  by (auto simp: arithmetic_op_def plain_value_def split: if_splits)

lemma strict_binary_type:
  assumes "strict_binary op pos a b = Inr r" "op \<notin> set logical_ops"
    and "has_type (rvalue a) ta" "has_type (rvalue b) tb"
    and "op = js ''+'' \<Longrightarrow> \<not> (ta = TDynamic \<and> tb = TDynamic)"
    and "op \<notin> set comparison_ops \<Longrightarrow> op = js ''+'' \<and> ta = TString \<and> tb = TString
          \<or> ta \<in> {TNumber, TDynamic} \<and> tb \<in> {TNumber, TDynamic}"
  shows "has_type (rvalue r) (binary_result op ta tb)"
proof (cases "op = js ''=='' \<or> op = js ''!=''")
  case True
  then have "op \<in> set comparison_ops" by (auto simp: comparison_ops_def)
  with True assms(1) show ?thesis
    by (auto simp: strict_binary_def binary_result_def dest!: equality_op_type)
next
  case neq: False
  show ?thesis
  proof (cases "op \<in> set relational_ops")
    case True
    then have "op \<in> set comparison_ops" by (auto simp: comparison_ops_def relational_ops_def)
    moreover have "\<exists>c. rvalue r = JBool c"
      using assms(1) neq True
      by (auto simp: strict_binary_def plain_value_def relational_ops_def split: jsval.splits if_splits)
    ultimately show ?thesis by (auto simp: binary_result_def)
  next
    case False
    with neq have nc: "op \<notin> set comparison_ops" by (auto simp: comparison_ops_def relational_ops_def)
    consider x y where "rvalue a = JNum x" "rvalue b = JNum y" "\<exists>z. rvalue r = JNum z"
      | x y where "rvalue a = JStr x" "rvalue b = JStr y" "op = js ''+''" "rvalue r = JStr (x @ y)"
      using assms(1) neq False
      by (auto simp: strict_binary_def plain_value_def split: jsval.splits if_splits
          dest: arithmetic_op_type)
    then show ?thesis
    proof cases
      case 1
      then have "\<not> (ta = TString \<and> tb = TString)" using assms(3) by auto
      with 1 nc assms(2) show ?thesis by (auto simp: binary_result_def)
    next
      case 2
      then have "ta \<noteq> TNumber" "tb \<noteq> TNumber" using assms(3,4) by auto
      then have "ta = TString" "tb = TString" using assms(5,6) 2 nc by auto
      with 2 nc assms(2) show ?thesis by (auto simp: binary_result_def)
    qed
  qed
qed

lemma typed_binary:
  assumes "typed (Binary op l r s e)" "op \<notin> set logical_ops" "op \<notin> set comparison_ops"
  shows "op = js ''+'' \<and> type_of l = TString \<and> type_of r = TString
    \<or> type_of l \<in> {TNumber, TDynamic} \<and> type_of r \<in> {TNumber, TDynamic}"
  using assms by (auto simp: typed_def binary_type_def requireType_def and_then_simps split: if_splits)

lemma call_value_type:
  assumes "call_value env ev name args pos s = Inr (r, s')"
  shows "has_type (rvalue r) (call_result name)"
proof (cases "call_result name")
  case TNumber
  then have "name \<in> set ([js ''tier''] @ TIME_FUNCTIONS @ numeric_functions)"
    by (auto simp: call_result_def split: if_splits)
  with assms TNumber show ?thesis
    by (auto simp: call_value_def TIME_FUNCTIONS_def numeric_functions_def Let_def run_bind_Inr run_simps
        plain_value_def time_call_def and_then_simps)
next
  case TString
  then have "name = js ''header''" by (auto simp: call_result_def split: if_splits)
  with assms TString show ?thesis
    by (auto simp: call_value_def Let_def run_bind_Inr run_simps header_call_def plain_value_def and_then_simps
        split: option.splits)
next
  case TBoolean
  then have "name = js ''has''" by (auto simp: call_result_def split: if_splits)
  with assms TBoolean show ?thesis
    by (auto simp: call_value_def Let_def run_bind_Inr run_simps has_call_def plain_value_def and_then_simps
        split: if_splits)
next
  case TNil
  then show ?thesis by (auto simp: call_result_def split: if_splits)
qed simp

lemma evaluate_type:
  assumes "well_typed n" "plus_resolved n" "evaluate env n s = Inr (r, s')"
  shows "has_type (rvalue r) (type_of n)"
  using assms
proof (induction n arbitrary: s r s' rule: node_induct)
  case (1 n)
  have IH: "has_type (rvalue q) (type_of c)"
    if "c \<in> set (children n)" "evaluate env c t = Inr (q, t')" for c t q t'
    using "1.IH" [OF that(1) _ _ that(2)] "1.prems"(1,2) that(1)
    by (simp add: well_typed_children [of n] plus_resolved_children [of n])
  from "1.prems"(3) obtain t t' where ev: "evaluateNode env (evaluate env) n t = Inr (r, t')"
    by (auto simp: evaluate_Inr)
  show ?case
  proof (cases n)
    case (Literal v i s e)
    with ev show ?thesis by (cases v) (auto simp: run_simps literal_type_def)
  next
    case (Variable x s e)
    with ev show ?thesis
      by (auto simp: run_simps variable_value_def plain_value_def and_then_simps Let_def
          split: if_splits option.splits jsval.splits)
  next
    case (Call name args s e)
    with ev call_value_type show ?thesis by auto
  next
    case (Unary op x s e)
    with ev show ?thesis
      by (auto simp: run_bind_Inr run_simps plain_value_def split: if_splits)
  next
    case (Conditional c y x s e)
    with ev obtain b t1 t2 where "evaluate env (if b then y else x) t1 = Inr (r, t2)"
      by (auto simp: run_bind_Inr run_simps)
    with IH [of "if b then y else x"] Conditional show ?thesis by (cases b) auto
  next
    case (Binary op l q s e)
    show ?thesis
    proof (cases "op \<in> set logical_ops")
      case True
      with ev Binary show ?thesis
        by (auto simp: binary_value_def logical_ops_def run_bind_Inr run_simps plain_value_def binary_result_def
            split: if_splits)
    next
      case False
      then have "op \<noteq> js ''&&''" "op \<noteq> js ''||''" by (auto simp: logical_ops_def)
      with ev Binary obtain a b t1 t2 t3 where ab: "evaluate env l t = Inr (a, t1)"
        "evaluate env q t1 = Inr (b, t2)" "strict_binary op s a b = Inr r"
        by (auto simp: binary_value_def run_bind_Inr run_simps and_then_simps)
      have "typed n" "\<not> dynamic_plus n"
        using "1.prems"(1,2) by (simp_all add: well_typed_children [of n] plus_resolved_children [of n])
      with strict_binary_type [OF ab(3) False IH [OF _ ab(1)] IH [OF _ ab(2)]] Binary False
        typed_binary [of op l q s e]
      show ?thesis by (auto simp: dynamic_plus_def)
    qed
  qed
qed

end
