(* ===== verification/BillingArithmetic.thy ===== *)
theory BillingArithmetic
  imports RuntimeProofs
begin

text \<open>
  Integer arithmetic of billing expressions.  The evaluator computes with doubles and rejects a
  result that is flagged as an integer and is not a safe integer.  The reference
  \<open>int_eval\<close> computes with unbounded integers, with the truncated remainder of Go; on a tree of
  integer literals and operators the two agree, and the evaluator fails exactly when an intermediate
  result is not a safe integer or a divisor of \<open>%\<close> is zero.
\<close>

section \<open>The reference\<close>

definition int_rem :: "int \<Rightarrow> int \<Rightarrow> int" where
  "int_rem x y = sgn x * (\<bar>x\<bar> mod \<bar>y\<bar>)"

definition int_op :: "jsstr \<Rightarrow> int \<Rightarrow> int \<Rightarrow> int option" where
  "int_op op x y =
     (if op = js ''+'' then Some (x + y)
      else if op = js ''-'' then Some (x - y)
      else if op = js ''*'' then Some (x * y)
      else if y = 0 then None else Some (int_rem x y))"

definition integer_ops :: "jsstr list" where
  "integer_ops = [js ''+'', js ''-'', js ''*'', js ''%'']"

text \<open>Trees of integer literals, signs and the integer operators.\<close>

fun int_tree :: "node \<Rightarrow> bool" where
  "int_tree (Literal (LNum x) i s e) = (i \<and> is_safe_integer x)"
| "int_tree (Unary op x s e) = (op \<noteq> js ''!'' \<and> int_tree x)"
| "int_tree (Binary op l r s e) = (op \<in> set integer_ops \<and> int_tree l \<and> int_tree r)"
| "int_tree _ = False"

text \<open>The exact value, \<open>None\<close> when an intermediate result is unsafe or a divisor is zero.\<close>

definition safe_int :: "int \<Rightarrow> int option" where
  "safe_int z = (if \<bar>z\<bar> \<le> max_safe then Some z else None)"

fun int_eval :: "node \<Rightarrow> int option" where
  "int_eval (Literal (LNum x) i s e) = Some \<lfloor>num_val x\<rfloor>"
| "int_eval (Unary op x s e) = map_option (\<lambda>z. if op = js ''-'' then - z else z) (int_eval x)"
| "int_eval (Binary op l r s e) =
     (case int_eval l of None \<Rightarrow> None
      | Some x \<Rightarrow> (case int_eval r of None \<Rightarrow> None
         | Some y \<Rightarrow> Option.bind (int_op op x y) safe_int))"
| "int_eval _ = None"

section \<open>The operators on safe integers\<close>

definition represents :: "jsnum \<Rightarrow> int \<Rightarrow> bool" where
  "represents a z \<longleftrightarrow> is_finite a \<and> num_val a = of_int z \<and> \<bar>z\<bar> \<le> max_safe"

lemma safe_represents: "is_safe_integer a \<Longrightarrow> represents a \<lfloor>num_val a\<rfloor>"
proof (cases a)
  case (Fin q)
  assume s: "is_safe_integer a"
  with Fin have q: "of_int \<lfloor>q\<rfloor> = q" by (simp add: is_safe_integer_def)
  have "\<bar>q\<bar> \<le> of_int max_safe" using s Fin by (simp add: is_safe_integer_def)
  then have "\<bar>of_int \<lfloor>q\<rfloor> :: rat\<bar> \<le> of_int max_safe" by (simp only: q)
  then have "\<bar>\<lfloor>q\<rfloor>\<bar> \<le> max_safe" by (metis of_int_abs of_int_le_iff)
  with Fin q [symmetric] show ?thesis by (metis is_finite.simps(1) num_val.simps(1) represents_def)
qed (auto simp: represents_def is_safe_integer_def max_safe_def)

lemma represents_safe: "represents a z \<Longrightarrow> is_safe_integer a"
proof -
  assume r: "represents a z"
  then have "\<bar>of_int z :: rat\<bar> \<le> of_int max_safe"
    unfolding represents_def by (metis of_int_abs of_int_le_iff)
  with r show ?thesis by (cases a) (auto simp: represents_def is_safe_integer_def)
qed

lemma dround_represents: "\<bar>z\<bar> \<le> max_safe \<Longrightarrow> represents (dround neg (of_int z)) z"
  by (simp add: dround_of_int represents_def)

lemma dround_safe_iff: "is_safe_integer (dround neg (of_int z)) \<longleftrightarrow> \<bar>z\<bar> \<le> max_safe"
proof (cases "\<bar>z\<bar> \<le> max_safe")
  case True
  then show ?thesis using dround_represents represents_safe by blast
next
  case False
  then have "2 ^ 53 \<le> \<bar>z\<bar>" by (simp add: max_safe_def)
  then have "(2 :: rat) ^ 53 \<le> \<bar>of_int z\<bar>"
    by (metis of_int_abs of_int_le_iff of_int_numeral of_int_power)
  then show ?thesis using dround_unsafe False by blast
qed

lemma safe_finite: "is_safe_integer a \<Longrightarrow> is_finite a"
  using safe_represents by (auto simp: represents_def)

lemma num_add_finite:
  "is_finite a \<Longrightarrow> is_finite b \<Longrightarrow> num_add a b = dround (a = NegZero \<and> b = NegZero) (num_val a + num_val b)"
  by (cases a; cases b) auto

lemma uminus_represents: "represents a z \<Longrightarrow> represents (num_uminus a) (- z)"
  by (cases a) (auto simp: represents_def)

lemma rtrunc_of_int:
  "y \<noteq> 0 \<Longrightarrow> of_int x - of_int y * of_int (rtrunc (of_int x / of_int y)) = (of_int (int_rem x y) :: rat)"
proof -
  assume y: "y \<noteq> 0"
  have fl: "\<lfloor>(of_int x :: rat) / of_int y\<rfloor> = x div y" by (rule floor_divide_of_int_eq)
  have cl: "\<lceil>(of_int x :: rat) / of_int y\<rceil> = - ((- x) div y)"
    using floor_divide_of_int_eq [of "- x" y, where ?'a = rat] by (simp add: ceiling_def)
  have neg: "(of_int x :: rat) / of_int y < 0 \<longleftrightarrow> x < 0 \<and> 0 < y \<or> 0 < x \<and> y < 0"
    using y by (auto simp: divide_less_0_iff)
  define t where "t = (if x < 0 \<and> 0 < y \<or> 0 < x \<and> y < 0 then - ((- x) div y) else x div y)"
  have rt: "rtrunc ((of_int x :: rat) / of_int y) = t"
    unfolding rtrunc_def fl cl neg t_def ..
  have eq: "x - y * t = int_rem x y"
  proof -
    consider "0 \<le> x" "0 < y" | "x < 0" "0 < y" | "0 < x" "y < 0" | "x \<le> 0" "y < 0" using y by linarith
    then show ?thesis
    proof cases
      case 1
      then show ?thesis
        by (cases "x = 0") (simp_all add: t_def int_rem_def minus_mult_div_eq_mod)
    next
      case 2
      have "x + y * (- x div y) = - ((- x) mod y)"
        using minus_mult_div_eq_mod [of "- x" y] by linarith
      with 2 show ?thesis by (simp add: t_def int_rem_def)
    next
      case 3
      have "x + y * (- x div y) = - ((- x) mod y)"
        using minus_mult_div_eq_mod [of "- x" y] by linarith
      moreover have "(- x) mod y = - (x mod (- y))"
        by (simp add: zmod_zminus1_eq_if zmod_zminus2_eq_if)
      ultimately show ?thesis using 3 by (simp add: t_def int_rem_def)
    next
      case 4
      then have "x - y * t = x mod y" by (simp add: t_def minus_mult_div_eq_mod)
      moreover have "int_rem x y = x mod y" using 4 by (cases "x = 0") (simp_all add: int_rem_def)
      ultimately show ?thesis by simp
    qed
  qed
  show ?thesis
    by (simp only: rt eq [symmetric] of_int_diff of_int_mult)
qed

lemma check_integer:
  "check_value n \<lparr>rvalue = JNum (dround neg (of_int z)), rinteger = True\<rparr> = Inr r \<longleftrightarrow>
     \<bar>z\<bar> \<le> max_safe \<and> r = \<lparr>rvalue = JNum (dround neg (of_int z)), rinteger = True\<rparr>"
  using dround_safe_iff [of neg z] safe_finite [of "dround neg (of_int z)"]
  by (auto simp: check_value_def)

lemma check_nan: "check_value n \<lparr>rvalue = JNum NaN, rinteger = i\<rparr> = Inr r \<longleftrightarrow> False"
  by (simp add: check_value_def)

lemma check_represents:
  "represents x z \<Longrightarrow> check_value n \<lparr>rvalue = JNum x, rinteger = True\<rparr> = Inr \<lparr>rvalue = JNum x, rinteger = True\<rparr>"
  using represents_safe [of x z] safe_finite [of x] by (simp add: check_value_def)

lemma arithmetic_exact:
  assumes "op \<in> set integer_ops" "represents a x" "represents b y"
  shows "arithmetic_op op pos a b True =
    Inr \<lparr>rvalue = JNum (case int_op op x y of None \<Rightarrow> NaN
           | Some z \<Rightarrow> dround (if op = js ''+'' then a = NegZero \<and> b = NegZero
                else if op = js ''-'' then a = NegZero \<and> num_uminus b = NegZero
                else if op = js ''*'' then num_neg a \<noteq> num_neg b else num_neg a) (of_int z)),
         rinteger = True\<rparr>"
proof -
  have fin: "is_finite a" "is_finite b" "is_finite (num_uminus b)"
    and val: "num_val a = of_int x" "num_val b = of_int y" "num_val (num_uminus b) = - of_int y"
    using assms(2,3) uminus_represents [OF assms(3)] by (simp_all add: represents_def)
  have nn: "a \<noteq> NaN" "b \<noteq> NaN" using fin by auto
  have zero: "num_zero b \<longleftrightarrow> y = 0"
    using val(2) fin(2) by (cases b) (auto simp: num_zero_def)
  from assms(1) consider "op = js ''+''" | "op = js ''-''" | "op = js ''*''" | "op = js ''%''"
    by (auto simp: integer_ops_def)
  then show ?thesis
  proof cases
    case 1
    then show ?thesis by (simp add: arithmetic_op_def int_op_def num_add_finite fin val)
  next
    case 2
    then show ?thesis by (simp add: arithmetic_op_def int_op_def num_sub_def num_add_finite fin val)
  next
    case 3
    then show ?thesis by (simp add: arithmetic_op_def int_op_def num_mul_def fin val nn Let_def)
  next
    case 4
    then show ?thesis
      by (simp add: arithmetic_op_def int_op_def num_mod_def fin val nn zero Let_def rtrunc_of_int)
  qed
qed

text \<open>Evaluation of an operator node whose operands are integers.\<close>

lemma strict_integer:
  assumes "op \<in> set integer_ops" "rvalue a = JNum x" "rvalue b = JNum y" "rinteger a" "rinteger b"
  shows "strict_binary op pos a b = arithmetic_op op pos x y True"
  using assms by (auto simp: strict_binary_def integer_ops_def relational_ops_def)

lemma checked_operator:
  assumes "op \<in> set integer_ops" "represents x a" "represents y b"
  shows "(\<exists>r. arithmetic_op op pos x y True = Inr r \<and> check_value n r = Inr r \<and> P r) \<longleftrightarrow>
    (\<exists>z neg. Option.bind (int_op op a b) safe_int = Some z
        \<and> arithmetic_op op pos x y True = Inr \<lparr>rvalue = JNum (dround neg (of_int z)), rinteger = True\<rparr>
        \<and> P \<lparr>rvalue = JNum (dround neg (of_int z)), rinteger = True\<rparr>)"
  unfolding arithmetic_exact [OF assms]
  by (cases "int_op op a b") (auto simp: check_integer check_nan safe_int_def)

section \<open>Evaluation agrees with the reference\<close>

text \<open>What the evaluator returns on an integer tree.\<close>

definition int_result :: "runtime_value \<Rightarrow> int \<Rightarrow> bool" where
  "int_result r z \<longleftrightarrow> rinteger r \<and> (\<exists>x. rvalue r = JNum x \<and> represents x z)"

lemma evaluate_depth_Inr:
  "depth s < 256 \<Longrightarrow> evaluateNode env (evaluate env) n (s\<lparr>depth := Suc (depth s)\<rparr>)
      = Inr (r, s\<lparr>depth := Suc (depth s)\<rparr>) \<Longrightarrow> check_value n r = Inr r \<Longrightarrow> evaluate env n s = Inr (r, s)"
  by (simp add: evaluate_Inr)

lemma int_tree_sound:
  assumes "int_tree n" "evaluate env n s = Inr (r, s')"
  shows "\<exists>z. int_eval n = Some z \<and> int_result r z"
  using assms
proof (induction n arbitrary: s r s' rule: int_tree.induct)
  case (1 x i s0 e)
  then show ?case
    using safe_represents [of x] by (auto simp: evaluate_Inr run_simps int_result_def)
next
  case (2 op x s0 e)
  from "2.prems" obtain q t t' where q: "evaluate env x t = Inr (q, t')" and
    r: "\<exists>v. rvalue q = JNum v \<and> r = \<lparr>rvalue = JNum (if op = js ''-'' then num_uminus v else v), rinteger = rinteger q\<rparr>"
    by (auto simp: evaluate_Inr [of env "Unary op x s0 e"] run_bind_Inr run_simps method_Inr)
  from "2.IH" [OF _ q] "2.prems"(1) obtain z where "int_eval x = Some z" "int_result q z" by auto
  with r show ?case by (auto simp: int_result_def uminus_represents)
next
  case (3 op l m s0 e)
  then have op: "op \<in> set integer_ops" by simp
  then have nl: "op \<noteq> js ''&&''" "op \<noteq> js ''||''" by (auto simp: integer_ops_def)
  with "3.prems"(2) obtain a b t t1 t2 where a: "evaluate env l t = Inr (a, t1)"
    and b: "evaluate env m t1 = Inr (b, t2)" and sb: "strict_binary op s0 a b = Inr r"
    and ck: "check_value (Binary op l m s0 e) r = Inr r"
    by (auto simp: evaluate_Inr [of env "Binary op l m s0 e"] binary_value_def run_bind_Inr run_simps
        and_then_simps)
  from "3.IH"(1) [OF _ a] "3.IH"(2) [OF _ b] "3.prems"(1) obtain x y where
    xy: "int_eval l = Some x" "int_eval m = Some y" "int_result a x" "int_result b y" by auto
  then obtain u v where uv: "rvalue a = JNum u" "represents u x" "rvalue b = JNum v" "represents v y"
    "rinteger a" "rinteger b" by (auto simp: int_result_def)
  with sb strict_integer [OF op uv(1,3,5,6)] have "arithmetic_op op s0 u v True = Inr r" by simp
  with ck checked_operator [OF op uv(2,4), of s0 "Binary op l m s0 e" "\<lambda>q. q = r"]
  obtain z neg where z: "Option.bind (int_op op x y) safe_int = Some z"
    "r = \<lparr>rvalue = JNum (dround neg (of_int z)), rinteger = True\<rparr>" by auto
  then have "\<bar>z\<bar> \<le> max_safe" by (auto simp: safe_int_def Option.bind_eq_Some_conv split: if_splits)
  with z xy show ?case by (auto simp: int_result_def dround_represents)
qed auto

lemma int_tree_complete:
  assumes "int_tree n" "int_eval n = Some z" "depth s + height n < 256"
  shows "\<exists>r. evaluate env n s = Inr (r, s)"
  using assms
proof (induction n arbitrary: s z rule: int_tree.induct)
  case (1 x i s0 e)
  then have "check_value (Literal (LNum x) i s0 e) \<lparr>rvalue = JNum x, rinteger = i\<rparr>
      = Inr \<lparr>rvalue = JNum x, rinteger = i\<rparr>"
    using check_represents [OF safe_represents [of x]] by simp
  with "1.prems" show ?case
    by (intro exI [of _ "\<lparr>rvalue = JNum x, rinteger = i\<rparr>"] evaluate_depth_Inr) (auto simp: run_simps)
next
  case (2 op x s0 e)
  let ?s = "s\<lparr>depth := Suc (depth s)\<rparr>"
  from 2 obtain r where r: "evaluate env x ?s = Inr (r, ?s)" by fastforce
  with int_tree_sound [OF _ r] "2.prems" obtain y v where "rinteger r" and v: "rvalue r = JNum v" "represents v y"
    by (auto simp: int_result_def)
  moreover from v(2) uminus_represents [OF v(2)]
  have "represents (if op = js ''-'' then num_uminus v else v) (if op = js ''-'' then - y else y)" by simp
  ultimately show ?case
    using r "2.prems" check_represents
    by (intro exI [of _ "\<lparr>rvalue = JNum (if op = js ''-'' then num_uminus v else v), rinteger = True\<rparr>"]
        evaluate_depth_Inr) (auto simp: run_bind_def run_simps numeric_value_def)
next
  case (3 op l m s0 e)
  let ?s = "s\<lparr>depth := Suc (depth s)\<rparr>"
  have op: "op \<in> set integer_ops" using "3.prems" by simp
  then have nl: "op \<noteq> js ''&&''" "op \<noteq> js ''||''" by (auto simp: integer_ops_def)
  from "3.prems"(2) obtain x y where xy: "int_eval l = Some x" "int_eval m = Some y"
    and z: "Option.bind (int_op op x y) safe_int = Some z" by (auto split: option.splits)
  from 3 xy obtain a b where a: "evaluate env l ?s = Inr (a, ?s)" and b: "evaluate env m ?s = Inr (b, ?s)"
    by fastforce
  with int_tree_sound [OF _ a] int_tree_sound [OF _ b] "3.prems"(1) xy obtain u v where
    uv: "rvalue a = JNum u" "represents u x" "rvalue b = JNum v" "represents v y" "rinteger a" "rinteger b"
    by (auto simp: int_result_def)
  from z have "int_op op x y = Some z" "\<bar>z\<bar> \<le> max_safe"
    by (auto simp: Option.bind_eq_Some_conv safe_int_def split: if_splits)
  then obtain r where "arithmetic_op op s0 u v True = Inr r" "check_value (Binary op l m s0 e) r = Inr r"
    using arithmetic_exact [OF op uv(2,4), of s0] by (simp add: check_integer)
  with a b nl strict_integer [OF op uv(1,3,5,6)] "3.prems"(3) show ?case
    by (intro exI [of _ r] evaluate_depth_Inr) (auto simp: binary_value_def run_bind_def run_simps)
qed auto

end
