(* ===== verification/TimeTable.thy ===== *)
theory TimeTable
  imports RuntimeProofs
begin

text \<open>
  The table of zone times is invisible: two states that differ only in coherent tables give the same
  value or the same error, and again states that differ only in coherent tables.
\<close>

definition same_but_times :: "runtime_env \<Rightarrow> runtime_state \<Rightarrow> runtime_state \<Rightarrow> bool" where
  "same_but_times env s t \<longleftrightarrow>
     s\<lparr>timeValues := []\<rparr> = t\<lparr>timeValues := []\<rparr> \<and> times_coherent env s \<and> times_coherent env t"

definition same_outcome ::
  "runtime_env \<Rightarrow> diagnostic + 'a \<times> runtime_state \<Rightarrow> diagnostic + 'a \<times> runtime_state \<Rightarrow> bool" where
  "same_outcome env x y \<longleftrightarrow>
     (case (x, y) of
        (Inl d, Inl d') \<Rightarrow> d = d'
      | (Inr (a, s), Inr (b, t)) \<Rightarrow> a = b \<and> same_but_times env s t
      | _ \<Rightarrow> False)"

definition table_blind :: "runtime_env \<Rightarrow> 'a run \<Rightarrow> bool" where
  "table_blind env m \<longleftrightarrow> (\<forall>s t. same_but_times env s t \<longrightarrow> same_outcome env (m s) (m t))"

lemma blind_simple:
  "table_blind env (run_return a)" "table_blind env (run_throw d)" "table_blind env (run_lift r)"
  "table_blind env (number_result x)"
  by (auto simp: table_blind_def same_outcome_def run_simps and_then_def split: sum.splits)

lemma blind_bind:
  assumes "table_blind env m" "\<And>a. table_blind env (f a)"
  shows "table_blind env (run_bind m f)"
  unfolding table_blind_def
proof (intro allI impI)
  fix s t
  assume "same_but_times env s t"
  with assms(1) have o: "same_outcome env (m s) (m t)" by (simp add: table_blind_def)
  show "same_outcome env (run_bind m f s) (run_bind m f t)"
  proof (cases "m s")
    case (Inl d)
    with o have "m t = Inl d" by (auto simp: same_outcome_def split: sum.splits)
    with Inl show ?thesis by (simp add: run_bind_def same_outcome_def)
  next
    case (Inr p)
    obtain a s' where p: "p = (a, s')" by (cases p)
    with o Inr obtain t' where "m t = Inr (a, t')" "same_but_times env s' t'"
      by (auto simp: same_outcome_def split: sum.splits prod.splits)
    with Inr p assms(2) [of a] show ?thesis by (simp add: run_bind_def table_blind_def)
  qed
qed

lemma blind_prod: "(\<And>x y. table_blind env (f x y)) \<Longrightarrow> table_blind env (case p of (x, y) \<Rightarrow> f x y)"
  by (cases p) simp

lemma blind_if: "table_blind env m \<Longrightarrow> table_blind env m' \<Longrightarrow> table_blind env (if b then m else m')"
  by simp

lemma blind_methods:
  assumes "table_blind env (ev n)"
  shows "table_blind env (boolean_value ev n)" "table_blind env (numeric_value ev n)"
    "table_blind env (string_value ev n)"
  unfolding boolean_value_def numeric_value_def string_value_def
  by (intro blind_bind assms, simp split: jsval.split add: blind_simple)+

lemma same_depth: "same_but_times env s t \<Longrightarrow> depth t = depth s"
  unfolding same_but_times_def by (metis runtime_state.ext_inject runtime_state.surjective
      runtime_state.update_convs(5))

lemma blind_arg:
  "(\<And>c. c \<in> set args \<Longrightarrow> table_blind env (m c)) \<Longrightarrow> table_blind env (with_arg args i m)"
  by (auto simp: with_arg_def table_blind_def same_outcome_def dest: same_depth)

lemma blind_modify:
  assumes "\<And>s. times_coherent env s \<Longrightarrow> times_coherent env (f s)"
    and "\<And>s. (f s)\<lparr>timeValues := []\<rparr> = f (s\<lparr>timeValues := []\<rparr>)"
  shows "table_blind env (run_modify f)"
  using assms by (simp add: table_blind_def run_modify_def same_outcome_def same_but_times_def)

lemma blind_time_call: "table_blind env (time_call env name zone)"
  unfolding table_blind_def
proof (intro allI impI)
  fix s t
  assume st: "same_but_times env s t"
  let ?compute = "timeInBillingZone (env_host env) (env_now env)"
  let ?call = "\<lambda>s. memo_call map_of map_set ?compute (timeValues s) zone"
  have coh: "coherent map_of ?compute (timeValues s)" "coherent map_of ?compute (timeValues t)"
    using st by (simp_all add: same_but_times_def times_coherent_def)
  have both: "and_then (?call s) (\<lambda>(v, m). Inr v) = and_then (?call t) (\<lambda>(v, m). Inr v)"
    using map_table.memo_call_value [OF coh(1)] map_table.memo_call_value [OF coh(2)] by simp
  show "same_outcome env (time_call env name zone s) (time_call env name zone t)"
  proof (cases "?call s")
    case (Inl d)
    with both have "?call t = Inl d" by (cases "?call t") auto
    with Inl show ?thesis by (simp add: time_call_def same_outcome_def)
  next
    case (Inr p)
    obtain v m where p: "p = (v, m)" by (cases p)
    with both Inr obtain m' where t: "?call t = Inr (v, m')" by (cases "?call t") auto
    from map_table.memo_call_Inr [OF coh(1), of zone v m] map_table.memo_call_Inr [OF coh(2), of zone v m']
      Inr p t st
    show ?thesis
      by (simp add: time_call_def same_outcome_def same_but_times_def times_coherent_def)
  qed
qed

lemma blind_call:
  assumes "\<And>c. c \<in> set args \<Longrightarrow> table_blind env (ev c)"
  shows "table_blind env (call_value env ev name args pos)"
  unfolding call_value_def Let_def
  by (intro blind_if blind_bind blind_prod blind_simple blind_arg blind_methods assms blind_modify blind_time_call)
     (simp_all add: times_coherent_def)

lemma mark_rule_times: "(mark_rule rules n s)\<lparr>timeValues := v\<rparr> = mark_rule rules n (s\<lparr>timeValues := v\<rparr>)"
  by (simp add: mark_rule_def split: option.split)

lemma mark_rule_coherent: "times_coherent env s \<Longrightarrow> times_coherent env (mark_rule rules n s)"
  by (simp add: mark_rule_def times_coherent_def split: option.split)

lemma blind_node:
  assumes "\<And>c. c \<in> set (children n) \<Longrightarrow> table_blind env (ev c)"
  shows "table_blind env (evaluateNode env ev n)"
proof (cases n)
  case (Call name args pos e)
  with assms blind_call show ?thesis by simp
next
  case (Conditional c y x s e)
  with assms have "table_blind env (ev c)" "\<And>b. table_blind env (ev (if b then y else x))" by auto
  then show ?thesis unfolding Conditional evaluateNode.simps
    by (intro blind_bind blind_methods blind_modify) (simp_all add: mark_rule_times mark_rule_coherent)
next
  case (Binary op l r s e)
  with assms have "table_blind env (ev l)" "table_blind env (ev r)" by auto
  then show ?thesis unfolding Binary evaluateNode.simps binary_value_def
    by (intro blind_if blind_bind blind_methods blind_simple)
next
  case (Unary op x s e)
  with assms have "table_blind env (ev x)" by auto
  then show ?thesis unfolding Unary evaluateNode.simps
    by (intro blind_if blind_bind blind_prod blind_methods blind_simple)
qed (simp_all add: blind_simple)

lemma blind_evaluate: "table_blind env (evaluate env n)"
proof (induction n rule: node_induct)
  case (1 n)
  have node: "table_blind env (evaluateNode env (evaluate env) n)" by (rule blind_node) (rule "1.IH")
  show ?case unfolding table_blind_def
  proof (intro allI impI)
    fix s t
    assume st: "same_but_times env s t"
    let ?up = "\<lambda>s. s\<lparr>depth := Suc (depth s)\<rparr>"
    let ?node = "\<lambda>s. evaluateNode env (evaluate env) n (?up s)"
    have "same_but_times env (?up s) (?up t)"
      using st same_depth [OF st] by (simp add: same_but_times_def times_coherent_def)
        (metis runtime_state.update_convs(5,6) runtime_state.surjective)
    with node have o: "same_outcome env (?node s) (?node t)" by (simp add: table_blind_def)
    show "same_outcome env (evaluate env n s) (evaluate env n t)"
    proof (cases "256 < Suc (depth s)")
      case True
      then show ?thesis
        using same_depth [OF st] by (simp add: evaluate.simps [of env n] same_outcome_def)
    next
      case False
      show ?thesis
      proof (cases "?node s")
        case (Inl d)
        with o have "?node t = Inl d" by (auto simp: same_outcome_def split: sum.splits)
        with Inl False same_depth [OF st] show ?thesis
          by (simp add: evaluate.simps [of env n] same_outcome_def)
      next
        case (Inr p)
        obtain a s' where p: "p = (a, s')" by (cases p)
        with o Inr obtain t' where t': "?node t = Inr (a, t')" "same_but_times env s' t'"
          by (auto simp: same_outcome_def split: sum.splits prod.splits)
        have "same_but_times env (s'\<lparr>depth := depth s' - 1\<rparr>) (t'\<lparr>depth := depth t' - 1\<rparr>)"
          using t'(2) same_depth [OF t'(2)] by (simp add: same_but_times_def times_coherent_def)
            (metis runtime_state.update_convs(5,6) runtime_state.surjective)
        with Inr p t' False same_depth [OF st] show ?thesis
          by (cases "check_value n a") (simp_all add: evaluate.simps [of env n] same_outcome_def)
      qed
    qed
  qed
qed

end
