(* ===== verification/BillingTyping.thy ===== *)
theory BillingTyping
  imports RuntimeProofs
begin

text \<open>
  The typing rules of billing expressions, stated on their own: one rule per construct, with the
  operators and functions written out.  Nothing here refers to the visitor of
  \<open>checkExpressionTypes\<close> or to its tables; the lemma \<open>typing_iff\<close> at the end compares the two.
  An operand whose type is only known when the expression runs is \<open>TDynamic\<close>, and it is accepted
  wherever a type is required.
\<close>

section \<open>The typing judgement\<close>

inductive typing :: "node \<Rightarrow> expression_type \<Rightarrow> bool" where
  t_null: "typing (Literal LNull i s e) TNil"
| t_number: "typing (Literal (LNum v) i s e) TNumber"
| t_string: "typing (Literal (LStr x) i s e) TString"
| t_bool: "typing (Literal (LBool b) i s e) TBoolean"
| t_variable: "typing (Variable x s e) TNumber"
| t_not: "typing x t \<Longrightarrow> t \<in> {TBoolean, TDynamic} \<Longrightarrow> typing (Unary (js ''!'') x s e) TBoolean"
| t_sign: "op \<noteq> js ''!'' \<Longrightarrow> typing x t \<Longrightarrow> t \<in> {TNumber, TDynamic} \<Longrightarrow>
    typing (Unary op x s e) TNumber"
| t_conditional: "typing c t \<Longrightarrow> t \<in> {TBoolean, TDynamic} \<Longrightarrow> typing y ty \<Longrightarrow> typing n tn \<Longrightarrow>
    typing (Conditional c y n s e) (if ty = tn then ty else TDynamic)"
| t_logical: "op \<in> {js ''&&'', js ''||''} \<Longrightarrow>
    typing l ta \<Longrightarrow> ta \<in> {TBoolean, TDynamic} \<Longrightarrow> typing r tb \<Longrightarrow> tb \<in> {TBoolean, TDynamic} \<Longrightarrow>
    typing (Binary op l r s e) TBoolean"
| t_comparison: "op \<in> {js ''=='', js ''!='', js ''<'', js ''<='', js ''>'', js ''>=''} \<Longrightarrow>
    typing l ta \<Longrightarrow> typing r tb \<Longrightarrow> typing (Binary op l r s e) TBoolean"
| t_append: "typing l TString \<Longrightarrow> typing r TString \<Longrightarrow> typing (Binary (js ''+'') l r s e) TString"
| t_arithmetic: "op \<notin> {js ''&&'', js ''||'', js ''=='', js ''!='', js ''<'', js ''<='', js ''>'', js ''>=''} \<Longrightarrow>
    typing l ta \<Longrightarrow> ta \<in> {TNumber, TDynamic} \<Longrightarrow> typing r tb \<Longrightarrow> tb \<in> {TNumber, TDynamic} \<Longrightarrow>
    typing (Binary op l r s e) TNumber"
| t_lookup: "name \<in> {js ''param'', js ''u''} \<Longrightarrow> list_all2 typing (x # xs) (tx # ts) \<Longrightarrow>
    tx \<in> {TString, TDynamic} \<Longrightarrow> typing (Call name (x # xs) s e) TDynamic"
| t_header: "list_all2 typing (x # xs) (tx # ts) \<Longrightarrow> tx \<in> {TString, TDynamic} \<Longrightarrow>
    typing (Call (js ''header'') (x # xs) s e) TString"
| t_has: "list_all2 typing (x # y # xs) (tx # ty # ts) \<Longrightarrow> ty \<in> {TString, TDynamic} \<Longrightarrow>
    typing (Call (js ''has'') (x # y # xs) s e) TBoolean"
| t_tier: "list_all2 typing (x # y # xs) (tx # ty # ts) \<Longrightarrow> tx \<in> {TString, TDynamic} \<Longrightarrow>
    ty \<in> {TNumber, TDynamic} \<Longrightarrow> typing (Call (js ''tier'') (x # y # xs) s e) TNumber"
| t_time: "name \<in> {js ''hour'', js ''minute'', js ''weekday'', js ''month'', js ''day''} \<Longrightarrow>
    list_all2 typing (x # xs) (tx # ts) \<Longrightarrow> tx \<in> {TString, TDynamic} \<Longrightarrow>
    typing (Call name (x # xs) s e) TNumber"
| t_numeric: "name \<in> {js ''fixed'', js ''min'', js ''max'', js ''abs'', js ''ceil'', js ''floor''} \<Longrightarrow>
    list_all2 typing xs ts \<Longrightarrow> set ts \<subseteq> {TNumber, TDynamic} \<Longrightarrow>
    typing (Call name xs s e) TNumber"
| t_other: "name \<notin> {js ''param'', js ''u'', js ''header'', js ''has'', js ''tier'', js ''hour'',
      js ''minute'', js ''weekday'', js ''month'', js ''day'', js ''fixed'', js ''min'', js ''max'',
      js ''abs'', js ''ceil'', js ''floor''} \<Longrightarrow>
    list_all2 typing xs ts \<Longrightarrow> typing (Call name xs s e) TDynamic"

section \<open>The checker decides the judgement\<close>

lemma TIME_FUNCTIONS_literal:
  "set TIME_FUNCTIONS = {js ''hour'', js ''minute'', js ''weekday'', js ''month'', js ''day''}"
  by (auto simp: TIME_FUNCTIONS_def)

lemma all_typed:
  "list_all2 (\<lambda>x t. typing x t \<and> well_typed x \<and> t = type_of x) xs ts \<Longrightarrow>
     ts = map type_of xs \<and> (\<forall>x \<in> set xs. well_typed x)"
  by (induction rule: list_all2_induct) auto

lemma list2_cases:
  "(xs = [] \<Longrightarrow> P) \<Longrightarrow> (\<And>x. xs = [x] \<Longrightarrow> P) \<Longrightarrow> (\<And>x y ys. xs = x # y # ys \<Longrightarrow> P) \<Longrightarrow> P"
  by (cases xs; cases "tl xs") auto

lemma requireAll_ok:
  "requireAll (\<lambda>c. Some (type_of c)) xs t = Inr () \<longleftrightarrow> type_of ` set xs \<subseteq> {t, TDynamic}"
  by (induction xs) (auto simp: requireType_def and_then_simps)


lemma call_lookup: "name \<in> {js ''param'', js ''u''} \<Longrightarrow>
    call_type types name args = and_then (requireArg types args 0 TString) (\<lambda>_. Inr TDynamic)"
  by (elim insertE emptyE) (simp_all add: call_type_def TIME_FUNCTIONS_literal numeric_functions_def)

lemma call_header:
  "call_type types (js ''header'') args = and_then (requireArg types args 0 TString) (\<lambda>_. Inr TString)"
  by (simp add: call_type_def TIME_FUNCTIONS_literal numeric_functions_def)

lemma call_has:
  "call_type types (js ''has'') args = and_then (requireArg types args 1 TString) (\<lambda>_. Inr TBoolean)"
  by (simp add: call_type_def TIME_FUNCTIONS_literal numeric_functions_def)

lemma call_tier:
  "call_type types (js ''tier'') args = and_then (requireArg types args 0 TString)
     (\<lambda>_. and_then (requireArg types args 1 TNumber) (\<lambda>_. Inr TNumber))"
  by (simp add: call_type_def TIME_FUNCTIONS_literal numeric_functions_def)

lemma call_time: "name \<in> {js ''hour'', js ''minute'', js ''weekday'', js ''month'', js ''day''} \<Longrightarrow>
    call_type types name args = and_then (requireArg types args 0 TString) (\<lambda>_. Inr TNumber)"
  by (elim insertE emptyE) (simp_all add: call_type_def TIME_FUNCTIONS_literal numeric_functions_def)

lemma call_numeric:
  "name \<in> {js ''fixed'', js ''min'', js ''max'', js ''abs'', js ''ceil'', js ''floor''} \<Longrightarrow>
    call_type types name args = and_then (requireAll types args TNumber) (\<lambda>_. Inr TNumber)"
  by (elim insertE emptyE) (simp_all add: call_type_def TIME_FUNCTIONS_literal numeric_functions_def)

lemma call_other:
  "name \<notin> {js ''param'', js ''u'', js ''header'', js ''has'', js ''tier'', js ''hour'',
      js ''minute'', js ''weekday'', js ''month'', js ''day'', js ''fixed'', js ''min'', js ''max'',
      js ''abs'', js ''ceil'', js ''floor''} \<Longrightarrow> call_type types name args = Inr TDynamic"
  by (simp add: call_type_def TIME_FUNCTIONS_literal numeric_functions_def)

lemma typed_call:
  assumes "call_type (\<lambda>c. Some (type_of c)) name args = Inr t" "\<forall>x \<in> set args. well_typed x"
  shows "well_typed (Call name args s e) \<and> t = type_of (Call name args s e)"
  using assms node_type_result [of "Call name args s e" t] well_typed_children [of "Call name args s e"]
  by (simp add: typed_def)

lemma well_typed_leaf [simp]: "well_typed (Literal v i s e)" "well_typed (Variable x s e)"
  by (simp_all add: well_typed_def typed_def)

lemmas require_simps = requireArg_def requireType_def requireAll_ok and_then_simps

lemmas binary_simps = binary_type_def binary_result_def logical_ops_def comparison_ops_def require_simps

lemma well_typed_Binary:
  "well_typed (Binary op l r s e) \<longleftrightarrow> typed (Binary op l r s e) \<and> well_typed l \<and> well_typed r"
  using well_typed_children [of "Binary op l r s e"] by simp

text \<open>A derivable judgement gives the type the checker computes.\<close>

lemma typing_sound: "typing n t \<Longrightarrow> well_typed n \<and> t = type_of n"
proof (induction rule: typing.induct)
  case (t_lookup name x xs tx ts s e)
  note args = all_typed [OF t_lookup.IH]
  have "call_type (\<lambda>c. Some (type_of c)) name (x # xs) = Inr TDynamic"
    using args t_lookup.hyps(2) by (simp add: call_lookup [OF t_lookup(1)] require_simps)
  from typed_call [OF this] args show ?case by blast
next
  case (t_header x xs tx ts s e)
  note args = all_typed [OF t_header.IH]
  have "call_type (\<lambda>c. Some (type_of c)) (js ''header'') (x # xs) = Inr TString"
    using args t_header.hyps by (simp add: call_header require_simps)
  from typed_call [OF this] args show ?case by blast
next
  case (t_has x y xs tx ty ts s e)
  note args = all_typed [OF t_has.IH]
  have "call_type (\<lambda>c. Some (type_of c)) (js ''has'') (x # y # xs) = Inr TBoolean"
    using args t_has.hyps by (simp add: call_has require_simps)
  from typed_call [OF this] args show ?case by blast
next
  case (t_tier x y xs tx ty ts s e)
  note args = all_typed [OF t_tier.IH]
  have "call_type (\<lambda>c. Some (type_of c)) (js ''tier'') (x # y # xs) = Inr TNumber"
    using args t_tier.hyps by (simp add: call_tier require_simps)
  from typed_call [OF this] args show ?case by blast
next
  case (t_time name x xs tx ts s e)
  note args = all_typed [OF t_time.IH]
  have "call_type (\<lambda>c. Some (type_of c)) name (x # xs) = Inr TNumber"
    using args t_time.hyps(2) by (simp add: call_time [OF t_time(1)] require_simps)
  from typed_call [OF this] args show ?case by blast
next
  case (t_numeric name xs ts s e)
  note args = all_typed [OF t_numeric.IH]
  have "call_type (\<lambda>c. Some (type_of c)) name (xs) = Inr TNumber"
    using args t_numeric.hyps(2) by (simp add: call_numeric [OF t_numeric(1)] require_simps)
  from typed_call [OF this] args show ?case by blast
next
  case (t_other name xs ts s e)
  from typed_call [OF call_other [OF t_other(1)]] all_typed [OF t_other.IH] show ?case by blast
next
  case (t_conditional c t y ty n tn s e)
  then show ?case using well_typed_children [of "Conditional c y n s e"]
    by (auto simp: typed_def require_simps)
next
  case (t_not x t s e)
  then show ?case using well_typed_children [of "Unary (js ''!'') x s e"]
    by (auto simp: typed_def require_simps)
next
  case (t_sign op x t s e)
  then show ?case using well_typed_children [of "Unary op x s e"]
    by (auto simp: typed_def require_simps)
qed (auto simp: well_typed_Binary typed_def literal_type_def binary_simps)

lemma typing_call:
  assumes "typed (Call name args s e)" and args: "list_all2 typing args (map type_of args)"
  shows "typing (Call name args s e) (type_of (Call name args s e))"
proof -
  obtain t where t: "type_of (Call name args s e) = t"
    and c: "call_type (\<lambda>c. Some (type_of c)) name args = Inr t"
    using assms(1) by (simp add: typed_def)
  consider (lookup) "name \<in> {js ''param'', js ''u''}" | (header) "name = js ''header''"
    | (has) "name = js ''has''" | (tier) "name = js ''tier''"
    | (time) "name \<in> {js ''hour'', js ''minute'', js ''weekday'', js ''month'', js ''day''}"
    | (numeric) "name \<in> {js ''fixed'', js ''min'', js ''max'', js ''abs'', js ''ceil'', js ''floor''}"
    | (other) "name \<notin> {js ''param'', js ''u'', js ''header'', js ''has'', js ''tier'', js ''hour'',
      js ''minute'', js ''weekday'', js ''month'', js ''day'', js ''fixed'', js ''min'', js ''max'',
      js ''abs'', js ''ceil'', js ''floor''}"
    by blast
  then have "typing (Call name args s e) t"
  proof cases
    case lookup
    with c args show ?thesis
      by (cases args) (auto simp: call_lookup require_simps split: if_splits intro!: t_lookup)
  next
    case header
    with c args show ?thesis
      by (cases args) (auto simp: call_header require_simps split: if_splits intro!: t_header)
  next
    case has
    with c args show ?thesis
      by (cases args rule: list2_cases) (auto simp: call_has require_simps split: if_splits intro!: t_has)
  next
    case tier
    with c args show ?thesis
      by (cases args rule: list2_cases) (auto simp: call_tier require_simps split: if_splits intro!: t_tier)
  next
    case time
    with c args show ?thesis
      by (cases args) (auto simp: call_time require_simps split: if_splits intro!: t_time)
  next
    case numeric
    with c have "type_of ` set args \<subseteq> {TNumber, TDynamic}" "t = TNumber"
      by (auto simp: call_numeric and_then_eq_Inr requireAll_ok)
    with t_numeric [OF numeric args] show ?thesis by simp
  next
    case other
    from t_other [OF this args] call_other [OF this] c show ?thesis by auto
  qed
  with t show ?thesis by simp
qed

lemma typing_complete: "well_typed n \<Longrightarrow> typing n (type_of n)"
proof (induction n rule: node_induct)
  case (1 n)
  then have children: "\<And>c. c \<in> set (children n) \<Longrightarrow> typing c (type_of c)" and n: "typed n"
    using well_typed_children [of n] by auto
  show ?case
  proof (cases n)
    case (Literal v i s e)
    then show ?thesis by (cases v) (auto simp: literal_type_def intro: typing.intros)
  next
    case (Unary op x s e)
    with children n show ?thesis
      by (auto simp: typed_def require_simps Let_def split: if_splits intro: t_not t_sign)
  next
    case (Conditional c y z s e)
    with n have "type_of c \<in> {TBoolean, TDynamic}"
      by (auto simp: typed_def require_simps split: if_splits)
    from t_conditional [OF _ this, where y = y and n = z and s = s and e = e] children Conditional
    show ?thesis by (auto split: if_splits)
  next
    case (Binary op l r s e)
    with children have lr: "typing l (type_of l)" "typing r (type_of r)" by simp_all
    from n Binary have t: "binary_type (\<lambda>c. Some (type_of c)) op l r = Inr (type_of n)"
      by (simp add: typed_def)
    consider (logical) "op \<in> {js ''&&'', js ''||''}"
      | (comparison) "op \<in> {js ''=='', js ''!='', js ''<'', js ''<='', js ''>'', js ''>=''}"
      | (arithmetic) "op \<notin> set logical_ops" "op \<notin> set comparison_ops"
      by (auto simp: logical_ops_def comparison_ops_def)
    then show ?thesis
    proof cases
      case logical
      then have "op \<in> set logical_ops" by (simp add: logical_ops_def)
      with t have "type_of l \<in> {TBoolean, TDynamic}" "type_of r \<in> {TBoolean, TDynamic}" "type_of n = TBoolean"
        by (auto simp: binary_type_def require_simps split: if_splits)
      with t_logical [OF logical lr(1) _ lr(2)] Binary show ?thesis by simp
    next
      case comparison
      then have "op \<in> set comparison_ops" "op \<notin> set logical_ops"
        by (auto simp: comparison_ops_def logical_ops_def)
      with t have "type_of n = TBoolean" by (simp add: binary_type_def)
      with t_comparison [OF comparison lr] Binary show ?thesis by simp
    next
      case arithmetic
      show ?thesis
      proof (cases "op = js ''+'' \<and> type_of l = TString \<and> type_of r = TString")
        case True
        with t arithmetic have "type_of n = TString" by (simp add: binary_type_def)
        with True lr t_append [of l r s e] Binary show ?thesis by simp
      next
        case False
        with t arithmetic have "type_of l \<in> {TNumber, TDynamic}" "type_of r \<in> {TNumber, TDynamic}"
          "type_of n = TNumber"
          by (auto simp: binary_type_def require_simps split: if_splits)
        with t_arithmetic [OF _ lr(1) _ lr(2)] arithmetic Binary show ?thesis
          by (simp add: logical_ops_def comparison_ops_def)
      qed
    qed
  next
    case (Call name args s e)
    with children have "list_all2 typing args (map type_of args)"
      by (simp add: list_all2_map2 list_all2_same)
    with typing_call n Call show ?thesis by blast
  qed (auto intro: typing.intros)
qed

text \<open>A tree has at most one type, and the checker accepts exactly the trees that have one.\<close>

lemma typing_iff: "typing n t \<longleftrightarrow> well_typed n \<and> t = type_of n"
  using typing_sound typing_complete by blast

lemma typing_unique: "typing n t \<Longrightarrow> typing n t' \<Longrightarrow> t = t'"
  by (simp add: typing_iff)

lemma checkExpressionTypes_typed:
  "checkExpressionTypes n = Inr () \<longleftrightarrow> height n \<le> 256 \<and> (\<exists>t. typing n t)"
  by (simp add: checkExpressionTypes_iff typing_iff)

end
