(* ===== verification/BillingProperties.thy ===== *)
theory BillingProperties
  imports BillingArithmetic TimeTable BillingTyping
begin

text \<open>
  The properties of the billing expression language: parsing, static checks, compilation and its
  cache, and evaluation.  Each is stated over the definitions of the component theories and
  proved from their lemmas; a property with hypotheses is followed by an instance.
\<close>

section \<open>Parsing\<close>

text \<open>
  C16. Parsing always ends: for no source does the parser run out of the fuel it starts with, so it
  returns a tree or throws a diagnostic.
\<close>

theorem parse_never_out_of_fuel: "\<exists>r. parse_outcome source = lift_sum r \<and> parse source = r"
  using parse_outcome_total [of source]
  by (cases "parse_outcome source") (auto simp: parse_def lift_sum_def split: sum.splits)

text \<open>
  C22. A parsed tree is well formed: at every node the span is not empty, the children lie inside it in
  source order without overlapping, and the variable, the operator or the function with its
  number of arguments is one of the language's; the whole tree lies in the source.
\<close>

theorem parse_well_formed:
  assumes "parse source = Inr ast" "n \<in> set (postorder ast)"
  shows "n_start n < n_end n \<and> n_end n \<le> length source
    \<and> ordered (n_start n) (n_end n) (children n) \<and> vocabulary_ok n"
proof -
  note ok = parse_Inr [OF assms(1)]
  with postorder_within [OF ok(1) assms(2)] show ?thesis
    by (auto simp: node_ok_iff [of n] shape_ok_def)
qed

definition sample_source :: jsstr where
  "sample_source = js ''tier(\"a\", p * 2)''"

definition sample_ast :: node where
  "sample_ast =
     Call (js ''tier'')
       [Literal (LStr (js ''a'')) False 5 8,
        Binary (js ''*'') (Variable (js ''p'') 10 11) (Literal (LNum (Fin 2)) True 14 15) 10 15] 0 16"

lemma sample_parses: "parse sample_source = Inr sample_ast"
  by code_simp

theorem parse_well_formed_witness:
  "ordered 10 15 [Variable (js ''p'') 10 11, Literal (LNum (Fin 2)) True 14 15]
    \<and> vocabulary_ok sample_ast"
  using parse_well_formed [OF sample_parses, of sample_ast]
    parse_well_formed [OF sample_parses,
      of "Binary (js ''*'') (Variable (js ''p'') 10 11) (Literal (LNum (Fin 2)) True 14 15) 10 15"]
  by (simp add: sample_ast_def)

text \<open>
  Nodes of a parsed tree are identified by their spans, so comparing nodes as values is
  comparing them as objects: the tables keyed by nodes and the search for the rule of a node
  do not confuse two nodes.
\<close>

lemma parse_nodes_distinct:
  assumes "parse source = Inr ast" "a \<in> set (postorder ast)" "b \<in> set (postorder ast)"
    and "n_start a = n_start b" "n_end a = n_end b"
  shows "a = b \<and> distinct (postorder ast)"
  using same_span_same_node [OF parse_Inr(1) [OF assms(1)] assms(2-5)]
    distinct_postorder [OF parse_Inr(1) [OF assms(1)]] by blast

text \<open>
  The lexer's contract: from a cursor inside the source, the next lexeme is the slice of the source
  after the white space, it ends at the new cursor, it is not empty except at the end of
  the source, and at most 10000 lexemes are read.
\<close>

lemma next_lexeme_contract:
  assumes "next_lexeme source pos k = Inr (lx, pos', k')" "pos \<le> length source"
  shows "k' = Suc k \<and> k' \<le> 10000 \<and> pos' \<le> length source \<and> l_end lx = pos'
    \<and> list_all is_ws (slice pos (l_start lx) source)
    \<and> slice pos (l_start lx) source @ l_text lx = slice pos pos' source
    \<and> (l_kind lx \<noteq> KEnd \<longrightarrow> l_text lx \<noteq> []) \<and> (l_kind lx = KEnd \<longrightarrow> pos' = length source)"
proof -
  from next_lexeme_Inr [OF assms(1)] assms(2) have
    c: "k' = Suc k" "k' \<le> 10000" "pos \<le> l_start lx" "l_end lx = pos'"
      "l_start lx \<le> pos'" "pos' \<le> length source"
      "l_text lx = slice (l_start lx) pos' source"
      "list_all is_ws (slice pos (l_start lx) source)"
    and e: "if l_kind lx = KEnd then l_start lx = length source else l_start lx < pos'"
    by blast+
  have "l_text lx \<noteq> []" if "l_kind lx \<noteq> KEnd"
    using that e c(6,7) by (auto simp: slice_def)
  moreover have "slice pos (l_start lx) source @ l_text lx = slice pos pos' source"
    using c(3,5,7) slice_append_slice by simp
  ultimately show ?thesis using c e by auto
qed

text \<open>
  The traversal of \<open>visitExpression\<close>, a loop over an explicit stack, is the fold of the visitor
  over the recursive postorder of the tree when the tree is at most 256 levels high, and throws on
  every higher tree.
\<close>

lemma visitExpression_spec:
  "visitExpression n f s = Inr r \<longleftrightarrow> height n \<le> 256 \<and> foldM f (postorder n) s = Inr r"
  by (rule visit_Inr)

section \<open>Static checks and compilation\<close>

text \<open>
  C34. The type checker accepts a tree exactly when it is at most 256 levels high and has a type by
  the typing rules of the language, a judgement that is stated without the checker, one rule for
  each construct: the condition of a conditional and the operands of the logical operators are
  boolean, arithmetic is numeric apart from the concatenation of two strings, anything can be
  compared, and each function takes arguments of its own types; an operand whose type is only known
  at run time is accepted everywhere.
\<close>

theorem checkExpressionTypes_spec:
  "checkExpressionTypes n = Inr () \<longleftrightarrow> height n \<le> 256 \<and> (\<exists>t. typing n t)"
  by (simp add: checkExpressionTypes_iff typing_iff)

theorem checkExpressionTypes_spec_witness:
  "checkExpressionTypes sample_ast = Inr () \<and>
   (\<nexists>t. typing (Conditional (Literal (LNum (Fin 1)) False 0 1) sample_ast sample_ast 0 9) t)"
proof
  have "height sample_ast \<le> 256 \<and> well_typed sample_ast" by code_simp
  then show "checkExpressionTypes sample_ast = Inr ()"
    by (intro checkExpressionTypes_spec [THEN iffD2]) (simp add: typing_iff)
  have "checkExpressionTypes (Conditional (Literal (LNum (Fin 1)) False 0 1) sample_ast sample_ast 0 9) \<noteq> Inr ()"
    "height (Conditional (Literal (LNum (Fin 1)) False 0 1) sample_ast sample_ast 0 9) \<le> 256"
    by code_simp+
  then show "\<nexists>t. typing (Conditional (Literal (LNum (Fin 1)) False 0 1) sample_ast sample_ast 0 9) t"
    by (simp only: checkExpressionTypes_spec) simp
qed

text \<open>
  Compilation computes what it records: the variables and functions are those of the tree, and the
  request rules are, in postorder, the conditionals with a numeric multiplier, the alternative
  1 and a condition that reads the request or the time; each rule's text is the source of its
  condition.
\<close>

lemma compile_records:
  assumes "compile_fresh source = Ready c"
  shows "parse source = Inr (c_ast c)
    \<and> (\<forall>f. f \<in> set (c_functions c) \<longleftrightarrow> calls f (c_ast c))
    \<and> (\<forall>x. x \<in> set (c_variables c) \<longleftrightarrow> uses x (c_ast c))
    \<and> c_rules c = map (rule_of source) (filter is_rule (postorder (c_ast c)))
    \<and> well_typed (c_ast c) \<and> height (c_ast c) \<le> 256"
  using compile_steps_Inr [OF assms [unfolded compile_fresh_Ready]] by blast

definition rule_source :: jsstr where
  "rule_source = js ''p*(param(\"a\")==1?2:1)''"

definition rule_compiled :: compiled_expression where
  "rule_compiled =
     (case compile_steps rule_source of Inr c \<Rightarrow> c
      | Inl _ \<Rightarrow> \<lparr>c_source = [], c_ast = sample_ast, c_variables = [], c_functions = [], c_rules = []\<rparr>)"

lemma rule_compiles: "compile_fresh rule_source = Ready rule_compiled"
proof -
  have "(case compile_steps rule_source of Inr c \<Rightarrow> True | Inl _ \<Rightarrow> False)" by code_simp
  then show ?thesis
    by (auto simp: compile_fresh_def rule_compiled_def split: sum.splits)
qed

lemma fixed_call_literal:
  assumes "compile_fresh source = Ready c" "Call (js ''fixed'') args s e \<in> set (postorder (c_ast c))"
  shows "\<exists>v i s' e'. args = [Literal (LNum v) i s' e'] \<and> num_le (Fin 0) v
    \<and> is_finite (num_mul v (Fin 1000000))"
proof -
  note c = compile_steps_Inr [OF assms(1) [unfolded compile_fresh_Ready]]
  have "js ''fixed'' \<in> set (c_functions c)" using c(5) assms(2) by (auto simp: calls_def)
  from c(8) [OF this] validate_fixed_calls [OF _ parse_Inr(1) [OF c(1)], of source "postorder (c_ast c)"]
  have "fixed_calls_ok (c_ast c)" by (simp add: c(7))
  with assms(2) obtain amount where "args = [amount]" "fixed_amount_ok amount"
    by (auto simp: fixed_calls_ok_def)
  then show ?thesis by (auto simp: fixed_amount_ok_def split: node.splits literal.splits)
qed

text \<open>
  Fixed pricing is validated: in a compiled expression every call of \<open>fixed\<close> has one argument, a
  numeric literal that is not negative and whose price per million stays finite.
\<close>

lemma compile_fixed_pricing:
  assumes "compile_fresh source = Ready c" "Call (js ''fixed'') args s e \<in> set (postorder (c_ast c))"
  shows "\<exists>v i s' e'. args = [Literal (LNum v) i s' e'] \<and> num_le (Fin 0) v
    \<and> is_finite (num_mul v (Fin 1000000))"
  using assms by (rule fixed_call_literal)

definition fixed_source :: jsstr where
  "fixed_source = js ''tier(\"a\",fixed(3))''"

definition fixed_compiled :: compiled_expression where
  "fixed_compiled =
     \<lparr>c_source = fixed_source,
      c_ast = Call (js ''tier'')
        [Literal (LStr (js ''a'')) False 5 8,
         Call (js ''fixed'') [Literal (LNum (Fin 3)) True 15 16] 9 17] 0 18,
      c_variables = [], c_functions = [js ''fixed'', js ''tier''], c_rules = []\<rparr>"

lemma fixed_compiles: "compile_fresh fixed_source = Ready fixed_compiled"
  by code_simp

text \<open>
  C5. The cache of compiled expressions is invisible: from a cache whose entries are the results of
  their sources, compiling gives the result of a fresh compilation, and leaves such a cache with
  at most 128 entries, one per source.
\<close>

theorem compile_cache_transparent:
  assumes "\<forall>(src, result) \<in> set cache. compile_fresh src = result" "distinct (map fst cache)"
    "length cache \<le> 128"
  shows "case compileBillingExpression cache source of (result, cache') \<Rightarrow>
    result = compile_fresh source \<and> (\<forall>(src, result) \<in> set cache'. compile_fresh src = result)
    \<and> distinct (map fst cache') \<and> length cache' \<le> 128"
proof -
  have ok: "cache_ok cache"
    using assms by (auto simp: cache_ok_def coherent_def dest: map_of_SomeD)
  have all: "\<forall>(src, result) \<in> set m. compile_fresh src = result" if "cache_ok m" for m
    using that by (auto simp: cache_ok_def coherent_def)
  from compile_cached [OF ok, of source] all show ?thesis
    by (auto simp: case_prod_beta cache_ok_def)
qed

theorem compile_cache_transparent_witness:
  "fst (compileBillingExpression [(fixed_source, Ready fixed_compiled)] fixed_source) = compile_fresh fixed_source"
  using compile_cache_transparent [of "[(fixed_source, Ready fixed_compiled)]" fixed_source] fixed_compiles
  by (simp add: case_prod_beta)

section \<open>Evaluation\<close>

text \<open>A host without time zones whose lower-case mapping is that of ASCII, for the instances.\<close>

definition plain_host :: host where
  "plain_host =
     \<lparr>h_lower = map (\<lambda>c. if is_upper c then c + 32 else c), h_zone = (\<lambda>_. None), h_now = 0\<rparr>"

definition sample_context :: simulation_context where
  "sample_context =
     \<lparr>imageCount = None, tokens = Some [(js ''p'', JNum (Fin 7))],
      request = Some \<lparr>req_body = JObj [(js ''a'', JNum (Fin 1))], req_headers = None\<rparr>,
      usage = None, ctx_now = Some (Some 0)\<rparr>"

definition sample_env :: runtime_env where
  "sample_env =
     \<lparr>env_host = plain_host, env_rules = [], env_context = sample_context, env_now = Some 0,
      env_headers = []\<rparr>"

lemma evaluate_steps_Inr:
  assumes "fst (evaluateBillingExpression h cache (Inr c) context) = Success r"
  obtains env v s where "evaluate env (c_ast c) (initial_state (c_rules c)) = Inr (v, s)"
    and "rvalue v = JNum (cost r)" "is_finite (cost r)" "\<not> num_lt (cost r) (Fin 0)"
    and "res_unit r = billingUnit s" "res_fixedPrice r = fixedPrice s" "res_rules r = requestRules s"
proof -
  from assms have "evaluate_steps h c context = Inr r"
    by (auto simp: evaluateBillingExpression_def split: sum.splits)
  then obtain env v s where ev: "evaluate env (c_ast c) (initial_state (c_rules c)) = Inr (v, s)"
    and r: "billing_result c context (rvalue v) s = Inr r"
    by (auto simp: evaluate_steps_def runtime_constructor_def and_then_eq_Inr)
  from r show ?thesis
    by (cases "rvalue v") (use that [OF ev] in \<open>auto simp: billing_result_def split: if_splits\<close>)
qed

text \<open>
  What the evaluation of a node guarantees: the depth counter is back at its value, a numeric result
  is finite and is a safe integer when it is flagged as an integer, and the request rules keep
  their order, conditions and multipliers and are only ever marked.
\<close>

lemma evaluate_guarantees:
  assumes "evaluate env n s = Inr (r, s')"
  shows "runtime_state.depth s' = runtime_state.depth s
    \<and> (\<forall>x. rvalue r = JNum x \<longrightarrow> is_finite x \<and> (rinteger r \<longrightarrow> is_safe_integer x))
    \<and> list_all2 (\<lambda>a b. b_cond b = b_cond a \<and> b_multiplier b = b_multiplier a \<and> (b_matched a \<longrightarrow> b_matched b))
        (requestRules s) (requestRules s')"
  using evaluate_depth [OF assms] evaluate_number [OF assms] evaluate_rules [OF assms]
  by (auto simp: rules_marked_def rule_marked_def [abs_def])

text \<open>
  C19. A successful evaluation has a finite cost that is not negative, reports one entry per request
  rule of the compiled expression, with its condition and multiplier, and bills per request
  exactly when a fixed price was set.
\<close>

theorem evaluation_success:
  assumes "fst (evaluateBillingExpression h cache (Inr c) context) = Success r"
  shows "is_finite (cost r) \<and> \<not> num_lt (cost r) (Fin 0)
    \<and> map b_cond (res_rules r) = map r_cond (c_rules c)
    \<and> map b_multiplier (res_rules r) = map r_multiplier (c_rules c)
    \<and> (res_unit r = RequestUnit \<longleftrightarrow> res_fixedPrice r \<noteq> None)"
proof -
  obtain env v s where ev: "evaluate env (c_ast c) (initial_state (c_rules c)) = Inr (v, s)"
    and x: "is_finite (cost r)" "\<not> num_lt (cost r) (Fin 0)"
    and r: "res_unit r = billingUnit s" "res_fixedPrice r = fixedPrice s" "res_rules r = requestRules s"
    by (rule evaluate_steps_Inr [OF assms]) blast
  have "price_ok (\<lambda>_. True) s"
    using price_kept.evaluate_R [OF _ ev, of "\<lambda>_. True"]
    by (simp add: fixed_amounts_def price_ok_def initial_state_def)
  moreover have "list_all2 rule_marked (requestRules (initial_state (c_rules c))) (requestRules s)"
    using evaluate_rules [OF ev] by (simp add: rules_marked_def)
  then have "map b_cond (requestRules s) = map r_cond (c_rules c)"
    "map b_multiplier (requestRules s) = map r_multiplier (c_rules c)"
    by (auto simp: initial_state_def rule_marked_def list_all2_conv_all_nth intro!: nth_equalityI)
  ultimately show ?thesis
    using x r by (auto simp: price_ok_def split: option.splits)
qed

definition rule_success :: evaluation_success where
  "rule_success =
     (case fst (evaluateBillingExpression plain_host [] (Inr rule_compiled) sample_context) of Success r \<Rightarrow> r
      | EvaluationFailed _ \<Rightarrow> \<lparr>cost = NaN, res_unit = TokenUnit, res_fixedPrice = None,
          res_imageCount = None, res_matchedTier = [], res_rules = []\<rparr>)"

lemma rule_evaluates:
  "fst (evaluateBillingExpression plain_host [] (Inr rule_compiled) sample_context) = Success rule_success"
proof -
  have "(case fst (evaluateBillingExpression plain_host [] (Inr rule_compiled) sample_context) of
      Success r \<Rightarrow> True | EvaluationFailed _ \<Rightarrow> False)" by code_simp
  then show ?thesis by (simp add: rule_success_def split: evaluation_result.splits)
qed

theorem evaluation_success_witness:
  "map b_cond (res_rules rule_success) = [js ''param(\"a\")==1''] \<and> cost rule_success = Fin 14"
proof -
  have "map r_cond (c_rules rule_compiled) = [js ''param(\"a\")==1'']" "cost rule_success = Fin 14"
    by code_simp+
  with evaluation_success [OF rule_evaluates] show ?thesis by simp
qed

text \<open>
  C4. The fixed price of a successful evaluation of a compiled expression is the literal amount of one of
  its \<open>fixed\<close> calls, and is not negative.
\<close>

theorem fixed_price_is_literal:
  assumes "compile_fresh source = Ready c"
    and "fst (evaluateBillingExpression h cache (Inr c) context) = Success r" "res_unit r = RequestUnit"
  shows "\<exists>v i s e s' e'. res_fixedPrice r = Some v \<and> num_le (Fin 0) v
    \<and> Call (js ''fixed'') [Literal (LNum v) i s e] s' e' \<in> set (postorder (c_ast c))"
proof -
  define P where "P v \<longleftrightarrow> num_le (Fin 0) v
    \<and> (\<exists>i s e s' e'. Call (js ''fixed'') [Literal (LNum v) i s e] s' e' \<in> set (postorder (c_ast c)))" for v
  have "\<exists>v i s' e'. args = [Literal (LNum v) i s' e'] \<and> P v"
    if call: "Call (js ''fixed'') args s e \<in> set (postorder (c_ast c))" for args s e
  proof -
    obtain v i s' e' where a: "args = [Literal (LNum v) i s' e']" and v: "num_le (Fin 0) v"
      using fixed_call_literal [OF assms(1) call] by (elim exE conjE)
    have "P v" using call v unfolding P_def a by (intro conjI exI)
    with a show ?thesis by (intro exI conjI)
  qed
  then have fa: "fixed_amounts P (c_ast c)" unfolding fixed_amounts_def by blast
  obtain env v s where ev: "evaluate env (c_ast c) (initial_state (c_rules c)) = Inr (v, s)"
    and r: "res_unit r = billingUnit s" "res_fixedPrice r = fixedPrice s"
    by (rule evaluate_steps_Inr [OF assms(2)]) blast
  have "price_ok P s"
    using price_kept.evaluate_R [OF fa ev] by (simp add: price_ok_def initial_state_def)
  with assms(3) r show ?thesis by (auto simp: price_ok_def P_def split: option.splits)
qed

theorem fixed_price_is_literal_witness:
  "\<exists>r. fst (evaluateBillingExpression plain_host [] (Inr fixed_compiled) sample_context) = Success r
    \<and> (\<exists>v. res_fixedPrice r = Some v \<and> num_le (Fin 0) v)"
proof -
  have "fst (evaluateBillingExpression plain_host [] (Inr fixed_compiled) sample_context) =
      Success \<lparr>cost = Fin 3000000, res_unit = RequestUnit, res_fixedPrice = Some (Fin 3),
        res_imageCount = None, res_matchedTier = js ''a'', res_rules = []\<rparr>"
    by code_simp
  with fixed_price_is_literal [OF fixed_compiles this] show ?thesis by auto
qed

text \<open>
  C35. Types are sound: the value of a tree that passes the type checker has the static type of the tree,
  unless some \<open>+\<close> has two operands of dynamic type, which is checked as a number and
  concatenates two strings.
\<close>

theorem evaluation_type_sound:
  assumes "checkExpressionTypes n = Inr ()"
    and "\<forall>m \<in> set (postorder n). \<not> dynamic_plus m"
    and "evaluate env n s = Inr (r, s')"
  shows "has_type (rvalue r) (type_of n)"
  using assms evaluate_type [of n env s r s']
  by (simp add: checkExpressionTypes_iff plus_resolved_def list_all_iff)

theorem evaluation_type_sound_witness:
  "has_type (rvalue \<lparr>rvalue = JNum (Fin 3000000), rinteger = False\<rparr>) (type_of (c_ast fixed_compiled))"
proof (rule evaluation_type_sound)
  show "checkExpressionTypes (c_ast fixed_compiled) = Inr ()" by code_simp
  show "\<forall>m \<in> set (postorder (c_ast fixed_compiled)). \<not> dynamic_plus m" by code_simp
  show "evaluate sample_env (c_ast fixed_compiled) (initial_state []) =
      Inr (\<lparr>rvalue = JNum (Fin 3000000), rinteger = False\<rparr>,
           (initial_state [])\<lparr>matchedTier := js ''a'', billingUnit := RequestUnit, fixedPrice := Some (Fin 3)\<rparr>)"
    by code_simp
qed

text \<open>
  C1. Integer arithmetic is exact: on a tree of integer literals, signs and \<open>+ - * %\<close> the evaluator
  succeeds exactly when the reference over unbounded integers does, that is when every
  intermediate result is a safe integer and no divisor is zero, and then its result is the exact
  integer.
\<close>

theorem integer_arithmetic_exact:
  assumes "int_tree n" "runtime_state.depth s + height n < 256"
  shows "(case evaluate env n s of
       Inr (r, s') \<Rightarrow> \<exists>x z. int_eval n = Some z \<and> rvalue r = JNum x \<and> num_val x = of_int z \<and> rinteger r
     | Inl d \<Rightarrow> int_eval n = None)"
proof (cases "evaluate env n s")
  case (Inl d)
  have "int_eval n = None"
  proof (rule ccontr)
    assume "int_eval n \<noteq> None"
    then obtain z where "int_eval n = Some z" by blast
    from int_tree_complete [OF assms(1) this assms(2), of env] Inl show False by simp
  qed
  with Inl show ?thesis by simp
next
  case (Inr p)
  obtain r s' where p: "p = (r, s')" by (cases p)
  with int_tree_sound [OF assms(1)] Inr show ?thesis
    by (fastforce simp: int_result_def represents_def)
qed

definition modulo_tree :: node where
  "modulo_tree =
     Binary (js ''%'') (Unary (js ''-'') (Literal (LNum (Fin 7)) True 1 2) 0 2)
       (Literal (LNum (Fin 3)) True 3 4) 0 4"

theorem integer_arithmetic_exact_witness:
  "\<exists>r s x. evaluate sample_env modulo_tree (initial_state []) = Inr (r, s) \<and> rvalue r = JNum x \<and> num_val x = - 1"
proof -
  have t: "int_tree modulo_tree" "runtime_state.depth (initial_state []) + height modulo_tree < 256"
    "int_eval modulo_tree = Some (- 1)" by code_simp+
  from integer_arithmetic_exact [OF t(1,2), of sample_env] t(3) show ?thesis
    by (auto split: sum.splits)
qed

text \<open>
  The table of zone times inside an evaluation is invisible: from any table whose entries are the
  times of their zones, evaluation throws the same diagnostic or returns the same value, and a state
  that differs at most in the table, as from the empty table.
\<close>

lemma time_table_transparent:
  assumes "\<forall>(zone, v) \<in> set (timeValues s). timeInBillingZone (env_host env) (env_now env) zone = Inr v"
  shows "(case (evaluate env n s, evaluate env n (s\<lparr>timeValues := []\<rparr>)) of
       (Inl d, Inl d') \<Rightarrow> d = d'
     | (Inr (r, t), Inr (r', t')) \<Rightarrow> r = r' \<and> t\<lparr>timeValues := []\<rparr> = t'\<lparr>timeValues := []\<rparr>
     | _ \<Rightarrow> False)"
proof -
  have "same_but_times env s (s\<lparr>timeValues := []\<rparr>)"
    using assms by (auto simp: same_but_times_def times_coherent_def coherent_def dest: map_of_SomeD)
  with blind_evaluate [of env n] have "same_outcome env (evaluate env n s) (evaluate env n (s\<lparr>timeValues := []\<rparr>))"
    by (simp add: table_blind_def)
  then show ?thesis
    by (auto simp: same_outcome_def same_but_times_def split: sum.splits prod.splits)
qed

section \<open>Request paths and times\<close>

text \<open>A key written so that \<open>readRequestPath\<close> reads it back, and the value at a list of keys.\<close>

definition escape_key :: "jsstr \<Rightarrow> jsstr" where
  "escape_key key =
     concat (map (\<lambda>c. if c \<in> set ([92, 46] @ path_metacharacters) then [92, c] else [c]) key)"

fun object_path :: "jsval \<Rightarrow> jsstr list \<Rightarrow> jsval option" where
  "object_path v [] = Some v"
| "object_path v (k # ks) =
     (case v of JObj es \<Rightarrow> (case map_of es k of Some w \<Rightarrow> object_path w ks | None \<Rightarrow> None) | _ \<Rightarrow> None)"

lemma path_parts_escape:
  "path_parts path (escape_key key @ rest) part = path_parts path rest (part @ key)"
  by (induction key arbitrary: part) (auto simp: escape_key_def path_metacharacters_def js_def)

lemma path_parts_join:
  "ks \<noteq> [] \<Longrightarrow> path_parts path (join (js ''.'') (map escape_key ks)) [] = Inr ks"
proof (induction ks rule: induct_list012)
  case (2 k)
  then show ?case using path_parts_escape [of path k "[]" "[]"] by simp
next
  case (3 k l ks)
  then show ?case by (simp add: path_parts_escape js_def)
qed simp

lemma path_lookup_objects: "object_path v ks = Some w \<Longrightarrow> path_lookup path v ks = Inr (or_null w)"
  by (induction path v ks rule: path_lookup.induct) (auto split: jsval.splits option.splits)

text \<open>
  Request paths round-trip: joining escaped keys with dots gives a path that reads exactly those
  keys of nested objects, whatever characters the keys hold, when the path does not begin or
  end with white space.
\<close>

lemma request_path_roundtrip:
  assumes "object_path body ks = Some v" "ks \<noteq> []"
    and "trim (join (js ''.'') (map escape_key ks)) = join (js ''.'') (map escape_key ks)"
    and "join (js ''.'') (map escape_key ks) \<noteq> []"
  shows "readRequestPath body (join (js ''.'') (map escape_key ks)) = Inr (or_null v)"
  using assms by (simp add: readRequestPath_def path_parts_join path_lookup_objects)

text \<open>
  When the zone is rejected, the zone time falls back to UTC, and then every field is an integer in
  its range: hours below 24, minutes below 60, weekdays below 7, months from 1 to 12 and days from
  1 to 31.
\<close>

lemma utc_fallback_in_range:
  assumes "trim zone \<noteq> js ''Local''"
    and "zone_formatter h (if trim zone = [] then js ''UTC'' else trim zone) = None"
  shows "\<exists>values hour minute weekday month day.
    timeInBillingZone h (Some t) zone = Inr values
    \<and> values = \<lparr>tv_hour = Fin (of_int hour), tv_minute = Fin (of_int minute), tv_weekday = Fin (of_int weekday),
        tv_month = Fin (of_int month), tv_day = Fin (of_int day)\<rparr>
    \<and> hour \<in> {0..23} \<and> minute \<in> {0..59} \<and> weekday \<in> {0..6} \<and> month \<in> {1..12} \<and> day \<in> {1..31}"
proof -
  have small: "num_of_int z = Fin (of_int z)" if "0 \<le> z" "z \<le> 100" for z
    using dround_of_int [of z False] that by (simp add: num_of_int_def max_safe_def)
  have "utc_time_values t =
      \<lparr>tv_hour = Fin (of_int (utc_hours t)), tv_minute = Fin (of_int (utc_minutes t)),
       tv_weekday = Fin (of_int (utc_day t)), tv_month = Fin (of_int (utc_month t + 1)),
       tv_day = Fin (of_int (utc_date t))\<rparr>"
    unfolding utc_time_values_def
    using utc_hours_range [of t] utc_minutes_range [of t] utc_day_range [of t] utc_month_range [of t]
      utc_date_range [of t] by (simp add: small del: of_int_add)
  moreover have "timeInBillingZone h (Some t) zone = Inr (utc_time_values t)"
    using assms by (auto simp: timeInBillingZone_def Let_def)
  moreover have "utc_hours t \<in> {0..23}" "utc_minutes t \<in> {0..59}" "utc_day t \<in> {0..6}"
    "utc_month t + 1 \<in> {1..12}" "utc_date t \<in> {1..31}"
    using utc_hours_range [of t] utc_minutes_range [of t] utc_day_range [of t] utc_month_range [of t]
      utc_date_range [of t] by auto
  ultimately show ?thesis by (intro exI conjI)
qed

end
