(* ===== verification/BillingStructure.thy ===== *)
theory BillingStructure
  imports JsPrelude
begin

text \<open>
  The source-level helpers of \<open>billing-expression/structure.ts\<close>, which split an expression at its
  top-level operators and remove enclosing parentheses without parsing it.
\<close>

section \<open>Splitting at the top level\<close>

definition is_quote :: "nat \<Rightarrow> bool" where
  "is_quote c \<longleftrightarrow> c = 34 \<or> c = 39"

definition bracket_depth :: "nat \<Rightarrow> int \<Rightarrow> int" where
  "bracket_depth c d =
     (if c \<in> set (js ''([{'') then d + 1 else if c \<in> set (js '')]}'') then d - 1 else d)"

text \<open>What the body of the loop does at one index: advance, cut here, or give up on splitting.\<close>

datatype split_action = Advance nat int "nat option" | Cut int | Whole

definition split_step :: "jsstr \<Rightarrow> jsstr \<Rightarrow> nat \<Rightarrow> int \<Rightarrow> nat option \<Rightarrow> split_action" where
  "split_step source operator i d quote =
     (let c = source ! i in
      case quote of
        Some q \<Rightarrow>
          if c = 92 then Advance 2 d quote else Advance 1 d (if c = q then None else quote)
      | None \<Rightarrow>
          if is_quote c then Advance 1 d (Some c)
          else
            (let d' = bracket_depth c d in
             if d' \<noteq> 0 then Advance 1 d' None
             else if c = ch (CHR ''?'') then Whole
             else if starts_with operator (drop i source) then Cut d'
             else Advance 1 d' None))"

text \<open>
  The loop of \<open>splitExpressionAtTopLevel\<close>; \<open>None\<close> for \<open>quote\<close> is the empty string.  On an empty
  operator the loop of the source steps back at a match and never ends: the result is \<open>None\<close>.
\<close>

function split_loop ::
  "jsstr \<Rightarrow> jsstr \<Rightarrow> nat \<Rightarrow> nat \<Rightarrow> int \<Rightarrow> nat option \<Rightarrow> jsstr list \<Rightarrow> jsstr list option" where
  "split_loop source operator i start d quote parts =
     (if length source \<le> i
      then Some (filter (\<lambda>part. part \<noteq> []) (parts @ [trim (drop start source)]))
      else
        (case split_step source operator i d quote of
           Advance k d' quote' \<Rightarrow> split_loop source operator (i + max 1 k) start d' quote' parts
         | Whole \<Rightarrow> Some [trim source]
         | Cut d' \<Rightarrow>
             if operator = [] then None
             else split_loop source operator (i + length operator) (i + length operator) d' None
               (parts @ [trim (slice start i source)])))"
  by pat_completeness auto
termination
proof (relation "measure (\<lambda>(source, operator, i, start, d, quote, parts). length source - i)", goal_cases)
  case (3 source operator i start d quote parts)
  then show ?case by (cases operator) auto
qed auto

declare split_loop.simps [simp del]

definition splitExpressionAtTopLevel :: "jsstr \<Rightarrow> jsstr \<Rightarrow> jsstr list option" where
  "splitExpressionAtTopLevel source operator = split_loop source operator 0 0 0 None []"

section \<open>Removing parentheses\<close>

text \<open>The inner loop: whether the parenthesis that opens the expression closes at its end.\<close>

function closes_loop :: "jsstr \<Rightarrow> nat \<Rightarrow> int \<Rightarrow> nat option \<Rightarrow> bool" where
  "closes_loop e i d quote =
     (if length e \<le> i then False
      else
        (let c = e ! i in
         case quote of
           Some q \<Rightarrow>
             if c = 92 then closes_loop e (i + 2) d quote
             else closes_loop e (i + 1) d (if c = q then None else quote)
         | None \<Rightarrow>
             if is_quote c then closes_loop e (i + 1) d (Some c)
             else
               (let d' = (if c = ch (CHR ''('') then d + 1 else if c = ch (CHR '')'') then d - 1 else d) in
                if d' = 0 then i = length e - 1 else closes_loop e (i + 1) d' None)))"
  by pat_completeness auto
termination
  by (relation "measure (\<lambda>(e, i, d, quote). length e - i)") auto

declare closes_loop.simps [simp del]

definition wrapped :: "jsstr \<Rightarrow> bool" where
  "wrapped e \<longleftrightarrow> e \<noteq> [] \<and> hd e = ch (CHR ''('') \<and> last e = ch (CHR '')'') \<and> closes_loop e 0 0 None"

lemma wrapped_length: "wrapped e \<Longrightarrow> 2 \<le> length e"
proof (cases e rule: list.exhaust)
  case (Cons c cs)
  then show "wrapped e \<Longrightarrow> ?thesis" by (cases cs) (auto simp: wrapped_def)
qed (simp add: wrapped_def)

function unwrap_loop :: "jsstr \<Rightarrow> jsstr" where
  "unwrap_loop e = (if wrapped e then unwrap_loop (trim (slice 1 (length e - 1) e)) else e)"
  by pat_completeness auto
termination
proof (relation "measure length", simp)
  fix e :: jsstr
  assume "wrapped e"
  with wrapped_length have "2 \<le> length e" by blast
  moreover have "length (trim (slice 1 (length e - 1) e)) \<le> length (slice 1 (length e - 1) e)"
    by (rule length_trim)
  ultimately show "(trim (slice 1 (length e - 1) e), e) \<in> measure length" by simp
qed

declare unwrap_loop.simps [simp del]

definition unwrapExpressionParens :: "jsstr \<Rightarrow> jsstr" where
  "unwrapExpressionParens source = unwrap_loop (trim source)"

section \<open>Lemmas\<close>

lemma join_append:
  "xs \<noteq> [] \<Longrightarrow> ys \<noteq> [] \<Longrightarrow> join sep (xs @ ys) = join sep xs @ sep @ join sep ys"
proof (induction xs rule: induct_list012)
  case (2 x)
  then show ?case by (cases ys) auto
qed auto

text \<open>
  The invariant of the loop: the raw parts found so far, each followed by the operator, are the
  source up to \<open>start\<close>.
\<close>

lemma trim_decompose: "\<exists>u v. s = u @ trim s @ v \<and> list_all is_ws u \<and> list_all is_ws v"
proof -
  have 1: "s = takeWhile is_ws s @ trim_start s" by (simp add: trim_start_def)
  have 2: "trim_start s = trim s @ rev (takeWhile is_ws (rev (trim_start s)))"
    unfolding trim_def trim_end_def by (metis rev_append rev_rev_ident takeWhile_dropWhile_id)
  have "list_all is_ws (takeWhile is_ws s)" "list_all is_ws (rev (takeWhile is_ws (rev (trim_start s))))"
    by (auto simp: list_all_iff dest: set_takeWhileD)
  with 1 2 show ?thesis by metis
qed

lemma trim_eq_Nil: "trim s = [] \<longleftrightarrow> (\<forall>c \<in> set s. is_ws c)"
proof
  assume "trim s = []"
  with trim_decompose [of s] show "\<forall>c \<in> set s. is_ws c" by (auto simp: list_all_iff)
next
  assume "\<forall>c \<in> set s. is_ws c"
  then have "trim_start s = []" by (simp add: trim_start_def)
  then show "trim s = []" by (simp add: trim_def trim_end_def)
qed

lemma split_loop_lossless:
  assumes "split_loop source operator i start d quote parts = Some result"
    and "start \<le> i" "start \<le> length source" "parts = map trim raws"
    and "concat (map (\<lambda>r. r @ operator) raws) = take start source"
  shows "\<exists>raws'. join operator raws' = source \<and> result = filter (\<lambda>p. p \<noteq> []) (map trim raws')"
  using assms
proof (induction source operator i start d quote parts arbitrary: raws rule: split_loop.induct)
  case (1 source operator i start d quote parts)
  have step: "join operator (rs @ [r]) = concat (map (\<lambda>r. r @ operator) rs) @ r" for rs r
    by (induction rs rule: induct_list012) auto
  note unfold = "1.prems"(1) [unfolded split_loop.simps [of source operator i]]
  show ?case
  proof (cases "length source \<le> i")
    case True
    with "1.prems" step [of raws "drop start source"] unfold show ?thesis
      by (intro exI [of _ "raws @ [drop start source]"]) simp
  next
    case False
    show ?thesis
    proof (cases "split_step source operator i d quote")
      case (Advance k d' quote')
      with "1.IH"(1) [OF False Advance, of raws] "1.prems" unfold False show ?thesis by simp
    next
      case Whole
      then have "source ! i = 63" by (auto simp: split_step_def Let_def split: if_splits option.splits)
      moreover have not_ws: "\<not> is_ws 63" by (simp add: is_ws_def)
      ultimately have "trim source \<noteq> []"
        using False nth_mem [of i source] not_ws by (auto simp: trim_eq_Nil)
      with Whole unfold False show ?thesis by (intro exI [of _ "[source]"]) auto
    next
      case (Cut d')
      then have sw: "starts_with operator (drop i source)"
        by (auto simp: split_step_def Let_def split: if_splits option.splits)
      from Cut unfold False have ne: "operator \<noteq> []" by (auto split: if_splits)
      have op: "take (length operator) (drop i source) = operator" using sw by (simp add: starts_with_def)
      have len: "i + length operator \<le> length source"
        using sw False prefix_length_le [of operator "drop i source"] by (simp add: starts_with_prefix)
      have "take (i + length operator) source = take start source @ slice start i source @ operator"
        using op "1.prems"(2) take_add [of i "length operator" source] take_add [of start "i - start" source]
        by (simp add: slice_def)
      with "1.IH"(2) [OF False Cut ne, of "raws @ [slice start i source]"] "1.prems" unfold False Cut ne len
      show ?thesis by simp
    qed
  qed
qed

lemma split_loop_total: "operator \<noteq> [] \<Longrightarrow> \<exists>r. split_loop source operator i start d quote parts = Some r"
proof (induction source operator i start d quote parts rule: split_loop.induct)
  case (1 source operator i start d quote parts)
  then show ?case
    by (subst split_loop.simps) (auto split: split_action.split)
qed

inductive enclosed :: "jsstr \<Rightarrow> jsstr \<Rightarrow> bool" where
  same: "enclosed e e"
| parens: "enclosed e inner \<Longrightarrow> enclosed e ([ch (CHR ''('')] @ inner @ [ch (CHR '')'')])"
| spaces: "enclosed e inner \<Longrightarrow> list_all is_ws u \<Longrightarrow> list_all is_ws v \<Longrightarrow> enclosed e (u @ inner @ v)"

lemma enclosed_trim: "enclosed e (trim s) \<Longrightarrow> enclosed e s"
  using trim_decompose [of s] enclosed.spaces by metis

lemma unwrap_loop_enclosed: "enclosed (unwrap_loop e) e"
proof (induction e rule: unwrap_loop.induct)
  case (1 e)
  show ?case
  proof (cases "wrapped e")
    case True
    with wrapped_length have "2 \<le> length e" by blast
    then obtain c m d where e: "e = [c] @ m @ [d]"
      by (metis One_nat_def append_Cons append_Nil list.exhaust list.size(3) not_numeral_le_zero
          One_nat_def Suc_1 length_Cons not_less_eq_eq le_zero_eq rev_exhaust nat.simps(3))
    with True have "c = ch (CHR ''('')" "d = ch (CHR '')'')" by (auto simp: wrapped_def)
    moreover have "slice 1 (length e - 1) e = m" by (simp add: e slice_def)
    ultimately show ?thesis
      using "1.IH" [OF True] True e enclosed.parens enclosed_trim unwrap_loop.simps [of e] by metis
  qed (simp add: unwrap_loop.simps [of e] enclosed.same)
qed

lemma unwrap_loop_done: "\<not> wrapped (unwrap_loop e)"
  by (induction e rule: unwrap_loop.induct) (metis unwrap_loop.simps)

lemma unwrap_loop_trimmed: "trim e = e \<Longrightarrow> trim (unwrap_loop e) = unwrap_loop e"
  by (induction e rule: unwrap_loop.induct) (metis unwrap_loop.simps trim_trim)

section \<open>Properties\<close>

text \<open>
  Splitting is lossless: for an operator that is not empty it always returns, and the parts it
  returns are the trimmed, non-blank pieces of a way to cut the source at occurrences of the
  operator.
\<close>

lemma split_lossless:
  assumes "operator \<noteq> []"
  shows "\<exists>raws. join operator raws = source
    \<and> splitExpressionAtTopLevel source operator = Some (filter (\<lambda>p. p \<noteq> []) (map trim raws))"
proof -
  obtain r where r: "splitExpressionAtTopLevel source operator = Some r"
    using split_loop_total [OF assms] unfolding splitExpressionAtTopLevel_def by blast
  from split_loop_lossless [OF r [unfolded splitExpressionAtTopLevel_def], of "[]"] r show ?thesis by auto
qed

text \<open>
  Removing parentheses is lossless and complete: what is removed is white space and matching outer
  parentheses only, the result is trimmed, and doing it again changes nothing.
\<close>

lemma unwrap_parens:
  "enclosed (unwrapExpressionParens source) source
    \<and> trim (unwrapExpressionParens source) = unwrapExpressionParens source
    \<and> unwrapExpressionParens (unwrapExpressionParens source) = unwrapExpressionParens source"
proof -
  have t: "trim (unwrapExpressionParens source) = unwrapExpressionParens source"
    by (simp add: unwrapExpressionParens_def unwrap_loop_trimmed)
  moreover have "\<not> wrapped (unwrapExpressionParens source)"
    by (simp add: unwrapExpressionParens_def unwrap_loop_done)
  ultimately have "unwrapExpressionParens (unwrapExpressionParens source) = unwrapExpressionParens source"
    using unwrap_loop.simps [of "unwrapExpressionParens source"]
    by (simp add: unwrapExpressionParens_def [of "unwrapExpressionParens source"])
  with t enclosed_trim unwrap_loop_enclosed show ?thesis
    by (auto simp: unwrapExpressionParens_def)
qed

end
