(* ===== verification/BillingDisplay.thy ===== *)
theory BillingDisplay
  imports BillingRuntime
begin

text \<open>
  The price summaries of \<open>billing-expression/display.ts\<close>: reading a chain of token tiers, and the
  branches of time-dependent pricing, off the syntax tree of a compiled expression.  A read that
  gives up returns \<open>null\<close>, here \<open>None\<close>; reading a field of a missing argument throws, which no
  compiled expression does.
\<close>

section \<open>Data\<close>

record tier_condition =
  tc_var :: jsstr
  tc_op :: jsstr
  tc_value :: jsnum

record token_tier =
  conditionText :: "jsstr option"
  tt_imageCount :: bool
  tt_billingUnit :: "billing_unit option"
  tt_fixedPrice :: "jsnum option"
  label :: jsstr
  conditions :: "tier_condition list"
  prices :: "(jsstr \<times> jsnum) list"

record time_token_tier = token_tier +
  timeConditions :: "(node \<times> bool) list"

section \<open>Tiers\<close>

fun flattenBinary :: "node \<Rightarrow> jsstr \<Rightarrow> node list" where
  "flattenBinary (Binary op l r s e) operator =
     (if op \<noteq> operator then [Binary op l r s e] else flattenBinary l operator @ flattenBinary r operator)"
| "flattenBinary n operator = [n]"

text \<open>One part of a condition, and the loop of \<open>tokenConditions\<close> over the parts.\<close>

definition condition_vars :: "jsstr list" where
  "condition_vars = [js ''p'', js ''c'', js ''len'']"

definition token_condition :: "node \<Rightarrow> tier_condition option" where
  "token_condition part =
     (case part of
        Binary op (Variable x vs ve) (Literal (LNum v) i ls le) s e \<Rightarrow>
          if op \<in> set relational_ops \<and> x \<in> set condition_vars \<and> \<not> num_lt v (Fin 0)
          then Some \<lparr>tc_var = x, tc_op = op, tc_value = v\<rparr> else None
      | _ \<Rightarrow> None)"

fun conditions_loop :: "node list \<Rightarrow> tier_condition list option" where
  "conditions_loop [] = Some []"
| "conditions_loop (part # parts) =
     (case token_condition part of
        None \<Rightarrow> None
      | Some c \<Rightarrow> map_option (\<lambda>cs. c # cs) (conditions_loop parts))"

definition tokenConditions :: "node \<Rightarrow> tier_condition list option" where
  "tokenConditions n = conditions_loop (flattenBinary n (js ''&&''))"

definition is_zero_literal :: "node \<Rightarrow> bool" where
  "is_zero_literal n = (case n of Literal (LNum v) i s e \<Rightarrow> num_eq v (Fin 0) | _ \<Rightarrow> False)"

definition nonnegativePriceLiteral :: "node \<Rightarrow> jsnum option" where
  "nonnegativePriceLiteral n =
     (case n of
        Literal (LNum v) i s e \<Rightarrow> if num_le (Fin 0) v then Some v else None
      | Unary op x s e \<Rightarrow> if op = js ''-'' \<and> is_zero_literal x then Some NegZero else None
      | _ \<Rightarrow> None)"

text \<open>The input of a price term: a token variable, or \<open>max(0, len - ai)\<close>, which is read as \<open>p\<close>.\<close>

definition is_len_minus_ai :: "node \<Rightarrow> bool" where
  "is_len_minus_ai n =
     (case n of
        Binary op (Variable x xs xe) (Variable y ys ye) s e \<Rightarrow>
          op = js ''-'' \<and> x = js ''len'' \<and> y = js ''ai''
      | _ \<Rightarrow> False)"

definition term_variable :: "node \<Rightarrow> jsstr option" where
  "term_variable input =
     (case input of
        Variable x s e \<Rightarrow> if x \<noteq> js ''len'' \<and> x \<noteq> js ''image_count'' then Some x else None
      | Call name args s e \<Rightarrow>
          (case args of
             [a, b] \<Rightarrow>
               if name \<noteq> js ''max'' then None
               else if is_zero_literal a then (if is_len_minus_ai b then Some (js ''p'') else None)
               else if \<not> is_zero_literal b then None
               else (if is_len_minus_ai a then Some (js ''p'') else None)
           | _ \<Rightarrow> None)
      | _ \<Rightarrow> None)"

definition price_term :: "node \<Rightarrow> (jsstr \<times> jsnum) option" where
  "price_term part =
     (case part of
        Binary op l r s e \<Rightarrow>
          if op \<noteq> js ''*'' then None
          else (case nonnegativePriceLiteral r of
              Some price \<Rightarrow> map_option (\<lambda>x. (x, price)) (term_variable l)
            | None \<Rightarrow>
                (case nonnegativePriceLiteral l of
                   Some price \<Rightarrow> map_option (\<lambda>x. (x, price)) (term_variable r)
                 | None \<Rightarrow> None))
      | _ \<Rightarrow> None)"

text \<open>The loop of \<open>tokenTier\<close> over the terms of the price.\<close>

fun price_loop :: "node list \<Rightarrow> (jsstr \<times> jsnum) list \<Rightarrow> (jsstr \<times> jsnum) list option" where
  "price_loop [] acc = Some acc"
| "price_loop (part # parts) acc =
     (case price_term part of
        None \<Rightarrow> None
      | Some (x, price) \<Rightarrow>
          if map_of acc x \<noteq> None then None else price_loop parts (acc @ [(x, price)]))"

definition plain_tier :: "jsstr \<Rightarrow> tier_condition list \<Rightarrow> (jsstr \<times> jsnum) list \<Rightarrow> token_tier" where
  "plain_tier name conds ps =
     \<lparr>conditionText = None, tt_imageCount = False, tt_billingUnit = None, tt_fixedPrice = None,
      label = name, conditions = conds, prices = ps\<rparr>"

text \<open>The body of a tier, which is either a literal fixed price or a sum of price terms.\<close>

definition fixed_body :: "node \<Rightarrow> diagnostic + jsnum option" where
  "fixed_body body =
     (case body of
        Call name args s e \<Rightarrow>
          if name = js ''fixed'' then
            (case args of
               [] \<Rightarrow> Inl undefined_access
             | a # _ \<Rightarrow> Inr (case a of Literal (LNum v) i s e \<Rightarrow> Some v | _ \<Rightarrow> None))
          else Inr None
      | _ \<Rightarrow> Inr None)"

definition tokenTier :: "node \<Rightarrow> tier_condition list \<Rightarrow> diagnostic + token_tier option" where
  "tokenTier n conds =
     (case n of
        Call name (Literal (LStr text) i ls le # rest) s e \<Rightarrow>
          if name \<noteq> js ''tier'' then Inr None
          else (case rest of
              [] \<Rightarrow> Inl undefined_access
            | body # _ \<Rightarrow>
                and_then (fixed_body body) (\<lambda>fixed.
                  Inr (case fixed of
                    Some v \<Rightarrow>
                      Some ((plain_tier text conds [])
                        \<lparr>tt_billingUnit := Some RequestUnit, tt_fixedPrice := Some v\<rparr>)
                  | None \<Rightarrow>
                      (case price_loop (flattenBinary body (js ''+'')) [] of
                         None \<Rightarrow> None
                       | Some ps \<Rightarrow> if ps = [] then None else Some (plain_tier text conds ps)))))
      | _ \<Rightarrow> Inr None)"

section \<open>Chains\<close>

text \<open>The set \<open>present\<close> of the audio counts that a condition compares with zero.\<close>

definition audio_part :: "node \<Rightarrow> jsstr option" where
  "audio_part part =
     (case part of
        Binary op (Variable x xs xe) r s e \<Rightarrow>
          if op = js ''>'' \<and> (x = js ''ai'' \<or> x = js ''ao'') \<and> is_zero_literal r then Some x else None
      | _ \<Rightarrow> None)"

definition audio_present :: "node \<Rightarrow> node \<Rightarrow> jsstr list" where
  "audio_present l r = uniq (List.map_filter audio_part [l, r])"

definition audio_tiers :: "node \<Rightarrow> diagnostic + token_tier list option" where
  "audio_tiers n =
     (case n of
        Conditional (Binary op l r bs be) yes no s e \<Rightarrow>
          if op = js ''||'' \<and> length (audio_present l r) = 2 then
            and_then (tokenTier yes []) (\<lambda>audio.
            and_then (tokenTier no []) (\<lambda>text.
              Inr (case (audio, text) of
                  (Some a, Some t) \<Rightarrow>
                    Some [a\<lparr>conditionText := Some (js ''Audio requests'')\<rparr>,
                          t\<lparr>conditionText := Some (js ''Text-only requests'')\<rparr>]
                | _ \<Rightarrow> None)))
          else Inr None
      | _ \<Rightarrow> Inr None)"

definition is_image_count :: "node \<Rightarrow> bool" where
  "is_image_count n = (case n of Variable x s e \<Rightarrow> x = js ''image_count'' | _ \<Rightarrow> False)"

text \<open>The \<open>while\<close> loop over the conditionals.\<close>

fun chain_loop :: "node \<Rightarrow> token_tier list \<Rightarrow> diagnostic + token_tier list option" where
  "chain_loop (Conditional c yes no s e) tiers =
     (case tokenConditions c of
        None \<Rightarrow> Inr None
      | Some conds \<Rightarrow>
          and_then (tokenTier yes conds) (\<lambda>tier.
            case tier of None \<Rightarrow> Inr None | Some t \<Rightarrow> chain_loop no (tiers @ [t])))"
| "chain_loop n tiers =
     and_then (tokenTier n []) (\<lambda>tier. Inr (map_option (\<lambda>t. tiers @ [t]) tier))"

text \<open>The factor that multiplies by the image count, if any, as the pair of factor and pricing.\<close>

definition image_pricing :: "node \<Rightarrow> node option" where
  "image_pricing n =
     (case n of
        Binary op l r s e \<Rightarrow>
          if op \<noteq> js ''*'' then None
          else if is_image_count l then Some r
          else if is_image_count r then Some l
          else None
      | _ \<Rightarrow> None)"

lemma image_pricing_child: "image_pricing n = Some m \<Longrightarrow> m \<in> set (children n)"
  by (auto simp: image_pricing_def split: node.splits if_splits)

function readTokenTierChain :: "node \<Rightarrow> diagnostic + token_tier list option" where
  "readTokenTierChain n =
     and_then (audio_tiers n) (\<lambda>audio.
       case audio of
         Some tiers \<Rightarrow> Inr (Some tiers)
       | None \<Rightarrow>
           (case image_pricing n of
              Some pricing \<Rightarrow>
                and_then (readTokenTierChain pricing) (\<lambda>tiers.
                  Inr (map_option (map (\<lambda>t. t\<lparr>tt_imageCount := True\<rparr>)) tiers))
            | None \<Rightarrow> chain_loop n []))"
  by pat_completeness auto
termination
  by (relation "measure node_count") (auto dest: image_pricing_child node_count_child)

declare readTokenTierChain.simps [simp del]

section \<open>Time-dependent pricing\<close>

definition time_condition_functions :: "jsstr list" where
  "time_condition_functions =
     TIME_FUNCTIONS @ [js ''min'', js ''max'', js ''abs'', js ''ceil'', js ''floor'']"

definition isTimeCondition :: "node \<Rightarrow> diagnostic + bool" where
  "isTimeCondition n =
     and_then (expressionDependencies n) (\<lambda>(vars, funs).
       Inr (vars = [] \<and> list_ex (\<lambda>f. f \<in> set TIME_FUNCTIONS) funs
            \<and> list_all (\<lambda>f. f \<in> set time_condition_functions) funs))"

definition condition_text :: "jsstr \<Rightarrow> (node \<times> bool) list \<Rightarrow> tier_condition list \<Rightarrow> jsstr" where
  "condition_text source path conds =
     join (js '' && '')
       (join (js '' && '')
          (map (\<lambda>(c, matches).
              (if matches then js ''('' else js ''!('') @ slice (n_start c) (n_end c) source @ js '')'') path)
        # map (\<lambda>c. tc_var c @ js '' '' @ tc_op c @ js '' '' @ num_to_string (tc_value c)) conds)"

definition timed_tier :: "jsstr \<Rightarrow> (node \<times> bool) list \<Rightarrow> token_tier \<Rightarrow> time_token_tier" where
  "timed_tier source path t =
     \<lparr>conditionText = Some (condition_text source path (conditions t)),
      tt_imageCount = tt_imageCount t, tt_billingUnit = tt_billingUnit t,
      tt_fixedPrice = tt_fixedPrice t, label = label t, conditions = conditions t,
      prices = prices t, timeConditions = path\<rparr>"

definition leaf_tiers ::
  "jsstr \<Rightarrow> node \<Rightarrow> (node \<times> bool) list \<Rightarrow> diagnostic + time_token_tier list option" where
  "leaf_tiers source n path =
     and_then (readTokenTierChain n) (\<lambda>tiers.
       Inr (case tiers of
              None \<Rightarrow> None
            | Some ts \<Rightarrow> if path = [] then None else Some (map (timed_tier source path) ts)))"

fun timeTierBranches ::
  "jsstr \<Rightarrow> node \<Rightarrow> (node \<times> bool) list \<Rightarrow> diagnostic + time_token_tier list option" where
  "timeTierBranches source (Conditional c yes no s e) path =
     and_then (isTimeCondition c) (\<lambda>timed.
       if timed then
         and_then (timeTierBranches source yes (path @ [(c, True)])) (\<lambda>y.
         and_then (timeTierBranches source no (path @ [(c, False)])) (\<lambda>n.
           Inr (case (y, n) of (Some ys, Some ns) \<Rightarrow> Some (ys @ ns) | _ \<Rightarrow> None)))
       else leaf_tiers source (Conditional c yes no s e) path)"
| "timeTierBranches source n path = leaf_tiers source n path"

record time_pricing =
  tp_tiers :: "time_token_tier list"
  tp_currentTiers :: "time_token_tier list"

definition tier_is_current ::
  "host \<Rightarrow> compiled_expression \<Rightarrow> date \<Rightarrow> time_token_tier \<Rightarrow> bool" where
  "tier_is_current h compiled now tier =
     list_all (\<lambda>(c, matches). evaluateBillingCondition h compiled c now = Some matches) (timeConditions tier)"

definition readTimeTokenPricing ::
  "host \<Rightarrow> compile_cache \<Rightarrow> jsstr \<Rightarrow> date option \<Rightarrow> (diagnostic + time_pricing option) \<times> compile_cache" where
  "readTimeTokenPricing h cache source now =
     (let (compiled, cache') = compileBillingExpression cache source in
      (case compiled of
         CompileFailed _ \<Rightarrow> Inr None
       | Ready c \<Rightarrow>
           and_then (timeTierBranches (c_source c) (c_ast c) []) (\<lambda>tiers.
             Inr (map_option (\<lambda>ts.
               \<lparr>tp_tiers = ts,
                tp_currentTiers =
                  (case now of None \<Rightarrow> [] | Some d \<Rightarrow> filter (tier_is_current h c d) ts)\<rparr>) tiers)),
       cache'))"

end
