(* ===== verification/DisplayProofs.thy ===== *)
theory DisplayProofs
  imports BillingDisplay RuntimeProofs
begin

text \<open>
  The price summaries agree with the evaluator: the conditions shown for a tier are the ones the
  expression tests, and the tier that evaluation matches is the first one shown whose conditions hold.
\<close>

section \<open>Conditions\<close>

definition condition_holds :: "runtime_env \<Rightarrow> tier_condition \<Rightarrow> bool" where
  "condition_holds env c \<longleftrightarrow>
     (case variable_value env (tc_var c) 0 of
        Inr r \<Rightarrow> (case rvalue r of JNum x \<Rightarrow> compare_with (tc_op c) num_lt num_le x (tc_value c) | _ \<Rightarrow> False)
      | Inl _ \<Rightarrow> False)"

lemma variable_value_position: "variable_value env x s = Inr r \<Longrightarrow> variable_value env x 0 = Inr r"
  by (auto simp: variable_value_def Let_def split: if_splits option.splits jsval.splits)

lemma variable_value_number: "variable_value env x s = Inr r \<Longrightarrow> \<exists>v. rvalue r = JNum v"
  by (auto simp: variable_value_def Let_def plain_value_def split: if_splits option.splits jsval.splits)

lemma evaluate_leaf:
  assumes "evaluate env n s = Inr (r, s')"
    and "n = Variable x a b \<or> n = Literal v i a b"
  shows "s' = s"
  using assms by (auto simp: evaluate_Inr run_simps and_then_simps)

lemma comparison_sound:
  assumes "evaluate env (Binary op (Variable x vs ve) (Literal (LNum v) i ls le) st e) s = Inr (r, s')"
    and op: "op \<in> set relational_ops"
  shows "s' = s \<and> rvalue r = JBool (condition_holds env \<lparr>tc_var = x, tc_op = op, tc_value = v\<rparr>)"
proof -
  have nl: "op \<noteq> js ''&&''" "op \<noteq> js ''||''" "op \<noteq> js ''==''" "op \<noteq> js ''!=''"
    using op by (auto simp: relational_ops_def)
  let ?s = "s\<lparr>depth := Suc (depth s)\<rparr>"
  from assms(1) nl obtain a t b u where
    a: "evaluate env (Variable x vs ve) ?s = Inr (a, t)" and
    b: "evaluate env (Literal (LNum v) i ls le) t = Inr (b, u)" and
    sb: "strict_binary op st a b = Inr r" and s': "s' = u\<lparr>depth := depth u - 1\<rparr>"
    by (auto simp: evaluate_Inr [of env "Binary op (Variable x vs ve) (Literal (LNum v) i ls le) st e"]
        binary_value_def run_bind_Inr run_simps and_then_simps)
  have "t = ?s" "u = t" using evaluate_leaf [OF a] evaluate_leaf [OF b] by auto
  with s' have "s' = s" by simp
  moreover have va: "variable_value env x 0 = Inr a"
    using a variable_value_position by (auto simp: evaluate_Inr run_simps and_then_simps)
  then obtain y where y: "rvalue a = JNum y" using variable_value_number by blast
  moreover have "rvalue b = JNum v" using b by (auto simp: evaluate_Inr run_simps)
  ultimately show ?thesis
    using sb op nl va by (auto simp: strict_binary_def plain_value_def condition_holds_def)
qed

lemma token_condition_sound:
  assumes "token_condition n = Some c" "evaluate env n s = Inr (r, s')"
  shows "s' = s \<and> rvalue r = JBool (condition_holds env c)"
proof -
  from assms(1) obtain op x vs ve v i ls le st e where
    n: "n = Binary op (Variable x vs ve) (Literal (LNum v) i ls le) st e"
    and op: "op \<in> set relational_ops" and c: "c = \<lparr>tc_var = x, tc_op = op, tc_value = v\<rparr>"
    by (auto simp: token_condition_def split: node.splits literal.splits if_splits)
  from comparison_sound [OF assms(2) [unfolded n] op] c show ?thesis by simp
qed

lemma conditions_loop_append:
  "conditions_loop (xs @ ys) =
     (case conditions_loop xs of None \<Rightarrow> None
      | Some cs \<Rightarrow> map_option (\<lambda>ds. cs @ ds) (conditions_loop ys))"
  by (induction xs; cases "conditions_loop ys") (auto split: option.splits)

lemma evaluate_and:
  assumes "evaluate env (Binary (js ''&&'') l q st e) s = Inr (r, s')"
  obtains a t where "evaluate env l (s\<lparr>depth := Suc (depth s)\<rparr>) = Inr (a, t)"
    and "rvalue a = JBool False \<and> rvalue r = JBool False \<and> s' = t\<lparr>depth := depth t - 1\<rparr>
      \<or> rvalue a = JBool True \<and> (\<exists>b u. evaluate env q t = Inr (b, u) \<and> rvalue r = rvalue b
          \<and> (\<exists>c. rvalue b = JBool c) \<and> s' = u\<lparr>depth := depth u - 1\<rparr>)"
proof -
  from assms obtain t' where ev: "binary_value (evaluate env) (js ''&&'') l q st (s\<lparr>depth := Suc (depth s)\<rparr>) = Inr (r, t')"
    and s': "s' = t'\<lparr>depth := depth t' - 1\<rparr>"
    by (auto simp: evaluate_Inr [of env "Binary (js ''&&'') l q st e"])
  from ev obtain c a t where a: "evaluate env l (s\<lparr>depth := Suc (depth s)\<rparr>) = Inr (a, t)" "rvalue a = JBool c"
    and rest: "(if c then run_bind (boolean_value (evaluate env) q) (\<lambda>b. run_return (plain_value (JBool b)))
       else run_return (plain_value (JBool False))) t = Inr (r, t')"
    by (auto simp: binary_value_def run_bind_Inr boolean_value_Inr)
  show ?thesis
    by (rule that [OF a(1)]) (use a(2) rest s' in \<open>cases c; auto simp: run_bind_Inr boolean_value_Inr run_simps plain_value_def\<close>)
qed

lemma conditions_sound:
  assumes "tokenConditions n = Some cs" "evaluate env n s = Inr (r, s')"
  shows "s' = s \<and> rvalue r = JBool (list_all (condition_holds env) cs)"
  using assms
proof (induction n arbitrary: cs s r s' rule: node_induct)
  case (1 n)
  show ?case
  proof (cases "\<exists>l q st e. n = Binary (js ''&&'') l q st e")
    case True
    then obtain l q st e where n: "n = Binary (js ''&&'') l q st e" by blast
    from "1.prems"(1) n obtain cl cq where cl: "tokenConditions l = Some cl" and cq: "tokenConditions q = Some cq"
      and cs: "cs = cl @ cq"
      by (auto simp: tokenConditions_def conditions_loop_append split: option.splits)
    from "1.prems"(2) [unfolded n] obtain a t where a: "evaluate env l (s\<lparr>depth := Suc (depth s)\<rparr>) = Inr (a, t)"
      and c: "rvalue a = JBool False \<and> rvalue r = JBool False \<and> s' = t\<lparr>depth := depth t - 1\<rparr>
        \<or> rvalue a = JBool True \<and> (\<exists>b u. evaluate env q t = Inr (b, u) \<and> rvalue r = rvalue b
            \<and> (\<exists>c. rvalue b = JBool c) \<and> s' = u\<lparr>depth := depth u - 1\<rparr>)"
      by (rule evaluate_and)
    from "1.IH" [OF _ cl a] n have la: "t = s\<lparr>depth := Suc (depth s)\<rparr>" "rvalue a = JBool (list_all (condition_holds env) cl)"
      by simp_all
    from c show ?thesis
    proof
      assume "rvalue a = JBool False \<and> rvalue r = JBool False \<and> s' = t\<lparr>depth := depth t - 1\<rparr>"
      with la cs show ?thesis by simp
    next
      assume "rvalue a = JBool True \<and> (\<exists>b u. evaluate env q t = Inr (b, u) \<and> rvalue r = rvalue b
            \<and> (\<exists>c. rvalue b = JBool c) \<and> s' = u\<lparr>depth := depth u - 1\<rparr>)"
      then obtain b u where b: "rvalue a = JBool True" "evaluate env q t = Inr (b, u)" "rvalue r = rvalue b"
        "s' = u\<lparr>depth := depth u - 1\<rparr>" by blast
      from "1.IH" [OF _ cq b(2)] n la b cs show ?thesis by simp
    qed
  next
    case False
    then have "flattenBinary n (js ''&&'') = [n]" by (cases n) auto
    with "1.prems"(1) obtain c where "token_condition n = Some c" "cs = [c]"
      by (auto simp: tokenConditions_def split: option.splits)
    with token_condition_sound [OF _ "1.prems"(2)] show ?thesis by simp
  qed
qed

section \<open>Tiers\<close>

lemma tokenTier_Some:
  assumes "tokenTier n conds = Inr (Some t)"
  obtains i ls le body rest s e where "n = Call (js ''tier'') (Literal (LStr (label t)) i ls le # body # rest) s e"
    and "conditions t = conds" "conditionText t = None"
proof -
  from assms obtain lab i ls le body rest s e where
    n: "n = Call (js ''tier'') (Literal (LStr lab) i ls le # body # rest) s e"
    by (auto simp: tokenTier_def split: node.splits list.splits literal.splits if_splits)
  from assms [unfolded n tokenTier_def] obtain fixed where
    "(case fixed of
        Some v \<Rightarrow> Some ((plain_tier lab conds [])\<lparr>tt_billingUnit := Some RequestUnit, tt_fixedPrice := Some v\<rparr>)
      | None \<Rightarrow>
          (case price_loop (flattenBinary body (js ''+'')) [] of
             None \<Rightarrow> None
           | Some ps \<Rightarrow> if ps = [] then None else Some (plain_tier lab conds ps))) = Some t"
    by (simp add: and_then_eq_Inr) blast
  then have "label t = lab \<and> conditions t = conds \<and> conditionText t = None"
    by (cases fixed; cases "price_loop (flattenBinary body (js ''+'')) []")
       (auto simp: plain_tier_def simp del: price_loop.simps split: if_splits)
  with n show ?thesis by (intro that [of i ls le body rest s e]) simp_all
qed

lemma tokenTier_matched:
  assumes "tokenTier n conds = Inr (Some t)" "evaluate env n s = Inr (r, s')"
  shows "matchedTier s' = label t \<and> conditions t = conds \<and> conditionText t = None"
proof -
  from assms(1) obtain i ls le body rest st e where
    n: "n = Call (js ''tier'') (Literal (LStr (label t)) i ls le # body # rest) st e"
    and t: "conditions t = conds" "conditionText t = None" by (rule tokenTier_Some)
  from assms(2) have "matchedTier s' = label t"
    unfolding n
    by (auto simp: evaluate_Inr [of env "Call (js ''tier'') (Literal (LStr (label t)) i ls le # body # rest) st e"]
        call_value_def Let_def run_bind_Inr run_simps with_arg_Inr string_value_Inr
        evaluate_Inr [of env "Literal (LStr (label t)) i ls le"])
  with t show ?thesis by simp
qed

definition tier_applies :: "runtime_env \<Rightarrow> token_tier \<Rightarrow> bool" where
  "tier_applies env t \<longleftrightarrow> list_all (condition_holds env) (conditions t)"

lemma chain_fallback:
  assumes "tokenTier n [] = Inr (Some t)" "evaluate env n s = Inr (r, s')"
  shows "find (tier_applies env) [t] = Some t \<and> matchedTier s' = label t"
  using tokenTier_matched [OF assms] by (simp add: tier_applies_def)

lemma chain_loop_prefix: "chain_loop n tiers = Inr (Some ts) \<Longrightarrow> \<exists>us. ts = tiers @ us"
proof (induction n tiers rule: chain_loop.induct)
  case (1 c yes no s e tiers)
  then obtain conds t where "tokenConditions c = Some conds" "tokenTier yes conds = Inr (Some t)"
    "chain_loop no (tiers @ [t]) = Inr (Some ts)"
    by (auto simp: and_then_simps split: option.splits)
  from "1.IH" [OF this(1,2) refl this(3)] show ?case by auto
qed (auto simp: and_then_simps)

lemma chain_loop_matched:
  assumes "chain_loop n tiers0 = Inr (Some ts)" "evaluate env n s = Inr (r, s')"
  shows "\<exists>us t. ts = tiers0 @ us \<and> find (tier_applies env) us = Some t \<and> matchedTier s' = label t"
  using assms
proof (induction n tiers0 arbitrary: s r s' rule: chain_loop.induct)
  case (1 c yes no st e tiers0)
  from "1.prems"(1) obtain conds t where c: "tokenConditions c = Some conds"
    and t: "tokenTier yes conds = Inr (Some t)" and rest: "chain_loop no (tiers0 @ [t]) = Inr (Some ts)"
    by (auto simp: and_then_simps split: option.splits)
  from "1.prems"(2) obtain b q u v w where
    ev: "evaluate env c (s\<lparr>depth := Suc (depth s)\<rparr>) = Inr (q, u)" "rvalue q = JBool b"
    and branch: "evaluate env (if b then yes else no) v = Inr (r, w)"
    and s': "s' = w\<lparr>depth := depth w - 1\<rparr>"
    by (auto simp: evaluate_Inr [of env "Conditional c yes no st e"] run_bind_Inr boolean_value_Inr run_simps)
  from conditions_sound [OF c ev(1)] ev(2) have b: "b = list_all (condition_holds env) conds" by simp
  obtain us' where us': "ts = tiers0 @ t # us'"
    using chain_loop_prefix [OF rest] by auto
  show ?case
  proof (cases b)
    case True
    with branch tokenTier_matched [OF t] s' have m: "matchedTier s' = label t" "conditions t = conds" by auto
    with True b us' show ?thesis by (intro exI [of _ "t # us'"] exI [of _ t]) (simp add: tier_applies_def)
  next
    case False
    with branch have no: "evaluate env no v = Inr (r, w)" by simp
    from tokenTier_Some [OF t] have "conditions t = conds" by metis
    with b False have na: "\<not> tier_applies env t" by (simp add: tier_applies_def)
    from "1.IH" [OF c t refl rest no] obtain us f where
      "ts = (tiers0 @ [t]) @ us" "find (tier_applies env) us = Some f" "matchedTier w = label f" by blast
    with na s' show ?thesis by (intro exI [of _ "t # us"] exI [of _ f]) simp
  qed
qed (use chain_fallback in \<open>fastforce simp: and_then_simps\<close>)+

lemma find_map_label:
  assumes "find P us = Some t" "\<And>u. P (f u) = P u"
  shows "find P (map f us) = Some (f t)"
  using assms by (induction us) (auto split: if_splits)

lemma evaluate_image_product:
  assumes "image_pricing n = Some m" "evaluate env n s = Inr (r, s')"
  shows "\<exists>q u w. evaluate env m u = Inr (q, w) \<and> matchedTier s' = matchedTier w"
proof -
  from assms(1) obtain l q st e where n: "n = Binary (js ''*'') l q st e"
    and lq: "is_image_count l \<and> m = q \<or> is_image_count q \<and> m = l"
    by (auto simp: image_pricing_def split: node.splits if_splits)
  from assms(2) obtain a t b u where a: "evaluate env l (s\<lparr>depth := Suc (depth s)\<rparr>) = Inr (a, t)"
    and b: "evaluate env q t = Inr (b, u)" and s': "s' = u\<lparr>depth := depth u - 1\<rparr>"
    unfolding n by (auto simp: evaluate_Inr [of env "Binary (js ''*'') l q st e"] binary_value_def
        run_bind_Inr run_simps and_then_simps)
  from lq show ?thesis
  proof
    assume "is_image_count l \<and> m = q"
    with b s' show ?thesis by auto
  next
    assume q: "is_image_count q \<and> m = l"
    then obtain x c d where "q = Variable x c d" by (auto simp: is_image_count_def split: node.splits)
    with evaluate_leaf [OF b] have "u = t" by blast
    with a s' q show ?thesis by auto
  qed
qed

text \<open>
  The audio form of a chain: its two tiers are shown with a text instead of conditions.  A request
  counts as audio when it has audio input or audio output tokens.
\<close>

definition audio_used :: "runtime_env \<Rightarrow> bool" where
  "audio_used env \<longleftrightarrow>
     condition_holds env \<lparr>tc_var = js ''ai'', tc_op = js ''>'', tc_value = Fin 0\<rparr>
     \<or> condition_holds env \<lparr>tc_var = js ''ao'', tc_op = js ''>'', tc_value = Fin 0\<rparr>"

text \<open>What the summary shows as the condition of a tier, as a condition on the request.\<close>

definition shown_condition :: "runtime_env \<Rightarrow> token_tier \<Rightarrow> bool" where
  "shown_condition env t \<longleftrightarrow>
     (case conditionText t of
        None \<Rightarrow> list_all (condition_holds env) (conditions t)
      | Some text \<Rightarrow>
          text = js ''Audio requests'' \<and> audio_used env
          \<or> text = js ''Text-only requests'' \<and> \<not> audio_used env)"

lemma num_lt_NegZero: "num_lt NegZero x = num_lt (Fin 0) x"
  by (cases x) simp_all

lemma audio_part_sound:
  assumes "audio_part n = Some x" "evaluate env n s = Inr (r, s')"
  shows "s' = s \<and> rvalue r = JBool (condition_holds env \<lparr>tc_var = x, tc_op = js ''>'', tc_value = Fin 0\<rparr>)"
proof -
  from assms(1) obtain vs ve v i ls le st e where
    n: "n = Binary (js ''>'') (Variable x vs ve) (Literal (LNum v) i ls le) st e" and v: "num_eq v (Fin 0)"
    by (auto simp: audio_part_def is_zero_literal_def split: node.splits literal.splits if_splits)
  have op: "js ''>'' \<in> set relational_ops" by (simp add: relational_ops_def)
  have "condition_holds env \<lparr>tc_var = x, tc_op = js ''>'', tc_value = v\<rparr>
      = condition_holds env \<lparr>tc_var = x, tc_op = js ''>'', tc_value = Fin 0\<rparr>"
    using v by (cases v) (auto simp: condition_holds_def compare_with_def num_lt_NegZero split: sum.splits jsval.splits)
  with comparison_sound [OF assms(2) [unfolded n] op] show ?thesis by simp
qed

lemma audio_present_cases:
  "audio_present l q =
     (case audio_part l of
        None \<Rightarrow> (case audio_part q of None \<Rightarrow> [] | Some y \<Rightarrow> [y])
      | Some x \<Rightarrow> (case audio_part q of None \<Rightarrow> [x] | Some y \<Rightarrow> if x = y then [x] else [x, y]))"
  by (simp add: audio_present_def List.map_filter_simps uniq_def set_add_def split: option.split)

lemma audio_part_name: "audio_part n = Some x \<Longrightarrow> x = js ''ai'' \<or> x = js ''ao''"
  by (auto simp: audio_part_def split: node.splits if_splits)

lemma audio_present_two:
  assumes "length (audio_present l q) = 2"
  shows "audio_part l = Some (js ''ai'') \<and> audio_part q = Some (js ''ao'')
    \<or> audio_part l = Some (js ''ao'') \<and> audio_part q = Some (js ''ai'')"
proof -
  from assms obtain x y where xy: "audio_part l = Some x" "audio_part q = Some y" "x \<noteq> y"
    unfolding audio_present_cases by (cases "audio_part l"; cases "audio_part q") (simp_all split: if_splits)
  with audio_part_name [OF xy(1)] audio_part_name [OF xy(2)] show ?thesis by blast
qed

lemma evaluate_or:
  assumes "evaluate env (Binary (js ''||'') l q st e) s = Inr (r, s')"
  obtains a t where "evaluate env l (s\<lparr>depth := Suc (depth s)\<rparr>) = Inr (a, t)"
    and "rvalue a = JBool True \<and> rvalue r = JBool True \<and> s' = t\<lparr>depth := depth t - 1\<rparr>
      \<or> rvalue a = JBool False \<and> (\<exists>b u. evaluate env q t = Inr (b, u) \<and> rvalue r = rvalue b
          \<and> (\<exists>c. rvalue b = JBool c) \<and> s' = u\<lparr>depth := depth u - 1\<rparr>)"
proof -
  from assms obtain t' where ev: "binary_value (evaluate env) (js ''||'') l q st (s\<lparr>depth := Suc (depth s)\<rparr>) = Inr (r, t')"
    and s': "s' = t'\<lparr>depth := depth t' - 1\<rparr>"
    by (auto simp: evaluate_Inr [of env "Binary (js ''||'') l q st e"])
  from ev obtain c a t where a: "evaluate env l (s\<lparr>depth := Suc (depth s)\<rparr>) = Inr (a, t)" "rvalue a = JBool c"
    and rest: "(if c then run_return (plain_value (JBool True))
       else run_bind (boolean_value (evaluate env) q) (\<lambda>b. run_return (plain_value (JBool b)))) t = Inr (r, t')"
    by (auto simp: binary_value_def run_bind_Inr boolean_value_Inr)
  show ?thesis
    by (rule that [OF a(1)]) (use a(2) rest s' in \<open>cases c; auto simp: run_bind_Inr boolean_value_Inr run_simps plain_value_def\<close>)
qed

lemma audio_condition_sound:
  assumes two: "length (audio_present l q) = 2"
    and ev: "evaluate env (Binary (js ''||'') l q st e) s = Inr (r, s')"
  shows "s' = s \<and> rvalue r = JBool (audio_used env)"
proof -
  from two obtain x y where xy: "audio_part l = Some x" "audio_part q = Some y"
    "audio_used env \<longleftrightarrow> condition_holds env \<lparr>tc_var = x, tc_op = js ''>'', tc_value = Fin 0\<rparr>
       \<or> condition_holds env \<lparr>tc_var = y, tc_op = js ''>'', tc_value = Fin 0\<rparr>"
    using audio_present_two [OF two] by (auto simp: audio_used_def)
  from ev obtain a t where a: "evaluate env l (s\<lparr>depth := Suc (depth s)\<rparr>) = Inr (a, t)"
    and c: "rvalue a = JBool True \<and> rvalue r = JBool True \<and> s' = t\<lparr>depth := depth t - 1\<rparr>
      \<or> rvalue a = JBool False \<and> (\<exists>b u. evaluate env q t = Inr (b, u) \<and> rvalue r = rvalue b
          \<and> (\<exists>c. rvalue b = JBool c) \<and> s' = u\<lparr>depth := depth u - 1\<rparr>)"
    by (rule evaluate_or)
  note la = audio_part_sound [OF xy(1) a]
  from c show ?thesis
  proof
    assume "rvalue a = JBool True \<and> rvalue r = JBool True \<and> s' = t\<lparr>depth := depth t - 1\<rparr>"
    with la xy(3) show ?thesis by simp
  next
    assume "rvalue a = JBool False \<and> (\<exists>b u. evaluate env q t = Inr (b, u) \<and> rvalue r = rvalue b
          \<and> (\<exists>c. rvalue b = JBool c) \<and> s' = u\<lparr>depth := depth u - 1\<rparr>)"
    then obtain b u where b: "rvalue a = JBool False" "evaluate env q t = Inr (b, u)" "rvalue r = rvalue b"
      "s' = u\<lparr>depth := depth u - 1\<rparr>" by blast
    with audio_part_sound [OF xy(2) b(2)] la xy(3) show ?thesis by simp
  qed
qed

lemma audio_tiers_Some:
  assumes "audio_tiers n = Inr (Some ts)"
  obtains l q bs be yes no s e a t where "n = Conditional (Binary (js ''||'') l q bs be) yes no s e"
    "length (audio_present l q) = 2" "tokenTier yes [] = Inr (Some a)" "tokenTier no [] = Inr (Some t)"
    "ts = [a\<lparr>conditionText := Some (js ''Audio requests'')\<rparr>, t\<lparr>conditionText := Some (js ''Text-only requests'')\<rparr>]"
proof -
  from assms obtain l q bs be yes no s e a t where n: "n = Conditional (Binary (js ''||'') l q bs be) yes no s e"
    "length (audio_present l q) = 2" "tokenTier yes [] = Inr a" "tokenTier no [] = Inr t"
    "(case (a, t) of
        (Some a, Some t) \<Rightarrow>
          Some [a\<lparr>conditionText := Some (js ''Audio requests'')\<rparr>,
                t\<lparr>conditionText := Some (js ''Text-only requests'')\<rparr>]
      | _ \<Rightarrow> None) = Some ts"
    by (auto simp: audio_tiers_def and_then_eq_Inr split: node.splits if_splits)
  with that show ?thesis by (cases a; cases t) auto
qed

lemma audio_tiers_matched:
  assumes "audio_tiers n = Inr (Some ts)" "evaluate env n s = Inr (r, s')"
  shows "\<exists>t. find (shown_condition env) ts = Some t \<and> matchedTier s' = label t"
proof -
  from assms(1) obtain l q bs be yes no st e a t where
    n: "n = Conditional (Binary (js ''||'') l q bs be) yes no st e" and two: "length (audio_present l q) = 2"
    and a: "tokenTier yes [] = Inr (Some a)" and t: "tokenTier no [] = Inr (Some t)"
    and ts: "ts = [a\<lparr>conditionText := Some (js ''Audio requests'')\<rparr>, t\<lparr>conditionText := Some (js ''Text-only requests'')\<rparr>]"
    by (rule audio_tiers_Some)
  from assms(2) obtain b p u v w where
    ev: "evaluate env (Binary (js ''||'') l q bs be) (s\<lparr>depth := Suc (depth s)\<rparr>) = Inr (p, u)" "rvalue p = JBool b"
    and branch: "evaluate env (if b then yes else no) v = Inr (r, w)"
    and s': "s' = w\<lparr>depth := depth w - 1\<rparr>"
    unfolding n by (auto simp: evaluate_Inr [of env "Conditional (Binary (js ''||'') l q bs be) yes no st e"]
        run_bind_Inr boolean_value_Inr run_simps)
  from audio_condition_sound [OF two ev(1)] ev(2) have b: "b = audio_used env" by simp
  have "matchedTier s' = label (if b then a else t)"
    using tokenTier_matched [OF a] tokenTier_matched [OF t] branch s' by (cases b) auto
  with b ts show ?thesis by (simp add: shown_condition_def)
qed

text \<open>The three ways in which a chain is read.\<close>

lemma readTokenTierChain_cases:
  assumes "readTokenTierChain n = Inr (Some ts)"
  obtains (audio) "audio_tiers n = Inr (Some ts)"
    | (image) m us where "image_pricing n = Some m" "readTokenTierChain m = Inr (Some us)"
        "ts = map (\<lambda>t. t\<lparr>tt_imageCount := True\<rparr>) us"
    | (chain) "chain_loop n [] = Inr (Some ts)"
proof -
  from assms obtain audio where a: "audio_tiers n = Inr audio"
    and r: "(case audio of
         Some tiers \<Rightarrow> Inr (Some tiers)
       | None \<Rightarrow>
           (case image_pricing n of
              Some pricing \<Rightarrow>
                and_then (readTokenTierChain pricing) (\<lambda>tiers.
                  Inr (map_option (map (\<lambda>t. t\<lparr>tt_imageCount := True\<rparr>)) tiers))
            | None \<Rightarrow> chain_loop n [])) = Inr (Some ts)"
    by (subst (asm) readTokenTierChain.simps) (auto simp: and_then_eq_Inr)
  show ?thesis
  proof (cases audio)
    case None
    show ?thesis
    proof (cases "image_pricing n")
      case (Some m)
      with r None show ?thesis by (auto simp: and_then_eq_Inr intro: image)
    qed (use r None chain in simp)
  qed (use a r audio in simp)
qed

text \<open>A chain that is read in a loop shows the conditions of its tiers.\<close>

lemma tokenTier_plain: "tokenTier n conds = Inr (Some t) \<Longrightarrow> conditionText t = None"
  by (rule tokenTier_Some)

lemma chain_loop_plain:
  assumes "chain_loop n tiers = Inr (Some ts)" "\<forall>t \<in> set tiers. conditionText t = None"
  shows "\<forall>t \<in> set ts. conditionText t = None"
  using assms
proof (induction n tiers rule: chain_loop.induct)
  case (1 c yes no s e tiers)
  from "1.prems"(1) obtain conds t where t: "tokenConditions c = Some conds" "tokenTier yes conds = Inr (Some t)"
    "chain_loop no (tiers @ [t]) = Inr (Some ts)"
    by (auto simp: and_then_simps split: option.splits)
  from tokenTier_plain [OF t(2)] "1.prems"(2) have "\<forall>t \<in> set (tiers @ [t]). conditionText t = None" by simp
  from "1.IH" [OF t(1,2) refl t(3) this] show ?case .
qed (auto simp: and_then_eq_Inr dest: tokenTier_plain)

lemma find_conditions:
  "\<forall>t \<in> set ts. conditionText t = None \<Longrightarrow> find (shown_condition env) ts = find (tier_applies env) ts"
  by (induction ts) (simp_all add: shown_condition_def tier_applies_def)

lemma readTokenTierChain_matched:
  assumes "readTokenTierChain n = Inr (Some ts)" "evaluate env n s = Inr (r, s')"
  shows "\<exists>t. find (shown_condition env) ts = Some t \<and> matchedTier s' = label t"
  using assms
proof (induction n arbitrary: ts s r s' rule: node_induct)
  case (1 n)
  from "1.prems"(1) show ?case
  proof (cases rule: readTokenTierChain_cases)
    case audio
    from audio_tiers_matched [OF this "1.prems"(2)] show ?thesis .
  next
    case chain
    from chain_loop_matched [OF chain "1.prems"(2)] find_conditions [OF chain_loop_plain [OF chain]]
    show ?thesis by simp
  next
    case (image m us)
    from evaluate_image_product [OF image(1) "1.prems"(2)] obtain q u w where
      q: "evaluate env m u = Inr (q, w)" "matchedTier s' = matchedTier w" by blast
    from "1.IH" [OF image_pricing_child [OF image(1)] image(2) q(1)] obtain t where
      t: "find (shown_condition env) us = Some t" "matchedTier w = label t" by blast
    have "shown_condition env (u\<lparr>tt_imageCount := True\<rparr>) = shown_condition env u" for u
      by (cases "conditionText u") (simp_all add: shown_condition_def)
    from find_map_label [OF t(1) this] t(2) q(2) image(3) show ?thesis by simp
  qed
qed

section \<open>Time branches\<close>

text \<open>The branches read off an expression, seen under a truth value for each time condition.\<close>

definition on_path :: "(node \<Rightarrow> bool) \<Rightarrow> (node \<times> bool) list \<Rightarrow> bool" where
  "on_path v path \<longleftrightarrow> list_all (\<lambda>(c, matches). v c = matches) path"

lemma chain_loop_not_empty: "chain_loop n acc = Inr (Some ts) \<Longrightarrow> ts \<noteq> []"
proof (induction n acc rule: chain_loop.induct)
  case (1 c yes no s e acc)
  then obtain conds t where "tokenConditions c = Some conds" "tokenTier yes conds = Inr (Some t)"
    "chain_loop no (acc @ [t]) = Inr (Some ts)"
    by (auto simp: and_then_simps split: option.splits)
  from "1.IH" [OF this(1,2) refl this(3)] show ?case .
qed (auto simp: and_then_simps)

lemma chain_not_empty:
  assumes "readTokenTierChain n = Inr (Some ts)" shows "ts \<noteq> []"
  using assms
proof (induction n arbitrary: ts rule: node_induct)
  case (1 n)
  from "1.prems" show ?case
  proof (cases rule: readTokenTierChain_cases)
    case (image m us)
    with "1.IH" [OF image_pricing_child [OF image(1)] image(2)] show ?thesis by simp
  qed (use chain_loop_not_empty in \<open>auto elim: audio_tiers_Some\<close>)
qed

lemma leaf_tiers_Some:
  assumes "leaf_tiers source n path = Inr (Some ts)"
  shows "path \<noteq> [] \<and> ts \<noteq> [] \<and> (\<forall>t \<in> set ts. timeConditions t = path)"
proof -
  from assms obtain tiers where t: "readTokenTierChain n = Inr tiers"
    and r: "(case tiers of None \<Rightarrow> None
      | Some us \<Rightarrow> if path = [] then None else Some (map (timed_tier source path) us)) = Some ts"
    by (auto simp: leaf_tiers_def and_then_eq_Inr)
  then show ?thesis
    by (cases tiers) (auto simp: timed_tier_def dest: chain_not_empty split: if_splits)
qed

lemma branches_extend:
  "timeTierBranches source n path = Inr (Some ts) \<Longrightarrow> t \<in> set ts \<Longrightarrow> \<exists>more. timeConditions t = path @ more"
proof (induction source n path arbitrary: ts rule: timeTierBranches.induct)
  case (1 source c yes no s e path)
  show ?case
  proof (cases "isTimeCondition c = Inr True")
    case True
    with "1.prems"(1) obtain ys ns where
      y: "timeTierBranches source yes (path @ [(c, True)]) = Inr (Some ys)" and
      n: "timeTierBranches source no (path @ [(c, False)]) = Inr (Some ns)" and ts: "ts = ys @ ns"
      by (auto simp: and_then_simps split: option.splits)
    from "1.prems"(2) ts consider "t \<in> set ys" | "t \<in> set ns" by auto
    then show ?thesis
      using "1.IH"(1) [OF True TrueI y] "1.IH"(2) [OF True TrueI y n] by cases auto
  next
    case False
    with "1.prems"(1) have "leaf_tiers source (Conditional c yes no s e) path = Inr (Some ts)"
      by (auto simp: and_then_simps split: if_splits)
    from leaf_tiers_Some [OF this] "1.prems"(2) show ?thesis by auto
  qed
qed (auto dest: leaf_tiers_Some)

lemma leaf_one_path:
  assumes "leaf_tiers source n path = Inr (Some ts)" "on_path v path"
  shows "\<exists>p. {t \<in> set ts. on_path v (timeConditions t)} \<noteq> {}
    \<and> (\<forall>t \<in> set ts. on_path v (timeConditions t) \<longleftrightarrow> timeConditions t = p)"
proof -
  from leaf_tiers_Some [OF assms(1)] have "ts \<noteq> []" "\<forall>t \<in> set ts. timeConditions t = path" by simp_all
  with assms(2) show ?thesis by (intro exI [of _ path]) auto
qed

lemma branches_one_path:
  assumes "timeTierBranches source n path = Inr (Some ts)" "on_path v path"
  shows "\<exists>p. {t \<in> set ts. on_path v (timeConditions t)} \<noteq> {}
    \<and> (\<forall>t \<in> set ts. on_path v (timeConditions t) \<longleftrightarrow> timeConditions t = p)"
  using assms
proof (induction source n path arbitrary: ts rule: timeTierBranches.induct)
  case (1 source c yes no s e path)
  show ?case
  proof (cases "isTimeCondition c = Inr True")
    case True
    with "1.prems"(1) obtain ys ns where
      y: "timeTierBranches source yes (path @ [(c, True)]) = Inr (Some ys)" and
      n: "timeTierBranches source no (path @ [(c, False)]) = Inr (Some ns)" and ts: "ts = ys @ ns"
      by (auto simp: and_then_simps split: option.splits)
    have side: "\<not> on_path v (timeConditions t)"
      if "timeTierBranches source m (path @ [(c, b)]) = Inr (Some us)" "t \<in> set us" "v c \<noteq> b" for m b us t
      using branches_extend [OF that(1,2)] that(3) by (auto simp: on_path_def)
    have other: "timeConditions t \<noteq> timeConditions u"
      if "t \<in> set ys" "u \<in> set ns" for t u
      using branches_extend [OF y that(1)] branches_extend [OF n that(2)] by auto
    show ?thesis
    proof (cases "v c")
      case vc: True
      then have "on_path v (path @ [(c, True)])" using "1.prems"(2) by (simp add: on_path_def)
      from "1.IH"(1) [OF True TrueI y this] obtain p where
        p: "{t \<in> set ys. on_path v (timeConditions t)} \<noteq> {}"
          "\<forall>t \<in> set ys. on_path v (timeConditions t) \<longleftrightarrow> timeConditions t = p" by blast
      then obtain t where "t \<in> set ys" "timeConditions t = p" by blast
      with other have "\<forall>u \<in> set ns. timeConditions u \<noteq> p" by metis
      with p side [OF n] vc ts show ?thesis by (intro exI [of _ p]) auto
    next
      case vc: False
      then have "on_path v (path @ [(c, False)])" using "1.prems"(2) by (simp add: on_path_def)
      from "1.IH"(2) [OF True TrueI y n this] obtain p where
        p: "{t \<in> set ns. on_path v (timeConditions t)} \<noteq> {}"
          "\<forall>t \<in> set ns. on_path v (timeConditions t) \<longleftrightarrow> timeConditions t = p" by blast
      then obtain t where "t \<in> set ns" "timeConditions t = p" by blast
      with other have "\<forall>u \<in> set ys. timeConditions u \<noteq> p" by metis
      with p side [OF y] vc ts show ?thesis by (intro exI [of _ p]) auto
    qed
  next
    case False
    with "1.prems"(1) have "leaf_tiers source (Conditional c yes no s e) path = Inr (Some ts)"
      by (auto simp: and_then_simps split: if_splits)
    from leaf_one_path [OF this "1.prems"(2)] show ?thesis .
  qed
qed (simp only: timeTierBranches.simps; rule leaf_one_path; assumption)+

section \<open>Properties\<close>

text \<open>
  C18. The summary agrees with the evaluator: when an expression is shown as a chain of tiers and its
  evaluation succeeds, the matched tier is the first tier shown whose condition holds: the token
  conditions of the tier, or, for the audio form, that the request has audio tokens
  (\<open>Audio requests\<close>) or none (\<open>Text-only requests\<close>).
\<close>

theorem shown_tier_is_matched_tier:
  assumes "readTokenTierChain n = Inr (Some ts)" "evaluate env n s = Inr (r, s')"
  shows "\<exists>t. find (shown_condition env) ts = Some t \<and> matchedTier s' = label t"
  using readTokenTierChain_matched [OF assms] .

definition tiered_ast :: node where
  "tiered_ast =
     Conditional (Binary (js ''<='') (Variable (js ''p'') 0 1) (Literal (LNum (Fin 5)) True 5 6) 0 6)
       (Call (js ''tier'') [Literal (LStr (js ''a'')) False 14 17,
          Binary (js ''*'') (Variable (js ''p'') 18 19) (Literal (LNum (Fin 2)) True 20 21) 18 21] 9 22)
       (Call (js ''tier'') [Literal (LStr (js ''b'')) False 30 33,
          Binary (js ''*'') (Variable (js ''p'') 34 35) (Literal (LNum (Fin 3)) True 36 37) 34 37] 25 38) 0 38"

definition tiered_env :: runtime_env where
  "tiered_env =
     \<lparr>env_host = \<lparr>h_lower = (\<lambda>s. s), h_zone = (\<lambda>_. None), h_now = 0\<rparr>, env_rules = [],
      env_context = \<lparr>imageCount = None, tokens = Some [(js ''p'', JNum (Fin 7)), (js ''ai'', JNum (Fin 0)), (js ''ao'', JNum (Fin 0))], request = None,
        usage = None, ctx_now = None\<rparr>,
      env_now = Some 0, env_headers = []\<rparr>"

text \<open>An audio form, and a request of text only.\<close>

definition audio_ast :: node where
  "audio_ast =
     Conditional
       (Binary (js ''||'')
         (Binary (js ''>'') (Variable (js ''ai'') 0 2) (Literal (LNum (Fin 0)) True 5 6) 0 6)
         (Binary (js ''>'') (Variable (js ''ao'') 10 12) (Literal (LNum (Fin 0)) True 15 16) 10 16) 0 16)
       (Call (js ''tier'') [Literal (LStr (js ''a'')) False 24 27,
          Binary (js ''*'') (Variable (js ''p'') 28 29) (Literal (LNum (Fin 2)) True 30 31) 28 31] 19 32)
       (Call (js ''tier'') [Literal (LStr (js ''b'')) False 40 43,
          Binary (js ''*'') (Variable (js ''p'') 44 45) (Literal (LNum (Fin 3)) True 46 47) 44 47] 35 48) 0 48"

theorem shown_tier_is_matched_tier_witness:
  "(\<exists>t. find (shown_condition tiered_env)
        [plain_tier (js ''a'') [\<lparr>tc_var = js ''p'', tc_op = js ''<='', tc_value = Fin 5\<rparr>] [(js ''p'', Fin 2)],
         plain_tier (js ''b'') [] [(js ''p'', Fin 3)]] = Some t \<and> js ''b'' = label t)
   \<and> (\<exists>t. find (shown_condition tiered_env)
        [(plain_tier (js ''a'') [] [(js ''p'', Fin 2)])\<lparr>conditionText := Some (js ''Audio requests'')\<rparr>,
         (plain_tier (js ''b'') [] [(js ''p'', Fin 3)])\<lparr>conditionText := Some (js ''Text-only requests'')\<rparr>]
        = Some t \<and> js ''b'' = label t)"
proof -
  have c: "readTokenTierChain tiered_ast = Inr (Some
      [plain_tier (js ''a'') [\<lparr>tc_var = js ''p'', tc_op = js ''<='', tc_value = Fin 5\<rparr>] [(js ''p'', Fin 2)],
       plain_tier (js ''b'') [] [(js ''p'', Fin 3)]])"
    by code_simp
  have e: "evaluate tiered_env tiered_ast (initial_state []) =
      Inr (\<lparr>rvalue = JNum (Fin 21), rinteger = False\<rparr>, (initial_state [])\<lparr>matchedTier := js ''b''\<rparr>)"
    by code_simp
  have m: "matchedTier ((initial_state [])\<lparr>matchedTier := js ''b''\<rparr>) = js ''b''" by simp
  have tiers: "\<exists>t. find (shown_condition tiered_env)
        [plain_tier (js ''a'') [\<lparr>tc_var = js ''p'', tc_op = js ''<='', tc_value = Fin 5\<rparr>] [(js ''p'', Fin 2)],
         plain_tier (js ''b'') [] [(js ''p'', Fin 3)]] = Some t \<and> js ''b'' = label t"
    using shown_tier_is_matched_tier [OF c e] by (simp only: m)
  have a: "readTokenTierChain audio_ast = Inr (Some
      [(plain_tier (js ''a'') [] [(js ''p'', Fin 2)])\<lparr>conditionText := Some (js ''Audio requests'')\<rparr>,
       (plain_tier (js ''b'') [] [(js ''p'', Fin 3)])\<lparr>conditionText := Some (js ''Text-only requests'')\<rparr>])"
    by code_simp
  have f: "evaluate tiered_env audio_ast (initial_state []) =
      Inr (\<lparr>rvalue = JNum (Fin 21), rinteger = False\<rparr>, (initial_state [])\<lparr>matchedTier := js ''b''\<rparr>)"
    by code_simp
  have "\<exists>t. find (shown_condition tiered_env)
        [(plain_tier (js ''a'') [] [(js ''p'', Fin 2)])\<lparr>conditionText := Some (js ''Audio requests'')\<rparr>,
         (plain_tier (js ''b'') [] [(js ''p'', Fin 3)])\<lparr>conditionText := Some (js ''Text-only requests'')\<rparr>]
        = Some t \<and> js ''b'' = label t"
    using shown_tier_is_matched_tier [OF a f] by (simp only: m)
  with tiers show ?thesis by (rule conjI)
qed

text \<open>
  Time branches partition the clock: under any truth values of the time conditions, some of the tiers
  read off an expression are current, and the current ones are those of one branch, all with
  the same conditions on the time.
\<close>

lemma time_branches_partition:
  assumes "timeTierBranches source n [] = Inr (Some ts)"
  shows "\<exists>branch. (\<exists>t \<in> set ts. timeConditions t = branch)
    \<and> (\<forall>t \<in> set ts. (\<forall>(c, matches) \<in> set (timeConditions t). holds c = matches)
          \<longleftrightarrow> timeConditions t = branch)"
proof -
  have "on_path holds []" by (simp add: on_path_def)
  from branches_one_path [OF assms this] obtain p where
    ne: "{t \<in> set ts. on_path holds (timeConditions t)} \<noteq> {}" and
    p: "\<forall>t \<in> set ts. on_path holds (timeConditions t) \<longleftrightarrow> timeConditions t = p" by (elim exE conjE)
  from ne p have "\<exists>t \<in> set ts. timeConditions t = p" by auto
  with p show ?thesis by (intro exI [of _ p]) (simp add: on_path_def list_all_iff)
qed

definition timed_ast :: node where
  "timed_ast =
     Conditional (Binary (js ''<'') (Call (js ''hour'') [Literal (LStr []) False 5 7] 0 8)
         (Literal (LNum (Fin 8)) True 9 10) 0 10)
       (Call (js ''tier'') [Literal (LStr (js ''a'')) False 16 19,
          Binary (js ''*'') (Variable (js ''p'') 20 21) (Literal (LNum (Fin 2)) True 22 23) 20 23] 11 24)
       (Call (js ''tier'') [Literal (LStr (js ''b'')) False 30 33,
          Binary (js ''*'') (Variable (js ''p'') 34 35) (Literal (LNum (Fin 3)) True 36 37) 34 37] 25 38) 0 38"

end
