(* ===== verification/BillingFactors.thy ===== *)
theory BillingFactors
  imports BillingStructure
begin

text \<open>
  What the two helpers of \<open>billing-expression/structure.ts\<close> are to compute, stated without their
  loops: the top level of a text is where the text before it leaves no quotation and no bracket
  open; the factors of a product are the pieces between its top-level asterisks; removing
  parentheses takes off matching pairs, that is pairs around a balanced text, and white space.
\<close>

section \<open>Scanning a text\<close>

text \<open>The open brackets so far, the quotation mark that is open, and whether a backslash precedes.\<close>

fun scan :: "jsstr \<Rightarrow> jsstr \<Rightarrow> nat \<Rightarrow> int \<times> nat option \<times> bool \<Rightarrow> int \<times> nat option \<times> bool" where
  "scan opening closing c (d, Some q, True) = (d, Some q, False)"
| "scan opening closing c (d, Some q, False) =
     (d, if c = q \<and> c \<noteq> 92 then None else Some q, c = 92)"
| "scan opening closing c (d, None, e) =
     (if c = 34 \<or> c = 39 then (d, Some c, False)
      else (if c \<in> set opening then d + 1 else if c \<in> set closing then d - 1 else d, None, False))"

definition scanned :: "jsstr \<Rightarrow> jsstr \<Rightarrow> jsstr \<Rightarrow> int \<times> nat option \<times> bool" where
  "scanned opening closing s = fold (scan opening closing) s (0, None, False)"

lemma scanned_step:
  "i < length s \<Longrightarrow>
     scanned os cs (take (Suc i) s) = scan os cs (s ! i) (scanned os cs (take i s))"
  by (simp add: scanned_def take_Suc_conv_app_nth)

section \<open>The factors of a product\<close>

definition top_level :: "jsstr \<Rightarrow> nat \<Rightarrow> bool" where
  "top_level s i \<longleftrightarrow> scanned (js ''([{'') (js '')]}'') (take i s) = (0, None, False)"

text \<open>Where a product is cut: nowhere when a question mark at the top level makes it a conditional.\<close>

definition stars :: "jsstr \<Rightarrow> nat list" where
  "stars s = filter (\<lambda>i. top_level s i \<and> s ! i = ch (CHR ''*'')) [0..<length s]"

definition conditional_text :: "jsstr \<Rightarrow> bool" where
  "conditional_text s \<longleftrightarrow> list_ex (\<lambda>i. top_level s i \<and> s ! i = ch (CHR ''?'')) [0..<length s]"

fun cut_at :: "jsstr \<Rightarrow> nat \<Rightarrow> nat list \<Rightarrow> jsstr list" where
  "cut_at s start [] = [drop start s]"
| "cut_at s start (p # ps) = slice start p s # cut_at s (Suc p) ps"

definition product_pieces :: "jsstr \<Rightarrow> jsstr list" where
  "product_pieces s = (if conditional_text s then [s] else cut_at s 0 (stars s))"

definition product_factors :: "jsstr \<Rightarrow> jsstr list" where
  "product_factors s = filter (\<lambda>p. p \<noteq> []) (map trim (product_pieces s))"

text \<open>The pieces with an asterisk between them are the text again.\<close>

lemma cut_at_join:
  "sorted_wrt (<) ps \<Longrightarrow> \<forall>p \<in> set ps. start \<le> p \<and> p < length s \<and> s ! p = c \<Longrightarrow>
     join [c] (cut_at s start ps) = drop start s"
proof (induction ps arbitrary: start)
  case (Cons p ps)
  obtain x xs where tail: "cut_at s (Suc p) ps = x # xs" by (cases ps) auto
  have "join [c] (cut_at s (Suc p) ps) = drop (Suc p) s"
    using Cons.prems by (intro Cons.IH) auto
  then show ?case
    using Cons.prems tail id_take_nth_drop [of "p - start" "drop start s", symmetric]
    by (auto simp: slice_def less_diff_conv)
qed simp

lemma product_pieces_join: "join (js ''*'') (product_pieces s) = s"
proof -
  have "sorted_wrt (<) (stars s)" by (simp add: stars_def sorted_wrt_filter)
  moreover have "\<forall>p \<in> set (stars s). 0 \<le> p \<and> p < length s \<and> s ! p = ch (CHR ''*'')"
    by (auto simp only: stars_def set_filter set_upt atLeastLessThan_iff mem_Collect_eq)
  ultimately have "join [ch (CHR ''*'')] (cut_at s 0 (stars s)) = drop 0 s" by (rule cut_at_join)
  moreover have "js ''*'' = [ch (CHR ''*'')]" by (simp only: js_def list.map)
  ultimately show ?thesis by (simp only: product_pieces_def join.simps drop_0 if_cancel split: if_split) simp
qed

text \<open>What one step of the loop does, in terms of the scan.\<close>

lemma split_step_scan:
  assumes i: "i < length s" and state: "scanned (js ''([{'') (js '')]}'') (take i s) = (d, quote, False)"
  shows "(top_level s i \<and> s ! i = ch (CHR ''?'') \<and> split_step s (js ''*'') i d quote = Whole)
    \<or> (top_level s i \<and> s ! i = ch (CHR ''*'') \<and> split_step s (js ''*'') i d quote = Cut d \<and>
        scanned (js ''([{'') (js '')]}'') (take (Suc i) s) = (d, None, False) \<and> quote = None)
    \<or> (\<not> (top_level s i \<and> s ! i \<in> {ch (CHR ''?''), ch (CHR ''*'')}) \<and>
        (\<exists>d' quote'. split_step s (js ''*'') i d quote = Advance 1 d' quote' \<and>
          scanned (js ''([{'') (js '')]}'') (take (Suc i) s) = (d', quote', False)))
    \<or> (\<not> top_level s i \<and> \<not> top_level s (Suc i) \<and> split_step s (js ''*'') i d quote = Advance 2 d quote \<and>
        (Suc i < length s \<longrightarrow> scanned (js ''([{'') (js '')]}'') (take (Suc (Suc i)) s) = (d, quote, False)))"
proof -
  note one = scanned_step [OF i, of "js ''([{''" "js '')]}''", unfolded state]
  have top: "top_level s i \<longleftrightarrow> d = 0 \<and> quote = None" using state by (auto simp: top_level_def)
  show ?thesis
  proof (cases quote)
    case (Some q)
    show ?thesis
    proof (cases "s ! i = 92")
      case True
      with one Some have esc: "scanned (js ''([{'') (js '')]}'') (take (Suc i) s) = (d, Some q, True)" by simp
      then have "\<not> top_level s (Suc i)" by (simp add: top_level_def)
      moreover have "Suc i < length s \<Longrightarrow>
          scanned (js ''([{'') (js '')]}'') (take (Suc (Suc i)) s) = (d, quote, False)"
        using scanned_step [of "Suc i" s "js ''([{''" "js '')]}''"] esc Some by simp
      ultimately show ?thesis using True Some top by (simp add: split_step_def)
    next
      case False
      with one Some top show ?thesis by (auto simp: split_step_def)
    qed
  next
    case None
    have sw: "starts_with (js ''*'') (drop i s) \<longleftrightarrow> s ! i = ch (CHR ''*'')"
      using i by (simp add: starts_with_def js_def take_Suc_conv_app_nth hd_drop_conv_nth take_Suc)
    show ?thesis
    proof (cases "is_quote (s ! i)")
      case True
      with one None show ?thesis by (auto simp: split_step_def is_quote_def)
    next
      case False
      with one None have nxt: "scanned (js ''([{'') (js '')]}'') (take (Suc i) s)
          = (bracket_depth (s ! i) d, None, False)"
        by (simp add: is_quote_def bracket_depth_def)
      have same: "s ! i \<in> {ch (CHR ''?''), ch (CHR ''*'')} \<Longrightarrow> bracket_depth (s ! i) d = d"
        by (auto simp: bracket_depth_def js_def)
      show ?thesis
        using False None nxt same top sw
        by (cases "s ! i \<in> {ch (CHR ''?''), ch (CHR ''*'')}") (auto simp: split_step_def Let_def)
    qed
  qed
qed

text \<open>What the loop is still to return when it stands at an index.\<close>

definition remaining :: "jsstr \<Rightarrow> nat \<Rightarrow> nat \<Rightarrow> jsstr list \<Rightarrow> jsstr list" where
  "remaining s i start parts =
     (if list_ex (\<lambda>j. top_level s j \<and> s ! j = ch (CHR ''?'')) [i..<length s] then [trim s]
      else filter (\<lambda>p. p \<noteq> []) (parts @ map trim
        (cut_at s start (filter (\<lambda>j. top_level s j \<and> s ! j = ch (CHR ''*'')) [i..<length s]))))"

lemma remaining_simps:
  "length s \<le> i \<Longrightarrow> remaining s i start parts = filter (\<lambda>p. p \<noteq> []) (parts @ [trim (drop start s)])"
  "i < length s \<Longrightarrow> top_level s i \<Longrightarrow> s ! i = ch (CHR ''?'') \<Longrightarrow> remaining s i start parts = [trim s]"
  "i < length s \<Longrightarrow> top_level s i \<Longrightarrow> s ! i = ch (CHR ''*'') \<Longrightarrow> remaining s i start parts =
     remaining s (Suc i) (Suc i) (parts @ [trim (slice start i s)])"
  "i < length s \<Longrightarrow> \<not> (top_level s i \<and> s ! i \<in> {ch (CHR ''?''), ch (CHR ''*'')}) \<Longrightarrow>
     remaining s i start parts = remaining s (Suc i) start parts"
  by (auto simp: remaining_def upt_conv_Cons)

text \<open>The loop stands at an index with the state of the scan of the text before it.\<close>

lemma split_loop_exact:
  assumes "i \<le> length s \<Longrightarrow> scanned (js ''([{'') (js '')]}'') (take i s) = (d, quote, False)"
  shows "split_loop s (js ''*'') i start d quote parts = Some (remaining s i start parts)"
  using assms
proof (induction s "js ''*''" i start d quote parts rule: split_loop.induct)
  case (1 s i start d quote parts)
  have one: "length (js ''*'') = 1" "js ''*'' \<noteq> []" by (simp_all add: js_def)
  show ?case
  proof (cases "length s \<le> i")
    case True
    then show ?thesis by (simp add: split_loop.simps [of s] remaining_simps(1))
  next
    case False
    then have i: "i < length s" by simp
    with 1(3) have "scanned (js ''([{'') (js '')]}'') (take i s) = (d, quote, False)" by simp
    from split_step_scan [OF i this] consider
        (whole) "top_level s i" "s ! i = ch (CHR ''?'')" "split_step s (js ''*'') i d quote = Whole"
      | (cut) "top_level s i" "s ! i = ch (CHR ''*'')" "split_step s (js ''*'') i d quote = Cut d"
          "scanned (js ''([{'') (js '')]}'') (take (Suc i) s) = (d, None, False)"
      | (advance) d' quote' where "\<not> (top_level s i \<and> s ! i \<in> {ch (CHR ''?''), ch (CHR ''*'')})"
          "split_step s (js ''*'') i d quote = Advance 1 d' quote'"
          "scanned (js ''([{'') (js '')]}'') (take (Suc i) s) = (d', quote', False)"
      | (escape) "\<not> top_level s i" "\<not> top_level s (Suc i)" "split_step s (js ''*'') i d quote = Advance 2 d quote"
          "Suc i < length s \<longrightarrow> scanned (js ''([{'') (js '')]}'') (take (Suc (Suc i)) s) = (d, quote, False)"
      by blast
    then show ?thesis
    proof cases
      case whole
      with i show ?thesis by (simp add: split_loop.simps [of s] remaining_simps(2))
    next
      case cut
      have "split_loop s (js ''*'') (Suc i) (Suc i) d None (parts @ [trim (slice start i s)]) =
          Some (remaining s (Suc i) (Suc i) (parts @ [trim (slice start i s)]))"
        using 1(2) [OF False cut(3) one(2)] cut(4) one by simp
      with cut(1-3) i one show ?thesis
        by (simp add: split_loop.simps [of s "js ''*''" i] remaining_simps(3))
    next
      case advance
      from 1(1) [OF False advance(2)] advance i show ?thesis
        by (simp add: split_loop.simps [of s "js ''*''" i] remaining_simps(4))
    next
      case escape
      have "remaining s i start parts = remaining s (Suc (Suc i)) start parts"
        using escape(1,2) i remaining_simps(4) [of "Suc i" s] remaining_simps(1) [of s]
        by (cases "Suc i < length s") (simp_all add: remaining_simps(4))
      with 1(1) [OF False escape(3)] escape i show ?thesis
        by (auto simp: split_loop.simps [of s "js ''*''" i])
    qed
  qed
qed

lemma splitExpressionAtTopLevel_exact:
  "splitExpressionAtTopLevel s (js ''*'') = Some (product_factors s)"
proof -
  have "filter (\<lambda>p. p \<noteq> []) [trim s] = [trim s]" if c: "conditional_text s"
  proof -
    from c obtain j where "j < length s" "s ! j = ch (CHR ''?'')"
      by (auto simp: conditional_text_def list_ex_iff)
    then have "ch (CHR ''?'') \<in> set s" by (metis nth_mem)
    moreover have "\<not> is_ws (ch (CHR ''?''))" by (simp add: is_ws_def)
    ultimately show ?thesis by (auto simp: trim_eq_Nil)
  qed
  then show ?thesis
    using split_loop_exact [of 0 s 0 None 0 "[]"]
    by (simp add: splitExpressionAtTopLevel_def scanned_def remaining_def product_factors_def product_pieces_def
        conditional_text_def stars_def)
qed

section \<open>Matching parentheses\<close>

text \<open>Parentheses outside quotations: none closes before it is opened, and all are closed.\<close>

definition parens :: "jsstr \<Rightarrow> int \<times> nat option \<times> bool" where
  "parens s = scanned (js ''('') (js '')'') s"

definition balanced :: "jsstr \<Rightarrow> bool" where
  "balanced s \<longleftrightarrow> list_all (\<lambda>k. 0 \<le> fst (parens (take k s))) [0..<length s]
     \<and> fst (parens s) = 0 \<and> fst (snd (parens s)) = None"

definition in_parens :: "jsstr \<Rightarrow> jsstr" where
  "in_parens inner = [ch (CHR ''('')] @ inner @ [ch (CHR '')'')]"

inductive unwraps :: "jsstr \<Rightarrow> jsstr \<Rightarrow> bool" where
  bare: "\<nexists>inner. trim s = in_parens inner \<and> balanced inner \<Longrightarrow> unwraps s (trim s)"
| pair: "trim s = in_parens inner \<Longrightarrow> balanced inner \<Longrightarrow> unwraps inner e \<Longrightarrow> unwraps s e"

definition closes_at :: "jsstr \<Rightarrow> nat \<Rightarrow> bool" where
  "closes_at e j \<longleftrightarrow> j < length e \<and> fst (snd (parens (take j e))) = None \<and> \<not> is_quote (e ! j)
     \<and> fst (parens (take (Suc j) e)) = 0"

lemma parens_step: "i < length s \<Longrightarrow>
    parens (take (Suc i) s) = scan (js ''('') (js '')'') (s ! i) (parens (take i s))"
  by (simp add: parens_def scanned_step)

text \<open>The first place from an index on where the depth is back at zero is the end of the text.\<close>

definition closes_last :: "jsstr \<Rightarrow> nat \<Rightarrow> bool" where
  "closes_last e i \<longleftrightarrow> i < length e \<and> closes_at e (length e - 1)
     \<and> (\<forall>j. i \<le> j \<longrightarrow> j < length e - 1 \<longrightarrow> \<not> closes_at e j)"

lemma closes_last_skip: "\<not> closes_at e i \<Longrightarrow> closes_last e i \<longleftrightarrow> closes_last e (Suc i)"
proof -
  assume no: "\<not> closes_at e i"
  have "i \<le> j \<longleftrightarrow> i = j \<or> Suc i \<le> j" for j by auto
  moreover have "closes_at e (length e - 1) \<Longrightarrow> i < length e \<longleftrightarrow> Suc i < length e"
    using no by (cases "i = length e - 1") auto
  ultimately show ?thesis using no unfolding closes_last_def by metis
qed

lemma closes_last_hit: "closes_at e i \<Longrightarrow> closes_last e i \<longleftrightarrow> i = length e - 1"
  by (auto simp: closes_last_def closes_at_def)

lemma closes_loop_exact:
  assumes "i \<le> length e \<Longrightarrow> parens (take i e) = (d, quote, False)"
  shows "closes_loop e i d quote \<longleftrightarrow> closes_last e i"
  using assms
proof (induction e i d quote rule: closes_loop.induct)
  case (1 e i d quote)
  show ?case
  proof (cases "length e \<le> i")
    case True
    then show ?thesis by (simp add: closes_loop.simps [of e] closes_last_def)
  next
    case False
    then have i: "i < length e" by simp
    with "1.prems" have state: "parens (take i e) = (d, quote, False)" by simp
    note step = parens_step [OF i, unfolded state]
    show ?thesis
    proof (cases quote)
      case (Some q)
      with state have no: "\<not> closes_at e i" by (simp add: closes_at_def)
      show ?thesis
      proof (cases "e ! i = 92")
        case True
        with step Some have esc: "parens (take (Suc i) e) = (d, Some q, True)" by simp
        then have "\<not> closes_at e (Suc i)" by (simp add: closes_at_def)
        with no have "closes_last e i \<longleftrightarrow> closes_last e (i + 2)" by (simp add: closes_last_skip)
        moreover have "closes_loop e (i + 2) d quote \<longleftrightarrow> closes_last e (i + 2)"
          using Some True parens_step [of "Suc i" e] esc
          by (intro "1.IH"(3) [OF False refl Some True]) auto
        ultimately show ?thesis using False Some True by (simp add: closes_loop.simps [of e i])
      next
        case nesc: False
        have "closes_loop e (i + 1) d (if e ! i = q then None else quote) \<longleftrightarrow> closes_last e (i + 1)"
          using Some step nesc by (intro "1.IH"(4) [OF False refl Some nesc]) auto
        with no False Some nesc show ?thesis
          by (auto simp: closes_loop.simps [of e i] closes_last_skip split: if_splits)
      qed
    next
      case None
      show ?thesis
      proof (cases "is_quote (e ! i)")
        case True
        then have "closes_loop e (i + 1) d (Some (e ! i)) \<longleftrightarrow> closes_last e (i + 1)"
          using None step by (intro "1.IH"(1) [OF False refl None True]) (auto simp: is_quote_def)
        moreover have "\<not> closes_at e i" using True by (simp add: closes_at_def)
        ultimately show ?thesis
          using True False None by (simp add: closes_loop.simps [of e i] closes_last_skip)
      next
        case nq: False
        define d' where "d' = (if e ! i = ch (CHR ''('') then d + 1 else if e ! i = ch (CHR '')'') then d - 1 else d)"
        have next_state: "parens (take (Suc i) e) = (d', None, False)"
          using nq None step by (simp add: is_quote_def d'_def js_def)
        with state None nq i have hit: "closes_at e i \<longleftrightarrow> d' = 0" by (simp add: closes_at_def)
        show ?thesis
        proof (cases "d' = 0")
          case True
          with hit closes_last_hit [of e i] False None nq show ?thesis
            unfolding closes_loop.simps [of e i] Let_def None d'_def by simp
        next
          case nz: False
          have "closes_loop e (i + 1) d' None \<longleftrightarrow> closes_last e (i + 1)"
            using None nq nz next_state by (intro "1.IH"(2) [OF False refl None nq d'_def]) auto
          with nz hit closes_last_skip [of e i] False None nq show ?thesis
            unfolding closes_loop.simps [of e i] Let_def None d'_def by simp
        qed
      qed
    qed
  qed
qed

lemma scan_shift:
  "fold (scan os cs) s (d + x, q) = (d + fst (fold (scan os cs) s (x, q)), snd (fold (scan os cs) s (x, q)))"
proof (induction s arbitrary: x q)
  case (Cons c s)
  obtain x' q' where "scan os cs c (x, q) = (x', q')" by (cases "scan os cs c (x, q)")
  moreover have "scan os cs c (d + x, q) = (d + fst (scan os cs c (x, q)), snd (scan os cs c (x, q)))"
    by (cases "(os, cs, c, (x, q))" rule: scan.cases) (auto simp: algebra_simps)
  ultimately show ?case using Cons.IH by simp
qed simp

lemma parens_inside:
  "k \<le> length inner \<Longrightarrow> parens (take (Suc k) (in_parens inner)) =
     (1 + fst (parens (take k inner)), snd (parens (take k inner)))"
  using scan_shift [of "js ''(''" "js '')''" "take k inner" 1 0 "(None, False)"]
  by (simp add: parens_def scanned_def in_parens_def js_def)

lemma scan_depth:
  assumes "fst (scan os cs c st) < fst st"
  shows "fst (scan os cs c st) = fst st - 1" "fst (snd st) = None" "\<not> is_quote c"
  using assms by (cases "(os, cs, c, st)" rule: scan.cases; auto simp: is_quote_def split: if_splits)+

lemma balanced_iff: "closes_last (in_parens inner) 0 \<longleftrightarrow> balanced inner"
proof -
  let ?d = "\<lambda>k. fst (parens (take k inner))"
  have inside: "in_parens inner ! Suc k = inner ! k" if "k < length inner" for k
    using that by (simp add: in_parens_def nth_append)
  have at: "closes_at (in_parens inner) (Suc k) \<longleftrightarrow>
      fst (snd (parens (take k inner))) = None \<and> \<not> is_quote (inner ! k) \<and> ?d (Suc k) = -1"
    if "k < length inner" for k
    using that parens_inside [of k inner] parens_inside [of "Suc k" inner] inside [OF that]
    by (auto simp: closes_at_def in_parens_def)
  have last: "closes_at (in_parens inner) (Suc (length inner)) \<longleftrightarrow>
      fst (snd (parens inner)) = None \<and> fst (parens inner) = 0"
  proof -
    have "in_parens inner ! Suc (length inner) = ch (CHR '')'')" by (simp add: in_parens_def nth_append)
    moreover have "parens (take (Suc (length inner)) (in_parens inner)) = (1 + fst (parens inner), snd (parens inner))"
      using parens_inside [of "length inner" inner] by simp
    moreover have "length (in_parens inner) = Suc (Suc (length inner))" by (simp add: in_parens_def)
    moreover obtain d q e where "parens inner = (d, q, e)" by (cases "parens inner")
    ultimately show ?thesis
      using parens_step [of "Suc (length inner)" "in_parens inner"]
      by (cases q) (auto simp: closes_at_def is_quote_def js_def)
  qed
  have first: "\<not> closes_at (in_parens inner) 0"
    using parens_inside [of 0 inner] by (simp add: closes_at_def parens_def scanned_def)
  have "(\<forall>k < length inner. \<not> closes_at (in_parens inner) (Suc k)) \<longleftrightarrow> (\<forall>k < Suc (length inner). 0 \<le> ?d k)"
  proof
    assume none: "\<forall>k < length inner. \<not> closes_at (in_parens inner) (Suc k)"
    have "k \<le> length inner \<Longrightarrow> 0 \<le> ?d k" for k
    proof (induction k)
      case (Suc k)
      then have k: "k < length inner" "0 \<le> ?d k" by simp_all
      have "\<not> ?d (Suc k) < 0"
      proof
        assume "?d (Suc k) < 0"
        with k(2) have "?d (Suc k) < ?d k" by simp
        then have "?d (Suc k) = ?d k - 1" "fst (snd (parens (take k inner))) = None" "\<not> is_quote (inner ! k)"
          using scan_depth [of "js ''(''" "js '')''" "inner ! k" "parens (take k inner)"] parens_step [OF k(1)]
          by simp_all
        with none k at \<open>?d (Suc k) < 0\<close> show False by force
      qed
      then show ?case by simp
    qed (simp add: parens_def scanned_def)
    then show "\<forall>k < Suc (length inner). 0 \<le> ?d k" by (simp add: less_Suc_eq_le)
  next
    assume "\<forall>k < Suc (length inner). 0 \<le> ?d k"
    then show "\<forall>k < length inner. \<not> closes_at (in_parens inner) (Suc k)"
      using at by (metis Suc_mono neg_0_le_iff_le not_one_le_zero)
  qed
  moreover have "(\<forall>j. 0 \<le> j \<longrightarrow> j < Suc (length inner) \<longrightarrow> \<not> closes_at (in_parens inner) j) \<longleftrightarrow>
      (\<forall>k < length inner. \<not> closes_at (in_parens inner) (Suc k))"
    using first by (metis Suc_less_eq less_Suc_eq_0_disj zero_le)
  moreover have "length (in_parens inner) = Suc (Suc (length inner))" by (simp add: in_parens_def)
  ultimately show ?thesis
    using last unfolding closes_last_def balanced_def by (auto simp: list_all_iff less_Suc_eq)
qed

lemma wrapped_iff: "wrapped e \<longleftrightarrow> (\<exists>inner. e = in_parens inner \<and> balanced inner)"
proof
  assume w: "wrapped e"
  with wrapped_length have "2 \<le> length e" by blast
  then obtain c r where "e = c # r" "r \<noteq> []" by (cases e; force)
  then obtain inner d where "e = [c] @ inner @ [d]" by (cases r rule: rev_cases) auto
  with w have e: "e = in_parens inner" by (simp add: wrapped_def in_parens_def)
  from w have "closes_last e 0"
    using closes_loop_exact [of 0 e 0 None] by (simp add: wrapped_def parens_def scanned_def)
  with e balanced_iff show "\<exists>inner. e = in_parens inner \<and> balanced inner" by blast
next
  assume "\<exists>inner. e = in_parens inner \<and> balanced inner"
  then obtain inner where e: "e = in_parens inner" "balanced inner" by blast
  then have "closes_loop e 0 0 None"
    using closes_loop_exact [of 0 e 0 None] balanced_iff by (simp add: parens_def scanned_def)
  with e show "wrapped e" by (simp add: wrapped_def in_parens_def)
qed

lemma unwraps_unwrapExpressionParens: "unwraps s (unwrapExpressionParens s)"
proof (induction "length (trim s)" arbitrary: s rule: less_induct)
  case less
  show ?case
  proof (cases "wrapped (trim s)")
    case True
    then obtain inner where i: "trim s = in_parens inner" "balanced inner" by (auto simp: wrapped_iff)
    then have "slice 1 (length (trim s) - 1) (trim s) = inner" by (simp add: slice_def in_parens_def)
    with True have "unwrapExpressionParens s = unwrapExpressionParens inner"
      by (simp add: unwrapExpressionParens_def unwrap_loop.simps [of "trim s"])
    moreover have "length (trim inner) < length (trim s)"
      using i length_trim [of inner] by (simp add: in_parens_def)
    ultimately show ?thesis using less.hyps [of inner] i unwraps.pair by metis
  next
    case False
    then show ?thesis
      using unwraps.bare [of s] by (auto simp: wrapped_iff unwrapExpressionParens_def unwrap_loop.simps [of "trim s"])
  qed
qed

lemma unwraps_unique: "unwraps s e \<Longrightarrow> e = unwrapExpressionParens s"
proof (induction rule: unwraps.induct)
  case (bare s)
  then have "\<not> wrapped (trim s)" by (simp add: wrapped_iff)
  then show ?case by (simp add: unwrapExpressionParens_def unwrap_loop.simps [of "trim s"])
next
  case (pair s inner e)
  then have "wrapped (in_parens inner)" by (auto simp: wrapped_iff)
  moreover have "slice 1 (length (in_parens inner) - 1) (in_parens inner) = inner"
    by (simp add: slice_def in_parens_def)
  ultimately show ?case
    using pair by (simp add: unwrapExpressionParens_def unwrap_loop.simps [of "in_parens inner"])
qed

lemma unwraps_iff: "unwraps s e \<longleftrightarrow> e = unwrapExpressionParens s"
  using unwraps_unwrapExpressionParens unwraps_unique by blast

text \<open>The pieces are not cut further, and unwrapping by hand on small texts agrees with the reader.\<close>

lemma factors_example:
  "product_factors (js ''(a*b) * \"x*y\" * c'') = [js ''(a*b)'', js ''\"x*y\"'', js ''c'']"
  "product_factors (js ''a ? b * c : d'') = [js ''a ? b * c : d'']"
  "balanced (js ''a) * (b'') = False" "balanced (js ''f(a) * (b)'')"
  by code_simp+

end
