(* ===== verification/JsJson.thy ===== *)
theory JsJson
  imports JsValue
begin

text \<open>
  \<open>JSON.parse\<close> of ECMAScript on code units: \<open>None\<close> is the \<open>SyntaxError\<close>, which the console always
  catches.  Properties of a parsed object are listed in the order of \<open>Object.entries\<close>: array indices in
  increasing order, then the other keys in the order of their first occurrence; the last of
  several values of a key counts.
\<close>

section \<open>Objects\<close>

text \<open>A key that is an array index, a canonical numeral below \<open>2 ^ 32 - 1\<close>.\<close>

definition is_index :: "jsstr \<Rightarrow> bool" where
  "is_index k \<longleftrightarrow> k \<noteq> [] \<and> list_all is_digit k \<and> dec_string (dec_value k) = k \<and> dec_value k < 2 ^ 32 - 1"

definition property_order :: "(jsstr \<times> 'v) list \<Rightarrow> (jsstr \<times> 'v) list" where
  "property_order es =
     sort_key (\<lambda>e. dec_value (fst e)) (filter (\<lambda>e. is_index (fst e)) es)
     @ filter (\<lambda>e. \<not> is_index (fst e)) es"

text \<open>\<open>Boolean(v)\<close>, a property \<open>v[k]\<close> that no prototype has, and \<open>typeof v === 'string'\<close>.\<close>

definition truthy :: "jsval \<Rightarrow> bool" where
  "truthy v =
     (case v of JUndef \<Rightarrow> False | JNull \<Rightarrow> False | JBool b \<Rightarrow> b | JNum x \<Rightarrow> x \<noteq> NaN \<and> \<not> num_zero x
      | JStr s \<Rightarrow> s \<noteq> [] | _ \<Rightarrow> True)"

definition get_prop :: "jsval \<Rightarrow> jsstr \<Rightarrow> jsval" where
  "get_prop v k =
     (case v of JObj es \<Rightarrow> (case map_of es k of Some x \<Rightarrow> x | None \<Rightarrow> JUndef) | _ \<Rightarrow> JUndef)"

definition is_string :: "jsval \<Rightarrow> bool" where
  "is_string v = (case v of JStr _ \<Rightarrow> True | _ \<Rightarrow> False)"

definition is_array :: "jsval \<Rightarrow> bool" where
  "is_array v = (case v of JArr _ \<Rightarrow> True | _ \<Rightarrow> False)"

text \<open>\<open>a ?? b\<close> for an optional field.\<close>

definition or_else :: "'a option \<Rightarrow> 'a \<Rightarrow> 'a" where
  "or_else a b = (case a of Some x \<Rightarrow> x | None \<Rightarrow> b)"

section \<open>Unchecked values\<close>

text \<open>\<open>v.k\<close>, \<open>a || b\<close> and \<open>v.trim()\<close> of values that nothing has checked: what throws is a \<open>TypeError\<close>.\<close>

definition read_prop :: "jsval \<Rightarrow> string \<Rightarrow> js_error + jsval" where
  "read_prop v k = (if nullish v then Inl TypeError else Inr (get_prop v (js k)))"

definition js_or :: "jsval \<Rightarrow> jsval \<Rightarrow> jsval" where
  "js_or a b = (if truthy a then a else b)"

definition js_trim :: "jsval \<Rightarrow> js_error + jsstr" where
  "js_trim v = (case v of JStr s \<Rightarrow> Inr (trim s) | _ \<Rightarrow> Inl TypeError)"

text \<open>\<open>v?.trim() || ''\<close>\<close>

definition opt_trim :: "jsval \<Rightarrow> js_error + jsstr" where
  "opt_trim v = (if nullish v then Inr [] else js_trim v)"

text \<open>
  \<open>String(v)\<close>.  A value that came from JSON has no callable property of its own, so that an object with
  a property \<open>toString\<close> has no primitive value.
\<close>

function js_string :: "jsval \<Rightarrow> js_error + jsstr" where
  "js_string v =
     (case v of
        JUndef \<Rightarrow> Inr (js ''undefined'')
      | JNull \<Rightarrow> Inr (js ''null'')
      | JBool b \<Rightarrow> Inr (if b then js ''true'' else js ''false'')
      | JNum x \<Rightarrow> Inr (num_to_string x)
      | JStr s \<Rightarrow> Inr s
      | JArr xs \<Rightarrow>
          and_then (mapM (\<lambda>x. if nullish x then Inr [] else js_string x) xs) (\<lambda>ts. Inr (join (js '','') ts))
      | JObj es \<Rightarrow>
          if js ''toString'' \<in> fst ` set es then Inl TypeError else Inr (js ''[object Object]''))"
  by pat_completeness auto
termination
  by (relation "measure size") (auto dest: size_JArr_elem)

declare js_string.simps [simp del]

section \<open>The parser\<close>

definition json_ws :: "nat \<Rightarrow> bool" where
  "json_ws c \<longleftrightarrow> c = 9 \<or> c = 10 \<or> c = 13 \<or> c = 32"

abbreviation skip_ws :: "jsstr \<Rightarrow> jsstr" where
  "skip_ws s \<equiv> dropWhile json_ws s"

definition json_escapes :: "(nat \<times> nat) list" where
  "json_escapes = [(34, 34), (92, 92), (47, 47), (ch (CHR ''b''), 8), (ch (CHR ''f''), 12),
     (ch (CHR ''n''), 10), (ch (CHR ''r''), 13), (ch (CHR ''t''), 9)]"

text \<open>The rest of a string literal after its opening quote.\<close>

function json_string :: "jsstr \<Rightarrow> (jsstr \<times> jsstr) option" where
  "json_string s =
     (case s of [] \<Rightarrow> None
      | c # r \<Rightarrow>
          if c = 34 then Some ([], r)
          else if c < 32 then None
          else if c \<noteq> 92 then map_option (\<lambda>(t, q). (c # t, q)) (json_string r)
          else (case r of [] \<Rightarrow> None
            | e # r' \<Rightarrow>
                if e = ch (CHR ''u'') then
                  (if 4 \<le> length r' \<and> list_all is_hex (take 4 r')
                   then map_option (\<lambda>(t, q). (hex_value (take 4 r') # t, q)) (json_string (drop 4 r'))
                   else None)
                else (case map_of json_escapes e of None \<Rightarrow> None
                  | Some u \<Rightarrow> map_option (\<lambda>(t, q). (u # t, q)) (json_string r'))))"
  by pat_completeness auto
termination by (relation "measure length") auto

declare json_string.simps [simp del]

text \<open>
  The length of the longest prefix that is a number of JSON,
  \<open>-?(0|[1-9]\d*)(\.\d+)?([eE][+-]?\d+)?\<close>.
\<close>

definition json_fraction :: "jsstr \<Rightarrow> nat" where
  "json_fraction s =
     (case s of [] \<Rightarrow> 0
      | c # r \<Rightarrow> if c = 46 \<and> takeWhile is_digit r \<noteq> [] then Suc (length (takeWhile is_digit r)) else 0)"

definition json_int :: "jsstr \<Rightarrow> nat" where
  "json_int s = (if take 1 s = [48] then 1 else length (takeWhile is_digit s))"

definition json_number_length :: "jsstr \<Rightarrow> nat option" where
  "json_number_length s =
     (let m = (if take 1 s = [45] then 1 else 0); i = json_int (drop m s);
          f = json_fraction (drop (m + i) s) in
      if i = 0 then None else Some (m + i + f + match_exponent (drop (m + i + f) s)))"

definition json_number :: "jsstr \<Rightarrow> (jsval \<times> jsstr) option" where
  "json_number s =
     map_option (\<lambda>n. (JNum (number_of_string (take n s)), drop n s)) (json_number_length s)"

definition json_word :: "jsstr \<Rightarrow> (jsval \<times> jsstr) option" where
  "json_word s =
     (if starts_with (js ''true'') s then Some (JBool True, drop 4 s)
      else if starts_with (js ''false'') s then Some (JBool False, drop 5 s)
      else if starts_with (js ''null'') s then Some (JNull, drop 4 s)
      else json_number s)"

lemma skip_ws_length: "skip_ws s = c # r \<Longrightarrow> length r < length s"
  by (metis length_dropWhile_le length_Cons Suc_le_lessD)

lemma json_string_length: "json_string s = Some (t, r) \<Longrightarrow> length r < length s"
proof (induction s arbitrary: t rule: measure_induct_rule [where f = length])
  case (less s)
  have IH: "length r < length s" if "json_string q = Some (u, r)" "length q < length s" for q u
    using less.IH [OF that(2,1)] that(2) by simp
  from less.prems show ?case
    by (subst (asm) json_string.simps) (auto split: list.splits if_splits option.splits dest: IH)
qed

text \<open>
  Values, the elements of an array and the members of an object.  The text left over is always
  shorter than the text given (\<open>json_value_length\<close>), so the guards on lengths never fail.
\<close>

function json_value :: "jsstr \<Rightarrow> (jsval \<times> jsstr) option"
  and json_elems :: "jsstr \<Rightarrow> (jsval list \<times> jsstr) option"
  and json_members :: "jsstr \<Rightarrow> ((jsstr \<times> jsval) list \<times> jsstr) option" where
  "json_value s =
     (case skip_ws s of [] \<Rightarrow> None
      | c # r \<Rightarrow>
          if c = ch (CHR ''{'') then
            (if take 1 (skip_ws r) = js ''}'' then Some (JObj [], tl (skip_ws r))
             else map_option (\<lambda>(es, q). (JObj (property_order (from_entries es)), q)) (json_members r))
          else if c = ch (CHR ''['') then
            (if take 1 (skip_ws r) = js '']'' then Some (JArr [], tl (skip_ws r))
             else map_option (\<lambda>(vs, q). (JArr vs, q)) (json_elems r))
          else if c = 34 then map_option (\<lambda>(t, q). (JStr t, q)) (json_string r)
          else json_word (c # r))"
| "json_elems s =
     (case json_value s of None \<Rightarrow> None
      | Some (v, r) \<Rightarrow>
          (case skip_ws r of [] \<Rightarrow> None
           | c # q \<Rightarrow>
               if c = ch (CHR '']'') then Some ([v], q)
               else if c = ch (CHR '','') \<and> length q < length s
               then map_option (\<lambda>(vs, q'). (v # vs, q')) (json_elems q)
               else None))"
| "json_members s =
     (case skip_ws s of [] \<Rightarrow> None
      | c # r \<Rightarrow>
          if c \<noteq> 34 then None
          else (case json_string r of None \<Rightarrow> None
            | Some (k, r1) \<Rightarrow>
                if take 1 (skip_ws r1) \<noteq> js '':'' then None
                else (case json_value (tl (skip_ws r1)) of None \<Rightarrow> None
                  | Some (v, r2) \<Rightarrow>
                      (case skip_ws r2 of [] \<Rightarrow> None
                       | d # q \<Rightarrow>
                           if d = ch (CHR ''}'') then Some ([(k, v)], q)
                           else if d = ch (CHR '','') \<and> length q < length s
                           then map_option (\<lambda>(es, q'). ((k, v) # es, q')) (json_members q)
                           else None))))"
  by pat_completeness auto
termination
proof (relation "measure (\<lambda>x. case x of Inl s \<Rightarrow> 2 * length s
    | Inr (Inl s) \<Rightarrow> 2 * length s + 1 | Inr (Inr s) \<Rightarrow> 2 * length s + 1)", goal_cases)
  case (6 s c r a k r1)
  have "length (tl (skip_ws r1)) \<le> length r1"
    using length_dropWhile_le [of json_ws r1] by (simp del: length_dropWhile_le)
  also have "length r1 < length r" using 6 by (auto dest: json_string_length)
  also have "length r < length s" using 6 by (auto dest: skip_ws_length)
  finally show ?case by simp
qed (auto dest: skip_ws_length)

declare json_value.simps [simp del] json_elems.simps [simp del] json_members.simps [simp del]

definition json_parse :: "jsstr \<Rightarrow> jsval option" where
  "json_parse s =
     (case json_value s of None \<Rightarrow> None
      | Some (v, r) \<Rightarrow> if skip_ws r = [] then Some v else None)"

text \<open>The text left over is shorter.\<close>

lemma json_number_length_pos: "json_number_length s = Some n \<Longrightarrow> 0 < n"
  by (auto simp: json_number_length_def Let_def split: if_split_asm)

lemma json_word_length: "json_word s = Some (v, r) \<Longrightarrow> s \<noteq> [] \<Longrightarrow> length r < length s"
proof -
  assume w: "json_word s = Some (v, r)" and s: "s \<noteq> []"
  have num: "\<exists>n. r = drop n s \<and> 0 < n" if "json_number s = Some (v, r)"
    using that json_number_length_pos by (auto simp: json_number_def)
  have "\<exists>n. r = drop n s \<and> 0 < n"
  proof (cases "json_number s = Some (v, r)")
    case False
    with w have "r = drop 4 s \<or> r = drop 5 s" by (simp add: json_word_def split: if_split_asm)
    then show ?thesis by (metis zero_less_numeral)
  qed (rule num)
  with s show ?thesis by auto
qed

lemma json_value_length:
  "(\<forall>v r. json_value s = Some (v, r) \<longrightarrow> length r < length s)"
  "(\<forall>vs r. json_elems s1 = Some (vs, r) \<longrightarrow> length r < length s1)"
  "(\<forall>es r. json_members s2 = Some (es, r) \<longrightarrow> length r < length s2)"
proof (induction s and s1 and s2 rule: json_value_json_elems_json_members.induct)
  case (1 s)
  show ?case
  proof (intro allI impI)
    fix v q assume v: "json_value s = Some (v, q)"
    then obtain c r where s: "skip_ws s = c # r"
      by (subst (asm) json_value.simps) (auto split: list.splits)
    have r: "length (tl (skip_ws r)) \<le> length r"
      using length_dropWhile_le [of json_ws r] by simp
    have IH: "\<And>es q. json_members r = Some (es, q) \<Longrightarrow> c = 123 \<Longrightarrow> take 1 (skip_ws r) \<noteq> js ''}'' \<Longrightarrow> length q < length r"
      "\<And>vs q. json_elems r = Some (vs, q) \<Longrightarrow> c = 91 \<Longrightarrow> take 1 (skip_ws r) \<noteq> js '']'' \<Longrightarrow> length q < length r"
      using "1.IH" s by simp_all
    consider "c = 123" | "c = 91" | "c = 34" | "c \<notin> {123, 91, 34}" by blast
    then have "length q < length (c # r)"
    proof cases
      case 1
      with v s r show ?thesis
        by (subst (asm) json_value.simps) (auto simp: less_Suc_eq split: if_splits dest!: IH(1))
    next
      case 2
      with v s r show ?thesis
        by (subst (asm) json_value.simps) (auto simp: less_Suc_eq split: if_splits dest!: IH(2))
    next
      case 3
      with v s show ?thesis
        by (subst (asm) json_value.simps) (auto dest!: json_string_length)
    next
      case 4
      with v s have "json_word (c # r) = Some (v, q)"
        by (subst (asm) json_value.simps) simp
      then show ?thesis by (rule json_word_length) simp
    qed
    also have "length (c # r) \<le> length s" by (metis s length_dropWhile_le)
    finally show "length q < length s" .
  qed
next
  case (2 s)
  show ?case
  proof (intro allI impI)
    fix vs q assume a: "json_elems s = Some (vs, q)"
    then obtain v r c q1 where v: "json_value s = Some (v, r)" "skip_ws r = c # q1"
      by (subst (asm) json_elems.simps) (auto split: option.splits list.splits)
    have q1: "length q1 < length s"
      using "2.IH"(1) v skip_ws_length [OF v(2)] by (meson less_trans)
    show "length q < length s"
    proof (cases "c = ch (CHR '']'')")
      case True
      with a v q1 show ?thesis by (subst (asm) json_elems.simps) simp
    next
      case False
      with a v obtain vs' where "json_elems q1 = Some (vs', q)" "c = ch (CHR '','')"
        by (subst (asm) json_elems.simps) (auto split: if_splits)
      with "2.IH"(2) [of "(v, r)" v r c q1] v False q1 have "length q < length q1" by simp
      with q1 show ?thesis by simp
    qed
  qed
next
  case (3 s)
  show ?case
  proof (intro allI impI)
    fix es q assume a: "json_members s = Some (es, q)"
    then obtain r k r1 v r2 d q1 where v: "skip_ws s = 34 # r" "json_string r = Some (k, r1)"
        "take 1 (skip_ws r1) = js '':''" "json_value (tl (skip_ws r1)) = Some (v, r2)" "skip_ws r2 = d # q1"
      by (subst (asm) json_members.simps) (auto split: option.splits list.splits if_splits)
    have "length r2 < length (tl (skip_ws r1))" using "3.IH"(1) v by simp
    also have "\<dots> \<le> length r1" using length_dropWhile_le [of json_ws r1] by simp
    also have "length r1 < length s"
      using json_string_length [OF v(2)] skip_ws_length [OF v(1)] by simp
    finally have q1: "length q1 < length s" using skip_ws_length [OF v(5)] by simp
    show "length q < length s"
    proof (cases "d = ch (CHR ''}'')")
      case True
      with a v q1 show ?thesis by (subst (asm) json_members.simps) simp
    next
      case False
      with a v obtain es' where "json_members q1 = Some (es', q)" "d = ch (CHR '','')"
        by (subst (asm) json_members.simps) (auto split: if_splits)
      with "3.IH"(2) [of 34 r "(k, r1)" k r1 "(v, r2)" v r2 d q1] v False q1 have "length q < length q1" by simp
      with q1 show ?thesis by simp
    qed
  qed
qed

end
