(* ===== verification/StatusCodeRules.thy ===== *)
theory StatusCodeRules
  imports JsValue "HOL-Library.Product_Lexorder"
begin

text \<open>
  HTTP status code rules, \<open>lib/http-status-code-rules.ts\<close>: a comma-separated list of codes and
  ranges is parsed, its ranges are merged, and the normal form is printed.  Codes are natural
  numbers: a numeral of digits denotes a code from 100 to 599 exactly when its decimal value is
  one, whatever rounding \<open>parseInt\<close> does to larger values.
\<close>

section \<open>Definitions\<close>

record status_code_range =
  sc_start :: nat
  sc_end :: nat

record parsed_rules =
  pr_ok :: bool
  pr_ranges :: "status_code_range list"
  pr_tokens :: "jsstr list"
  pr_normalized :: jsstr
  pr_invalidTokens :: "jsstr list"

definition isNumber :: "jsstr \<Rightarrow> bool" where
  "isNumber s \<longleftrightarrow> s \<noteq> [] \<and> list_all is_digit s"

definition isValidCode :: "nat \<Rightarrow> bool" where
  "isValidCode code \<longleftrightarrow> 100 \<le> code \<and> code \<le> 599"

text \<open>\<open>const [a, b] = cleaned.split('-')\<close> ignores what follows a second hyphen.\<close>

definition parseToken :: "jsstr \<Rightarrow> status_code_range option" where
  "parseToken token =
     (let cleaned = filter (\<lambda>c. \<not> is_ws c) (trim token) in
      if cleaned = [] then None
      else if ch (CHR ''-'') \<in> set cleaned then
        (case split_on (ch (CHR ''-'')) cleaned of
           a # b # _ \<Rightarrow>
             if \<not> isNumber a \<or> \<not> isNumber b then None
             else
               (let s = dec_value a; e = dec_value b in
                if \<not> isValidCode s \<or> \<not> isValidCode e \<or> e < s then None
                else Some \<lparr>sc_start = s, sc_end = e\<rparr>)
         | _ \<Rightarrow> None)
      else if \<not> isNumber cleaned then None
      else
        (let code = dec_value cleaned in
         if \<not> isValidCode code then None else Some \<lparr>sc_start = code, sc_end = code\<rparr>))"

text \<open>The callback of \<open>reduce\<close> and \<open>mergeRanges\<close>.\<close>

definition merge_step :: "status_code_range list \<Rightarrow> status_code_range \<Rightarrow> status_code_range list" where
  "merge_step merged current =
     (if merged = [] \<or> sc_end (last merged) + 1 < sc_start current then merged @ [current]
      else butlast merged
        @ [(last merged)\<lparr>sc_end := max (sc_end (last merged)) (sc_end current)\<rparr>])"

definition mergeRanges :: "status_code_range list \<Rightarrow> status_code_range list" where
  "mergeRanges ranges = foldl merge_step [] (sort_key (\<lambda>r. (sc_start r, sc_end r)) ranges)"

definition range_token :: "status_code_range \<Rightarrow> jsstr" where
  "range_token r =
     (if sc_start r = sc_end r then dec_string (sc_start r)
      else dec_string (sc_start r) @ js ''-'' @ dec_string (sc_end r))"

definition rule_segments :: "jsstr \<Rightarrow> jsstr list" where
  "rule_segments raw =
     filter (\<lambda>s. s \<noteq> [])
       (map trim (split_on (ch (CHR '','')) (map (\<lambda>c. if c = 0xFF0C then ch (CHR '','') else c) raw)))"

definition parse_rules_string :: "jsstr \<Rightarrow> parsed_rules" where
  "parse_rules_string str =
     (let raw = trim str in
      if raw = [] then
        \<lparr>pr_ok = True, pr_ranges = [], pr_tokens = [], pr_normalized = [], pr_invalidTokens = []\<rparr>
      else
        (let segments = rule_segments raw;
             invalid = filter (\<lambda>s. parseToken s = None) segments in
         if invalid \<noteq> [] then
           \<lparr>pr_ok = False, pr_ranges = [], pr_tokens = [], pr_normalized = raw,
            pr_invalidTokens = invalid\<rparr>
         else
           (let merged = mergeRanges (List.map_filter parseToken segments);
                tokens = map range_token merged in
            \<lparr>pr_ok = True, pr_ranges = merged, pr_tokens = tokens,
             pr_normalized = join (js '','') tokens, pr_invalidTokens = []\<rparr>)))"

text \<open>\<open>value.toString()\<close>, and the entry point, whose input is any value.\<close>

function to_string :: "jsval \<Rightarrow> jsstr" where
  "to_string v =
     (case v of
        JUndef \<Rightarrow> js ''undefined''
      | JNull \<Rightarrow> js ''null''
      | JBool b \<Rightarrow> if b then js ''true'' else js ''false''
      | JNum x \<Rightarrow> num_to_string x
      | JStr s \<Rightarrow> s
      | JArr xs \<Rightarrow> join (js '','') (map (\<lambda>x. if nullish x then [] else to_string x) xs)
      | JObj es \<Rightarrow> js ''[object Object]'')"
  by pat_completeness auto
termination
  by (relation "measure size") (auto dest: size_JArr_elem)

declare to_string.simps [simp del]

definition parseHttpStatusCodeRules :: "jsval \<Rightarrow> parsed_rules" where
  "parseHttpStatusCodeRules input =
     parse_rules_string (if nullish input then [] else to_string input)"

section \<open>Merging\<close>

definition covers :: "status_code_range list \<Rightarrow> nat \<Rightarrow> bool" where
  "covers rs code \<longleftrightarrow> (\<exists>r \<in> set rs. sc_start r \<le> code \<and> code \<le> sc_end r)"

definition proper :: "status_code_range \<Rightarrow> bool" where
  "proper r \<longleftrightarrow> sc_start r \<le> sc_end r"

text \<open>Ranges in increasing order with at least one code between neighbours.\<close>

definition separated :: "status_code_range list \<Rightarrow> bool" where
  "separated rs \<longleftrightarrow> sorted_wrt (\<lambda>r s. sc_end r + 1 < sc_start s) rs \<and> list_all proper rs"

lemma covers_append [simp]: "covers (xs @ ys) c \<longleftrightarrow> covers xs c \<or> covers ys c"
  by (auto simp: covers_def)

lemma merge_step_covers:
  assumes "merged = [] \<or> sc_start (last merged) \<le> sc_start current" "proper current"
    "merged \<noteq> [] \<Longrightarrow> proper (last merged)"
  shows "covers (merge_step merged current) c \<longleftrightarrow> covers merged c \<or> covers [current] c"
proof (cases "merged = [] \<or> sc_end (last merged) + 1 < sc_start current")
  case True
  then show ?thesis by (simp add: merge_step_def)
next
  case False
  then obtain init l where "merged = init @ [l]" by (cases merged rule: rev_cases) auto
  with False assms show ?thesis
    by (auto simp: merge_step_def covers_def proper_def)
qed

lemma merge_step_separated:
  assumes "separated merged" "proper current" "merged = [] \<or> sc_start (last merged) \<le> sc_start current"
  shows "separated (merge_step merged current) \<and> merge_step merged current \<noteq> []
    \<and> sc_start (last (merge_step merged current)) \<le> sc_start current"
proof (cases "merged = [] \<or> sc_end (last merged) + 1 < sc_start current")
  case True
  show ?thesis
  proof (cases merged rule: rev_cases)
    case (snoc init l)
    with True assms show ?thesis
      by (auto simp: merge_step_def separated_def sorted_wrt_append proper_def list_all_iff)
  qed (use assms in \<open>simp add: merge_step_def separated_def\<close>)
next
  case False
  then obtain init l where "merged = init @ [l]" by (cases merged rule: rev_cases) auto
  with False assms show ?thesis
    by (auto simp: merge_step_def separated_def sorted_wrt_append proper_def list_all_iff)
qed

lemma merge_fold:
  assumes "separated merged" "list_all proper rs" "sorted (map sc_start rs)"
    "merged \<noteq> [] \<Longrightarrow> \<forall>r \<in> set rs. sc_start (last merged) \<le> sc_start r"
  shows "separated (foldl merge_step merged rs)
    \<and> (\<forall>c. covers (foldl merge_step merged rs) c \<longleftrightarrow> covers merged c \<or> covers rs c)"
  using assms
proof (induction rs arbitrary: merged)
  case (Cons r rs)
  have le: "merged = [] \<or> sc_start (last merged) \<le> sc_start r" using Cons.prems(4) by auto
  have pr: "proper r" using Cons.prems(2) by simp
  note step = merge_step_separated [OF Cons.prems(1) pr le]
  have "merged \<noteq> [] \<Longrightarrow> proper (last merged)"
    using Cons.prems(1) by (simp add: separated_def list_all_iff)
  note cov = merge_step_covers [OF le pr this]
  have rest: "\<forall>x \<in> set rs. sc_start (last (merge_step merged r)) \<le> sc_start x"
    using step Cons.prems(3) by force
  have "separated (foldl merge_step (merge_step merged r) rs) \<and>
      (\<forall>c. covers (foldl merge_step (merge_step merged r) rs) c \<longleftrightarrow> covers (merge_step merged r) c \<or> covers rs c)"
    using step Cons.prems(2,3) rest by (intro Cons.IH) auto
  then show ?case using cov by (auto simp: covers_def)
qed (simp add: covers_def)

lemma sorted_starts: "sorted (map sc_start (sort_key (\<lambda>r. (sc_start r, sc_end r)) rs))"
proof -
  have "sorted (map (\<lambda>r. (sc_start r, sc_end r)) (sort_key (\<lambda>r. (sc_start r, sc_end r)) rs))"
    by (rule sorted_sort_key)
  then show ?thesis by (auto simp: sorted_map elim: sorted_wrt_mono_rel [rotated])
qed

lemma mergeRanges_spec:
  assumes "list_all proper rs"
  shows "separated (mergeRanges rs)" "covers (mergeRanges rs) c \<longleftrightarrow> covers rs c"
proof -
  have "list_all proper (sort_key (\<lambda>r. (sc_start r, sc_end r)) rs)" using assms by (simp add: list_all_iff)
  from merge_fold [OF _ this sorted_starts, of "[]"]
  show "separated (mergeRanges rs)" "covers (mergeRanges rs) c \<longleftrightarrow> covers rs c"
    by (auto simp: mergeRanges_def separated_def covers_def)
qed

text \<open>Separated ranges are already merged.\<close>

lemma merge_separated: "separated (merged @ rs) \<Longrightarrow> foldl merge_step merged rs = merged @ rs"
proof (induction rs arbitrary: merged)
  case (Cons r rs)
  have "merged = [] \<or> sc_end (last merged) + 1 < sc_start r"
    using Cons.prems by (cases merged rule: rev_cases) (auto simp: separated_def sorted_wrt_append)
  then have "merge_step merged r = merged @ [r]" by (simp add: merge_step_def)
  with Cons.IH [of "merged @ [r]"] Cons.prems show ?case by simp
qed simp

lemma separated_sorted: "separated rs \<Longrightarrow> sort_key (\<lambda>r. (sc_start r, sc_end r)) rs = rs"
proof (rule sort_key_id_if_sorted)
  assume s: "separated rs"
  have "sorted_wrt (\<lambda>a b. (sc_start a, sc_end a) \<le> (sc_start b, sc_end b)) rs"
  proof (rule sorted_wrt_mono_rel [rotated])
    show "sorted_wrt (\<lambda>r s. sc_end r + 1 < sc_start s) rs" using s by (simp add: separated_def)
    fix a b assume "a \<in> set rs" "b \<in> set rs" "sc_end a + 1 < sc_start b"
    moreover from s \<open>a \<in> set rs\<close> have "proper a" by (simp add: separated_def list_all_iff)
    ultimately show "(sc_start a, sc_end a) \<le> (sc_start b, sc_end b)"
      by (simp add: proper_def less_eq_prod_def)
  qed
  then show "sorted (map (\<lambda>r. (sc_start r, sc_end r)) rs)" by (simp add: sorted_map)
qed

lemma mergeRanges_separated: "separated rs \<Longrightarrow> mergeRanges rs = rs"
  using merge_separated [of "[]" rs] by (simp add: mergeRanges_def separated_sorted)

section \<open>Printing and parsing\<close>

lemma isNumber_dec_string [simp]: "isNumber (dec_string n)"
  using dec_string_digits by (simp add: isNumber_def)

lemma digit_plain: "is_digit c \<Longrightarrow> \<not> is_ws c \<and> c \<noteq> 45 \<and> c \<noteq> 44 \<and> c \<noteq> 0xFF0C"
  by (auto simp: is_digit_def is_ws_def)

definition token_char :: "nat \<Rightarrow> bool" where
  "token_char c \<longleftrightarrow> is_digit c \<or> c = 45"

lemma token_char_plain: "token_char c \<Longrightarrow> \<not> is_ws c \<and> c \<noteq> 44 \<and> c \<noteq> 0xFF0C"
  using digit_plain [of c] by (auto simp: token_char_def is_ws_def)

lemma range_token_chars: "list_all token_char (range_token r) \<and> range_token r \<noteq> []"
  using dec_string_digits by (auto simp: range_token_def token_char_def list_all_iff js_def)

lemma trim_plain: "\<forall>c \<in> set s. \<not> is_ws c \<Longrightarrow> trim s = s"
  by (rule trim_id) (cases s; auto)

definition code_range :: "status_code_range \<Rightarrow> bool" where
  "code_range r \<longleftrightarrow> isValidCode (sc_start r) \<and> isValidCode (sc_end r) \<and> proper r"

lemma parseToken_range_token:
  assumes "code_range r"
  shows "parseToken (range_token r) = Some r"
proof -
  have plain: "\<forall>c \<in> set (range_token r). \<not> is_ws c"
    using range_token_chars [of r] token_char_plain by (auto simp: list_all_iff)
  then have clean: "filter (\<lambda>c. \<not> is_ws c) (trim (range_token r)) = range_token r"
    by (simp add: trim_plain)
  have nodash: "45 \<notin> set (dec_string n)" for n
    using dec_string_digits [of n] digit_plain by (auto simp: list_all_iff)
  show ?thesis
  proof (cases "sc_start r = sc_end r")
    case True
    with assms clean nodash [of "sc_end r"] dec_string_digits [of "sc_end r"] show ?thesis
      by (simp add: parseToken_def range_token_def Let_def code_range_def)
  next
    case False
    have "split_on 45 (dec_string (sc_start r) @ 45 # dec_string (sc_end r)) =
        [dec_string (sc_start r), dec_string (sc_end r)]"
      using split_on_append [OF nodash] split_on_no_sep [OF nodash] by simp
    with False assms clean show ?thesis
      by (simp add: parseToken_def range_token_def Let_def code_range_def js_def proper_def)
  qed
qed

lemma parseToken_code_range: "parseToken t = Some r \<Longrightarrow> code_range r"
  by (auto simp: parseToken_def Let_def code_range_def proper_def split: if_splits list.splits)

lemma segments_of_tokens:
  assumes "ts \<noteq> []" "\<forall>t \<in> set ts. list_all token_char t \<and> t \<noteq> []"
  shows "rule_segments (join (js '','') ts) = ts" "trim (join (js '','') ts) = join (js '','') ts"
    "join (js '','') ts \<noteq> []"
proof -
  have chars: "\<forall>c \<in> set (join (js '','') ts). token_char c \<or> c = 44"
    using assms(2)
  proof (induction ts rule: induct_list012)
    case (3 x y zs)
    then show ?case by (auto simp: list_all_iff js_def)
  qed (auto simp: list_all_iff)
  have id: "map (\<lambda>c. if c = 0xFF0C then ch (CHR '','') else c) (join (js '','') ts) = join (js '','') ts"
    using chars token_char_plain [of "0xFF0C"] by (intro map_idI) auto
  have "split_on 44 (join (js '','') ts) = ts"
    using split_on_join [OF assms(1), of 44] assms(2) token_char_plain by (auto simp: js_def list_all_iff)
  moreover have "map trim ts = ts"
    using assms(2) token_char_plain by (intro map_idI trim_plain) (auto simp: list_all_iff)
  ultimately show "rule_segments (join (js '','') ts) = ts"
    using assms(2) id by (simp add: rule_segments_def filter_id_conv)
  have "\<not> is_ws 44" by (simp add: is_ws_def)
  then show "trim (join (js '','') ts) = join (js '','') ts"
    using chars token_char_plain by (intro trim_plain) blast
  show "join (js '','') ts \<noteq> []"
    using assms by (cases ts rule: remdups_adj.cases) auto
qed

lemma separated_code_ranges:
  assumes "list_all code_range rs"
  shows "list_all code_range (mergeRanges rs)"
proof -
  have step: "list_all code_range (merge_step m r)" if "list_all code_range m" "code_range r" for m r
    using that by (cases m rule: rev_cases) (auto simp: merge_step_def code_range_def proper_def isValidCode_def)
  have "list_all code_range (foldl merge_step m xs)" if "list_all code_range m" "list_all code_range xs" for m xs
    using that step by (induction xs arbitrary: m) auto
  from this [of "[]" "sort_key (\<lambda>r. (sc_start r, sc_end r)) rs"] assms show ?thesis
    by (simp add: mergeRanges_def list_all_iff)
qed

lemma parsed_ranges:
  assumes "pr_ok (parse_rules_string str)"
  shows "separated (pr_ranges (parse_rules_string str))"
    "list_all code_range (pr_ranges (parse_rules_string str))"
    "pr_normalized (parse_rules_string str) = join (js '','') (map range_token (pr_ranges (parse_rules_string str)))"
    "covers (pr_ranges (parse_rules_string str)) c \<longleftrightarrow>
       trim str \<noteq> [] \<and> covers (List.map_filter parseToken (rule_segments (trim str))) c"
proof -
  let ?rs = "List.map_filter parseToken (rule_segments (trim str))"
  have cr: "list_all code_range ?rs"
    by (auto simp: list_all_iff List.map_filter_def dest: parseToken_code_range)
  then have pr: "list_all proper ?rs" by (auto simp: list_all_iff code_range_def)
  note m = mergeRanges_spec [OF pr] separated_code_ranges [OF cr]
  show "separated (pr_ranges (parse_rules_string str))"
    "list_all code_range (pr_ranges (parse_rules_string str))"
    "pr_normalized (parse_rules_string str) = join (js '','') (map range_token (pr_ranges (parse_rules_string str)))"
    "covers (pr_ranges (parse_rules_string str)) c \<longleftrightarrow>
       trim str \<noteq> [] \<and> covers (List.map_filter parseToken (rule_segments (trim str))) c"
    using assms m by (auto simp: parse_rules_string_def Let_def separated_def covers_def split: if_splits)
qed

lemma map_filter_elem: "(\<exists>r \<in> set (List.map_filter f xs). P r) \<longleftrightarrow> (\<exists>x \<in> set xs. \<exists>r. f x = Some r \<and> P r)"
  by (induction xs) (auto simp: List.map_filter_def)

section \<open>Properties\<close>

text \<open>
  C17. Accepted rules mean what their segments mean: the ranges of an accepted input cover exactly the
  codes that its segments cover, they are codes from 100 to 599 in increasing order, and
  neighbouring ranges have a code between them.
\<close>

theorem status_rules_meaning:
  assumes "pr_ok (parse_rules_string str)"
  shows "((\<exists>r \<in> set (pr_ranges (parse_rules_string str)). sc_start r \<le> code \<and> code \<le> sc_end r) \<longleftrightarrow>
      (\<exists>s \<in> set (rule_segments (trim str)). \<exists>r. parseToken s = Some r \<and> sc_start r \<le> code \<and> code \<le> sc_end r))
    \<and> sorted_wrt (\<lambda>r s. sc_end r + 1 < sc_start s) (pr_ranges (parse_rules_string str))
    \<and> (\<forall>r \<in> set (pr_ranges (parse_rules_string str)). 100 \<le> sc_start r \<and> sc_start r \<le> sc_end r \<and> sc_end r \<le> 599)"
proof (intro conjI)
  note p = parsed_ranges [OF assms]
  have "trim str = [] \<Longrightarrow> rule_segments (trim str) = []" by (simp add: rule_segments_def)
  then show "(\<exists>r \<in> set (pr_ranges (parse_rules_string str)). sc_start r \<le> code \<and> code \<le> sc_end r) \<longleftrightarrow>
      (\<exists>s \<in> set (rule_segments (trim str)). \<exists>r. parseToken s = Some r \<and> sc_start r \<le> code \<and> code \<le> sc_end r)"
    using p(4) [of code] unfolding covers_def map_filter_elem by auto
  show "sorted_wrt (\<lambda>r s. sc_end r + 1 < sc_start s) (pr_ranges (parse_rules_string str))"
    using p(1) by (simp add: separated_def)
  show "\<forall>r \<in> set (pr_ranges (parse_rules_string str)). 100 \<le> sc_start r \<and> sc_start r \<le> sc_end r \<and> sc_end r \<le> 599"
    using p(2) by (auto simp: list_all_iff code_range_def isValidCode_def proper_def)
qed

theorem status_rules_meaning_witness:
  "sorted_wrt (\<lambda>r s. sc_end r + 1 < sc_start s) (pr_ranges (parse_rules_string (js ''500-503, 401,502-504 '')))
   \<and> pr_ranges (parse_rules_string (js ''500-503, 401,502-504 '')) =
       [\<lparr>sc_start = 401, sc_end = 401\<rparr>, \<lparr>sc_start = 500, sc_end = 504\<rparr>]"
proof -
  have "pr_ok (parse_rules_string (js ''500-503, 401,502-504 ''))" by code_simp
  moreover have "pr_ranges (parse_rules_string (js ''500-503, 401,502-504 '')) =
       [\<lparr>sc_start = 401, sc_end = 401\<rparr>, \<lparr>sc_start = 500, sc_end = 504\<rparr>]" by code_simp
  ultimately show ?thesis using status_rules_meaning by blast
qed

text \<open>
  Normalising is a round trip: the normalized text of an accepted input is accepted, has the same
  ranges, and is its own normalized text.
\<close>

lemma status_rules_normal_form:
  assumes "pr_ok (parse_rules_string str)"
  shows "parse_rules_string (pr_normalized (parse_rules_string str)) = parse_rules_string str"
proof -
  define p where "p = parse_rules_string str"
  note pp = parsed_ranges [OF assms, folded p_def]
  have tokens: "pr_tokens p = map range_token (pr_ranges p)" "pr_invalidTokens p = []" "pr_ok p"
    using assms by (auto simp: p_def parse_rules_string_def Let_def split: if_splits)
  show ?thesis
  proof (cases "pr_ranges p = []")
    case True
    then have "pr_normalized p = []" using pp(3) by simp
    with True tokens show ?thesis unfolding p_def [symmetric] by (simp add: parse_rules_string_def)
  next
    case False
    let ?ts = "map range_token (pr_ranges p)"
    have ts: "?ts \<noteq> []" "\<forall>t \<in> set ?ts. list_all token_char t \<and> t \<noteq> []"
      using False range_token_chars by auto
    note seg = segments_of_tokens [OF ts]
    have parsed: "\<forall>r \<in> set (pr_ranges p). parseToken (range_token r) = Some r"
      using pp(2) parseToken_range_token by (simp add: list_all_iff)
    then have "filter (\<lambda>s. parseToken s = None) ?ts = []" by (auto simp: filter_empty_conv)
    moreover have "List.map_filter parseToken ?ts = pr_ranges p"
      using parsed by (induction "pr_ranges p" rule: rev_induct)
        (auto simp: List.map_filter_def comp_def filter_id_conv intro!: map_idI)
    ultimately show ?thesis
      unfolding p_def [symmetric] pp(3)
      using seg mergeRanges_separated [OF pp(1)] tokens pp(3)
      by (simp add: parse_rules_string_def [of "join (js '','') ?ts"] Let_def)
  qed
qed

text \<open>
  A range with a third part is accepted and the part is dropped: \<open>a-b-c\<close> is read as \<open>a-b\<close>
  for every \<open>c\<close> without white space.
\<close>

lemma range_third_part_ignored:
  assumes "isValidCode a" "isValidCode b" "a \<le> b" "\<forall>c \<in> set rest. \<not> is_ws c"
  shows "parseToken (dec_string a @ js ''-'' @ dec_string b @ js ''-'' @ rest) = Some \<lparr>sc_start = a, sc_end = b\<rparr>"
proof -
  let ?t = "dec_string a @ js ''-'' @ dec_string b @ js ''-'' @ rest"
  have d: "\<forall>c \<in> set (dec_string n). \<not> is_ws c \<and> c \<noteq> 45" for n
    using dec_string_digits [of n] digit_plain by (auto simp: list_all_iff)
  have nd: "45 \<notin> set (dec_string a)" "45 \<notin> set (dec_string b)" using d by blast+
  have dash: "\<not> is_ws 45" by (simp add: is_ws_def)
  have "\<forall>c \<in> set ?t. \<not> is_ws c" using d assms(4) dash by (auto simp: js_def)
  then have "filter (\<lambda>c. \<not> is_ws c) (trim ?t) = ?t" by (simp add: trim_plain)
  moreover have "split_on 45 ?t = dec_string a # dec_string b # split_on 45 rest"
    using split_on_append [of 45 "dec_string a" "dec_string b @ 45 # rest"]
      split_on_append [of 45 "dec_string b" rest] nd by (simp add: js_def)
  ultimately show ?thesis using assms(1-3) by (simp add: parseToken_def Let_def js_def)
qed

end
