(* ===== verification/BillingRules.thy ===== *)
theory BillingRules
  imports BillingFactors BillingDisplay JsJson StatusCodeRules
begin

text \<open>
  \<open>features/usage-logs/lib/billing-expr.ts\<close>: what a usage log shows of a billing expression.  The
  variable registry, the tiers of an expression, and the reader that separates the request rules
  from the price.  The regular expressions of the source, all of them anchored, are matchers that
  consume a text from the left; each of their pieces is followed by a character that the piece
  cannot match, so there is one way to match at most.
\<close>

section \<open>Variable registry\<close>

datatype billing_side = InputSide | OutputSide | ConditionSide

record billing_var =
  bv_key :: jsstr
  bv_field :: "jsstr option"
  bv_tierField :: "jsstr option"
  bv_label :: jsstr
  bv_shortLabel :: jsstr
  bv_side :: billing_side
  bv_isBase :: bool
  bv_isConditionOnly :: bool
  bv_group :: "jsstr option"

definition price_var ::
  "string \<Rightarrow> string \<Rightarrow> string \<Rightarrow> string \<Rightarrow> string \<Rightarrow> billing_side \<Rightarrow> bool \<Rightarrow> string option \<Rightarrow> billing_var" where
  "price_var key field tierField lbl shortLabel side isBase grp =
     \<lparr>bv_key = js key, bv_field = Some (js field), bv_tierField = Some (js tierField), bv_label = js lbl,
      bv_shortLabel = js shortLabel, bv_side = side, bv_isBase = isBase, bv_isConditionOnly = False,
      bv_group = map_option js grp\<rparr>"

definition BILLING_VARS :: "billing_var list" where
  "BILLING_VARS =
    [price_var ''p'' ''inputPrice'' ''input_unit_cost'' ''Input price'' ''Input'' InputSide True None,
     price_var ''c'' ''outputPrice'' ''output_unit_cost'' ''Completion price'' ''Output'' OutputSide True None,
     \<lparr>bv_key = js ''len'', bv_field = None, bv_tierField = None, bv_label = js ''Input length'',
      bv_shortLabel = js ''Length'', bv_side = ConditionSide, bv_isBase = False, bv_isConditionOnly = True,
      bv_group = None\<rparr>,
     price_var ''cr'' ''cacheReadPrice'' ''cache_read_unit_cost'' ''Cache read price'' ''Cache Read'' InputSide False
       (Some ''cache''),
     price_var ''cc'' ''cacheCreatePrice'' ''cache_create_unit_cost'' ''Cache create price'' ''Cache Write'' InputSide
       False (Some ''cache''),
     price_var ''img_cr'' ''imageCachePrice'' ''image_cache_unit_cost'' ''Image cache input price'' ''Image Cache''
       InputSide False (Some ''cache''),
     price_var ''cc1h'' ''cacheCreate1hPrice'' ''cache_create_1h_unit_cost'' ''Cache create (1h) price''
       ''Cache Write (1h)'' InputSide False (Some ''cache''),
     price_var ''img'' ''imagePrice'' ''image_unit_cost'' ''Image input price'' ''Image In'' InputSide False
       (Some ''media''),
     price_var ''img_o'' ''imageOutputPrice'' ''image_output_unit_cost'' ''Image output price'' ''Image Out'' OutputSide
       False (Some ''media''),
     price_var ''ai'' ''audioInputPrice'' ''audio_input_unit_cost'' ''Audio input price'' ''Audio In'' InputSide False
       (Some ''media''),
     price_var ''ao'' ''audioOutputPrice'' ''audio_output_unit_cost'' ''Audio output price'' ''Audio Out'' OutputSide
       False (Some ''media'')]"

definition BILLING_PRICING_VARS :: "billing_var list" where
  "BILLING_PRICING_VARS = filter (\<lambda>v. \<not> bv_isConditionOnly v) BILLING_VARS"

definition BILLING_VAR_KEY_TO_FIELD :: "(jsstr \<times> jsstr) list" where
  "BILLING_VAR_KEY_TO_FIELD =
     from_entries (map (\<lambda>v. (bv_key v, or_else (bv_field v) (js ''null''))) BILLING_PRICING_VARS)"

section \<open>Tiers\<close>

record parsed_tier =
  pd_label :: jsstr
  pd_imageCount :: bool
  pd_conditions :: "tier_condition list"
  pd_request :: "(billing_unit \<times> jsnum option) option"
  pd_conditionText :: "jsstr option"
  pd_fields :: "(jsstr \<times> jsnum) list"

definition mapTokenTier :: "'a token_tier_scheme \<Rightarrow> parsed_tier" where
  "mapTokenTier tier =
     \<lparr>pd_label = label tier, pd_imageCount = tt_imageCount tier, pd_conditions = conditions tier,
      pd_request = (if tt_billingUnit tier = Some RequestUnit then Some (RequestUnit, tt_fixedPrice tier) else None),
      pd_conditionText = (case conditionText tier of Some t \<Rightarrow> if t = [] then None else Some t | None \<Rightarrow> None),
      pd_fields = from_entries (map (\<lambda>(key, price).
        (or_else (map_of BILLING_VAR_KEY_TO_FIELD key) (js ''undefined''), price)) (prices tier))\<rparr>"

definition parseTiersFromExpr ::
  "host \<Rightarrow> compile_cache \<Rightarrow> jsstr \<Rightarrow> (diagnostic + parsed_tier list) \<times> compile_cache" where
  "parseTiersFromExpr h cache exprStr =
     (if exprStr = [] then (Inr [], cache)
      else
        (let (compiled, cache1) = compileBillingExpression cache exprStr in
         case compiled of
           CompileFailed _ \<Rightarrow> (Inr [], cache1)
         | Ready c \<Rightarrow>
             (case readTokenTierChain (c_ast c) of
                Inl d \<Rightarrow> (Inl d, cache1)
              | Inr (Some tiers) \<Rightarrow> (Inr (map mapTokenTier tiers), cache1)
              | Inr None \<Rightarrow>
                  (let (pricing, cache2) = readTimeTokenPricing h cache1 exprStr None in
                   (and_then pricing (\<lambda>p. Inr (case p of None \<Rightarrow> [] | Some tp \<Rightarrow> map mapTokenTier (tp_tiers tp))),
                    cache2)))))"

text \<open>The replacements of \<open>normalizeTierLabel\<close>: an operator with its optional equals sign, or a composed one.\<close>

fun replace_operator :: "nat list \<Rightarrow> nat \<Rightarrow> nat \<Rightarrow> jsstr \<Rightarrow> jsstr" where
  "replace_operator ops composed r [] = []"
| "replace_operator ops composed r (c # cs) =
     (if c \<in> set ops then
        r # (case cs of d # ds \<Rightarrow> if d = 61 \<or> d = 0xFF1D then replace_operator ops composed r ds
                         else replace_operator ops composed r cs
             | [] \<Rightarrow> [])
      else if c = composed then r # replace_operator ops composed r cs
      else c # replace_operator ops composed r cs)"

definition normalizeTierLabel :: "host \<Rightarrow> jsstr option \<Rightarrow> jsstr" where
  "normalizeTierLabel h lbl =
     (case lbl of
        None \<Rightarrow> []
      | Some s \<Rightarrow>
          h_lower h (filter (\<lambda>c. \<not> is_ws c)
            (replace_operator [62, 0xFF1E] 0x2265 62 (replace_operator [60, 0xFF1C] 0x2264 60 s))))"

section \<open>Pieces of the patterns\<close>

text \<open>Consume a fixed text.\<close>

definition eat :: "jsstr \<Rightarrow> jsstr \<Rightarrow> jsstr option" where
  "eat p s = (if starts_with p s then Some (drop (length p) s) else None)"

text \<open>The class \<open>[\d.eE+-]\<close>, and one or more of it.\<close>

definition num_char :: "nat \<Rightarrow> bool" where
  "num_char c \<longleftrightarrow> is_digit c \<or> c \<in> set (js ''.eE+-'')"

definition eat_number :: "jsstr \<Rightarrow> (jsstr \<times> jsstr) option" where
  "eat_number s =
     (if takeWhile num_char s = [] then None else Some (takeWhile num_char s, dropWhile num_char s))"

text \<open>A call of a function with one quoted argument that is not empty and has no quote.\<close>

definition eat_call :: "jsstr \<Rightarrow> jsstr \<Rightarrow> (jsstr \<times> jsstr) option" where
  "eat_call name s =
     (case eat (name @ [40, 34]) s of
        None \<Rightarrow> None
      | Some r \<Rightarrow>
          (let arg = takeWhile (\<lambda>c. c \<noteq> 34) r in
           if arg = [] then None
           else map_option (\<lambda>q. (arg, q)) (eat [34, 41] (dropWhile (\<lambda>c. c \<noteq> 34) r))))"

text \<open>The longest quoted string with escapes, \<open>"(?:[^"\\]|\\.)*"\<close>, as the text with its quotes.\<close>

definition line_terminator :: "nat \<Rightarrow> bool" where
  "line_terminator c \<longleftrightarrow> c = 10 \<or> c = 13 \<or> c = 0x2028 \<or> c = 0x2029"

fun quoted_rest :: "jsstr \<Rightarrow> (jsstr \<times> jsstr) option" where
  "quoted_rest [] = None"
| "quoted_rest (c # cs) =
     (if c = 34 then Some ([34], cs)
      else if c \<noteq> 92 then map_option (\<lambda>(t, r). (c # t, r)) (quoted_rest cs)
      else (case cs of
          [] \<Rightarrow> None
        | e # es \<Rightarrow> if line_terminator e then None else map_option (\<lambda>(t, r). (c # e # t, r)) (quoted_rest es)))"

definition eat_quoted :: "jsstr \<Rightarrow> (jsstr \<times> jsstr) option" where
  "eat_quoted s =
     (case s of c # cs \<Rightarrow> if c = 34 then map_option (\<lambda>(t, r). (34 # t, r)) (quoted_rest cs) else None
      | [] \<Rightarrow> None)"

section \<open>Conditions\<close>

datatype match_mode =
  MATCH_EQ | MATCH_CONTAINS | MATCH_GT | MATCH_GTE | MATCH_LT | MATCH_LTE | MATCH_EXISTS | MATCH_RANGE

datatype time_func = Hour | Minute | Weekday | Month | Day

datatype condition_source = ParamSource | HeaderSource

record param_header_condition =
  ph_source :: condition_source
  ph_path :: jsstr
  ph_mode :: match_mode
  ph_value :: jsstr

record time_condition_row =
  tcr_timeFunc :: time_func
  tcr_timezone :: jsstr
  tcr_mode :: match_mode
  tcr_value :: jsstr
  tcr_rangeStart :: jsstr
  tcr_rangeEnd :: jsstr

datatype request_condition = TimeCondition time_condition_row | ParamHeader param_header_condition

record request_rule_group =
  rg_conditions :: "request_condition list"
  rg_multiplier :: jsstr

definition TIME_FUNCS :: "time_func list" where
  "TIME_FUNCS = [Hour, Minute, Weekday, Month, Day]"

fun time_func_name :: "time_func \<Rightarrow> jsstr" where
  "time_func_name Hour = js ''hour''"
| "time_func_name Minute = js ''minute''"
| "time_func_name Weekday = js ''weekday''"
| "time_func_name Month = js ''month''"
| "time_func_name Day = js ''day''"

text \<open>\<open>/^-?(?:\d+\.?\d*|\.\d+)(?:[eE][+-]?\d+)?$/\<close>\<close>

definition numeric_literal :: "jsstr \<Rightarrow> bool" where
  "numeric_literal s =
     (let r = (if take 1 s = [45] then drop 1 s else s) in match_number r = Some r)"

text \<open>\<open>None\<close> for \<open>null\<close>; the value that \<open>JSON.parse\<close> returns need not be a string.\<close>

definition parseExprLiteral :: "jsstr \<Rightarrow> jsval option" where
  "parseExprLiteral raw =
     (let txt = trim raw in
      if txt = js ''true'' \<or> txt = js ''false'' then Some (JStr txt)
      else if numeric_literal txt then Some (JStr txt)
      else (case json_parse txt of None \<Rightarrow> None | Some v \<Rightarrow> if v = JNull then None else Some v))"

fun TIME_FUNC_RANGES :: "time_func \<Rightarrow> int \<times> int" where
  "TIME_FUNC_RANGES Hour = (0, 23)"
| "TIME_FUNC_RANGES Minute = (0, 59)"
| "TIME_FUNC_RANGES Weekday = (0, 6)"
| "TIME_FUNC_RANGES Month = (1, 12)"
| "TIME_FUNC_RANGES Day = (1, 31)"

definition isTimeValueInRange :: "time_func \<Rightarrow> jsstr \<Rightarrow> bool" where
  "isTimeValueInRange f txt =
     (if \<not> numeric_literal txt then False
      else
        (let x = number_of_string txt in
         is_integer x \<and> num_le (Fin (of_int (fst (TIME_FUNC_RANGES f)))) x
         \<and> num_le x (Fin (of_int (snd (TIME_FUNC_RANGES f))))))"

definition eat_time_call :: "jsstr \<Rightarrow> (time_func \<times> jsstr \<times> jsstr) option" where
  "eat_time_call s =
     (case List.map_filter (\<lambda>f. map_option (\<lambda>(tz, r). (f, tz, r)) (eat_call (time_func_name f) s)) TIME_FUNCS of
        m # _ \<Rightarrow> Some m | [] \<Rightarrow> None)"

text \<open>The first pattern: the function, the zone and the two bounds.\<close>

definition match_time_range :: "jsstr \<Rightarrow> (time_func \<times> jsstr \<times> jsstr \<times> jsstr) option" where
  "match_time_range s =
     Option.bind (eat_time_call s) (\<lambda>(f, tz, r1).
     Option.bind (eat (js '' >= '') r1) (\<lambda>r2.
     Option.bind (eat_number r2) (\<lambda>(lo, r3).
     Option.bind (case eat (js '' && '') r3 of Some r \<Rightarrow> Some r | None \<Rightarrow> eat (js '' || '') r3) (\<lambda>r4.
     Option.bind (eat (time_func_name f @ [40, 34] @ tz @ [34, 41] @ js '' < '') r4) (\<lambda>r5.
     Option.bind (eat_number r5) (\<lambda>(hi, r6).
       if r6 = [] then Some (f, tz, lo, hi) else None))))))"

definition match_wrapped_range :: "jsstr \<Rightarrow> (time_func \<times> jsstr \<times> jsstr \<times> jsstr) option" where
  "match_wrapped_range s =
     (if take 1 s = js ''('' \<and> 2 \<le> length s \<and> last s = ch (CHR '')'')
      then match_time_range (butlast (tl s)) else None)"

definition match_time_scalar :: "jsstr \<Rightarrow> (time_func \<times> jsstr \<times> match_mode \<times> jsstr) option" where
  "match_time_scalar s =
     Option.bind (eat_time_call s) (\<lambda>(f, tz, r1).
     Option.bind
       (case eat (js '' == '') r1 of Some r \<Rightarrow> Some (MATCH_EQ, r)
        | None \<Rightarrow> (case eat (js '' >= '') r1 of Some r \<Rightarrow> Some (MATCH_GTE, r)
            | None \<Rightarrow> map_option (\<lambda>r. (MATCH_LT, r)) (eat (js '' < '') r1))) (\<lambda>(mode, r2).
     Option.bind (eat_number r2) (\<lambda>(v, r3).
       if r3 = [] then Some (f, tz, mode, v) else None)))"

definition tryParseTimeCondition :: "jsstr \<Rightarrow> time_condition_row option" where
  "tryParseTimeCondition expr =
     (case (case match_time_range expr of Some m \<Rightarrow> Some m | None \<Rightarrow> match_wrapped_range expr) of
        Some (f, tz, lo, hi) \<Rightarrow>
          if \<not> isTimeValueInRange f lo \<or> \<not> isTimeValueInRange f hi then None
          else Some \<lparr>tcr_timeFunc = f, tcr_timezone = tz, tcr_mode = MATCH_RANGE, tcr_value = [],
            tcr_rangeStart = lo, tcr_rangeEnd = hi\<rparr>
      | None \<Rightarrow>
          (case match_time_scalar expr of
             None \<Rightarrow> None
           | Some (f, tz, mode, v) \<Rightarrow>
               if \<not> isTimeValueInRange f v then None
               else Some \<lparr>tcr_timeFunc = f, tcr_timezone = tz, tcr_mode = mode, tcr_value = v,
                 tcr_rangeStart = [], tcr_rangeEnd = []\<rparr>))"

text \<open>The exception of \<open>JSON.parse\<close>, which nothing catches on the way out of the reader.\<close>

datatype rule_error = JsonSyntaxError

definition parse_quoted :: "jsstr \<Rightarrow> rule_error + jsstr" where
  "parse_quoted txt = (case json_parse txt of None \<Rightarrow> Inl JsonSyntaxError | Some v \<Rightarrow> Inr (to_string v))"

definition param_header :: "condition_source \<Rightarrow> jsstr \<Rightarrow> match_mode \<Rightarrow> jsstr \<Rightarrow> request_condition" where
  "param_header src path mode v =
     ParamHeader \<lparr>ph_source = src, ph_path = path, ph_mode = mode, ph_value = v\<rparr>"

text \<open>The six patterns of \<open>tryParseRequestCondition\<close>, in its order.\<close>

definition match_exists :: "jsstr \<Rightarrow> jsstr \<Rightarrow> jsstr \<Rightarrow> jsstr option" where
  "match_exists name rest s =
     (case eat_call name s of Some (path, r) \<Rightarrow> if r = rest then Some path else None | None \<Rightarrow> None)"

definition match_has :: "jsstr \<Rightarrow> jsstr \<Rightarrow> (jsstr \<times> jsstr) option" where
  "match_has name s =
     Option.bind (eat (js ''has('') s) (\<lambda>r1.
     Option.bind (eat_call name r1) (\<lambda>(path, r2).
     Option.bind (eat (js '', '') r2) (\<lambda>r3.
     Option.bind (eat_quoted r3) (\<lambda>(txt, r4).
       if r4 = js '')'' then Some (path, txt) else None))))"

definition eat_guard :: "jsstr \<Rightarrow> (jsstr \<times> jsstr) option" where
  "eat_guard s =
     Option.bind (eat_call (js ''param'') s) (\<lambda>(path, r).
       map_option (\<lambda>q. (path, q)) (eat (js '' != nil && '') r))"

definition match_param_has :: "jsstr \<Rightarrow> (jsstr \<times> jsstr) option" where
  "match_param_has s =
     Option.bind (eat_guard s) (\<lambda>(path1, r).
     Option.bind (match_has (js ''param'') r) (\<lambda>(path2, txt).
       if path1 = path2 then Some (path1, txt) else None))"

definition eat_comparison :: "jsstr \<Rightarrow> (match_mode \<times> jsstr) option" where
  "eat_comparison s =
     (case eat (js '' > '') s of Some r \<Rightarrow> Some (MATCH_GT, r)
      | None \<Rightarrow> (case eat (js '' >= '') s of Some r \<Rightarrow> Some (MATCH_GTE, r)
      | None \<Rightarrow> (case eat (js '' < '') s of Some r \<Rightarrow> Some (MATCH_LT, r)
      | None \<Rightarrow> map_option (\<lambda>r. (MATCH_LTE, r)) (eat (js '' <= '') s))))"

definition match_param_compare :: "jsstr \<Rightarrow> (jsstr \<times> match_mode \<times> jsstr) option" where
  "match_param_compare s =
     Option.bind (eat_guard s) (\<lambda>(path1, r1).
     Option.bind (eat_call (js ''param'') r1) (\<lambda>(path2, r2).
     Option.bind (eat_comparison r2) (\<lambda>(mode, r3).
     Option.bind (eat_number r3) (\<lambda>(v, r4).
       if r4 = [] \<and> path1 = path2 then Some (path1, mode, v) else None))))"

definition match_equals :: "jsstr \<Rightarrow> (condition_source \<times> jsstr \<times> jsstr) option" where
  "match_equals s =
     Option.bind
       (case eat_call (js ''param'') s of Some (path, r) \<Rightarrow> Some (ParamSource, path, r)
        | None \<Rightarrow> map_option (\<lambda>(path, r). (HeaderSource, path, r)) (eat_call (js ''header'') s)) (\<lambda>(src, path, r1).
     Option.bind (eat (js '' == '') r1) (\<lambda>r2.
       if r2 \<noteq> [] \<and> list_all (\<lambda>c. \<not> line_terminator c) r2 then Some (src, path, r2) else None))"

definition tryParseRequestCondition :: "jsstr \<Rightarrow> rule_error + request_condition option" where
  "tryParseRequestCondition expr =
     (case tryParseTimeCondition expr of
        Some tc \<Rightarrow> Inr (Some (TimeCondition tc))
      | None \<Rightarrow>
     (case match_exists (js ''header'') (js '' != '' @ [34, 34]) expr of
        Some path \<Rightarrow> Inr (Some (param_header HeaderSource path MATCH_EXISTS []))
      | None \<Rightarrow>
     (case match_exists (js ''param'') (js '' != nil'') expr of
        Some path \<Rightarrow> Inr (Some (param_header ParamSource path MATCH_EXISTS []))
      | None \<Rightarrow>
     (case match_has (js ''header'') expr of
        Some (path, txt) \<Rightarrow>
          and_then (parse_quoted txt) (\<lambda>v. Inr (Some (param_header HeaderSource path MATCH_CONTAINS v)))
      | None \<Rightarrow>
     (case match_param_has expr of
        Some (path, txt) \<Rightarrow>
          and_then (parse_quoted txt) (\<lambda>v. Inr (Some (param_header ParamSource path MATCH_CONTAINS v)))
      | None \<Rightarrow>
     (case match_param_compare expr of
        Some (path, mode, v) \<Rightarrow> Inr (Some (param_header ParamSource path mode v))
      | None \<Rightarrow>
     (case match_equals expr of
        Some (src, path, raw) \<Rightarrow>
          Inr (map_option (\<lambda>v. param_header src path MATCH_EQ (to_string v)) (parseExprLiteral raw))
      | None \<Rightarrow> Inr None)))))))"

definition tryParseTimeRangePair :: "jsstr \<Rightarrow> jsstr \<Rightarrow> request_condition option" where
  "tryParseTimeRangePair lower upper =
     (case (tryParseTimeCondition lower, tryParseTimeCondition upper) of
        (Some ta, Some tb) \<Rightarrow>
          if tcr_timeFunc ta \<noteq> tcr_timeFunc tb \<or> tcr_timezone ta \<noteq> tcr_timezone tb then None
          else if tcr_mode ta \<noteq> MATCH_GTE \<or> tcr_mode tb \<noteq> MATCH_LT then None
          else Some (TimeCondition
            \<lparr>tcr_timeFunc = tcr_timeFunc ta, tcr_timezone = tcr_timezone ta, tcr_mode = MATCH_RANGE,
             tcr_value = [], tcr_rangeStart = tcr_value ta, tcr_rangeEnd = tcr_value tb\<rparr>)
      | _ \<Rightarrow> None)"

section \<open>Groups and the split\<close>

text \<open>An operator that is not empty always splits (\<open>split_loop_total\<close>).\<close>

definition splitTopLevelMultiply :: "jsstr \<Rightarrow> jsstr list" where
  "splitTopLevelMultiply expr = the (splitExpressionAtTopLevel expr (js ''*''))"

definition splitTopLevelAnd :: "jsstr \<Rightarrow> jsstr list" where
  "splitTopLevelAnd expr = the (splitExpressionAtTopLevel expr (js ''&&''))"

text \<open>The loop over the conjuncts: two bounds side by side make one range.\<close>

fun request_conditions_loop :: "jsstr list \<Rightarrow> rule_error + request_condition list option" where
  "request_conditions_loop [] = Inr (Some [])"
| "request_conditions_loop [p] =
     and_then (tryParseRequestCondition (trim p)) (\<lambda>c. Inr (map_option (\<lambda>c. [c]) c))"
| "request_conditions_loop (p # q # ps) =
     (case (if trim q = [] then None else tryParseTimeRangePair (trim p) (trim q)) of
        Some merged \<Rightarrow> and_then (request_conditions_loop ps) (\<lambda>cs. Inr (map_option ((#) merged) cs))
      | None \<Rightarrow>
          and_then (tryParseRequestCondition (trim p)) (\<lambda>c.
            case c of
              None \<Rightarrow> Inr None
            | Some c \<Rightarrow> and_then (request_conditions_loop (q # ps)) (\<lambda>cs. Inr (map_option ((#) c) cs))))"

definition tryParseRequestConditions :: "jsstr \<Rightarrow> rule_error + request_condition list option" where
  "tryParseRequestConditions conditionStr =
     (case tryParseTimeCondition (trim conditionStr) of
        Some tc \<Rightarrow> Inr (Some [TimeCondition tc])
      | None \<Rightarrow>
          and_then (request_conditions_loop (splitTopLevelAnd conditionStr)) (\<lambda>cs.
            Inr (case cs of Some (c # cs) \<Rightarrow> Some (c # cs) | _ \<Rightarrow> None)))"

text \<open>
  \<open>/^\((.+) \? ([\d.eE+-]+) : 1\)$/s\<close>, from the right: the multiplier has no space, so the pattern
  matches in one way.
\<close>

definition match_group :: "jsstr \<Rightarrow> (jsstr \<times> jsstr) option" where
  "match_group part =
     Option.bind (eat (js ''('') part) (\<lambda>r1.
     Option.bind (eat (rev (js '' : 1)'')) (rev r1)) (\<lambda>r2.
     Option.bind (eat_number r2) (\<lambda>(v, r3).
     Option.bind (eat (rev (js '' ? '')) r3) (\<lambda>r4.
       if r4 = [] then None else Some (rev r4, rev v)))))"

definition tryParseRuleGroupFactor :: "jsstr \<Rightarrow> rule_error + request_rule_group option" where
  "tryParseRuleGroupFactor part =
     (case match_group part of
        None \<Rightarrow> Inr None
      | Some (cond, multiplier) \<Rightarrow>
          and_then (tryParseRequestConditions cond) (\<lambda>cs.
            Inr (map_option (\<lambda>cs. \<lparr>rg_conditions = cs, rg_multiplier = multiplier\<rparr>) cs)))"

fun groups_loop :: "jsstr list \<Rightarrow> rule_error + request_rule_group list option" where
  "groups_loop [] = Inr (Some [])"
| "groups_loop (part # parts) =
     and_then (tryParseRuleGroupFactor part) (\<lambda>g.
       case g of
         None \<Rightarrow> Inr None
       | Some g \<Rightarrow> and_then (groups_loop parts) (\<lambda>gs. Inr (map_option ((#) g) gs)))"

definition tryParseRequestRuleExpr :: "jsstr \<Rightarrow> rule_error + request_rule_group list option" where
  "tryParseRequestRuleExpr expr =
     (if trim expr = [] then Inr (Some []) else groups_loop (splitTopLevelMultiply (trim expr)))"

definition unwrapOuterParens :: "jsstr \<Rightarrow> jsstr" where
  "unwrapOuterParens expr = unwrapExpressionParens expr"

text \<open>
  One step of the \<open>forEach\<close>: the factor goes to the rules or to the price.  Syntax nodes carry their
  positions, so that equal nodes of one tree are the same node.
\<close>

definition traced :: "compilation_result \<Rightarrow> bool" where
  "traced compiled =
     (case compiled of Ready c \<Rightarrow> list_ex (\<lambda>rule. r_node rule = c_ast c) (c_rules c) | CompileFailed _ \<Rightarrow> False)"

fun classify_parts ::
  "compile_cache \<Rightarrow> jsstr list \<Rightarrow> (rule_error + jsstr list \<times> jsstr list) \<times> compile_cache" where
  "classify_parts cache [] = (Inr ([], []), cache)"
| "classify_parts cache (part # parts) =
     (case tryParseRequestRuleExpr part of
        Inl e \<Rightarrow> (Inl e, cache)
      | Inr gs \<Rightarrow>
          (let (compiled, cache1) = compileBillingExpression cache part;
               (rest, cache2) = classify_parts cache1 parts in
           (and_then rest (\<lambda>(ruleParts, baseParts).
              Inr (if (gs \<noteq> None \<and> gs \<noteq> Some []) \<or> traced compiled
                   then (part # ruleParts, baseParts) else (ruleParts, part # baseParts))),
            cache2)))"

record split_result =
  sr_billingExpr :: jsstr
  sr_requestRuleExpr :: jsstr

definition split_of :: "jsstr \<Rightarrow> jsstr list \<Rightarrow> jsstr list \<Rightarrow> split_result" where
  "split_of trimmed ruleParts baseParts =
     (let quantityParts = filter (\<lambda>part. unwrapOuterParens part = js ''image_count'') baseParts in
      if ruleParts = [] \<or> length baseParts - length quantityParts \<noteq> 1
      then \<lparr>sr_billingExpr = trimmed, sr_requestRuleExpr = []\<rparr>
      else \<lparr>sr_billingExpr = join (js '' * '') (map unwrapOuterParens baseParts),
            sr_requestRuleExpr = join (js '' * '') ruleParts\<rparr>)"

definition splitBillingExprAndRequestRules ::
  "compile_cache \<Rightarrow> jsstr \<Rightarrow> (rule_error + split_result) \<times> compile_cache" where
  "splitBillingExprAndRequestRules cache expr =
     (let trimmed = trim expr; parts = splitTopLevelMultiply trimmed in
      if trimmed = [] then (Inr \<lparr>sr_billingExpr = [], sr_requestRuleExpr = []\<rparr>, cache)
      else if length parts \<le> 1 then (Inr \<lparr>sr_billingExpr = trimmed, sr_requestRuleExpr = []\<rparr>, cache)
      else
        (let (classified, cache1) = classify_parts cache parts in
         (and_then classified (\<lambda>(ruleParts, baseParts). Inr (split_of trimmed ruleParts baseParts)), cache1)))"

section \<open>Lemmas\<close>

text \<open>A factor is a request rule when it reads as rule groups, or compiles to a rule at its root.\<close>

definition rule_factor :: "jsstr \<Rightarrow> bool" where
  "rule_factor part \<longleftrightarrow>
     (\<exists>gs. gs \<noteq> [] \<and> tryParseRequestRuleExpr part = Inr (Some gs))
     \<or> (\<exists>c. compile_fresh part = Ready c \<and> is_rule (c_ast c))"

lemma traced_fresh: "traced (compile_fresh part) \<longleftrightarrow> (\<exists>c. compile_fresh part = Ready c \<and> is_rule (c_ast c))"
proof (cases "compile_fresh part")
  case (Ready c)
  have node: "r_node (rule_of part n) = n" for n
    by (simp add: rule_of_def split: node.split literal.split)
  have root: "n \<in> set (postorder n)" for n by (cases n) simp_all
  from Ready have "c_rules c = map (rule_of part) (filter is_rule (postorder (c_ast c)))"
    using compile_fresh_Ready compile_steps_Inr(7) by blast
  with Ready root show ?thesis by (auto simp: traced_def list_ex_iff node)
qed (simp add: traced_def)

lemma rule_factor_code [code]:
  "rule_factor part \<longleftrightarrow>
     (case tryParseRequestRuleExpr part of Inr (Some (g # gs)) \<Rightarrow> True | _ \<Rightarrow> False) \<or> traced (compile_fresh part)"
  by (auto simp: rule_factor_def traced_fresh neq_Nil_conv split: sum.split option.split list.split)

lemma isl_and_then: "isl (and_then x f) \<longleftrightarrow> isl x \<or> (\<exists>y. x = Inr y \<and> isl (f y))"
  by (cases x) (simp_all add: and_then_simps)

lemma classify_parts_spec:
  assumes "cache_ok cache" "\<forall>part \<in> set parts. \<not> isl (tryParseRequestRuleExpr part)"
  shows "\<exists>cache'. cache_ok cache' \<and>
    classify_parts cache parts = (Inr (filter rule_factor parts, filter (\<lambda>p. \<not> rule_factor p) parts), cache')"
  using assms
proof (induction parts arbitrary: cache)
  case (Cons part parts)
  obtain compiled cache1 where c: "compileBillingExpression cache part = (compiled, cache1)" by fastforce
  with compile_cached [OF Cons.prems(1), of part] have fresh: "compiled = compile_fresh part" and ok: "cache_ok cache1"
    by auto
  from Cons.prems(2) obtain gs where gs: "tryParseRequestRuleExpr part = Inr gs"
    by (cases "tryParseRequestRuleExpr part") auto
  have "rule_factor part \<longleftrightarrow> (gs \<noteq> None \<and> gs \<noteq> Some []) \<or> traced compiled"
    by (auto simp: rule_factor_def gs fresh traced_fresh)
  with Cons.IH [OF ok] Cons.prems(2) c gs show ?case by (auto simp: and_then_simps)
qed simp

lemma classify_parts_throws:
  "isl (fst (classify_parts cache parts)) \<longleftrightarrow> (\<exists>part \<in> set parts. isl (tryParseRequestRuleExpr part))"
proof (induction parts arbitrary: cache)
  case (Cons part parts)
  then show ?case
    by (cases "tryParseRequestRuleExpr part") (simp_all add: case_prod_beta isl_and_then)
qed simp

text \<open>One factor or none is never split: at most one of the two sides would be inhabited.\<close>

lemma split_of_short:
  assumes "length parts \<le> 1"
  shows "split_of t (filter P parts) (filter (\<lambda>p. \<not> P p) parts) = \<lparr>sr_billingExpr = t, sr_requestRuleExpr = []\<rparr>"
proof (cases parts)
  case (Cons p ps)
  with assms show ?thesis by (simp add: split_of_def)
qed (simp add: split_of_def)

lemma split_of_eq:
  "split_of t rules base =
     (if rules \<noteq> [] \<and> length (filter (\<lambda>p. unwrapExpressionParens p \<noteq> js ''image_count'') base) = 1
      then \<lparr>sr_billingExpr = join (js '' * '') (map unwrapExpressionParens base),
            sr_requestRuleExpr = join (js '' * '') rules\<rparr>
      else \<lparr>sr_billingExpr = t, sr_requestRuleExpr = []\<rparr>)"
proof -
  let ?q = "\<lambda>p. unwrapExpressionParens p = js ''image_count''"
  have "length base - length (filter ?q base) = length (filter (\<lambda>p. \<not> ?q p) base)"
    using sum_length_filter_compl [of ?q base] by simp
  then show ?thesis
    by (simp add: split_of_def unwrapOuterParens_def [abs_def] Let_def)
qed

lemma split_blank: "splitTopLevelMultiply [] = []"
  by (simp add: splitTopLevelMultiply_def splitExpressionAtTopLevel_def split_loop.simps trim_def trim_start_def trim_end_def)

text \<open>Time conditions hold values of the calendar field they test.\<close>

definition time_row_ok :: "time_condition_row \<Rightarrow> bool" where
  "time_row_ok t \<longleftrightarrow>
     (if tcr_mode t = MATCH_RANGE
      then tcr_value t = [] \<and> isTimeValueInRange (tcr_timeFunc t) (tcr_rangeStart t)
        \<and> isTimeValueInRange (tcr_timeFunc t) (tcr_rangeEnd t)
      else tcr_mode t \<in> {MATCH_EQ, MATCH_GTE, MATCH_LT} \<and> isTimeValueInRange (tcr_timeFunc t) (tcr_value t)
        \<and> tcr_rangeStart t = [] \<and> tcr_rangeEnd t = [])"

lemma match_time_scalar_mode:
  "match_time_scalar s = Some (f, tz, mode, v) \<Longrightarrow> mode \<in> {MATCH_EQ, MATCH_GTE, MATCH_LT}"
  by (auto simp: match_time_scalar_def bind_eq_Some_conv split: option.splits if_splits)

lemma tryParseTimeCondition_ok: "tryParseTimeCondition s = Some t \<Longrightarrow> time_row_ok t"
  by (auto simp: tryParseTimeCondition_def time_row_ok_def dest!: match_time_scalar_mode split: option.splits if_splits)

lemma tryParseTimeRangePair_ok: "tryParseTimeRangePair s r = Some c \<Longrightarrow> \<exists>t. c = TimeCondition t \<and> time_row_ok t"
  by (auto simp: tryParseTimeRangePair_def time_row_ok_def dest!: tryParseTimeCondition_ok
      split: option.splits if_splits)

lemma tryParseRequestCondition_time:
  "tryParseRequestCondition s = Inr (Some (TimeCondition t)) \<Longrightarrow> tryParseTimeCondition s = Some t"
  by (auto simp: tryParseRequestCondition_def param_header_def and_then_simps and_then_def
      split: option.splits sum.splits)

lemma request_conditions_loop_ok:
  "request_conditions_loop ps = Inr (Some cs) \<Longrightarrow> TimeCondition t \<in> set cs \<Longrightarrow> time_row_ok t"
proof (induction ps arbitrary: cs rule: request_conditions_loop.induct)
  case (3 p q ps)
  let ?pair = "if trim q = [] then None else tryParseTimeRangePair (trim p) (trim q)"
  show ?case
  proof (cases ?pair)
    case None
    with "3.prems"(1) obtain c cs' where c: "tryParseRequestCondition (trim p) = Inr (Some c)"
      and l: "request_conditions_loop (q # ps) = Inr (Some cs')" and cs: "cs = c # cs'"
      by (auto simp: and_then_simps split: option.splits)
    from c have "c = TimeCondition t \<Longrightarrow> time_row_ok t"
      using tryParseRequestCondition_time tryParseTimeCondition_ok by blast
    with "3.IH"(1) [OF None c refl l] "3.prems"(2) cs show ?thesis by auto
  next
    case (Some m)
    with "3.prems"(1) obtain cs' where l: "request_conditions_loop ps = Inr (Some cs')" and cs: "cs = m # cs'"
      by (auto simp: and_then_simps)
    from Some have "m = TimeCondition t \<Longrightarrow> time_row_ok t"
      using tryParseTimeRangePair_ok by (auto split: if_splits)
    with "3.IH"(2) [OF Some l] "3.prems"(2) cs show ?thesis by auto
  qed
qed (auto simp: and_then_simps dest!: tryParseRequestCondition_time tryParseTimeCondition_ok)

lemma request_time_conditions_in_range:
  assumes "tryParseRequestConditions s = Inr (Some cs)" "TimeCondition t \<in> set cs"
  shows "time_row_ok t"
proof (cases "tryParseTimeCondition (trim s)")
  case None
  with assms(1) obtain loop where "request_conditions_loop (splitTopLevelAnd s) = Inr loop"
    and "(case loop of Some (c # cs) \<Rightarrow> Some (c # cs) | _ \<Rightarrow> None) = Some cs"
    by (auto simp: tryParseRequestConditions_def and_then_simps)
  moreover from this(2) have "loop = Some cs" by (cases loop) (auto split: list.splits)
  ultimately show ?thesis using request_conditions_loop_ok assms(2) by blast
next
  case (Some tc)
  with assms show ?thesis by (auto simp: tryParseRequestConditions_def dest: tryParseTimeCondition_ok)
qed

lemma split_outcome:
  fixes expr :: jsstr
  defines "parts \<equiv> splitTopLevelMultiply (trim expr)"
  assumes "cache_ok cache" "\<forall>part \<in> set parts. \<not> isl (tryParseRequestRuleExpr part)"
  shows "fst (splitBillingExprAndRequestRules cache expr) = Inr
      (if filter rule_factor parts \<noteq> []
          \<and> length (filter (\<lambda>p. \<not> rule_factor p \<and> unwrapExpressionParens p \<noteq> js ''image_count'') parts) = 1
       then \<lparr>sr_billingExpr = join (js '' * '') (map unwrapExpressionParens (filter (\<lambda>p. \<not> rule_factor p) parts)),
             sr_requestRuleExpr = join (js '' * '') (filter rule_factor parts)\<rparr>
       else \<lparr>sr_billingExpr = trim expr, sr_requestRuleExpr = []\<rparr>)
    \<and> cache_ok (snd (splitBillingExprAndRequestRules cache expr))"
proof -
  let ?rules = "filter rule_factor parts" and ?base = "filter (\<lambda>p. \<not> rule_factor p) parts"
  from classify_parts_spec [OF assms(2,3)] obtain cache' where
    c: "cache_ok cache'" "classify_parts cache parts = (Inr (?rules, ?base), cache')" by blast
  have blank: "trim expr = [] \<Longrightarrow> length parts \<le> 1" by (simp add: parts_def split_blank)
  have "fst (splitBillingExprAndRequestRules cache expr) = Inr (split_of (trim expr) ?rules ?base)"
    using c(2) blank split_of_short [of parts "trim expr" rule_factor]
    by (auto simp: splitBillingExprAndRequestRules_def Let_def parts_def [symmetric])
  moreover have "cache_ok (snd (splitBillingExprAndRequestRules cache expr))"
    using c assms(2) by (simp add: splitBillingExprAndRequestRules_def Let_def parts_def [symmetric])
  ultimately show ?thesis by (auto simp: split_of_eq)
qed

lemma split_throws:
  "fst (splitBillingExprAndRequestRules cache expr) = Inl JsonSyntaxError \<longleftrightarrow>
     2 \<le> length (splitTopLevelMultiply (trim expr))
     \<and> (\<exists>part \<in> set (splitTopLevelMultiply (trim expr)). tryParseRequestRuleExpr part = Inl JsonSyntaxError)"
proof -
  have isl: "x = Inl JsonSyntaxError \<longleftrightarrow> isl x" for x :: "rule_error + 'b"
    by (cases x) (auto intro: rule_error.exhaust)
  show ?thesis
    using classify_parts_throws [of cache "splitTopLevelMultiply (trim expr)"] split_blank
    unfolding isl by (auto simp: splitBillingExprAndRequestRules_def Let_def case_prod_beta isl_and_then)
qed

lemma cache_ok_Nil: "cache_ok []"
  by (simp add: cache_ok_def coherent_def)

section \<open>Properties\<close>

text \<open>
  C39. The split keeps every factor.  Cut the trimmed source at its top-level asterisks, those that
  no quotation and no bracket encloses, unless a question mark at the top level makes it a
  conditional; the pieces with an asterisk between them are the source again, and its factors are
  the pieces that are not blank, without the white space around them.  With a coherent compile cache,
  and unless the reader of a factor throws: when some factor is a request rule and exactly one of the
  other factors is not \<open>image_count\<close> once its matching parentheses are off, the rule text is the
  product of the rules, as they are written, and the price text the product of the other factors
  without those parentheses, both in the order of the source; in every other case no rule is moved
  and the price text is the trimmed source.  The cache stays coherent.
\<close>

theorem split_keeps_factors:
  fixes expr :: jsstr
  defines "factors \<equiv> product_factors (trim expr)"
  assumes "cache_ok cache" "\<forall>part \<in> set factors. \<not> isl (tryParseRequestRuleExpr part)"
  shows "join (js ''*'') (product_pieces (trim expr)) = trim expr
    \<and> (\<exists>prices. list_all2 unwraps (filter (\<lambda>p. \<not> rule_factor p) factors) prices
      \<and> fst (splitBillingExprAndRequestRules cache expr) = Inr
        (if filter rule_factor factors \<noteq> [] \<and> length (filter (\<lambda>p. p \<noteq> js ''image_count'') prices) = 1
         then \<lparr>sr_billingExpr = join (js '' * '') prices,
               sr_requestRuleExpr = join (js '' * '') (filter rule_factor factors)\<rparr>
         else \<lparr>sr_billingExpr = trim expr, sr_requestRuleExpr = []\<rparr>))
    \<and> cache_ok (snd (splitBillingExprAndRequestRules cache expr))"
proof -
  let ?base = "filter (\<lambda>p. \<not> rule_factor p) factors"
  have parts: "splitTopLevelMultiply (trim expr) = factors"
    by (simp add: splitTopLevelMultiply_def splitExpressionAtTopLevel_exact factors_def)
  have "list_all2 unwraps ?base (map unwrapExpressionParens ?base)"
    by (simp add: list_all2_map2 list_all2_same unwraps_iff)
  moreover have "length (filter (\<lambda>p. p \<noteq> js ''image_count'') (map unwrapExpressionParens ?base)) =
      length (filter (\<lambda>p. \<not> rule_factor p \<and> unwrapExpressionParens p \<noteq> js ''image_count'') factors)"
    by (simp add: filter_map comp_def filter_filter conj_commute)
  ultimately show ?thesis
    using split_outcome [of cache expr] assms(2,3) product_pieces_join unfolding parts
    by (intro conjI exI [of _ "map unwrapExpressionParens ?base"]) auto
qed

theorem split_keeps_factors_witness:
  "fst (splitBillingExprAndRequestRules [] (js ''(p) * (hour(\"UTC\") < 9 ? 3 : 1)'')) =
     Inr \<lparr>sr_billingExpr = js ''p'', sr_requestRuleExpr = js ''(hour(\"UTC\") < 9 ? 3 : 1)''\<rparr>"
proof -
  have factors: "product_factors (trim (js ''(p) * (hour(\"UTC\") < 9 ? 3 : 1)'')) =
      [js ''(p)'', js ''(hour(\"UTC\") < 9 ? 3 : 1)'']" by code_simp
  have "\<not> isl (tryParseRequestRuleExpr (js ''(p)''))"
    "\<not> isl (tryParseRequestRuleExpr (js ''(hour(\"UTC\") < 9 ? 3 : 1)''))" by code_simp+
  moreover have rules: "\<not> rule_factor (js ''(p)'')" "rule_factor (js ''(hour(\"UTC\") < 9 ? 3 : 1)'')" by code_simp+
  moreover have "unwrapExpressionParens (js ''(p)'') = js ''p''" "js ''p'' \<noteq> js ''image_count''" by code_simp+
  ultimately show ?thesis
    using split_keeps_factors [of "[]" "js ''(p) * (hour(\"UTC\") < 9 ? 3 : 1)''"]
    by (auto simp: factors cache_ok_Nil list_all2_Cons1 unwraps_iff)
qed

text \<open>
  The split throws exactly when there are two factors or more and one of them does: nothing
  between the reader of a quoted literal and the caller catches the exception.
\<close>

lemma split_throws_iff:
  "fst (splitBillingExprAndRequestRules cache expr) = Inl JsonSyntaxError \<longleftrightarrow>
     2 \<le> length (splitTopLevelMultiply (trim expr))
     \<and> (\<exists>part \<in> set (splitTopLevelMultiply (trim expr)). tryParseRequestRuleExpr part = Inl JsonSyntaxError)"
  by (rule split_throws)

section \<open>Two expressions the reader gets wrong\<close>

text \<open>An escape of the billing language that JSON does not have makes the split throw.\<close>

definition escape_source :: jsstr where
  "escape_source = js ''p * (has(header(\"x\"), \"'' @ [92, 118] @ js ''\") ? 2 : 1)''"

lemma escaped_literal_throws:
  "fst (splitBillingExprAndRequestRules cache escape_source) = Inl JsonSyntaxError"
  "\<exists>c. compile_fresh escape_source = Ready c"
proof -
  have "isl (tryParseRequestRuleExpr (splitTopLevelMultiply (trim escape_source) ! 1))" by code_simp
  then have "tryParseRequestRuleExpr (splitTopLevelMultiply (trim escape_source) ! 1) = Inl JsonSyntaxError"
    by (metis isl_def rule_error.exhaust)
  moreover have two: "length (splitTopLevelMultiply (trim escape_source)) = 2" by code_simp
  then have "splitTopLevelMultiply (trim escape_source) ! 1 \<in> set (splitTopLevelMultiply (trim escape_source))"
    by (intro nth_mem) simp
  ultimately show "fst (splitBillingExprAndRequestRules cache escape_source) = Inl JsonSyntaxError"
    using two unfolding split_throws by auto
  have "case compile_fresh escape_source of Ready c \<Rightarrow> True | CompileFailed f \<Rightarrow> False" by code_simp
  then show "\<exists>c. compile_fresh escape_source = Ready c" by (cases "compile_fresh escape_source") auto
qed

text \<open>
  The parentheses of a tier chain that is multiplied by \<open>image_count\<close> are dropped when a request rule
  follows, so that the count multiplies the last tier only and the tiers are no longer read.
\<close>

definition chain_text :: "string \<Rightarrow> string \<Rightarrow> jsstr" where
  "chain_text l r = js l @ js ''len>9?tier(\"a\",p*2):tier(\"b\",p*3)'' @ js r @ js '' * image_count''"

definition tiers_of :: "jsstr \<Rightarrow> nat option" where
  "tiers_of source =
     (case compile_fresh source of
        Ready c \<Rightarrow> (case readTokenTierChain (c_ast c) of Inr (Some ts) \<Rightarrow> Some (length ts) | _ \<Rightarrow> None)
      | CompileFailed f \<Rightarrow> None)"

lemma chain_parentheses_dropped:
  "fst (splitBillingExprAndRequestRules [] (chain_text ''('' '')'' @ js '' * (hour(\"UTC\") < 9 ? 3 : 1)'')) =
     Inr \<lparr>sr_billingExpr = chain_text [] [], sr_requestRuleExpr = js ''(hour(\"UTC\") < 9 ? 3 : 1)''\<rparr>"
  "tiers_of (chain_text ''('' '')'') = Some 2" "tiers_of (chain_text [] []) = None"
proof -
  let ?chain = "js ''(len>9?tier(\"a\",p*2):tier(\"b\",p*3))''"
  have parts: "splitTopLevelMultiply (trim (chain_text ''('' '')'' @ js '' * (hour(\"UTC\") < 9 ? 3 : 1)'')) =
      [?chain, js ''image_count'', js ''(hour(\"UTC\") < 9 ? 3 : 1)'']" by code_simp
  have throws: "\<not> isl (tryParseRequestRuleExpr ?chain)" "\<not> isl (tryParseRequestRuleExpr (js ''image_count''))"
    "\<not> isl (tryParseRequestRuleExpr (js ''(hour(\"UTC\") < 9 ? 3 : 1)''))" by code_simp+
  have rule: "\<not> rule_factor ?chain" "\<not> rule_factor (js ''image_count'')"
    "rule_factor (js ''(hour(\"UTC\") < 9 ? 3 : 1)'')" by code_simp+
  have unwrap: "unwrapExpressionParens ?chain \<noteq> js ''image_count''"
    "unwrapExpressionParens (js ''image_count'') = js ''image_count''"
    "join (js '' * '') [unwrapExpressionParens ?chain, js ''image_count''] = chain_text [] []" by code_simp+
  show "fst (splitBillingExprAndRequestRules [] (chain_text ''('' '')'' @ js '' * (hour(\"UTC\") < 9 ? 3 : 1)'')) =
     Inr \<lparr>sr_billingExpr = chain_text [] [], sr_requestRuleExpr = js ''(hour(\"UTC\") < 9 ? 3 : 1)''\<rparr>"
    using split_outcome [of "[]" "chain_text ''('' '')'' @ js '' * (hour(\"UTC\") < 9 ? 3 : 1)''"] throws rule unwrap
    by (simp add: parts cache_ok_Nil del: join.simps(3))
  show "tiers_of (chain_text ''('' '')'') = Some 2" by code_simp
  show "tiers_of (chain_text [] []) = None" by code_simp
qed

end
