(* ===== verification/Sha256.thy ===== *)
theory Sha256
  imports JsPrelude "HOL-Library.Word"
begin

unbundle bit_operations_syntax

text \<open>
  SHA-256 in \<open>lib/sha256.ts\<close>, the fallback when Web Crypto is not available.  Bytes are \<open>8 word\<close>,
  the elements of a \<open>Uint32Array\<close> are \<open>32 word\<close>; JavaScript's shifts and bitwise operators act on
  32-bit patterns and every sum is reduced by \<open>>>> 0\<close>, so the sums are those of \<open>32 word\<close>.
\<close>

section \<open>Definitions\<close>

text \<open>The round constants, in the rows of the source.\<close>

definition K :: "32 word list" where
  "K = concat
    [[0x428a2f98, 0x71374491, 0xb5c0fbcf, 0xe9b5dba5, 0x3956c25b, 0x59f111f1],
     [0x923f82a4, 0xab1c5ed5, 0xd807aa98, 0x12835b01, 0x243185be, 0x550c7dc3],
     [0x72be5d74, 0x80deb1fe, 0x9bdc06a7, 0xc19bf174, 0xe49b69c1, 0xefbe4786],
     [0x0fc19dc6, 0x240ca1cc, 0x2de92c6f, 0x4a7484aa, 0x5cb0a9dc, 0x76f988da],
     [0x983e5152, 0xa831c66d, 0xb00327c8, 0xbf597fc7, 0xc6e00bf3, 0xd5a79147],
     [0x06ca6351, 0x14292967, 0x27b70a85, 0x2e1b2138, 0x4d2c6dfc, 0x53380d13],
     [0x650a7354, 0x766a0abb, 0x81c2c92e, 0x92722c85, 0xa2bfe8a1, 0xa81a664b],
     [0xc24b8b70, 0xc76c51a3, 0xd192e819, 0xd6990624, 0xf40e3585, 0x106aa070],
     [0x19a4c116, 0x1e376c08, 0x2748774c, 0x34b0bcb5, 0x391c0cb3, 0x4ed8aa4a],
     [0x5b9cca4f, 0x682e6ff3, 0x748f82ee, 0x78a5636f, 0x84c87814, 0x8cc70208],
     [0x90befffa, 0xa4506ceb, 0xbef9a3f7, 0xc67178f2]]"

definition initial_hash :: "32 word list" where
  "initial_hash =
    [0x6a09e667, 0xbb67ae85, 0x3c6ef372, 0xa54ff53a, 0x510e527f, 0x9b05688c,
     0x1f83d9ab, 0x5be0cd19]"

definition rotr :: "32 word \<Rightarrow> nat \<Rightarrow> 32 word" where
  "rotr v n = drop_bit n v OR push_bit (32 - n) v"

text \<open>\<open>view.setUint32\<close> and \<open>view.getUint32\<close>, big endian.\<close>

definition set_uint32 :: "8 word list \<Rightarrow> nat \<Rightarrow> 32 word \<Rightarrow> 8 word list" where
  "set_uint32 bs i w =
     bs[i := ucast (drop_bit 24 w), i + 1 := ucast (drop_bit 16 w), i + 2 := ucast (drop_bit 8 w),
        i + 3 := ucast w]"

definition get_uint32 :: "8 word list \<Rightarrow> nat \<Rightarrow> 32 word" where
  "get_uint32 bs i =
     push_bit 24 (ucast (bs ! i)) OR push_bit 16 (ucast (bs ! (i + 1)))
     OR push_bit 8 (ucast (bs ! (i + 2))) OR ucast (bs ! (i + 3))"

definition total_len :: "nat \<Rightarrow> nat" where
  "total_len n = ((n + 8) div 64 + 1) * 64"

text \<open>The buffer \<open>padded\<close>: the message, the byte 0x80, zeros and the bit length.\<close>

definition pad_message :: "8 word list \<Rightarrow> 8 word list" where
  "pad_message msg =
     (let n = length msg; len = total_len n; hi = of_nat (n div 0x20000000);
          lo = push_bit 3 (of_nat n);
          buf = (msg @ replicate (len - n) 0)[n := 0x80] in
      set_uint32 (set_uint32 buf (len - 8) hi) (len - 4) lo)"

text \<open>The message schedule: the loop that fills \<open>w[16..63]\<close> as a list that grows at its end.\<close>

definition schedule_word :: "32 word list \<Rightarrow> nat \<Rightarrow> 32 word" where
  "schedule_word w t =
     (let x = w ! (t - 15); y = w ! (t - 2);
          s0 = rotr x 7 XOR rotr x 18 XOR drop_bit 3 x;
          s1 = rotr y 17 XOR rotr y 19 XOR drop_bit 10 y
      in w ! (t - 16) + s0 + w ! (t - 7) + s1)"

definition schedule :: "8 word list \<Rightarrow> nat \<Rightarrow> 32 word list" where
  "schedule bytes base =
     foldl (\<lambda>w t. w @ [schedule_word w t]) (map (\<lambda>t. get_uint32 bytes (base + t * 4)) [0..<16]) [16..<64]"

text \<open>One round on the variables \<open>a\<close> to \<open>hh\<close>.\<close>

record working =
  wa :: "32 word"
  wb :: "32 word"
  wc :: "32 word"
  wd :: "32 word"
  we :: "32 word"
  wf :: "32 word"
  wg :: "32 word"
  wh :: "32 word"

definition choice :: "32 word \<Rightarrow> 32 word \<Rightarrow> 32 word \<Rightarrow> 32 word" where
  "choice e f g = (e AND f) XOR (NOT e AND g)"

definition majority :: "32 word \<Rightarrow> 32 word \<Rightarrow> 32 word \<Rightarrow> 32 word" where
  "majority a b c = (a AND b) XOR (a AND c) XOR (b AND c)"

definition round_step :: "32 word list \<Rightarrow> working \<Rightarrow> nat \<Rightarrow> working" where
  "round_step w v t =
     (let S1 = rotr (we v) 6 XOR rotr (we v) 11 XOR rotr (we v) 25;
          temp1 = wh v + S1 + choice (we v) (wf v) (wg v) + K ! t + w ! t;
          S0 = rotr (wa v) 2 XOR rotr (wa v) 13 XOR rotr (wa v) 22;
          temp2 = S0 + majority (wa v) (wb v) (wc v)
      in \<lparr>wa = temp1 + temp2, wb = wa v, wc = wb v, wd = wc v,
          we = wd v + temp1, wf = we v, wg = wf v, wh = wg v\<rparr>)"

definition load_working :: "32 word list \<Rightarrow> working" where
  "load_working h =
     \<lparr>wa = h ! 0, wb = h ! 1, wc = h ! 2, wd = h ! 3, we = h ! 4, wf = h ! 5, wg = h ! 6, wh = h ! 7\<rparr>"

definition block_step :: "8 word list \<Rightarrow> 32 word list \<Rightarrow> nat \<Rightarrow> 32 word list" where
  "block_step bytes h base =
     (let w = schedule bytes base;
          v = foldl (round_step w) (load_working h) [0..<64] in
      [h ! 0 + wa v, h ! 1 + wb v, h ! 2 + wc v, h ! 3 + wd v,
       h ! 4 + we v, h ! 5 + wf v, h ! 6 + wg v, h ! 7 + wh v])"

definition sha256Bytes :: "8 word list \<Rightarrow> 8 word list" where
  "sha256Bytes msg =
     (let bytes = pad_message msg;
          h = foldl (block_step bytes) initial_hash (map (\<lambda>i. 64 * i) [0..<length bytes div 64])
      in foldl (\<lambda>out i. set_uint32 out (i * 4) (h ! i)) (replicate 32 0) [0..<8])"

definition hex_char :: "nat \<Rightarrow> nat" where
  "hex_char d = (if d < 10 then 48 + d else 87 + d)"

text \<open>\<open>byte.toString(16).padStart(2, '0')\<close>.\<close>

definition byte_hex :: "8 word \<Rightarrow> jsstr" where
  "byte_hex b = [hex_char (unat b div 16), hex_char (unat b mod 16)]"

definition sha256Hex :: "8 word list \<Rightarrow> jsstr" where
  "sha256Hex msg = concat (map byte_hex (sha256Bytes msg))"

section \<open>The standard's definitions\<close>

text \<open>The eight bytes of a 64-bit length, and the recursive message schedule of FIPS 180-4.\<close>

definition be_bytes :: "nat \<Rightarrow> 8 word list" where
  "be_bytes n = map (\<lambda>i. of_nat (n div 2 ^ (56 - 8 * i))) [0..<8]"

function fips_W :: "8 word list \<Rightarrow> nat \<Rightarrow> nat \<Rightarrow> 32 word" where
  "fips_W bytes base t =
     (if t < 16 then get_uint32 bytes (base + t * 4)
      else
        (word_rotr 17 (fips_W bytes base (t - 2)) XOR word_rotr 19 (fips_W bytes base (t - 2))
          XOR drop_bit 10 (fips_W bytes base (t - 2)))
        + fips_W bytes base (t - 7)
        + (word_rotr 7 (fips_W bytes base (t - 15)) XOR word_rotr 18 (fips_W bytes base (t - 15))
          XOR drop_bit 3 (fips_W bytes base (t - 15)))
        + fips_W bytes base (t - 16))"
  by pat_completeness auto
termination
  by (relation "measure (\<lambda>(bytes, base, t). t)") auto

declare fips_W.simps [simp del]

text \<open>
  The hash computation of FIPS 180-4 over the rotations of the word library: the message is padded,
  cut into blocks of 64 bytes, and each block updates the eight hash words.
\<close>

definition fips_round :: "(nat \<Rightarrow> 32 word) \<Rightarrow> working \<Rightarrow> nat \<Rightarrow> working" where
  "fips_round W v t =
     (let T1 = wh v + (word_rotr 6 (we v) XOR word_rotr 11 (we v) XOR word_rotr 25 (we v))
            + choice (we v) (wf v) (wg v) + K ! t + W t;
          T2 = (word_rotr 2 (wa v) XOR word_rotr 13 (wa v) XOR word_rotr 22 (wa v))
            + majority (wa v) (wb v) (wc v)
      in \<lparr>wa = T1 + T2, wb = wa v, wc = wb v, wd = wc v, we = wd v + T1, wf = we v, wg = wf v, wh = wg v\<rparr>)"

definition fips_block :: "8 word list \<Rightarrow> 32 word list \<Rightarrow> nat \<Rightarrow> 32 word list" where
  "fips_block bytes h i =
     (let v = foldl (fips_round (fips_W bytes (64 * i))) (load_working h) [0..<64] in
      map (\<lambda>(x, y). x + y) (zip h [wa v, wb v, wc v, wd v, we v, wf v, wg v, wh v]))"

definition word_bytes :: "32 word \<Rightarrow> 8 word list" where
  "word_bytes w = [ucast (drop_bit 24 w), ucast (drop_bit 16 w), ucast (drop_bit 8 w), ucast w]"

definition fips_padded :: "8 word list \<Rightarrow> 8 word list" where
  "fips_padded msg =
     msg @ [0x80] @ replicate ((55 + 63 * length msg) mod 64) 0 @ be_bytes (8 * length msg)"

definition fips_sha256 :: "8 word list \<Rightarrow> 8 word list" where
  "fips_sha256 msg =
     (let bytes = fips_padded msg in
      concat (map word_bytes (foldl (fips_block bytes) initial_hash [0..<length bytes div 64])))"

section \<open>Lemmas\<close>

lemma rotr_word_rotr: "n < 32 \<Longrightarrow> rotr v n = word_rotr n v"
proof (rule bit_word_eqI)
  fix i assume n: "n < 32" and i: "i < LENGTH(32)"
  show "bit (rotr v n) i \<longleftrightarrow> bit (word_rotr n v) i"
  proof (cases "i + n < 32")
    case True
    then show ?thesis
      using n i by (auto simp: rotr_def bit_or_iff bit_drop_bit_eq bit_push_bit_iff bit_word_rotr_iff add.commute)
  next
    case False
    then have m: "(i + n) mod 32 = i + n - 32" using n i by (simp add: mod_if)
    have "\<not> bit v (i + n)" using False bit_imp_le_length [of v "i + n"] by auto
    then show ?thesis
      using False m n i by (auto simp: rotr_def bit_or_iff bit_drop_bit_eq bit_push_bit_iff bit_word_rotr_iff add.commute)
  qed
qed

lemma set_uint32_append:
  "set_uint32 (xs @ [a, b, c, d] @ ys) (length xs) w =
     xs @ [ucast (drop_bit 24 w), ucast (drop_bit 16 w), ucast (drop_bit 8 w), ucast w] @ ys"
  by (simp add: set_uint32_def list_update_append)

lemma length_set_uint32 [simp]: "length (set_uint32 bs i w) = length bs"
  by (simp add: set_uint32_def)

lemma schedule_length: "length (foldl (\<lambda>w t. w @ [schedule_word w t]) ws ts) = length ws + length ts"
  by (induction ts arbitrary: ws) auto

lemma schedule_spec:
  assumes "n \<le> 48"
  shows "foldl (\<lambda>w t. w @ [schedule_word w t]) (map (\<lambda>t. get_uint32 bytes (base + t * 4)) [0..<16]) [16..<16 + n]
    = map (fips_W bytes base) [0..<16 + n]"
  using assms
proof (induction n)
  case 0
  show ?case by (simp add: fips_W.simps)
next
  case (Suc n)
  let ?w = "map (fips_W bytes base) [0..<16 + n]"
  have "schedule_word ?w (16 + n) = fips_W bytes base (16 + n)"
    by (simp add: schedule_word_def fips_W.simps [of bytes base "n + 16"] rotr_word_rotr Let_def algebra_simps
        del: upt_Suc)
  moreover have "[16..<16 + Suc n] = [16..<16 + n] @ [16 + n]" "[0..<16 + Suc n] = [0..<16 + n] @ [16 + n]"
    by (simp_all add: upt_Suc_append [symmetric] del: upt_Suc)
  ultimately show ?case using Suc by simp
qed

lemma byte_of_word: "k + 8 \<le> 32 \<Longrightarrow> (ucast (drop_bit k (of_nat m :: 32 word)) :: 8 word) = of_nat (m div 2 ^ k)"
  by (rule bit_word_eqI)
     (simp add: bit_unsigned_iff bit_drop_bit_eq bit_of_nat_iff_bit bit_of_nat_iff
       flip: drop_bit_eq_div)

lemma byte_of_word_0: "(ucast (of_nat m :: 32 word) :: 8 word) = of_nat m"
  using byte_of_word [of 0 m] by simp

lemma pad_message_bytes:
  shows "pad_message msg =
    msg @ [0x80] @ replicate (total_len (length msg) - length msg - 9) 0 @ be_bytes (8 * length msg)"
proof -
  define n where "n = length msg"
  define z where "z = total_len n - n - 9"
  have "n + 9 \<le> total_len n" unfolding total_len_def by presburger
  then have len: "total_len n = n + 1 + z + 8" by (simp add: z_def)
  have buf: "(msg @ replicate (total_len n - n) 0)[n := 0x80] = msg @ [0x80] @ replicate z 0 @ replicate 8 (0 :: 8 word)"
  proof -
    have "replicate (total_len n - n) (0 :: 8 word) = 0 # replicate z 0 @ replicate 8 0"
      using len by (simp flip: replicate_add replicate_Suc)
    then show ?thesis by (simp add: n_def list_update_append)
  qed
  have r8: "replicate 8 (0 :: 8 word) = [0, 0, 0, 0] @ [0, 0, 0, 0] @ []" by (simp add: numeral_eq_Suc)
  have l1: "total_len n - 8 = length (msg @ [0x80] @ replicate z (0 :: 8 word))"
    and l2: "total_len n - 4 = length ((msg @ [0x80] @ replicate z (0 :: 8 word)) @ [w, x, y, v])" for w x y v :: "8 word"
    using len by (simp_all add: n_def)
  have hi: "(of_nat (n div 0x20000000) :: 32 word) = of_nat (8 * n div 2 ^ 32)"
    by (simp add: div_mult2_eq [symmetric])
  have lo: "(push_bit 3 (of_nat n) :: 32 word) = of_nat (8 * n)"
    by (simp add: push_bit_eq_mult mult.commute)
  let ?pre = "msg @ [0x80] @ replicate z (0 :: 8 word)"
  let ?hi = "of_nat (8 * n div 2 ^ 32) :: 32 word"
  let ?lo = "of_nat (8 * n) :: 32 word"
  let ?bytes = "\<lambda>w :: 32 word. [ucast (drop_bit 24 w), ucast (drop_bit 16 w), ucast (drop_bit 8 w), ucast w :: 8 word]"
  have "pad_message msg = set_uint32 (set_uint32 (?pre @ [0, 0, 0, 0] @ [0, 0, 0, 0]) (total_len n - 8) ?hi) (total_len n - 4) ?lo"
    unfolding pad_message_def Let_def n_def [symmetric] buf hi lo r8 by simp
  also have "set_uint32 (?pre @ [0, 0, 0, 0] @ [0, 0, 0, 0]) (total_len n - 8) ?hi = ?pre @ ?bytes ?hi @ [0, 0, 0, 0]"
    unfolding l1 by (rule set_uint32_append)
  also have "set_uint32 (?pre @ ?bytes ?hi @ [0, 0, 0, 0]) (total_len n - 4) ?lo = (?pre @ ?bytes ?hi) @ ?bytes ?lo @ []"
    unfolding l2 [of "ucast (drop_bit 24 ?hi)" "ucast (drop_bit 16 ?hi)" "ucast (drop_bit 8 ?hi)" "ucast ?hi"]
    using set_uint32_append [of "?pre @ ?bytes ?hi" 0 0 0 0 "[]" ?lo] by simp
  finally have "pad_message msg =
      ?pre @ [of_nat (8 * n div 2 ^ 32 div 2 ^ 24), of_nat (8 * n div 2 ^ 32 div 2 ^ 16),
         of_nat (8 * n div 2 ^ 32 div 2 ^ 8), of_nat (8 * n div 2 ^ 32)]
      @ [of_nat (8 * n div 2 ^ 24), of_nat (8 * n div 2 ^ 16), of_nat (8 * n div 2 ^ 8), of_nat (8 * n)]"
    by (simp only: byte_of_word byte_of_word_0) (simp add: byte_of_word byte_of_word_0)
  then show ?thesis
    by (simp add: be_bytes_def n_def [symmetric] z_def upt_rec div_mult2_eq [symmetric])
qed

lemma padding_zeros: "total_len n - n - 9 = (55 + 63 * n) mod 64"
proof -
  define q where "q = (n + 8) div 64"
  define r where "r = (n + 8) mod 64"
  have n: "n + 8 = 64 * q + r" and r: "r < 64" by (simp_all add: q_def r_def)
  have "total_len n = 64 * q + 64" by (simp add: total_len_def q_def)
  with n have "total_len n - n - 9 = 63 - r" using r by simp
  moreover have "(55 + 63 * n) mod 64 = 63 - r"
  proof -
    have "55 + 63 * n + 64 * (r + 1) = (63 - r) + 64 * (n + 1 + r - q) + 0" if "q \<le> n + 1 + r"
      using n r that by (simp add: algebra_simps)
    moreover have "q \<le> n + 1 + r" using n by simp
    ultimately have "(55 + 63 * n + 64 * (r + 1)) mod 64 = (63 - r) mod 64"
      by (metis add.right_neutral mod_mult_self2)
    then show ?thesis using r mod_mult_self2 [of "55 + 63 * n" 64 "r + 1"] by simp
  qed
  ultimately show ?thesis by simp
qed

lemma pad_message_fips: "pad_message msg = fips_padded msg"
  by (simp add: pad_message_bytes fips_padded_def padding_zeros [symmetric])

lemma schedule_fips: "schedule bytes base = map (fips_W bytes base) [0..<64]"
proof -
  have e: "16 + 48 = (64::nat)" by simp
  have "foldl (\<lambda>w t. w @ [schedule_word w t]) (map (\<lambda>t. get_uint32 bytes (base + t * 4)) [0..<16]) [16..<16 + 48]
      = map (fips_W bytes base) [0..<16 + 48]" by (rule schedule_spec) simp
  then show ?thesis unfolding e schedule_def .
qed

lemma rounds_fips:
  "\<forall>t \<in> set ts. t < 64 \<Longrightarrow>
     foldl (round_step (map W [0..<64])) v ts = foldl (fips_round W) v ts"
proof (induction ts arbitrary: v)
  case (Cons t ts)
  have "round_step (map W [0..<64]) v t = fips_round W v t"
    using Cons.prems by (simp add: round_step_def fips_round_def rotr_word_rotr Let_def del: upt_Suc)
  with Cons show ?case by simp
qed simp

lemma block_fips:
  assumes "length h = 8"
  shows "block_step bytes h (64 * i) = fips_block bytes h i"
proof -
  from assms obtain a b c d e f g k where h: "h = [a, b, c, d, e, f, g, k]"
    by (auto simp: length_Suc_conv eval_nat_numeral)
  show ?thesis
    unfolding block_step_def fips_block_def Let_def schedule_fips
    using rounds_fips [of "[0..<64]" "fips_W bytes (64 * i)" "load_working h"]
    by (simp add: h del: upt_Suc)
qed

lemma length_fips_block [simp]: "length h = 8 \<Longrightarrow> length (fips_block bytes h i) = 8"
  by (simp add: fips_block_def Let_def)

lemma blocks_fips:
  "length h = 8 \<Longrightarrow> foldl (block_step bytes) h (map (\<lambda>i. 64 * i) is) = foldl (fips_block bytes) h is
     \<and> length (foldl (fips_block bytes) h is) = 8"
  by (induction "is" arbitrary: h) (simp_all add: block_fips)

lemma write_words:
  "length h = 8 \<Longrightarrow> foldl (\<lambda>out i. set_uint32 out (i * 4) (h ! i)) (replicate 32 0) [0..<8] = concat (map word_bytes h)"
proof -
  assume "length h = 8"
  then obtain a b c d e f g k where h: "h = [a, b, c, d, e, f, g, k]"
    by (auto simp: length_Suc_conv eval_nat_numeral)
  show ?thesis
    by (simp add: h word_bytes_def set_uint32_def upt_rec numeral_eq_Suc)
qed

section \<open>Properties\<close>

text \<open>
  C15. \<open>sha256Bytes\<close> is the SHA-256 of FIPS 180-4 on every message: the padding written into the
  buffer, the schedule filled in place, the open-coded rotations and the digest written word by
  word are the padding, the recursive schedule, the rotations and the concatenated digest of the
  standard.
\<close>

theorem sha256_is_fips: "sha256Bytes msg = fips_sha256 msg"
proof -
  have "length initial_hash = 8" by (simp add: initial_hash_def)
  note b = blocks_fips [OF this]
  show ?thesis
    unfolding sha256Bytes_def fips_sha256_def Let_def pad_message_fips
    using b [of "fips_padded msg" "[0..<length (fips_padded msg) div 64]"] write_words by simp
qed

text \<open>
  The padded buffer is a whole number of 64-byte blocks: the message, one byte 0x80, fewer than 64
  zero bytes and the bit length of the message as eight big-endian bytes.
\<close>

lemma sha256_padding:
  "\<exists>z < 64. pad_message msg = msg @ [0x80] @ replicate z 0 @ be_bytes (8 * length msg)
     \<and> length (pad_message msg) mod 64 = 0 \<and> length (be_bytes (8 * length msg)) = 8"
proof -
  have l: "length (be_bytes n) = 8" for n by (simp add: be_bytes_def)
  let ?n = "length msg"
  have "?n + 9 \<le> total_len ?n" unfolding total_len_def by presburger
  then have "length (pad_message msg) = total_len ?n"
    by (simp add: pad_message_bytes l)
  then have "length (pad_message msg) mod 64 = 0" by (simp add: total_len_def)
  then show ?thesis
    by (intro exI [of _ "(55 + 63 * ?n) mod 64"]) (simp add: pad_message_fips fips_padded_def l)
qed

end
