(* ===== verification/JsMath.thy ===== *)
theory JsMath
  imports JsNumber
begin

text \<open>
  \<open>Math.round\<close> and powers of two, and the monotonicity of rounding that bounds on computed
  numbers rest on: rounding never carries a value across a double.
\<close>

section \<open>Definitions\<close>

text \<open>
  \<open>Math.round(x)\<close>: the nearest integer, ties towards plus infinity; a negative value that rounds to
  zero gives \<open>-0\<close>.
\<close>

fun num_round :: "jsnum \<Rightarrow> jsnum" where
  "num_round (Fin q) =
     (if q < 0 \<and> \<lfloor>q + 1 / 2\<rfloor> = 0 then NegZero else Fin (of_int \<lfloor>q + 1 / 2\<rfloor>))"
| "num_round a = a"

text \<open>\<open>2 ** n\<close> for a natural number \<open>n\<close>.\<close>

definition two_pow :: "nat \<Rightarrow> jsnum" where
  "two_pow n = dround False (2 ^ n)"

section \<open>Rounding is monotone across doubles\<close>

definition representable :: "rat \<Rightarrow> bool" where
  "representable a \<longleftrightarrow> (\<exists>k x. a = of_int k * 2 powi x \<and> \<bar>k\<bar> < 2 ^ 53 \<and> - 1074 \<le> x \<and> x \<le> 971)"

lemma representable_scaled:
  "\<bar>k\<bar> < 2 ^ 53 \<Longrightarrow> n \<le> 1074 \<Longrightarrow> representable (of_int k / 2 ^ n)"
  unfolding representable_def
  by (intro exI [of _ k] exI [of _ "- int n"]) (simp add: power_int_minus field_simps)

lemma rne_le: "q \<le> of_int z \<Longrightarrow> rne q \<le> z"
proof -
  assume q: "q \<le> of_int z"
  show ?thesis
  proof (cases "q = of_int z")
    case False
    with q have "\<lfloor>q\<rfloor> < z" by (simp add: floor_less_iff)
    then show ?thesis by (simp add: rne_def Let_def)
  qed simp
qed

lemma scaled_le:
  assumes "2 ^ n \<le> r"
  shows "(2::rat) powi (u + int n) \<le> of_int r * 2 powi u"
proof -
  have "(2::rat) ^ n \<le> of_int r" using assms by (metis of_int_le_iff of_int_numeral of_int_power)
  then have "(2::rat) powi int n * 2 powi u \<le> of_int r * 2 powi u"
    by (simp only: powi2_nat mult_le_cancel_right_pos [OF powi2_pos])
  then show ?thesis by (simp only: powi2_add [of u] mult.commute [of "2 powi u" "2 powi int n"])
qed

lemma scaled_less:
  assumes "r < 2 ^ n"
  shows "of_int r * (2::rat) powi u < 2 powi (u + int n)"
proof -
  have "(of_int r :: rat) < 2 ^ n" using assms by (metis of_int_less_iff of_int_numeral of_int_power)
  then have "of_int r * (2::rat) powi u < 2 powi int n * 2 powi u"
    by (simp only: powi2_nat mult_less_cancel_right_pos [OF powi2_pos])
  then show ?thesis by (simp only: powi2_add [of u] mult.commute [of "2 powi u" "2 powi int n"])
qed

lemma representable_on_grid:
  assumes "representable a" and "unit_exp q = - 1074 \<or> 2 powi (unit_exp q + 52) \<le> a"
  shows "\<exists>z. a = of_int z * 2 powi (unit_exp q)"
proof -
  from assms(1) obtain k x where a: "a = of_int k * 2 powi x" "\<bar>k\<bar> < 2 ^ 53" "- 1074 \<le> x"
    unfolding representable_def by blast
  have "unit_exp q \<le> x"
  proof (rule ccontr)
    assume "\<not> unit_exp q \<le> x"
    then have x: "x \<le> unit_exp q - 1" by simp
    with a(3) assms(2) have "2 powi (unit_exp q + 52) \<le> a" by auto
    also have "a < 2 powi (x + int 53)"
      unfolding a(1) by (rule scaled_less) (use a(2) in simp)
    also have "\<dots> \<le> 2 powi (unit_exp q + 52)" by (rule powi2_mono) (use x in simp)
    finally show False by simp
  qed
  then have "a = of_int (k * 2 ^ nat (x - unit_exp q)) * 2 powi (unit_exp q)"
    using powi2_add [of "x - unit_exp q" "unit_exp q"] by (simp add: a(1) power_int_def)
  then show ?thesis by blast
qed

text \<open>The significand and the unit of a positive rational.\<close>

lemma unit_exp_low: "0 < q \<Longrightarrow> unit_exp q = - 1074 \<or> 2 powi (unit_exp q + 52) \<le> q"
  using ilog2_bounds [of q] by (auto simp: unit_exp_def max_def)

lemma dround_cases:
  assumes "0 < q" "dround neg q \<noteq> PosInf"
  shows "dround neg q = Fin (of_int (rne (q * 2 powi (- unit_exp q))) * 2 powi (unit_exp q))
    \<or> dround neg q = Fin 0 \<and> rne (q * 2 powi (- unit_exp q)) = 0"
  using assms by (auto simp: dround_def Let_def split: if_splits)

lemma dround_ge:
  assumes a: "representable a" and q: "0 < q" "a \<le> q" and fin: "dround neg q \<noteq> PosInf"
  shows "\<exists>v. dround neg q = Fin v \<and> a \<le> v"
proof -
  let ?u = "unit_exp q" and ?r = "rne (q * 2 powi (- unit_exp q))"
  have nn: "0 \<le> ?r" using q(1) by (intro rne_ge) simp
  have le: "a \<le> of_int ?r * 2 powi ?u"
  proof (cases "?u = - 1074 \<or> 2 powi (?u + 52) \<le> a")
    case True
    then obtain z where z: "a = of_int z * 2 powi ?u"
      using representable_on_grid [OF a] by blast
    have "of_int z \<le> q * 2 powi (- ?u)"
      using q(2) by (simp add: z power_int_minus field_simps)
    then have "z \<le> ?r" by (rule rne_ge)
    then show ?thesis by (simp add: z)
  next
    case False
    then have "2 powi (?u + 52) \<le> q" using unit_exp_low [OF q(1)] by blast
    then have "of_int (2 ^ 52) \<le> q * 2 powi (- ?u)"
      by (simp add: powi2_add power_int_minus field_simps)
    then have "2 ^ 52 \<le> ?r" by (rule rne_ge)
    from scaled_le [OF this, of ?u] have "(2::rat) powi (?u + 52) \<le> of_int ?r * 2 powi ?u" by simp
    then show ?thesis using False by linarith
  qed
  with dround_cases [OF q(1) fin] show ?thesis by auto
qed

lemma dround_le:
  assumes a: "representable a" and q: "0 < q" "q \<le> a"
  shows "\<exists>v. dround neg q = Fin v \<and> 0 \<le> v \<and> v \<le> a"
proof -
  let ?u = "unit_exp q" and ?r = "rne (q * 2 powi (- unit_exp q))"
  have nn: "0 \<le> ?r" using q(1) by (intro rne_ge) simp
  have low: "?u = - 1074 \<or> 2 powi (?u + 52) \<le> a" using unit_exp_low [OF q(1)] q(2) by auto
  from representable_on_grid [OF a this] obtain z where z: "a = of_int z * 2 powi ?u" ..
  have "q * 2 powi (- ?u) \<le> of_int z"
    using q(2) by (simp add: z power_int_minus field_simps)
  then have rz: "?r \<le> z" by (rule rne_le)
  then have le: "of_int ?r * 2 powi ?u \<le> a" by (simp add: z)
  have "dround neg q \<noteq> PosInf"
  proof
    assume "dround neg q = PosInf"
    then have big: "971 < ?u \<or> ?u = 971 \<and> 2 ^ 53 \<le> ?r"
      using q(1) by (auto simp: dround_def Let_def split: if_splits)
    from a obtain k x where k: "a = of_int k * 2 powi x" "\<bar>k\<bar> < 2 ^ 53" "x \<le> 971"
      unfolding representable_def by blast
    have "a < 2 powi (x + int 53)"
      unfolding k(1) by (rule scaled_less) (use k(2) in simp)
    also have "\<dots> \<le> 2 powi 1024" by (rule powi2_mono) (use k(3) in simp)
    finally have a: "a < 2 powi 1024" .
    show False
    proof (cases "971 < ?u")
      case True
      have "(2::rat) powi 1024 \<le> 2 powi (?u + 52)" by (rule powi2_mono) (use True in simp)
      also have "\<dots> \<le> a" using low True by linarith
      finally show False using a by linarith
    next
      case False
      with big have u: "?u = 971" "2 ^ 53 \<le> ?r" by auto
      have "(2::rat) powi 1024 \<le> 2 powi (?u + int 53)" by (rule powi2_mono) (use u(1) in simp)
      also have "\<dots> \<le> of_int ?r * 2 powi ?u" by (rule scaled_le [OF u(2)])
      finally show False using le a by linarith
    qed
  qed
  from dround_cases [OF q(1) this] le nn q show ?thesis by auto
qed

lemma dround_between:
  assumes "representable a" "representable b" "0 < q" "a \<le> q" "q \<le> b"
  shows "\<exists>v. dround neg q = Fin v \<and> a \<le> v \<and> v \<le> b"
proof -
  from dround_le [OF assms(2,3,5), of neg] obtain v where v: "dround neg q = Fin v" "v \<le> b" by blast
  with dround_ge [OF assms(1,3,4), of neg] show ?thesis by auto
qed

end
