(* ===== verification/RouteEvents.thy ===== *)
theory RouteEvents
  imports JsJson JsMath
begin

text \<open>
  \<open>lib/route-events.ts\<close>: the client of the lane state stream.  The incremental parser of server-sent
  events with its four variables as a record, the validation of \<open>route-state\<close> frames, the
  reconciliation of streamed and polled snapshots, the backoff delay, and the connection loop as
  a function of the events that its awaits deliver.
\<close>

section \<open>Backoff\<close>

definition RECONNECT_BASE_MS :: jsnum where "RECONNECT_BASE_MS = Fin 1000"
definition RECONNECT_MAX_MS :: jsnum where "RECONNECT_MAX_MS = Fin 30000"
definition RECONNECT_JITTER_RATIO :: jsnum where "RECONNECT_JITTER_RATIO = Fin (1 / 4)"
definition SSE_SNAPSHOT_STALE_MS :: jsnum where "SSE_SNAPSHOT_STALE_MS = Fin 10000"

record reconnect_options =
  ro_baseMs :: "jsnum option"
  ro_maxMs :: "jsnum option"
  ro_jitterRatio :: "jsnum option"

definition default_options :: reconnect_options where
  "default_options = \<lparr>ro_baseMs = None, ro_maxMs = None, ro_jitterRatio = None\<rparr>"

text \<open>\<open>random\<close> is the value the call of the injected function returns; attempts are integers.\<close>

definition reconnectDelayMs :: "int \<Rightarrow> reconnect_options \<Rightarrow> jsnum \<Rightarrow> jsnum" where
  "reconnectDelayMs attempt options random =
     (let baseMs = or_else (ro_baseMs options) RECONNECT_BASE_MS;
          maxMs = or_else (ro_maxMs options) RECONNECT_MAX_MS;
          jitterRatio = or_else (ro_jitterRatio options) RECONNECT_JITTER_RATIO;
          capped = num_min maxMs (num_mul baseMs (two_pow (nat (max 0 attempt))));
          jitter = num_add (Fin 1) (num_mul random jitterRatio) in
      num_min maxMs (num_round (num_mul capped jitter)))"

section \<open>Server-sent events\<close>

record sse_frame =
  sse_event :: jsstr
  sse_data :: jsstr

record sse_parser =
  sp_buffer :: jsstr
  sp_eventName :: jsstr
  sp_dataLines :: "jsstr list"
  sp_pending :: "sse_frame list"

definition createSseFrameParser :: sse_parser where
  "createSseFrameParser =
     \<lparr>sp_buffer = [], sp_eventName = js ''message'', sp_dataLines = [], sp_pending = []\<rparr>"

definition push_frame :: "sse_parser \<Rightarrow> sse_parser" where
  "push_frame p = p\<lparr>sp_pending := sp_pending p @
     [\<lparr>sse_event = sp_eventName p, sse_data = join [10] (sp_dataLines p)\<rparr>]\<rparr>"

definition reset_frame :: "sse_parser \<Rightarrow> sse_parser" where
  "reset_frame p = p\<lparr>sp_eventName := js ''message'', sp_dataLines := []\<rparr>"

text \<open>The field name of a line and its value, without one leading space.\<close>

definition line_field :: "jsstr \<Rightarrow> jsstr" where
  "line_field line = (case index_of (js '':'') line of None \<Rightarrow> line | Some colon \<Rightarrow> take colon line)"

definition line_value :: "jsstr \<Rightarrow> jsstr" where
  "line_value line =
     (let value = (case index_of (js '':'') line of None \<Rightarrow> [] | Some colon \<Rightarrow> drop (colon + 1) line) in
      if starts_with (js '' '') value then drop 1 value else value)"

definition takeLine :: "jsstr \<Rightarrow> sse_parser \<Rightarrow> sse_parser" where
  "takeLine line p =
     (if line = [] then reset_frame (if sp_dataLines p \<noteq> [] then push_frame p else p)
      else if starts_with (js '':'') line then p
      else if line_field line = js ''event'' then p\<lparr>sp_eventName := line_value line\<rparr>
      else if line_field line = js ''data'' then p\<lparr>sp_dataLines := sp_dataLines p @ [line_value line]\<rparr>
      else p)"

text \<open>\<open>line.replace(/\r$/, '')\<close>\<close>

definition strip_cr :: "jsstr \<Rightarrow> jsstr" where
  "strip_cr line = (if line \<noteq> [] \<and> last line = 13 then butlast line else line)"

lemma takeLine_buffer [simp]: "sp_buffer (takeLine line p) = sp_buffer p"
  by (simp add: takeLine_def reset_frame_def push_frame_def)

function drain_lines :: "sse_parser \<Rightarrow> sse_parser" where
  "drain_lines p =
     (case index_of [10] (sp_buffer p) of
        None \<Rightarrow> p
      | Some idx \<Rightarrow>
          drain_lines (takeLine (strip_cr (take idx (sp_buffer p)))
            (p\<lparr>sp_buffer := drop (idx + 1) (sp_buffer p)\<rparr>)))"
  by pat_completeness auto

termination
proof (relation "measure (\<lambda>p. length (sp_buffer p))", goal_cases)
  case (2 p idx)
  then have "idx + 1 \<le> length (sp_buffer p)" using index_of_Some [of "[10]"] by simp
  then show ?case by auto
qed simp

declare drain_lines.simps [simp del]

definition splice_pending :: "sse_parser \<Rightarrow> sse_frame list \<times> sse_parser" where
  "splice_pending p = (sp_pending p, p\<lparr>sp_pending := []\<rparr>)"

definition feed :: "jsstr \<Rightarrow> sse_parser \<Rightarrow> sse_frame list \<times> sse_parser" where
  "feed chunk p = splice_pending (drain_lines (p\<lparr>sp_buffer := sp_buffer p @ chunk\<rparr>))"

definition flush :: "sse_parser \<Rightarrow> sse_frame list \<times> sse_parser" where
  "flush p =
     (let p1 = (if sp_buffer p \<noteq> [] then takeLine (strip_cr (sp_buffer p)) (p\<lparr>sp_buffer := []\<rparr>) else p);
          p2 = (if sp_dataLines p1 \<noteq> [] then reset_frame (push_frame p1) else p1) in
      splice_pending p2)"

text \<open>The frames a reader gets that feeds the chunks of a stream in turn and flushes at its end.\<close>

fun feed_all :: "jsstr list \<Rightarrow> sse_parser \<Rightarrow> sse_frame list \<times> sse_parser" where
  "feed_all [] p = ([], p)"
| "feed_all (chunk # chunks) p =
     (let (fs, p1) = feed chunk p; (gs, p2) = feed_all chunks p1 in (fs @ gs, p2))"

definition read_stream :: "jsstr list \<Rightarrow> sse_frame list" where
  "read_stream chunks =
     (let (fs, p) = feed_all chunks createSseFrameParser; (gs, p') = flush p in fs @ gs)"

section \<open>Snapshots\<close>

record lane_member_health =
  lm_member :: jsstr
  lm_channel :: jsstr
  lm_upstream_model :: jsstr
  lm_circuit :: jsstr
  lm_consecutive_failures :: jsnum
  lm_failure_score :: "jsnum option"
  lm_rolling_success_rate :: "jsnum option"
  lm_cooldown_until :: "jsstr option"
  lm_circuit_open_until :: "jsstr option"
  lm_last_error_kind :: "jsstr option"
  lm_current :: bool
  lm_probing :: bool
  lm_available :: bool
  lm_enabled :: "bool option"

record lane_affinity =
  la_channel :: jsstr
  la_upstream_model :: jsstr
  la_until :: "jsstr option"

record lane_health_snapshot =
  ls_lane :: jsstr
  ls_source :: "jsstr option"
  ls_mode :: "jsstr option"
  ls_current_member :: jsstr
  ls_probe_member :: jsstr
  ls_affinity :: "lane_affinity option"
  ls_members :: "lane_member_health list"
  ls_events :: "jsval list option"

text \<open>
  Frames are validated on the value that \<open>JSON.parse\<close> returns; the type of a snapshot is asserted, not
  checked, so a parsed frame carries the values themselves.
\<close>

definition isLaneHealthSnapshot :: "jsval \<Rightarrow> bool" where
  "isLaneHealthSnapshot v \<longleftrightarrow>
     typeof_object v \<and> v \<noteq> JNull
     \<and> is_string (get_prop v (js ''lane'')) \<and> is_array (get_prop v (js ''members''))"

record route_state_frame =
  rs_ts :: jsstr
  rs_lanes :: "jsval list"

definition parseRouteStateFrame :: "sse_frame \<Rightarrow> route_state_frame option" where
  "parseRouteStateFrame frame =
     (if sse_event frame \<noteq> js ''route-state'' then None
      else (case json_parse (sse_data frame) of
        None \<Rightarrow> None
      | Some raw \<Rightarrow>
          if \<not> typeof_object raw \<or> raw = JNull then None
          else (case (get_prop raw (js ''ts''), get_prop raw (js ''lanes'')) of
              (JStr ts, JArr all) \<Rightarrow>
                (let lanes = filter isLaneHealthSnapshot all in
                 if length lanes \<noteq> length all then None
                 else Some \<lparr>rs_ts = ts, rs_lanes = lanes\<rparr>)
            | _ \<Rightarrow> None)))"

record resolve_params =
  rp_sseLanes :: "lane_health_snapshot list option"
  rp_sseReceivedAt :: "jsnum option"
  rp_sseConnected :: bool
  rp_pollLanes :: "lane_health_snapshot list option"
  rp_now :: jsnum
  rp_staleMs :: "jsnum option"

record resolved_lane_runtime =
  rl_byLane :: "(jsstr \<times> lane_health_snapshot) list"
  rl_sseDriven :: bool

definition sse_fresh :: "resolve_params \<Rightarrow> bool" where
  "sse_fresh params \<longleftrightarrow>
     rp_sseConnected params \<and> rp_sseLanes params \<noteq> None
     \<and> (case rp_sseReceivedAt params of None \<Rightarrow> False
          | Some received \<Rightarrow> num_le (num_sub (rp_now params) received) (or_else (rp_staleMs params) SSE_SNAPSHOT_STALE_MS))"

definition toMap :: "lane_health_snapshot list option \<Rightarrow> (jsstr \<times> lane_health_snapshot) list" where
  "toMap lanes = from_entries (map (\<lambda>lane. (ls_lane lane, lane)) (or_else lanes []))"

text \<open>\<open>for (const [name, snap] of fallback) if (!byLane.has(name)) byLane.set(name, snap)\<close>\<close>

definition fill_missing :: "('k \<times> 'v) list \<Rightarrow> ('k \<times> 'v) list \<Rightarrow> ('k \<times> 'v) list" where
  "fill_missing byLane fallback =
     fold (\<lambda>(name, snap) m. if map_of m name = None then map_set name snap m else m) fallback byLane"

definition resolveLaneSnapshots :: "resolve_params \<Rightarrow> resolved_lane_runtime" where
  "resolveLaneSnapshots params =
     (let fresh = sse_fresh params;
          byLane = toMap (if fresh then rp_sseLanes params else rp_pollLanes params);
          fallback = toMap (if fresh then rp_pollLanes params else rp_sseLanes params) in
      \<lparr>rl_byLane = fill_missing byLane fallback, rl_sseDriven = fresh\<rparr>)"

section \<open>The connection loop\<close>

text \<open>
  \<open>openRouteEventStream\<close> runs one asynchronous loop and returns \<open>close\<close>.  The phase is the await the
  loop is suspended at.  An event is what settles that await, or a call of \<open>close\<close>, which may
  come at any moment; \<open>closed\<close> and the abort signal are set together.  The calls of \<open>onStatus\<close> and
  \<open>onLanes\<close>, which return normally, are logged.
\<close>

datatype route_event_status = Connecting | Open | Reconnecting | Closed

datatype stream_phase =
    AwaitHeaders
  | AwaitFetch
  | Reading sse_parser
  | Sleeping jsnum
  | Returned

datatype stream_event =
    HeadersReady
  | HeadersFailed
  | Responded bool bool
  | FetchFailed
  | Chunk jsstr
  | StreamEnded
  | ReadFailed
  | Woken
  | CloseCalled

record stream_options =
  so_delayFor :: "(nat \<Rightarrow> jsnum) option"
  so_random :: "nat \<Rightarrow> jsnum"

record stream_state =
  ss_closed :: bool
  ss_attempt :: nat
  ss_received :: bool
  ss_draws :: nat
  ss_phase :: stream_phase
  ss_status :: "route_event_status list"
  ss_lanes :: "route_state_frame list"

definition setStatus :: "route_event_status \<Rightarrow> stream_state \<Rightarrow> stream_state" where
  "setStatus status s = s\<lparr>ss_status := ss_status s @ [status]\<rparr>"

definition emitFrame :: "sse_frame \<Rightarrow> stream_state \<Rightarrow> stream_state" where
  "emitFrame frame s =
     (case parseRouteStateFrame frame of
        None \<Rightarrow> s
      | Some parsed \<Rightarrow> s\<lparr>ss_lanes := ss_lanes s @ [parsed], ss_received := True\<rparr>)"

definition loop_head :: "stream_state \<Rightarrow> stream_state" where
  "loop_head s =
     (if ss_closed s then s\<lparr>ss_phase := Returned\<rparr>
      else (setStatus (if ss_attempt s = 0 then Connecting else Reconnecting) s)
        \<lparr>ss_received := False, ss_phase := AwaitHeaders\<rparr>)"

definition backoff_delay :: "stream_options \<Rightarrow> nat \<Rightarrow> nat \<Rightarrow> jsnum" where
  "backoff_delay options attempt draw =
     (case so_delayFor options of
        Some f \<Rightarrow> f attempt
      | None \<Rightarrow> reconnectDelayMs (int attempt) default_options (so_random options draw))"

text \<open>What follows the \<open>try\<close> statement, however it was left.\<close>

definition after_connection :: "stream_options \<Rightarrow> stream_state \<Rightarrow> stream_state" where
  "after_connection options s =
     (if ss_closed s then s\<lparr>ss_phase := Returned\<rparr>
      else
        (let attempt = (if ss_received s then 0 else ss_attempt s) in
         s\<lparr>ss_attempt := attempt + 1, ss_draws := Suc (ss_draws s),
           ss_phase := Sleeping (backoff_delay options attempt (ss_draws s))\<rparr>))"

definition stream_step :: "stream_options \<Rightarrow> stream_event \<Rightarrow> stream_state \<Rightarrow> stream_state option" where
  "stream_step options e s =
     (case (e, ss_phase s) of
        (CloseCalled, _) \<Rightarrow> Some (setStatus Closed (s\<lparr>ss_closed := True\<rparr>))
      | (HeadersReady, AwaitHeaders) \<Rightarrow> Some (s\<lparr>ss_phase := AwaitFetch\<rparr>)
      | (HeadersFailed, AwaitHeaders) \<Rightarrow> Some (after_connection options s)
      | (Responded ok hasBody, AwaitFetch) \<Rightarrow>
          if \<not> ok \<or> \<not> hasBody then Some (after_connection options s)
          else Some ((setStatus Open s)\<lparr>ss_phase := Reading createSseFrameParser\<rparr>)
      | (FetchFailed, AwaitFetch) \<Rightarrow> Some (after_connection options s)
      | (Chunk chunk, Reading p) \<Rightarrow>
          (let (frames, p') = feed chunk p in
           Some ((fold emitFrame frames s)\<lparr>ss_phase := Reading p'\<rparr>))
      | (StreamEnded, Reading p) \<Rightarrow>
          Some (after_connection options (fold emitFrame (fst (flush p)) s))
      | (ReadFailed, Reading p) \<Rightarrow> Some (after_connection options s)
      | (Woken, Sleeping d) \<Rightarrow> Some (loop_head s)
      | _ \<Rightarrow> None)"

fun stream_steps :: "stream_options \<Rightarrow> stream_event list \<Rightarrow> stream_state \<Rightarrow> stream_state option" where
  "stream_steps options [] s = Some s"
| "stream_steps options (e # es) s =
     (case stream_step options e s of None \<Rightarrow> None | Some s' \<Rightarrow> stream_steps options es s')"

definition openRouteEventStream :: stream_state where
  "openRouteEventStream =
     loop_head \<lparr>ss_closed = False, ss_attempt = 0, ss_received = False, ss_draws = 0,
       ss_phase = Returned, ss_status = [], ss_lanes = []\<rparr>"

section \<open>The frames of a text\<close>

text \<open>
  What a stream of server-sent events denotes, on its whole text: lines end in a line feed, a
  carriage return before it is dropped, blank lines separate blocks, a block with some \<open>data\<close>
  line is a frame of its last \<open>event\<close> name and its data lines.
\<close>

fun blocks :: "jsstr list \<Rightarrow> jsstr list list" where
  "blocks [] = [[]]"
| "blocks (l # ls) =
     (if l = [] then [] # blocks ls else (case blocks ls of [] \<Rightarrow> [[l]] | b # bs \<Rightarrow> (l # b) # bs))"

definition fields :: "jsstr \<Rightarrow> jsstr list \<Rightarrow> jsstr list" where
  "fields name block =
     map line_value (filter (\<lambda>l. \<not> starts_with (js '':'') l \<and> line_field l = name) block)"

definition block_frame :: "jsstr list \<Rightarrow> sse_frame option" where
  "block_frame block =
     (if fields (js ''data'') block = [] then None
      else Some \<lparr>sse_event = last (js ''message'' # fields (js ''event'') block),
                 sse_data = join [10] (fields (js ''data'') block)\<rparr>)"

definition sse_frames :: "jsstr \<Rightarrow> sse_frame list" where
  "sse_frames stream = List.map_filter block_frame (blocks (map strip_cr (split_on 10 stream)))"

section \<open>Lemmas: parsing does not depend on the chunks\<close>

definition take_lines :: "jsstr list \<Rightarrow> sse_parser \<Rightarrow> sse_parser" where
  "take_lines ls p = fold (\<lambda>l. takeLine (strip_cr l)) ls p"

lemma split_on_index:
  "index_of [c] s = Some i \<Longrightarrow> split_on c s = take i s # split_on c (drop (i + 1) s)"
proof (induction s arbitrary: i)
  case (Cons x xs)
  then show ?case by (cases "x = c") (auto simp: starts_with_def)
qed (simp add: starts_with_def)

lemma split_on_no_index: "index_of [c] s = None \<Longrightarrow> split_on c s = [s]"
proof (induction s)
  case (Cons x xs)
  then show ?case by (cases "x = c") (auto simp: starts_with_def)
qed simp

lemma takeLine_set_buffer: "takeLine l (p\<lparr>sp_buffer := b\<rparr>) = (takeLine l p)\<lparr>sp_buffer := b\<rparr>"
  by (simp add: takeLine_def reset_frame_def push_frame_def)

lemma take_lines_set_buffer: "take_lines ls (p\<lparr>sp_buffer := b\<rparr>) = (take_lines ls p)\<lparr>sp_buffer := b\<rparr>"
  unfolding take_lines_def by (induction ls arbitrary: p) (simp_all add: takeLine_set_buffer)

lemma drain_lines_spec:
  "drain_lines p =
     (take_lines (butlast (split_on 10 (sp_buffer p))) p)\<lparr>sp_buffer := last (split_on 10 (sp_buffer p))\<rparr>"
proof (induction p rule: drain_lines.induct)
  case (1 p)
  show ?case
  proof (cases "index_of [10] (sp_buffer p)")
    case None
    then show ?thesis by (subst drain_lines.simps) (simp add: split_on_no_index take_lines_def)
  next
    case (Some i)
    let ?q = "takeLine (strip_cr (take i (sp_buffer p))) (p\<lparr>sp_buffer := drop (i + 1) (sp_buffer p)\<rparr>)"
    have "drain_lines p = drain_lines ?q"
      by (subst drain_lines.simps) (simp add: Some)
    also have "\<dots> = (take_lines (butlast (split_on 10 (sp_buffer ?q))) ?q)\<lparr>sp_buffer := last (split_on 10 (sp_buffer ?q))\<rparr>"
      by (rule "1.IH" [OF Some])
    also have "\<dots> = (take_lines (butlast (split_on 10 (sp_buffer p))) p)\<lparr>sp_buffer := last (split_on 10 (sp_buffer p))\<rparr>"
      by (simp add: split_on_index [OF Some] takeLine_set_buffer take_lines_set_buffer)
        (simp add: take_lines_def)
    finally show ?thesis .
  qed
qed


text \<open>Frames that are pending do not matter to the parser.\<close>

lemma takeLine_pending:
  "takeLine l (p\<lparr>sp_pending := ps @ sp_pending p\<rparr>) = (takeLine l p)\<lparr>sp_pending := ps @ sp_pending (takeLine l p)\<rparr>"
  by (simp add: takeLine_def reset_frame_def push_frame_def)

lemma take_lines_pending:
  "take_lines ls (p\<lparr>sp_pending := ps @ sp_pending p\<rparr>) =
     (take_lines ls p)\<lparr>sp_pending := ps @ sp_pending (take_lines ls p)\<rparr>"
  unfolding take_lines_def by (induction ls arbitrary: p) (simp_all add: takeLine_pending)

lemma split_on_append_any:
  "split_on c (a @ b) = butlast (split_on c a) @ split_on c (last (split_on c a) @ b)"
proof (induction a)
  case (Cons x a)
  obtain q qs where "split_on c a = q # qs" using split_on_ne [of c a] by (cases "split_on c a") auto
  moreover obtain r rs where "split_on c (last (split_on c a) @ b) = r # rs"
    using split_on_ne by (metis list.exhaust)
  ultimately show ?case using Cons by (auto split: list.splits)
qed simp

lemma take_lines_append: "take_lines (ls @ ms) p = take_lines ms (take_lines ls p)"
  by (simp add: take_lines_def)

lemma feed_append:
  assumes "feed a p = (fs, q)" "feed b q = (gs, r)"
  shows "feed (a @ b) p = (fs @ gs, r)"
proof -
  define la where "la = split_on 10 (sp_buffer p @ a)"
  define lb where "lb = split_on 10 (last la @ b)"
  define q' where "q' = take_lines (butlast la) p"
  have fq: "fs = sp_pending q'" "q = q'\<lparr>sp_buffer := last la, sp_pending := []\<rparr>"
    using assms(1) by (auto simp: feed_def splice_pending_def drain_lines_spec la_def q'_def take_lines_set_buffer)
  have qb: "sp_buffer q = last la" using fq(2) by simp
  define r' where "r' = take_lines (butlast lb) q"
  have gr: "gs = sp_pending r'" "r = r'\<lparr>sp_buffer := last lb, sp_pending := []\<rparr>"
    using assms(2) qb by (auto simp: feed_def splice_pending_def drain_lines_spec lb_def r'_def take_lines_set_buffer)
  have split: "split_on 10 ((sp_buffer p @ a) @ b) = butlast la @ lb"
    unfolding la_def lb_def by (rule split_on_append_any)
  have lb: "lb \<noteq> []" by (simp add: lb_def)
  have "feed (a @ b) p = splice_pending ((take_lines (butlast lb) q')\<lparr>sp_buffer := last lb\<rparr>)"
    using split lb by (simp add: feed_def drain_lines_spec take_lines_set_buffer butlast_append take_lines_append q'_def)
  also have "q' = (q\<lparr>sp_pending := fs @ sp_pending q\<rparr>)\<lparr>sp_buffer := sp_buffer q'\<rparr>"
    using fq by simp
  finally show ?thesis
    unfolding take_lines_set_buffer take_lines_pending r'_def [symmetric]
    using gr by (simp add: splice_pending_def)
qed

lemma feed_all_concat: "chunks \<noteq> [] \<Longrightarrow> feed_all chunks p = feed (concat chunks) p"
proof (induction chunks arbitrary: p)
  case (Cons a chunks)
  obtain fs q where f: "feed a p = (fs, q)" by (cases "feed a p")
  show ?case
  proof (cases "chunks = []")
    case True
    with f show ?thesis by simp
  next
    case False
    obtain gs r where g: "feed (concat chunks) q = (gs, r)" by (cases "feed (concat chunks) q")
    with f Cons.IH [OF False] feed_append [OF f g] show ?thesis by simp
  qed
qed simp

subsection \<open>Lines and blocks\<close>

definition close_frame :: "sse_parser \<Rightarrow> sse_frame list" where
  "close_frame p = sp_pending (if sp_dataLines p \<noteq> [] then push_frame p else p)"

definition frame_from :: "jsstr \<Rightarrow> jsstr list \<Rightarrow> jsstr list \<Rightarrow> sse_frame option" where
  "frame_from e ds block =
     (if ds @ fields (js ''data'') block = [] then None
      else Some \<lparr>sse_event = last (e # fields (js ''event'') block),
                 sse_data = join [10] (ds @ fields (js ''data'') block)\<rparr>)"

lemma block_frame_from: "block_frame = frame_from (js ''message'') []"
  by (auto simp: block_frame_def frame_from_def)

lemma blocks_ne [simp]: "blocks ls \<noteq> []"
  by (induction ls) (auto split: list.splits)

lemma map_filter_Cons: "List.map_filter f (x # xs) = (case f x of None \<Rightarrow> [] | Some y \<Rightarrow> [y]) @ List.map_filter f xs"
  by (simp add: List.map_filter_def split: option.splits)

lemma take_lines_blocks:
  "close_frame (fold takeLine ls p) = sp_pending p @
     (case frame_from (sp_eventName p) (sp_dataLines p) (hd (blocks ls)) of None \<Rightarrow> [] | Some f \<Rightarrow> [f])
     @ List.map_filter block_frame (tl (blocks ls))"
proof (induction ls arbitrary: p)
  case Nil
  show ?case by (simp add: close_frame_def frame_from_def fields_def push_frame_def List.map_filter_def)
next
  case (Cons l ls)
  obtain b bs where b: "blocks ls = b # bs" using blocks_ne by (metis list.exhaust)
  show ?case
  proof (cases "l = []")
    case True
    then show ?thesis
      using Cons.IH [of "takeLine l p"] b
      by (simp add: takeLine_def reset_frame_def push_frame_def block_frame_from [symmetric] map_filter_Cons)
        (simp add: frame_from_def fields_def split: option.split)
  next
    case False
    then show ?thesis
      using Cons.IH [of "takeLine l p"] b
      by (simp add: takeLine_def frame_from_def fields_def)
  qed
qed

lemma flush_frames:
  "fst (flush p) = close_frame (takeLine (strip_cr (sp_buffer p)) p)"
proof (cases "sp_buffer p = []")
  case True
  then show ?thesis
    by (simp add: flush_def splice_pending_def close_frame_def strip_cr_def takeLine_def reset_frame_def push_frame_def Let_def)
next
  case False
  then show ?thesis
    by (simp add: flush_def splice_pending_def close_frame_def Let_def takeLine_set_buffer)
      (simp add: push_frame_def reset_frame_def)
qed

lemma close_frame_pending:
  "sp_pending q @ close_frame (takeLine l (q\<lparr>sp_buffer := b, sp_pending := []\<rparr>)) = close_frame (takeLine l q)"
  by (simp add: takeLine_def close_frame_def reset_frame_def push_frame_def)

lemma take_lines_fold: "take_lines ls p = fold takeLine (map strip_cr ls) p"
  by (simp add: take_lines_def fold_map comp_def)

lemma read_stream_frames: "read_stream chunks = sse_frames (concat chunks)"
proof -
  let ?p0 = createSseFrameParser and ?ls = "split_on 10 (concat chunks)"
  have "feed [] ?p0 = ([], ?p0)"
    by (simp add: feed_def splice_pending_def drain_lines_spec take_lines_def createSseFrameParser_def)
  then have "feed_all chunks ?p0 = feed (concat chunks) ?p0"
    using feed_all_concat by (cases "chunks = []") auto
  moreover define q where "q = take_lines (butlast ?ls) ?p0"
  moreover have "sp_buffer ?p0 = []" by (simp add: createSseFrameParser_def)
  ultimately have fa: "feed_all chunks ?p0 = (sp_pending q, q\<lparr>sp_buffer := last ?ls, sp_pending := []\<rparr>)"
    by (simp add: feed_def splice_pending_def drain_lines_spec take_lines_set_buffer)
  have "read_stream chunks = sp_pending q @ close_frame (takeLine (strip_cr (last ?ls)) (q\<lparr>sp_buffer := last ?ls, sp_pending := []\<rparr>))"
    using flush_frames [of "q\<lparr>sp_buffer := last ?ls, sp_pending := []\<rparr>"]
    by (simp add: read_stream_def fa split_beta)
  also have "\<dots> = close_frame (takeLine (strip_cr (last ?ls)) q)"
    by (rule close_frame_pending)
  also have "takeLine (strip_cr (last ?ls)) q = take_lines (butlast ?ls @ [last ?ls]) ?p0"
    unfolding q_def take_lines_append by (simp add: take_lines_def)
  also have "butlast ?ls @ [last ?ls] = ?ls" by (rule append_butlast_last_id) simp
  also have "close_frame (take_lines ?ls ?p0) = sse_frames (concat chunks)"
    unfolding take_lines_fold take_lines_blocks sse_frames_def
    by (cases "blocks (map strip_cr ?ls)")
      (simp_all add: createSseFrameParser_def block_frame_from [symmetric] map_filter_Cons split: option.split)
  finally show ?thesis .
qed

section \<open>Lemmas: reconciliation\<close>

lemma map_of_from_entries: "map_of (from_entries es) k = map_of (rev es) k"
proof (induction es rule: rev_induct)
  case (snoc e es)
  obtain a v where "e = (a, v)" by (cases e)
  with snoc show ?case by (simp add: from_entries_def)
qed (simp add: from_entries_def)

lemma map_of_fill_missing:
  "map_of (fill_missing m es) k = (case map_of m k of Some v \<Rightarrow> Some v | None \<Rightarrow> map_of es k)"
proof (induction es arbitrary: m)
  case (Cons e es)
  obtain a v where e: "e = (a, v)" by (cases e)
  define m' where "m' = (if map_of m a = None then map_set a v m else m)"
  have "fill_missing m (e # es) = fill_missing m' es" by (simp add: fill_missing_def e m'_def)
  then show ?case using Cons.IH [of m'] by (simp add: e m'_def split: option.split)
qed (simp add: fill_missing_def split: option.split)

lemma map_of_keyed: "map_of (map (\<lambda>x. (f x, x)) xs) k = find (\<lambda>x. f x = k) xs"
  by (induction xs) auto

lemma toMap_lookup: "map_of (toMap lanes) name = find (\<lambda>l. ls_lane l = name) (rev (or_else lanes []))"
  unfolding toMap_def map_of_from_entries by (simp add: rev_map map_of_keyed)

section \<open>Lemmas: the connection loop\<close>

lemma emit_frames_keep [simp]:
  "ss_closed (fold emitFrame fs s) = ss_closed s"
  "ss_attempt (fold emitFrame fs s) = ss_attempt s"
  "ss_status (fold emitFrame fs s) = ss_status s"
  "ss_phase (fold emitFrame fs s) = ss_phase s"
  by (induction fs arbitrary: s; simp add: emitFrame_def split: option.split)+

text \<open>The loop is well: it has returned only after \<open>close\<close>, and no attempt is announced after it.\<close>

definition well :: "stream_state \<Rightarrow> bool" where
  "well s \<longleftrightarrow>
     (ss_phase s = Returned \<longrightarrow> ss_closed s)
     \<and> (ss_closed s \<longleftrightarrow> Closed \<in> set (ss_status s))
     \<and> set (dropWhile (\<lambda>x. x \<noteq> Closed) (ss_status s)) \<subseteq> {Closed, Open}"

lemma announce_before_close:
  "Closed \<notin> set xs \<Longrightarrow> set (dropWhile (\<lambda>x. x \<noteq> Closed) (xs @ [y])) \<subseteq> {Closed, Open} \<longleftrightarrow> True"
  by (induction xs) auto

lemma dropWhile_status_snoc:
  "set (dropWhile (\<lambda>x. x \<noteq> Closed) (xs @ [y])) \<subseteq> {Closed, Open} \<longleftrightarrow>
     Closed \<notin> set xs \<or> y \<in> {Closed, Open} \<and> set (dropWhile (\<lambda>x. x \<noteq> Closed) xs) \<subseteq> {Closed, Open}"
  by (induction xs) auto

lemmas loop_defs = loop_head_def after_connection_def setStatus_def Let_def

lemma well_loop_head: "well s \<or> (ss_closed s \<longleftrightarrow> Closed \<in> set (ss_status s)) \<and> \<not> ss_closed s \<Longrightarrow> well (loop_head s)"
  by (auto simp: well_def loop_defs dropWhile_status_snoc)

lemma well_after_connection: "well s \<Longrightarrow> well (after_connection options s)"
  by (auto simp: well_def loop_defs)

lemma well_step: "well s \<Longrightarrow> stream_step options e s = Some s' \<Longrightarrow> well s'"
proof -
  assume w: "well s" and st: "stream_step options e s = Some s'"
  have wf: "well (fold emitFrame fs s)" for fs using w by (auto simp: well_def)
  from st w wf show ?thesis
    by (cases e; cases "ss_phase s")
      (auto simp: stream_step_def well_after_connection well_loop_head split: if_splits prod.splits,
       auto simp: well_def setStatus_def dropWhile_status_snoc)
qed

lemma well_steps: "well s \<Longrightarrow> stream_steps options es s = Some s' \<Longrightarrow> well s'"
  by (induction es arbitrary: s) (auto split: option.splits dest: well_step)

lemma well_open: "well openRouteEventStream"
  by (simp add: openRouteEventStream_def well_def loop_defs)

text \<open>
  The events that settle an await once the signal is aborted: pending headers settle, \<open>fetch\<close> and
  reads reject, and the sleep resolves.
\<close>

definition settles :: "stream_event \<Rightarrow> bool" where
  "settles e \<longleftrightarrow> e \<in> {HeadersReady, HeadersFailed, FetchFailed, ReadFailed, Woken}"

definition rank :: "stream_phase \<Rightarrow> nat" where
  "rank ph = (case ph of AwaitHeaders \<Rightarrow> 2 | Returned \<Rightarrow> 0 | _ \<Rightarrow> 1)"

lemma settle_step:
  "ss_closed s \<Longrightarrow> settles e \<Longrightarrow> stream_step options e s = Some s' \<Longrightarrow>
     ss_closed s' \<and> rank (ss_phase s') < rank (ss_phase s)"
  by (cases e; cases "ss_phase s") (auto simp: settles_def stream_step_def rank_def loop_defs)

lemma settle_enabled:
  "ss_phase s \<noteq> Returned \<Longrightarrow> \<exists>e. settles e \<and> stream_step options e s \<noteq> None"
  by (cases "ss_phase s")
    (force simp: settles_def stream_step_def intro: exI [of _ HeadersReady] exI [of _ FetchFailed]
      exI [of _ ReadFailed] exI [of _ Woken])+

lemma settle_steps:
  "ss_closed s \<Longrightarrow> list_all settles es \<Longrightarrow> stream_steps options es s = Some s' \<Longrightarrow>
     ss_closed s' \<and> length es + rank (ss_phase s') \<le> rank (ss_phase s)"
proof (induction es arbitrary: s)
  case (Cons e es)
  then obtain s1 where s1: "stream_step options e s = Some s1" "stream_steps options es s1 = Some s'"
    by (auto split: option.splits)
  with Cons settle_step [of s e options s1] show ?case by fastforce
qed simp

lemma rank_le: "rank ph \<le> 2"
  by (cases ph) (simp_all add: rank_def)

section \<open>Lemmas: the backoff delay\<close>

lemma num_min_Fin: "num_min (Fin a) (Fin b) = Fin (min a b)"
  by (auto simp: num_min_def num_zero_def min_def)

lemma dround_ge_or_inf:
  assumes "representable a" "0 < a" "a \<le> q"
  shows "dround neg q = PosInf \<or> (\<exists>v. dround neg q = Fin v \<and> a \<le> v)"
  using dround_ge [of a q neg] assms by force

lemma representable_int: "\<bar>k\<bar> < 2 ^ 53 \<Longrightarrow> representable (of_int k)"
  using representable_scaled [of k 0] by simp

lemma capped_delay:
  "num_min (Fin 30000) (num_mul (Fin 1000) (two_pow n)) = Fin (of_int (min 30000 (1000 * 2 ^ n)))"
proof (cases "n < 5")
  case True
  then consider "n = 0" | "n = 1" | "n = 2" | "n = 3" | "n = 4" by linarith
  then show ?thesis by cases (simp only:, code_simp)+
next
  case False
  then have p: "(2::rat) ^ 5 \<le> 2 ^ n" "(2::int) ^ 5 \<le> 2 ^ n" by (auto intro!: power_increasing simp del: power_numeral)
  have r: "representable 32" "representable 30000"
    using representable_int [of 32] representable_int [of 30000] by simp_all
  have tp: "dround False (2 ^ n) = PosInf \<or> (\<exists>v. dround False (2 ^ n) = Fin v \<and> 32 \<le> v)"
    using dround_ge_or_inf [OF r(1), of "2 ^ n" False] p(1) by simp
  then have mul: "num_mul (Fin 1000) (two_pow n) = PosInf \<or> (\<exists>w. num_mul (Fin 1000) (two_pow n) = Fin w \<and> 30000 \<le> w)"
  proof (elim disjE exE conjE)
    fix v assume "dround False (2 ^ n) = Fin v" "32 \<le> v"
    then show ?thesis using dround_ge_or_inf [OF r(2), of "1000 * v" False]
      by (simp add: two_pow_def num_mul_def)
  qed (simp_all add: two_pow_def num_mul_def num_zero_def signed_inf_def)
  moreover have "min 30000 (1000 * 2 ^ n) = (30000 :: int)" using p(2) by simp
  ultimately show ?thesis
    by (elim disjE exE conjE) (simp_all add: num_min_Fin num_min_def num_zero_def)
qed

lemma delay_bounds:
  assumes "0 \<le> r" "r < 1"
  shows "\<exists>d. reconnectDelayMs (int n) default_options (Fin r) = Fin (of_int d)
    \<and> min 30000 (1000 * 2 ^ n) \<le> d \<and> d \<le> 30000 \<and> d \<le> 1250 * 2 ^ n"
proof -
  define c :: int where "c = min 30000 (1000 * 2 ^ n)"
  have "(1::int) \<le> 2 ^ n" by simp
  then have c: "0 < c" "c \<le> 30000" unfolding c_def by linarith+
  have c5: "5 * c \<le> 5 * (1000 * 2 ^ n)" unfolding c_def by linarith
  have quarter: "representable (1 / 4)" "representable 1" "representable (5 / 4)"
    using representable_scaled [of 1 2] representable_scaled [of 1 0] representable_scaled [of 5 2] by simp_all
  have cs: "representable (of_int c)" "representable (of_int (5 * c) / 4)"
    using representable_scaled [of c 0] representable_scaled [of "5 * c" 2] c by simp_all
  obtain b where b: "num_mul (Fin r) (Fin (1 / 4)) = Fin b" "0 \<le> b" "b \<le> 1 / 4"
  proof (cases "r = 0")
    case True
    then show ?thesis using that [of 0] by (simp add: num_mul_def dround_def)
  next
    case False
    with dround_le [OF quarter(1), of "r / 4" False] assms that show ?thesis
      by (auto simp: num_mul_def)
  qed
  obtain j where j: "num_add (Fin 1) (Fin b) = Fin j" "1 \<le> j" "j \<le> 5 / 4"
    using dround_between [OF quarter(2,3), of "1 + b" False] b by auto
  have cj: "of_int c \<le> of_int c * j" "of_int c * j \<le> of_int (5 * c) / 4"
    using j c by (simp_all add: field_simps)
  with dround_between [OF cs, of "of_int c * j" False] c obtain v where
    v: "num_mul (Fin (of_int c)) (Fin j) = Fin v" "of_int c \<le> v" "v \<le> of_int (5 * c) / 4"
    using j by (auto simp: num_mul_def)
  define d where "d = \<lfloor>v + 1 / 2\<rfloor>"
  have "c \<le> d" unfolding d_def using v(2) by (simp add: le_floor_iff)
  have "v < of_int (1250 * 2 ^ n) + 1 / 2"
  proof -
    have "(of_int (5 * c) :: rat) \<le> of_int (5 * (1000 * 2 ^ n))" using c5 by (simp only: of_int_le_iff)
    then show ?thesis using v(3) by simp
  qed
  then have "d \<le> 1250 * 2 ^ n" unfolding d_def by (simp add: floor_le_iff)
  have "num_round (Fin v) = Fin (of_int d)" using v(2) c by (simp add: d_def)
  then have "reconnectDelayMs (int n) default_options (Fin r) = Fin (of_int (min 30000 d))"
    using b j v capped_delay [of n]
    by (simp add: reconnectDelayMs_def default_options_def or_else_def RECONNECT_BASE_MS_def RECONNECT_MAX_MS_def
        RECONNECT_JITTER_RATIO_def Let_def c_def [symmetric] num_min_Fin)
  then show ?thesis
    using \<open>c \<le> d\<close> \<open>d \<le> 1250 * 2 ^ n\<close> c by (intro exI [of _ "min 30000 d"]) (auto simp: c_def)
qed

section \<open>Properties\<close>

text \<open>
  C2. Parsing does not depend on how the network cuts the stream: however a text is cut into
  chunks, also inside a line ending, feeding them and flushing yields the frames that the
  whole text denotes.
\<close>

theorem sse_chunks_irrelevant: "read_stream chunks = sse_frames (concat chunks)"
  by (rule read_stream_frames)

text \<open>
  C37. The backoff delay is an integer of milliseconds between the doubled base, capped at 30000,
  and a quarter more than it, and it never exceeds 30000, at every attempt and in the
  arithmetic of doubles.
\<close>

theorem reconnect_delay_bounds:
  assumes "0 \<le> r" "r < 1"
  shows "\<exists>d. reconnectDelayMs (int n) default_options (Fin r) = Fin (of_int d)
    \<and> min 30000 (1000 * 2 ^ n) \<le> d \<and> d \<le> min 30000 (1250 * 2 ^ n)"
  using delay_bounds [OF assms, of n] by auto

theorem reconnect_delay_bounds_witness:
  "\<exists>d. reconnectDelayMs 3 default_options (Fin (1 / 2)) = Fin (of_int d) \<and> 8000 \<le> d \<and> d \<le> 10000"
  using reconnect_delay_bounds [of "1 / 2" 3] by simp

text \<open>
  A merged lane view prefers the leading source and leaves no gap: while the stream is fresh a
  lane is the last streamed snapshot of its name and otherwise the last polled one, and the
  other way round when the stream is stale; nothing else is shown.
\<close>

lemma lanes_reconciled:
  "map_of (rl_byLane (resolveLaneSnapshots params)) name =
     (let sse = find (\<lambda>l. ls_lane l = name) (rev (or_else (rp_sseLanes params) []));
          poll = find (\<lambda>l. ls_lane l = name) (rev (or_else (rp_pollLanes params) []));
          (leading, other) = (if sse_fresh params then (sse, poll) else (poll, sse)) in
      if leading \<noteq> None then leading else other)
   \<and> rl_sseDriven (resolveLaneSnapshots params) = sse_fresh params"
  by (simp add: resolveLaneSnapshots_def Let_def map_of_fill_missing toMap_lookup split: option.split)

text \<open>
  C14. \<open>close\<close> ends the loop and nothing else does: the loop has returned only if \<open>close\<close> was called;
  after \<open>close\<close> no attempt is announced; and once the abort settles the pending awaits, the loop
  takes at most two of them and then has returned.
\<close>

theorem stream_ends_by_close:
  assumes "stream_steps options es openRouteEventStream = Some s"
  shows "(ss_phase s = Returned \<longrightarrow> ss_closed s)
    \<and> set (dropWhile (\<lambda>x. x \<noteq> Closed) (ss_status s)) \<subseteq> {Closed, Open}
    \<and> (\<forall>more s'. ss_closed s \<and> list_all settles more \<and> stream_steps options more s = Some s' \<longrightarrow>
          length more \<le> 2 \<and> (ss_phase s' = Returned \<or> (\<exists>e. settles e \<and> stream_step options e s' \<noteq> None)))"
proof -
  have w: "well s" using well_steps [OF well_open assms] .
  have "length more \<le> 2" if "ss_closed s" "list_all settles more" "stream_steps options more s = Some s'" for more s'
    using settle_steps [OF that] rank_le [of "ss_phase s"] by simp
  with w settle_enabled show ?thesis unfolding well_def by blast
qed

definition quiet_options :: stream_options where
  "quiet_options = \<lparr>so_delayFor = Some (\<lambda>n. num_of_nat n), so_random = (\<lambda>_. Fin 0)\<rparr>"

theorem stream_ends_by_close_witness:
  "\<exists>s. stream_steps quiet_options [HeadersReady, FetchFailed, Woken, CloseCalled] openRouteEventStream = Some s
     \<and> set (dropWhile (\<lambda>x. x \<noteq> Closed) (ss_status s)) \<subseteq> {Closed, Open}
     \<and> (\<exists>s'. stream_steps quiet_options [HeadersReady, FetchFailed] s = Some s' \<and> ss_phase s' = Returned)"
proof -
  let ?es = "[HeadersReady, FetchFailed, Woken, CloseCalled]"
  obtain s where s: "stream_steps quiet_options ?es openRouteEventStream = Some s"
    "\<exists>s'. stream_steps quiet_options [HeadersReady, FetchFailed] s = Some s' \<and> ss_phase s' = Returned"
    by (simp add: stream_step_def openRouteEventStream_def loop_defs)
  with stream_ends_by_close [OF s(1)] show ?thesis by blast
qed

text \<open>
  C20. A broken connection is always retried: while \<open>close\<close> was not called, every event that ends a
  connection leads to a sleep and the end of the sleep to a new, announced attempt.  These events
  are headers or a request that fail, a response that is not a success or has no body, and the end
  or the failure of the stream.  The delay is that of attempt zero when the connection delivered a
  lane frame and else that of one more attempt than the last.
\<close>

theorem stream_reconnects:
  assumes "\<not> ss_closed s"
    and "e \<in> {HeadersFailed, FetchFailed, StreamEnded, ReadFailed}
      \<or> (\<exists>ok body. e = Responded ok body \<and> \<not> (ok \<and> body))"
    and "stream_step options e s = Some s1"
  shows "\<exists>s2. ss_phase s1 = Sleeping (backoff_delay options (if ss_received s1 then 0 else ss_attempt s) (ss_draws s))
    \<and> stream_step options Woken s1 = Some s2 \<and> ss_phase s2 = AwaitHeaders
    \<and> ss_attempt s2 = (if ss_received s1 then 1 else ss_attempt s + 1)
    \<and> last (ss_status s2) = Reconnecting"
proof -
  have draws: "ss_draws (fold emitFrame fs t) = ss_draws t" for fs t
    by (induction fs arbitrary: t) (simp_all add: emitFrame_def split: option.split)
  obtain t where t: "s1 = after_connection options t" "ss_closed t = ss_closed s" "ss_attempt t = ss_attempt s"
    "ss_draws t = ss_draws s"
    using assms(2,3) draws by (cases "ss_phase s") (auto simp: stream_step_def)
  then show ?thesis using assms(1) by (simp add: stream_step_def loop_defs)
qed

text \<open>A server that is not reachable, and a success without a body.\<close>

theorem stream_reconnects_witness:
  "(\<exists>s1 s2. stream_step quiet_options HeadersFailed openRouteEventStream = Some s1
     \<and> ss_phase s1 = Sleeping (num_of_nat 0)
     \<and> stream_step quiet_options Woken s1 = Some s2 \<and> last (ss_status s2) = Reconnecting)
   \<and> (\<exists>s1 s2. stream_steps quiet_options [HeadersReady, Responded True False] openRouteEventStream = Some s1
     \<and> ss_phase s1 = Sleeping (num_of_nat 0)
     \<and> stream_step quiet_options Woken s1 = Some s2 \<and> last (ss_status s2) = Reconnecting)"
proof
  have open_state: "\<not> ss_closed openRouteEventStream" "ss_attempt openRouteEventStream = 0"
    by (simp_all add: openRouteEventStream_def loop_defs)
  obtain s1 where s1: "stream_step quiet_options HeadersFailed openRouteEventStream = Some s1"
    by (simp add: stream_step_def openRouteEventStream_def loop_defs)
  from stream_reconnects [OF open_state(1) _ s1] s1 open_state(2)
  show "\<exists>s1 s2. stream_step quiet_options HeadersFailed openRouteEventStream = Some s1
     \<and> ss_phase s1 = Sleeping (num_of_nat 0)
     \<and> stream_step quiet_options Woken s1 = Some s2 \<and> last (ss_status s2) = Reconnecting"
    by (auto simp: backoff_delay_def quiet_options_def)
  obtain s where s: "stream_step quiet_options HeadersReady openRouteEventStream = Some s"
    "\<not> ss_closed s" "ss_attempt s = 0" "ss_phase s = AwaitFetch"
    by (simp add: stream_step_def openRouteEventStream_def loop_defs)
  obtain s2 where s2: "stream_step quiet_options (Responded True False) s = Some s2"
    using s(4) by (simp add: stream_step_def)
  have "Responded True False \<in> {HeadersFailed, FetchFailed, StreamEnded, ReadFailed}
      \<or> (\<exists>ok body. Responded True False = Responded ok body \<and> \<not> (ok \<and> body))" by blast
  from stream_reconnects [OF s(2) this s2] s s2
  show "\<exists>s1 s2. stream_steps quiet_options [HeadersReady, Responded True False] openRouteEventStream = Some s1
     \<and> ss_phase s1 = Sleeping (num_of_nat 0)
     \<and> stream_step quiet_options Woken s1 = Some s2 \<and> last (ss_status s2) = Reconnecting"
    by (auto simp: backoff_delay_def quiet_options_def)
qed

end
