(* ===== verification/Lanes.thy ===== *)
theory Lanes
  imports RouteEvents "HOL-Library.Multiset"
begin

text \<open>
  \<open>features/routes/lib\<close>: the order of the members of a lane (\<open>reorder-members.ts\<close>), the badges and the
  health that a snapshot is shown with (\<open>lane-runtime-display.ts\<close>), and the upstream model that a
  member resolves to (\<open>lane-member-upstream.ts\<close>).
\<close>

section \<open>Member order\<close>

record lane_row =
  row_id :: jsstr

datatype drop_position = Before | After

definition reorderMembers ::
  "'a lane_row_scheme list \<Rightarrow> jsstr \<Rightarrow> jsstr \<Rightarrow> drop_position \<Rightarrow> 'a lane_row_scheme list" where
  "reorderMembers list sourceId targetId position =
     (if sourceId = [] \<or> targetId = [] \<or> sourceId = targetId then list
      else (case find_index (\<lambda>item. row_id item = sourceId) list of
          None \<Rightarrow> list
        | Some sourceIdx \<Rightarrow>
            let moved = list ! sourceIdx; rest = take sourceIdx list @ drop (Suc sourceIdx) list in
            (case find_index (\<lambda>item. row_id item = targetId) rest of
               None \<Rightarrow> list
             | Some idx \<Rightarrow>
                 let insertIdx = (if position = After then idx + 1 else idx) in
                 take insertIdx rest @ moved # drop insertIdx rest)))"

definition priorityForIndex :: "int \<Rightarrow> int \<Rightarrow> int" where
  "priorityForIndex index total_count = total_count - index"

section \<open>Badges\<close>

datatype member_state_label =
  Cooldown | CircuitOpen | HalfOpen | Affinity | Probing | Current | ManuallyDisabled

datatype status_variant = Neutral | Danger | Warning | Info | Success

record member_state =
  ms_label :: member_state_label
  ms_variant :: status_variant
  ms_pulse :: bool
  ms_detail :: jsstr

text \<open>
  The date library: the milliseconds that a text parses to, \<open>None\<close> when it is not a valid date, and
  the text of a moment in the display format.
\<close>

record date_library =
  dl_parse :: "jsstr \<Rightarrow> int option"
  dl_format :: "int \<Rightarrow> jsstr"

text \<open>\<open>None\<close> stands for \<open>NaN\<close>.\<close>

definition untilMs :: "date_library \<Rightarrow> jsstr option \<Rightarrow> int option" where
  "untilMs dayjs v =
     (case v of None \<Rightarrow> None | Some s \<Rightarrow> if s = [] then None else dl_parse dayjs s)"

definition formatUntil :: "date_library \<Rightarrow> jsstr option \<Rightarrow> jsstr" where
  "formatUntil dayjs v = (case untilMs dayjs v of None \<Rightarrow> [] | Some ms \<Rightarrow> dl_format dayjs ms)"

definition badge :: "member_state_label \<Rightarrow> status_variant \<Rightarrow> jsstr \<Rightarrow> member_state" where
  "badge l v d = \<lparr>ms_label = l, ms_variant = v, ms_pulse = False, ms_detail = d\<rparr>"

definition affinity_badges ::
  "date_library \<Rightarrow> lane_health_snapshot \<Rightarrow> lane_member_health \<Rightarrow> int \<Rightarrow> member_state list" where
  "affinity_badges dayjs snapshot member now =
     (case ls_affinity snapshot of
        None \<Rightarrow> []
      | Some aff \<Rightarrow>
          if la_channel aff = lm_channel member \<and> la_upstream_model aff = lm_upstream_model member
             \<and> (case untilMs dayjs (la_until aff) of None \<Rightarrow> True | Some ms \<Rightarrow> now < ms)
          then [badge Affinity Info (formatUntil dayjs (la_until aff))] else [])"

definition laneMemberStates ::
  "date_library \<Rightarrow> lane_health_snapshot \<Rightarrow> lane_member_health \<Rightarrow> int \<Rightarrow> member_state list" where
  "laneMemberStates dayjs snapshot member now =
     (if lm_enabled member = Some False then [badge ManuallyDisabled Neutral []] else [])
     @ (if lm_circuit member = js ''open''
        then [badge CircuitOpen Danger (formatUntil dayjs (lm_circuit_open_until member))]
        else if lm_circuit member = js ''half-open'' then [badge HalfOpen Warning []] else [])
     @ (case untilMs dayjs (lm_cooldown_until member) of
          None \<Rightarrow> []
        | Some ms \<Rightarrow>
            if now < ms then [badge Cooldown Warning (formatUntil dayjs (lm_cooldown_until member))] else [])
     @ affinity_badges dayjs snapshot member now
     @ (if lm_probing member then [(badge Probing Info [])\<lparr>ms_pulse := True\<rparr>] else [])
     @ (if lm_current member then [badge Current Success []] else [])"

datatype lane_health = Healthy | Degraded | Unavailable

definition laneRuntimeHealth :: "lane_health_snapshot \<Rightarrow> lane_health" where
  "laneRuntimeHealth snapshot =
     (if length (ls_members snapshot) = 0 then Healthy
      else
        (let available = length (filter lm_available (ls_members snapshot)) in
         if available = length (ls_members snapshot) then Healthy
         else if available = 0 then Unavailable else Degraded))"

section \<open>Upstream models\<close>

record channel_catalog_entry =
  cc_name :: jsstr
  cc_enabled :: bool
  cc_models :: "jsstr list"
  cc_model_mapping :: "(jsstr \<times> jsstr) list"

text \<open>
  \<open>mapping[key]\<close> may read an inherited property, none of which is a string: calling \<open>trim\<close> on it throws.
\<close>

definition resolvedUpstreamForMember ::
  "jsstr \<Rightarrow> jsstr \<Rightarrow> channel_catalog_entry list \<Rightarrow> js_error + jsstr" where
  "resolvedUpstreamForMember channelName model catalog =
     (let trimmed = trim model in
      case find (\<lambda>c. cc_name c = channelName) catalog of
        None \<Rightarrow> Inr trimmed
      | Some channel \<Rightarrow>
          (case map_of (cc_model_mapping channel) trimmed of
             Some mapped \<Rightarrow> Inr (if mapped \<noteq> [] \<and> trim mapped \<noteq> [] then trim mapped else trimmed)
           | None \<Rightarrow> if trimmed \<in> set inherited_properties then Inl TypeError else Inr trimmed))"

definition isModelDeclaredByChannel :: "jsstr \<Rightarrow> jsstr \<Rightarrow> channel_catalog_entry list \<Rightarrow> bool" where
  "isModelDeclaredByChannel channelName model catalog =
     (let trimmed = trim model in
      if trimmed = [] then True
      else (case find (\<lambda>c. cc_name c = channelName) catalog of
          None \<Rightarrow> True
        | Some channel \<Rightarrow>
            trimmed \<in> set (cc_models channel) \<or> trimmed \<in> set (map fst (cc_model_mapping channel))))"

section \<open>Lemmas\<close>

text \<open>The two searches of a move, as a decomposition of the list.\<close>

lemma find_index_split:
  assumes "find_index P xs = Some i"
  shows "xs = take i xs @ xs ! i # drop (Suc i) xs" "P (xs ! i)" "i < length xs"
  using assms by (auto simp: find_index_Some intro: id_take_nth_drop)

definition placed :: "'a \<Rightarrow> 'a \<Rightarrow> drop_position \<Rightarrow> 'a list" where
  "placed m t position = (case position of Before \<Rightarrow> [m, t] | After \<Rightarrow> [t, m])"

lemma insert_beside:
  assumes "k < length rest"
  shows "take (if position = After then k + 1 else k) rest @ m # drop (if position = After then k + 1 else k) rest
    = take k rest @ placed m (rest ! k) position @ drop (Suc k) rest"
  using assms by (cases position) (simp_all add: placed_def take_Suc_conv_app_nth Cons_nth_drop_Suc)

lemma reorder_moves:
  assumes "sourceId \<noteq> []" "targetId \<noteq> []" "sourceId \<noteq> targetId"
    and "sourceId \<in> row_id ` set list" "targetId \<in> row_id ` set list"
  shows "\<exists>a m b c t d. list = a @ m # b \<and> row_id m = sourceId \<and> a @ b = c @ t # d \<and> row_id t = targetId
    \<and> reorderMembers list sourceId targetId position = c @ placed m t position @ d"
proof -
  obtain i where i: "find_index (\<lambda>item. row_id item = sourceId) list = Some i"
    using assms(4) by (cases "find_index (\<lambda>item. row_id item = sourceId) list") (auto simp: find_index_None)
  note l = find_index_split [OF i]
  let ?rest = "take i list @ drop (Suc i) list"
  have "targetId \<in> row_id ` set ?rest"
  proof -
    have "set list = insert (list ! i) (set ?rest)" by (subst l(1)) auto
    with assms(3,5) l(2) show ?thesis by auto
  qed
  then obtain k where k: "find_index (\<lambda>item. row_id item = targetId) ?rest = Some k"
    by (cases "find_index (\<lambda>item. row_id item = targetId) ?rest") (auto simp only: find_index_None)
  note r = find_index_split [OF k]
  have "reorderMembers list sourceId targetId position =
      take k ?rest @ placed (list ! i) (?rest ! k) position @ drop (Suc k) ?rest"
    unfolding insert_beside [OF r(3), symmetric]
    using assms(1-3) i k by (simp add: reorderMembers_def Let_def)
  with l(1,2) r(1,2) show ?thesis by blast
qed

lemma reorder_noop:
  assumes "sourceId = [] \<or> targetId = [] \<or> sourceId = targetId
    \<or> sourceId \<notin> row_id ` set list \<or> targetId \<notin> row_id ` set list"
  shows "reorderMembers list sourceId targetId position = list"
proof -
  have "find_index (\<lambda>item. row_id item = targetId) (take i list @ drop (Suc i) list) = None"
    if "targetId \<notin> row_id ` set list" for i
    using that by (force simp: find_index_None dest: in_set_takeD in_set_dropD)
  moreover have "find_index (\<lambda>item. row_id item = sourceId) list = None" if "sourceId \<notin> row_id ` set list"
    using that by (auto simp: find_index_None)
  ultimately show ?thesis
    using assms by (auto simp: reorderMembers_def Let_def split: option.split)
qed

lemma mset_reorder: "mset (reorderMembers list sourceId targetId position) = mset list"
proof (cases "sourceId = [] \<or> targetId = [] \<or> sourceId = targetId
    \<or> sourceId \<notin> row_id ` set list \<or> targetId \<notin> row_id ` set list")
  case True
  then show ?thesis by (simp only: reorder_noop)
next
  case False
  then have "sourceId \<noteq> []" "targetId \<noteq> []" "sourceId \<noteq> targetId"
    "sourceId \<in> row_id ` set list" "targetId \<in> row_id ` set list" by auto
  from reorder_moves [OF this] obtain a m b c t d where
    d: "list = a @ m # b" "a @ b = c @ t # d"
    "reorderMembers list sourceId targetId position = c @ placed m t position @ d" by blast
  have "mset a + mset b = mset c + add_mset t (mset d)" by (metis d(2) mset_append mset.simps(2))
  then show ?thesis unfolding d(3) by (cases position) (simp_all add: d(1) placed_def add_mset_commute)
qed

text \<open>A badge per circumstance, and the health of a lane.\<close>

lemma member_labels_distinct: "distinct (map ms_label (laneMemberStates dayjs snapshot member now))"
  by (auto simp: laneMemberStates_def badge_def affinity_badges_def split: option.split)

lemma length_filter_all: "length (filter P xs) = length xs \<longleftrightarrow> (\<forall>x \<in> set xs. P x)"
proof (induction xs)
  case (Cons x xs)
  have "length (filter P xs) \<noteq> Suc (length xs)" using length_filter_le [of P xs] by linarith
  with Cons show ?case by auto
qed simp

lemma lane_health_cases:
  "laneRuntimeHealth s = Healthy \<longleftrightarrow> (\<forall>m \<in> set (ls_members s). lm_available m)"
  "laneRuntimeHealth s = Unavailable \<longleftrightarrow> ls_members s \<noteq> [] \<and> (\<forall>m \<in> set (ls_members s). \<not> lm_available m)"
  by (auto simp: laneRuntimeHealth_def Let_def length_filter_all filter_empty_conv)

section \<open>Properties\<close>

text \<open>
  C38. Dragging a member moves that member and nothing else: the result is a permutation; when both
  ids are known and differ, it is the list without the dragged member, with it put directly
  before or after the target; in every other case it is the list itself.  The priorities
  saved for a list count down from its length to one.
\<close>

theorem reorder_moves_one:
  "mset (reorderMembers list sourceId targetId position) = mset list
   \<and> (if sourceId \<noteq> [] \<and> targetId \<noteq> [] \<and> sourceId \<noteq> targetId
          \<and> sourceId \<in> row_id ` set list \<and> targetId \<in> row_id ` set list
       then \<exists>a m b c t d. list = a @ m # b \<and> row_id m = sourceId \<and> a @ b = c @ t # d \<and> row_id t = targetId
          \<and> reorderMembers list sourceId targetId position =
              c @ (case position of Before \<Rightarrow> [m, t] | After \<Rightarrow> [t, m]) @ d
       else reorderMembers list sourceId targetId position = list)
   \<and> map (\<lambda>i. priorityForIndex (int i) (int (length list))) [0..<length list] = rev [1..int (length list)]"
proof (intro conjI)
  show "mset (reorderMembers list sourceId targetId position) = mset list" by (rule mset_reorder)
  show "map (\<lambda>i. priorityForIndex (int i) (int (length list))) [0..<length list] = rev [1..int (length list)]"
    by (rule nth_equalityI) (simp_all add: priorityForIndex_def rev_nth nth_upto)
qed (use reorder_moves [of sourceId targetId list position] reorder_noop [of sourceId targetId list position]
  in \<open>auto simp: placed_def\<close>)

text \<open>
  Resolving the upstream of a member fails only on names that every object inherits: a mapped
  model resolves to its mapping, an unmapped one to itself, unless it is a name such as
  \<open>constructor\<close>, on which the lookup throws although the channel may declare the model.
\<close>

lemma upstream_resolution:
  assumes "find (\<lambda>c. cc_name c = channelName) catalog = Some channel"
  shows "resolvedUpstreamForMember channelName model catalog =
    (case map_of (cc_model_mapping channel) (trim model) of
       Some mapped \<Rightarrow> Inr (if trim mapped = [] then trim model else trim mapped)
     | None \<Rightarrow> if trim model \<in> set inherited_properties then Inl TypeError else Inr (trim model))
    \<and> (resolvedUpstreamForMember channelName model catalog = Inl TypeError \<longrightarrow>
         isModelDeclaredByChannel channelName model catalog = (trim model \<in> set (cc_models channel)))"
proof -
  have ne: "[] \<notin> set inherited_properties" by (simp add: inherited_properties_def)
  show ?thesis
  proof (cases "map_of (cc_model_mapping channel) (trim model)")
    case None
    then have "trim model \<notin> set (map fst (cc_model_mapping channel))" by (simp add: map_of_eq_None_iff)
    with None ne assms show ?thesis
      by (auto simp: resolvedUpstreamForMember_def isModelDeclaredByChannel_def Let_def)
  next
    case (Some mapped)
    with assms show ?thesis by (auto simp: resolvedUpstreamForMember_def Let_def)
  qed
qed

definition bare_channel :: channel_catalog_entry where
  "bare_channel = \<lparr>cc_name = js ''a'', cc_enabled = True, cc_models = [js ''constructor''], cc_model_mapping = []\<rparr>"

end
