(* ===== verification/ChannelRules.thy ===== *)
theory ChannelRules
  imports JsJson StatusCodeRules
begin

text \<open>
  Checks on the configuration of a channel: the list of models against the JSON of the model mapping
  (\<open>features/channels/lib/model-mapping-validation.ts\<close>) and the JSON of the status code mapping
  (\<open>features/channels/lib/status-code-risk-guard.ts\<close>).
\<close>

section \<open>Model mapping\<close>

definition parseModelsString :: "jsstr \<Rightarrow> jsstr list" where
  "parseModelsString modelsStr =
     (if modelsStr = [] then [] else filter (\<lambda>m. m \<noteq> []) (map trim (split_on (ch (CHR '','')) modelsStr)))"

definition formatModelsArray :: "jsstr list \<Rightarrow> jsstr" where
  "formatModelsArray models = join (js '','') (uniq models)"

definition normalizeModelName :: "jsstr \<Rightarrow> jsstr" where
  "normalizeModelName model = trim model"

text \<open>
  The entries of a text that parses to a plain object; \<open>None\<close> when it does not parse or parses to
  another value, which the source treats alike.
\<close>

definition parsed_object :: "jsstr \<Rightarrow> (jsstr \<times> jsval) list option" where
  "parsed_object txt =
     (case json_parse txt of
        None \<Rightarrow> None
      | Some parsed \<Rightarrow>
          if \<not> truthy parsed \<or> \<not> typeof_object parsed \<or> is_array parsed then None
          else (case parsed of JObj es \<Rightarrow> Some es | _ \<Rightarrow> None))"

definition extractMappingSourceModels :: "jsstr \<Rightarrow> jsstr list" where
  "extractMappingSourceModels modelMapping =
     (let trimmed = trim modelMapping in
      if trimmed = [] then []
      else (case parsed_object trimmed of
          None \<Rightarrow> []
        | Some es \<Rightarrow> uniq (filter (\<lambda>k. k \<noteq> []) (map (\<lambda>e. trim (fst e)) es))))"

definition string_values :: "(jsstr \<times> jsval) list \<Rightarrow> jsstr list" where
  "string_values es = List.map_filter (\<lambda>e. case snd e of JStr s \<Rightarrow> Some (trim s) | _ \<Rightarrow> None) es"

definition extractRedirectModels :: "jsstr \<Rightarrow> jsstr list" where
  "extractRedirectModels modelMapping =
     (let trimmed = trim modelMapping in
      if trimmed = [] then []
      else (case parsed_object trimmed of
          None \<Rightarrow> []
        | Some es \<Rightarrow> uniq (filter (\<lambda>v. v \<noteq> []) (string_values es))))"

fun some_differs :: "jsstr list \<Rightarrow> jsstr list \<Rightarrow> bool" where
  "some_differs (x # xs) (y # ys) \<longleftrightarrow> x \<noteq> y \<or> some_differs xs ys"
| "some_differs _ _ \<longleftrightarrow> False"

definition hasModelConfigChanged :: "jsstr list \<Rightarrow> jsstr \<Rightarrow> jsstr list \<Rightarrow> jsstr \<Rightarrow> bool" where
  "hasModelConfigChanged currentModels currentModelMapping initialModels initialModelMapping =
     (if length initialModels = 0 \<and> initialModelMapping = [] then True
      else if length currentModels \<noteq> length initialModels then True
      else if some_differs currentModels initialModels then True
      else trim currentModelMapping \<noteq> trim initialModelMapping)"

definition findMissingModelsInMapping :: "jsstr \<Rightarrow> jsstr list \<Rightarrow> jsstr list" where
  "findMissingModelsInMapping modelMapping currentModels =
     (if modelMapping = [] \<or> trim modelMapping = [] then []
      else (case parsed_object modelMapping of
          None \<Rightarrow> []
        | Some es \<Rightarrow>
            let modelSet = set (map normalizeModelName currentModels) in
            uniq (filter (\<lambda>key. key \<noteq> [] \<and> key \<notin> modelSet) (map (\<lambda>e. normalizeModelName (fst e)) es))))"

record validation_result =
  vr_valid :: bool
  vr_error :: "jsstr option"

definition validateModelMappingJson :: "jsstr \<Rightarrow> validation_result" where
  "validateModelMappingJson modelMapping =
     (if modelMapping = [] \<or> trim modelMapping = [] then \<lparr>vr_valid = True, vr_error = None\<rparr>
      else (case json_parse modelMapping of
          None \<Rightarrow> \<lparr>vr_valid = False, vr_error = Some (js ''Model mapping must be valid JSON format'')\<rparr>
        | Some parsed \<Rightarrow>
            (case parsed_object modelMapping of
               None \<Rightarrow> \<lparr>vr_valid = False, vr_error = Some (js ''Model mapping must be a valid JSON object'')\<rparr>
             | Some es \<Rightarrow>
                 if list_ex (\<lambda>e. \<not> is_string (snd e)) es
                 then \<lparr>vr_valid = False, vr_error = Some (js ''Model mapping values must be strings'')\<rparr>
                 else \<lparr>vr_valid = True, vr_error = None\<rparr>)))"

definition findExposedTargetModels :: "jsstr \<Rightarrow> jsstr list \<Rightarrow> jsstr list" where
  "findExposedTargetModels modelMapping currentModels =
     (let redirectModels = extractRedirectModels modelMapping in
      if length redirectModels = 0 then []
      else filter (\<lambda>model. normalizeModelName model \<in> set (map normalizeModelName currentModels)) redirectModels)"

record model_categories =
  mc_normalizedCurrentModels :: "jsstr list"
  mc_normalizedRedirectModels :: "jsstr list"
  mc_classificationSet :: "jsstr list"
  mc_redirectOnlySet :: "jsstr list"

definition categorizeModelsWithRedirect :: "jsstr list \<Rightarrow> jsstr list \<Rightarrow> model_categories" where
  "categorizeModelsWithRedirect currentModels redirectModels =
     (let current = uniq (filter (\<lambda>m. m \<noteq> []) (map normalizeModelName currentModels));
          redirect = uniq (filter (\<lambda>m. m \<noteq> []) (map normalizeModelName redirectModels)) in
      \<lparr>mc_normalizedCurrentModels = current, mc_normalizedRedirectModels = redirect,
       mc_classificationSet = uniq (current @ redirect),
       mc_redirectOnlySet = uniq (filter (\<lambda>m. m \<notin> set current) redirect)\<rparr>)"

section \<open>Status code mapping\<close>

definition NON_REDIRECTABLE_STATUS_CODES :: "nat list" where
  "NON_REDIRECTABLE_STATUS_CODES = [504, 524]"

text \<open>\<open>/^[1-5]\d{2}$/\<close>\<close>

definition status_text :: "jsstr \<Rightarrow> bool" where
  "status_text s \<longleftrightarrow> length s = 3 \<and> 49 \<le> s ! 0 \<and> s ! 0 \<le> 53 \<and> is_digit (s ! 1) \<and> is_digit (s ! 2)"

definition parseStatusCodeKey :: "jsstr \<Rightarrow> nat option" where
  "parseStatusCodeKey rawKey =
     (let normalized = trim rawKey in
      if \<not> status_text normalized then None else Some (dec_value normalized))"

definition parseStatusCodeMappingTarget :: "jsval \<Rightarrow> nat option" where
  "parseStatusCodeMappingTarget rawValue =
     (case rawValue of
        JNum x \<Rightarrow>
          if is_integer x \<and> num_le (Fin 100) x \<and> num_le x (Fin 599) then Some (nat \<lfloor>num_val x\<rfloor>) else None
      | JStr s \<Rightarrow>
          (let normalized = trim s in
           if \<not> status_text normalized then None
           else if 100 \<le> dec_value normalized \<and> dec_value normalized \<le> 599
           then Some (dec_value normalized) else None)
      | _ \<Rightarrow> None)"

text \<open>The entries both collectors walk over.\<close>

definition mapping_entries :: "jsstr \<Rightarrow> (jsstr \<times> jsval) list" where
  "mapping_entries str =
     (if trim str = [] then []
      else (case parsed_object str of None \<Rightarrow> [] | Some es \<Rightarrow> es))"

definition collectInvalidStatusCodeEntries :: "jsstr \<Rightarrow> jsstr list" where
  "collectInvalidStatusCodeEntries str =
     List.map_filter (\<lambda>(rawKey, rawValue).
         if parseStatusCodeKey rawKey = None \<or> parseStatusCodeMappingTarget rawValue = None
         then Some (rawKey @ [32, 0x2192, 32] @ to_string rawValue) else None)
       (mapping_entries str)"

definition redirect_text :: "nat \<Rightarrow> nat \<Rightarrow> jsstr" where
  "redirect_text fromCode toCode = dec_string fromCode @ js '' -> '' @ dec_string toCode"

definition risky_redirect :: "jsstr \<times> jsval \<Rightarrow> jsstr option" where
  "risky_redirect e =
     (case (parseStatusCodeKey (fst e), parseStatusCodeMappingTarget (snd e)) of
        (Some fromCode, Some toCode) \<Rightarrow>
          if fromCode \<notin> set NON_REDIRECTABLE_STATUS_CODES \<or> fromCode = toCode then None
          else Some (redirect_text fromCode toCode)
      | _ \<Rightarrow> None)"

definition collectDisallowedStatusCodeRedirects :: "jsstr \<Rightarrow> jsstr list" where
  "collectDisallowedStatusCodeRedirects str =
     sort (uniq (List.map_filter risky_redirect (mapping_entries str)))"

definition collectNewDisallowedStatusCodeRedirects :: "jsstr \<Rightarrow> jsstr \<Rightarrow> jsstr list" where
  "collectNewDisallowedStatusCodeRedirects originalStr currentStr =
     (let currentRisky = collectDisallowedStatusCodeRedirects currentStr in
      if length currentRisky = 0 then []
      else filter (\<lambda>m. m \<notin> set (collectDisallowedStatusCodeRedirects originalStr)) currentRisky)"

section \<open>Lemmas\<close>

lemma split_on_trimmed:
  "m \<in> set (parseModelsString s) \<Longrightarrow> m \<noteq> [] \<and> trim m = m \<and> ch (CHR '','') \<notin> set m"
proof -
  assume "m \<in> set (parseModelsString s)"
  then obtain p where p: "p \<in> set (split_on (ch (CHR '','')) s)" "m = trim p" "m \<noteq> []"
    by (auto simp: parseModelsString_def split: if_splits)
  have "set (trim p) \<subseteq> set p"
  proof -
    have "set (trim p) \<subseteq> set (trim_start p)"
      unfolding trim_def using trim_end_prefix by (rule set_mono_prefix)
    also have "\<dots> \<subseteq> set p" by (auto simp: trim_start_def dest: set_dropWhileD)
    finally show ?thesis .
  qed
  with p split_on_parts [OF p(1)] show ?thesis by auto
qed

lemma join_ne: "xs \<noteq> [] \<Longrightarrow> \<forall>x \<in> set xs. x \<noteq> [] \<Longrightarrow> join sep xs \<noteq> []"
  by (cases xs rule: remdups_adj.cases) auto

lemma parse_format_models:
  assumes "\<forall>m \<in> set ms. m \<noteq> [] \<and> trim m = m \<and> ch (CHR '','') \<notin> set m" "distinct ms"
  shows "parseModelsString (join (js '','') ms) = ms"
proof (cases "ms = []")
  case True
  then show ?thesis by (simp add: parseModelsString_def)
next
  case False
  have "split_on (ch (CHR '','')) (join [ch (CHR '','')] ms) = ms"
    using assms(1) by (intro split_on_join [OF False]) auto
  moreover have "map trim ms = ms" using assms(1) by (intro map_idI) auto
  moreover have "filter (\<lambda>m. m \<noteq> []) ms = ms" using assms(1) by (intro filter_True) auto
  moreover have "join [ch (CHR '','')] ms \<noteq> []" using False assms(1) by (intro join_ne) auto
  ultimately show ?thesis by (simp add: parseModelsString_def js_def)
qed

lemma redirect_trimmed: "m \<in> set (extractRedirectModels s) \<Longrightarrow> trim m = m"
  by (auto simp: extractRedirectModels_def Let_def string_values_def List.map_filter_def
      split: if_splits option.splits jsval.splits)

lemma missing_trimmed: "m \<in> set (findMissingModelsInMapping s ms) \<Longrightarrow> trim m = m"
  by (auto simp: findMissingModelsInMapping_def normalizeModelName_def Let_def split: if_splits option.splits)

lemma exposed_in_current:
  "m \<in> set (findExposedTargetModels s ms) \<longleftrightarrow> m \<in> set (extractRedirectModels s) \<and> m \<in> trim ` set ms"
  using redirect_trimmed [of m s]
  by (auto simp: findExposedTargetModels_def normalizeModelName_def Let_def)

lemma set_map_filter: "set (List.map_filter f xs) = {y. \<exists>x \<in> set xs. f x = Some y}"
  by (force simp: List.map_filter_def)

lemma set_disallowed:
  "m \<in> set (collectDisallowedStatusCodeRedirects str) \<longleftrightarrow> (\<exists>e \<in> set (mapping_entries str). risky_redirect e = Some m)"
  by (auto simp: collectDisallowedStatusCodeRedirects_def set_map_filter)

lemma risky_redirect_Some:
  "risky_redirect (k, v) = Some m \<longleftrightarrow>
     (\<exists>f t. parseStatusCodeKey k = Some f \<and> parseStatusCodeMappingTarget v = Some t \<and> f \<in> {504, 524} \<and> f \<noteq> t
        \<and> m = redirect_text f t)"
  by (auto simp: risky_redirect_def NON_REDIRECTABLE_STATUS_CODES_def split: option.splits)

section \<open>Properties\<close>

text \<open>
  The models field round-trips: what is written for a parsed list parses back to the list
  without its duplicates, so saving and reopening a channel keeps its models.
\<close>

lemma models_roundtrip:
  "parseModelsString (formatModelsArray (parseModelsString s)) = uniq (parseModelsString s)"
  unfolding formatModelsArray_def by (rule parse_format_models) (use split_on_trimmed in auto)

text \<open>
  The offered repairs repair: the missing models are new, distinct names, and with them added no
  mapped model is missing; with the exposed targets taken out no target is exposed.
\<close>

lemma mapping_repairs:
  "distinct (findMissingModelsInMapping m models)
   \<and> set (findMissingModelsInMapping m models) \<inter> trim ` set models = {}
   \<and> findMissingModelsInMapping m (models @ findMissingModelsInMapping m models) = []
   \<and> findExposedTargetModels m (filter (\<lambda>x. trim x \<notin> set (findExposedTargetModels m models)) models) = []"
proof (intro conjI)
  show "distinct (findMissingModelsInMapping m models)"
    by (auto simp: findMissingModelsInMapping_def Let_def split: option.split)
  show "set (findMissingModelsInMapping m models) \<inter> trim ` set models = {}"
    by (auto simp: findMissingModelsInMapping_def normalizeModelName_def Let_def split: option.split)
  show "findMissingModelsInMapping m (models @ findMissingModelsInMapping m models) = []"
  proof (rule ccontr)
    assume "findMissingModelsInMapping m (models @ findMissingModelsInMapping m models) \<noteq> []"
    then obtain x where x: "x \<in> set (findMissingModelsInMapping m (models @ findMissingModelsInMapping m models))"
      by (meson last_in_set)
    then have "x \<in> set (findMissingModelsInMapping m models)" "x \<notin> trim ` set (findMissingModelsInMapping m models)"
      by (auto simp: findMissingModelsInMapping_def [of m "models @ _"] findMissingModelsInMapping_def [of m models]
          normalizeModelName_def Let_def split: if_splits option.splits)
    with missing_trimmed [of x m models] show False by force
  qed
  show "findExposedTargetModels m (filter (\<lambda>x. trim x \<notin> set (findExposedTargetModels m models)) models) = []"
    by (rule ccontr) (auto simp: exposed_in_current dest!: last_in_set)
qed

text \<open>
  C21. The redirect guard is exact: it reports, sorted and once each, the entries that redirect 504 or
  524 to another status code, and as new those that the original mapping lacks; an unchanged
  mapping reports nothing new.
\<close>

theorem redirect_guard_exact:
  "(m \<in> set (collectDisallowedStatusCodeRedirects str) \<longleftrightarrow>
     (\<exists>(k, v) \<in> set (mapping_entries str). \<exists>f t. parseStatusCodeKey k = Some f \<and> parseStatusCodeMappingTarget v = Some t
        \<and> f \<in> {504, 524} \<and> f \<noteq> t \<and> m = dec_string f @ js '' -> '' @ dec_string t))
   \<and> sorted_wrt (<) (collectDisallowedStatusCodeRedirects str)
   \<and> set (collectNewDisallowedStatusCodeRedirects orig str) =
       set (collectDisallowedStatusCodeRedirects str) - set (collectDisallowedStatusCodeRedirects orig)
   \<and> collectNewDisallowedStatusCodeRedirects str str = []"
proof (intro conjI)
  show "m \<in> set (collectDisallowedStatusCodeRedirects str) \<longleftrightarrow>
     (\<exists>(k, v) \<in> set (mapping_entries str). \<exists>f t. parseStatusCodeKey k = Some f \<and> parseStatusCodeMappingTarget v = Some t
        \<and> f \<in> {504, 524} \<and> f \<noteq> t \<and> m = dec_string f @ js '' -> '' @ dec_string t)"
    unfolding set_disallowed redirect_text_def [symmetric]
    by (rule bex_cong [OF refl]) (simp only: split_beta risky_redirect_Some [symmetric] prod.collapse)
  show "sorted_wrt (<) (collectDisallowedStatusCodeRedirects str)"
    by (simp add: collectDisallowedStatusCodeRedirects_def strict_sorted_iff)
  show "set (collectNewDisallowedStatusCodeRedirects orig str) =
       set (collectDisallowedStatusCodeRedirects str) - set (collectDisallowedStatusCodeRedirects orig)"
    by (auto simp: collectNewDisallowedStatusCodeRedirects_def Let_def)
  show "collectNewDisallowedStatusCodeRedirects str str = []"
    by (auto simp: collectNewDisallowedStatusCodeRedirects_def Let_def filter_empty_conv)
qed

end
