(* ===== verification/Messages.thy ===== *)
theory Messages
  imports JsJson JsMath
begin

text \<open>
  The messages of the playground (\<open>features/playground/lib/message\<close>): construction, reasoning tags,
  timing, streaming updates, finalisation, edits of a conversation and the states they are shown
  in.  A clock argument \<open>clk\<close> gives the readings of \<open>Date.now()\<close> at the call sites of an
  operation in order; identifiers that \<open>nanoid()\<close> makes and the translation function are arguments.
\<close>

section \<open>Data\<close>

datatype message_role = User | Assistant | System

datatype message_status = Loading | Streaming | Complete | Error

record message_version =
  mv_id :: jsstr
  mv_content :: jsstr

record reasoning =
  r_content :: jsstr
  r_duration :: jsnum
  r_startedAt :: "jsnum option"
  r_completedAt :: "jsnum option"
  r_durationMs :: "jsnum option"

text \<open>Optional fields are \<open>None\<close> when absent; an error code may be absent, \<open>null\<close> or a string.\<close>

record message =
  m_key :: jsstr
  m_from :: message_role
  m_versions :: "message_version list"
  m_createdAt :: "jsnum option"
  m_startedAt :: "jsnum option"
  m_completedAt :: "jsnum option"
  m_durationMs :: "jsnum option"
  m_sources :: "(jsstr \<times> jsstr) list option"
  m_reasoning :: "reasoning option"
  m_isReasoningStreaming :: "bool option"
  m_isReasoningComplete :: "bool option"
  m_isContentComplete :: "bool option"
  m_status :: "message_status option"
  m_errorCode :: jsval
  m_servedBy :: "jsstr option"

section \<open>Message utilities\<close>

definition createMessageVersion :: "jsstr \<Rightarrow> jsstr \<Rightarrow> message_version" where
  "createMessageVersion nid content = \<lparr>mv_id = nid, mv_content = content\<rparr>"

definition getCurrentVersion :: "message \<Rightarrow> message_version" where
  "getCurrentVersion m =
     (case m_versions m of v # _ \<Rightarrow> v | [] \<Rightarrow> \<lparr>mv_id = js ''default'', mv_content = []\<rparr>)"

definition getMessageContent :: "message \<Rightarrow> jsstr" where
  "getMessageContent m = mv_content (getCurrentVersion m)"

definition hasMessageContent :: "message \<Rightarrow> bool" where
  "hasMessageContent m \<longleftrightarrow> trim (getMessageContent m) \<noteq> []"

definition updateCurrentVersionContent :: "message \<Rightarrow> jsstr \<Rightarrow> message" where
  "updateCurrentVersionContent m content =
     m\<lparr>m_versions := [(getCurrentVersion m)\<lparr>mv_content := content\<rparr>]\<rparr>"

definition blank_message :: message where
  "blank_message =
     \<lparr>m_key = [], m_from = User, m_versions = [], m_createdAt = None, m_startedAt = None,
      m_completedAt = None, m_durationMs = None, m_sources = None, m_reasoning = None,
      m_isReasoningStreaming = None, m_isReasoningComplete = None, m_isContentComplete = None,
      m_status = None, m_errorCode = JUndef, m_servedBy = None\<rparr>"

definition createUserMessage :: "jsstr \<Rightarrow> jsstr \<Rightarrow> jsstr \<Rightarrow> jsnum \<Rightarrow> message" where
  "createUserMessage key vid content createdAt =
     blank_message\<lparr>m_key := key, m_from := User, m_versions := [createMessageVersion vid content],
       m_createdAt := Some createdAt\<rparr>"

definition createLoadingAssistantMessage :: "jsstr \<Rightarrow> jsstr \<Rightarrow> jsnum \<Rightarrow> message" where
  "createLoadingAssistantMessage key vid startedAt =
     blank_message\<lparr>m_key := key, m_from := Assistant, m_versions := [createMessageVersion vid []],
       m_createdAt := Some startedAt, m_startedAt := Some startedAt, m_isReasoningComplete := Some False,
       m_isContentComplete := Some False, m_isReasoningStreaming := Some False, m_status := Some Loading\<rparr>"

datatype content_part = TextPart jsstr | ImagePart jsstr

datatype message_content = PlainText jsstr | Parts "content_part list"

definition buildMessageContent :: "jsstr \<Rightarrow> jsstr list \<Rightarrow> message_content" where
  "buildMessageContent txt imageUrls =
     (let validImages = filter (\<lambda>url. trim url \<noteq> []) imageUrls in
      if length validImages = 0 then PlainText txt
      else Parts (TextPart txt # map (\<lambda>url. ImagePart (trim url)) validImages))"

definition getTextContent :: "message_content \<Rightarrow> jsstr" where
  "getTextContent content =
     (case content of
        PlainText s \<Rightarrow> s
      | Parts ps \<Rightarrow>
          (case find (\<lambda>p. case p of TextPart _ \<Rightarrow> True | _ \<Rightarrow> False) ps of
             Some (TextPart s) \<Rightarrow> s | _ \<Rightarrow> []))"

record chat_completion_message =
  ccm_role :: message_role
  ccm_content :: jsstr

definition formatMessageForAPI :: "message \<Rightarrow> chat_completion_message" where
  "formatMessageForAPI m = \<lparr>ccm_role = m_from m, ccm_content = mv_content (getCurrentVersion m)\<rparr>"

definition isValidMessage :: "message \<Rightarrow> bool" where
  "isValidMessage m \<longleftrightarrow>
     m_versions m \<noteq> [] \<and> \<not> (m_from m = Assistant \<and> \<not> hasMessageContent m)"

section \<open>Reasoning tags\<close>

record parsed_think_tags =
  pt_visibleContent :: jsstr
  pt_reasoning :: jsstr
  pt_hasUnclosedTag :: bool

abbreviation open_tag :: jsstr where "open_tag \<equiv> js ''<think>''"
abbreviation close_tag :: jsstr where "close_tag \<equiv> js ''</think>''"

text \<open>\<open>s.indexOf(p, pos)\<close>\<close>

definition index_from :: "jsstr \<Rightarrow> jsstr \<Rightarrow> nat \<Rightarrow> nat option" where
  "index_from p s pos = map_option (\<lambda>i. i + pos) (index_of p (drop pos s))"

lemma index_from_bounds:
  "index_from p s pos = Some i \<Longrightarrow> p \<noteq> [] \<Longrightarrow> pos \<le> i \<and> i + length p \<le> length s"
proof -
  assume a: "index_from p s pos = Some i" "p \<noteq> []"
  then obtain j where j: "index_of p (drop pos s) = Some j" "i = j + pos" by (auto simp: index_from_def)
  from index_of_Some [OF j(1)] have "j + length p \<le> length s - pos" by simp
  moreover have "0 < length p" using a(2) by simp
  ultimately show ?thesis using j(2) by linarith
qed

text \<open>The loop, with the parts collected from a position on.\<close>

function think_loop :: "jsstr \<Rightarrow> nat \<Rightarrow> jsstr list \<Rightarrow> jsstr list \<Rightarrow> jsstr list \<times> jsstr list \<times> bool" where
  "think_loop content pos visible reasoned =
     (case index_from open_tag content pos of
        None \<Rightarrow> (if pos < length content then visible @ [drop pos content] else visible, reasoned, False)
      | Some openPos \<Rightarrow>
          (let visible' = (if pos < openPos then visible @ [slice pos openPos content] else visible) in
           case index_from close_tag content (openPos + 7) of
             None \<Rightarrow> (visible', reasoned @ [drop (openPos + 7) content], True)
           | Some closePos \<Rightarrow>
               think_loop content (closePos + 8) visible' (reasoned @ [slice (openPos + 7) closePos content])))"
  by pat_completeness auto

termination
proof (relation "measure (\<lambda>(content, pos, _, _). length content - pos)", goal_cases)
  case (2 content pos visible reasoned openPos visible' closePos)
  from index_from_bounds [OF 2(1)] index_from_bounds [OF 2(3)] show ?case by auto
qed simp

declare think_loop.simps [simp del]

definition parseThinkTags :: "jsstr \<Rightarrow> parsed_think_tags" where
  "parseThinkTags content =
     (if \<not> str_includes open_tag content
      then \<lparr>pt_visibleContent = content, pt_reasoning = [], pt_hasUnclosedTag = False\<rparr>
      else (case think_loop content 0 [] [] of
          (visibleParts, reasoningParts, unclosed) \<Rightarrow>
            \<lparr>pt_visibleContent = trim (concat visibleParts),
             pt_reasoning = trim (join [10, 10] reasoningParts), pt_hasUnclosedTag = unclosed\<rparr>))"

section \<open>Timing\<close>

text \<open>\<open>a ?? b\<close> for two optional fields.\<close>

definition orElse :: "'a option \<Rightarrow> 'a option \<Rightarrow> 'a option" where
  "orElse a b = (case a of Some x \<Rightarrow> Some x | None \<Rightarrow> b)"

definition completeAssistantTiming :: "message \<Rightarrow> jsnum \<Rightarrow> message" where
  "completeAssistantTiming m completedAt =
     (if m_from m \<noteq> Assistant then m
      else
        (let startedAt = or_else (orElse (m_startedAt m) (m_createdAt m)) completedAt in
         m\<lparr>m_startedAt := Some startedAt, m_completedAt := Some completedAt,
           m_durationMs := Some (num_max (Fin 0) (num_sub completedAt startedAt))\<rparr>))"

definition startReasoningTiming :: "message \<Rightarrow> jsnum \<Rightarrow> reasoning" where
  "startReasoningTiming m startedAt =
     (case m_reasoning m of
        None \<Rightarrow> \<lparr>r_content = [], r_duration = Fin 0, r_startedAt = Some startedAt, r_completedAt = None,
          r_durationMs = None\<rparr>
      | Some r \<Rightarrow> r\<lparr>r_startedAt := Some (or_else (r_startedAt r) startedAt)\<rparr>)"

definition completeReasoningTiming :: "message \<Rightarrow> jsnum \<Rightarrow> message" where
  "completeReasoningTiming m completedAt =
     (case m_reasoning m of
        None \<Rightarrow> m
      | Some r \<Rightarrow>
          if r_durationMs r \<noteq> None then m
          else
            (let startedAt = or_else (orElse (r_startedAt r) (m_startedAt m)) completedAt;
                 durationMs = num_max (Fin 0) (num_sub completedAt startedAt) in
             m\<lparr>m_reasoning := Some (r\<lparr>r_startedAt := Some startedAt, r_completedAt := Some completedAt,
                 r_durationMs := Some durationMs, r_duration := num_ceil (num_div durationMs (Fin 1000))\<rparr>)\<rparr>))"

section \<open>Streaming\<close>

definition processStreamingContent :: "(nat \<Rightarrow> jsnum) \<Rightarrow> message \<Rightarrow> jsstr \<Rightarrow> message" where
  "processStreamingContent clk m contentChunk =
     (let fullContent = mv_content (getCurrentVersion m) @ contentChunk in
      if m_reasoning m = None \<and> \<not> str_includes open_tag fullContent
      then (updateCurrentVersionContent m fullContent)\<lparr>m_isReasoningStreaming := Some False\<rparr>
      else
        (let parsed = parseThinkTags fullContent;
             finalReasoning =
               (if pt_reasoning parsed \<noteq> []
                then Some ((startReasoningTiming m (clk 0))\<lparr>r_content := pt_reasoning parsed\<rparr>)
                else m_reasoning m) in
         (updateCurrentVersionContent m fullContent)
           \<lparr>m_reasoning := finalReasoning, m_isReasoningStreaming := Some (pt_hasUnclosedTag parsed)\<rparr>))"

datatype stream_chunk_type = ReasoningChunk | ContentChunk

definition getAppendableChunk :: "jsstr \<Rightarrow> jsstr \<Rightarrow> jsstr" where
  "getAppendableChunk currentContent chunk =
     (if currentContent = [] \<or> \<not> starts_with currentContent chunk then chunk
      else drop (length currentContent) chunk)"

definition applyStreamingChunk ::
  "(nat \<Rightarrow> jsnum) \<Rightarrow> message \<Rightarrow> stream_chunk_type \<Rightarrow> jsstr \<Rightarrow> message" where
  "applyStreamingChunk clk m chunk_type chunk =
     (if m_status m = Some Error then m
      else (case chunk_type of
          ReasoningChunk \<Rightarrow>
            (let r = startReasoningTiming m (clk 0); appendable = getAppendableChunk (r_content r) chunk in
             m\<lparr>m_reasoning := Some (r\<lparr>r_content := r_content r @ appendable\<rparr>),
               m_isReasoningStreaming := Some True, m_status := Some Streaming\<rparr>)
        | ContentChunk \<Rightarrow>
            (let appendable = getAppendableChunk (mv_content (getCurrentVersion m)) chunk;
                 contentMessage = processStreamingContent clk m appendable in
             (if m_isReasoningStreaming contentMessage = Some True then contentMessage
              else completeReasoningTiming contentMessage (clk 1))\<lparr>m_status := Some Streaming\<rparr>)))"

text \<open>The first string of a chain of \<open>||\<close> that is not empty, or the empty string.\<close>

definition first_nonempty :: "jsstr list \<Rightarrow> jsstr" where
  "first_nonempty ss = (case find (\<lambda>s. s \<noteq> []) ss of Some s \<Rightarrow> s | None \<Rightarrow> [])"

definition finalizeMessage :: "(nat \<Rightarrow> jsnum) \<Rightarrow> message \<Rightarrow> jsstr option \<Rightarrow> message" where
  "finalizeMessage clk m apiReasoningContent =
     (let content = mv_content (getCurrentVersion m);
          parsed = (if str_includes open_tag content then Some (parseThinkTags content) else None);
          visibleContent = (case parsed of Some p \<Rightarrow> pt_visibleContent p | None \<Rightarrow> content);
          finalReasoning = first_nonempty
            [or_else apiReasoningContent [],
             (case m_reasoning m of Some r \<Rightarrow> r_content r | None \<Rightarrow> []),
             (case parsed of Some p \<Rightarrow> pt_reasoning p | None \<Rightarrow> [])];
          finalized = (updateCurrentVersionContent m visibleContent)
            \<lparr>m_reasoning :=
               (if finalReasoning \<noteq> []
                then Some ((startReasoningTiming m (clk 0))\<lparr>r_content := finalReasoning\<rparr>) else None),
             m_isReasoningStreaming := Some False\<rparr> in
      completeReasoningTiming finalized (clk 1))"

definition completeAssistantMessage :: "(nat \<Rightarrow> jsnum) \<Rightarrow> message \<Rightarrow> message" where
  "completeAssistantMessage clk m =
     completeAssistantTiming ((finalizeMessage clk m None)\<lparr>m_status := Some Complete\<rparr>) (clk 2)"

definition isAssistantMessageFinal :: "message \<Rightarrow> bool" where
  "isAssistantMessageFinal m \<longleftrightarrow> m_status m = Some Complete \<or> m_status m = Some Error"

definition isAssistantMessagePending :: "message \<Rightarrow> bool" where
  "isAssistantMessagePending m \<longleftrightarrow> m_status m = Some Loading \<or> m_status m = Some Streaming"

definition isPendingAssistantMessage :: "message option \<Rightarrow> bool" where
  "isPendingAssistantMessage om =
     (case om of None \<Rightarrow> False | Some m \<Rightarrow> m_from m = Assistant \<and> isAssistantMessagePending m)"

record choice_message =
  cm_content :: "jsstr option"
  cm_reasoning_content :: "jsstr option"

type_synonym completion_choice = "choice_message option"

definition hasChatCompletionChoice :: "completion_choice list option \<Rightarrow> bool" where
  "hasChatCompletionChoice choices = (case choices of None \<Rightarrow> False | Some cs \<Rightarrow> cs \<noteq> [])"

definition applyChatCompletionChoice :: "(nat \<Rightarrow> jsnum) \<Rightarrow> message \<Rightarrow> completion_choice \<Rightarrow> message" where
  "applyChatCompletionChoice clk m choice_msg =
     completeAssistantTiming
       ((finalizeMessage clk
           (updateCurrentVersionContent m
              (case choice_msg of None \<Rightarrow> [] | Some cm \<Rightarrow> or_else (cm_content cm) []))
           (case choice_msg of None \<Rightarrow> None | Some cm \<Rightarrow> cm_reasoning_content cm))\<lparr>m_status := Some Complete\<rparr>)
       (clk 2)"

definition applyChatCompletionResponse ::
  "(nat \<Rightarrow> jsnum) \<Rightarrow> message \<Rightarrow> completion_choice list option \<Rightarrow> message option" where
  "applyChatCompletionResponse clk m choices =
     (case choices of Some (choice_msg # _) \<Rightarrow> Some (applyChatCompletionChoice clk m choice_msg) | _ \<Rightarrow> None)"

text \<open>The index of the last element with a property, from the end of the list.\<close>

fun last_index_below :: "('a \<Rightarrow> bool) \<Rightarrow> 'a list \<Rightarrow> nat \<Rightarrow> nat option" where
  "last_index_below P xs 0 = None"
| "last_index_below P xs (Suc i) = (if P (xs ! i) then Some i else last_index_below P xs i)"

definition interrupted_text :: "(jsstr \<Rightarrow> jsstr) \<Rightarrow> jsstr" where
  "interrupted_text t = t (js ''Request error occurred'') @ js '': '' @ t (js ''Generation was interrupted'')"

definition sanitized :: "(nat \<Rightarrow> jsnum) \<Rightarrow> (jsstr \<Rightarrow> jsstr) \<Rightarrow> message \<Rightarrow> message" where
  "sanitized clk t m =
     (let finalized = finalizeMessage clk m None;
          hasContent = hasMessageContent finalized;
          hasReasoning = (case m_reasoning finalized of None \<Rightarrow> False | Some r \<Rightarrow> trim (r_content r) \<noteq> []) in
      if hasContent \<or> hasReasoning
      then completeAssistantTiming
        (finalized\<lparr>m_status := Some Complete, m_isReasoningStreaming := Some False\<rparr>) (clk 2)
      else completeAssistantTiming
        ((updateCurrentVersionContent finalized (interrupted_text t))
           \<lparr>m_status := Some Error, m_isReasoningStreaming := Some False\<rparr>) (clk 2))"

definition sanitizeMessagesOnLoad ::
  "(nat \<Rightarrow> jsnum) \<Rightarrow> (jsstr \<Rightarrow> jsstr) \<Rightarrow> message list \<Rightarrow> message list" where
  "sanitizeMessagesOnLoad clk t messages =
     (case last_index_below (\<lambda>m. isPendingAssistantMessage (Some m)) messages (length messages) of
        None \<Rightarrow> messages
      | Some i \<Rightarrow> messages[i := sanitized clk t (messages ! i)])"

section \<open>Updates of the last message\<close>

definition updateLastAssistantMessage :: "message list \<Rightarrow> (message \<Rightarrow> message) \<Rightarrow> message list" where
  "updateLastAssistantMessage messages updater =
     (if messages = [] then messages
      else if m_from (last messages) \<noteq> Assistant then messages
      else messages[length messages - 1 := updater (last messages)])"

definition updateAssistantMessageWithError ::
  "jsnum \<Rightarrow> message list \<Rightarrow> jsstr \<Rightarrow> jsval \<Rightarrow> jsstr option \<Rightarrow> message list" where
  "updateAssistantMessageWithError now messages errorMessage errorCode title =
     updateLastAssistantMessage messages (\<lambda>m.
       completeAssistantTiming
         ((updateCurrentVersionContent m
             (or_else title (js ''Request error occurred'') @ js '': '' @ errorMessage))
            \<lparr>m_status := Some Error, m_isReasoningStreaming := Some False,
             m_errorCode := (if truthy errorCode then errorCode else JNull)\<rparr>)
         now)"

section \<open>Conversations\<close>

text \<open>The identifiers that one call makes: a message key and a version identifier each.\<close>

record fresh_ids =
  fi_user :: "jsstr \<times> jsstr"
  fi_assistant :: "jsstr \<times> jsstr"

definition loading_message :: "fresh_ids \<Rightarrow> jsnum \<Rightarrow> message" where
  "loading_message ids at_time =
     createLoadingAssistantMessage (fst (fi_assistant ids)) (snd (fi_assistant ids)) at_time"

definition appendUserMessagePair :: "fresh_ids \<Rightarrow> jsnum \<Rightarrow> message list \<Rightarrow> jsstr \<Rightarrow> message list" where
  "appendUserMessagePair ids submittedAt messages content =
     messages @ [createUserMessage (fst (fi_user ids)) (snd (fi_user ids)) content submittedAt,
       loading_message ids submittedAt]"

definition createRegeneratedMessages :: "fresh_ids \<Rightarrow> jsnum \<Rightarrow> message list \<Rightarrow> jsstr \<Rightarrow> message list option" where
  "createRegeneratedMessages ids now messages messageKey =
     (case find_index (\<lambda>m. m_key m = messageKey) messages of
        None \<Rightarrow> None
      | Some i \<Rightarrow>
          if m_from (messages ! i) = User then Some (take (i + 1) messages @ [loading_message ids now])
          else Some (take i messages @ [loading_message ids now]))"

definition removeMessageByKey :: "message list \<Rightarrow> jsstr \<Rightarrow> message list" where
  "removeMessageByKey messages messageKey = filter (\<lambda>m. m_key m \<noteq> messageKey) messages"

definition getPreviousUserMessage :: "message list \<Rightarrow> nat \<Rightarrow> message option" where
  "getPreviousUserMessage messages beforeIndex =
     map_option (\<lambda>i. messages ! i) (last_index_below (\<lambda>m. m_from m = User) messages beforeIndex)"

record message_edit_result =
  me_messages :: "message list"
  me_shouldSend :: bool

definition edited_message :: "jsstr \<Rightarrow> jsstr \<Rightarrow> bool \<Rightarrow> jsnum \<Rightarrow> message \<Rightarrow> message" where
  "edited_message messageKey content shouldSubmit submittedAt m =
     (if m_key m = messageKey
      then (updateCurrentVersionContent m content)
        \<lparr>m_createdAt := (if shouldSubmit then Some submittedAt else m_createdAt m)\<rparr>
      else m)"

definition applyMessageEdit ::
  "fresh_ids \<Rightarrow> jsnum \<Rightarrow> message list \<Rightarrow> jsstr \<Rightarrow> jsstr \<Rightarrow> bool \<Rightarrow> message_edit_result option" where
  "applyMessageEdit ids submittedAt messages messageKey content shouldSubmit =
     (case find_index (\<lambda>m. m_key m = messageKey) messages of
        None \<Rightarrow> None
      | Some i \<Rightarrow>
          (let updated = map (edited_message messageKey content shouldSubmit submittedAt) messages in
           if \<not> shouldSubmit \<or> m_from (updated ! i) \<noteq> User
           then Some \<lparr>me_messages = updated, me_shouldSend = False\<rparr>
           else Some \<lparr>me_messages = take (i + 1) updated @ [loading_message ids submittedAt], me_shouldSend = True\<rparr>))"

definition getEditingMessageContent :: "message list \<Rightarrow> jsstr option \<Rightarrow> jsstr" where
  "getEditingMessageContent messages editingKey =
     (case editingKey of
        None \<Rightarrow> []
      | Some k \<Rightarrow>
          if k = [] then []
          else (case find (\<lambda>m. m_key m = k) messages of Some m \<Rightarrow> getMessageContent m | None \<Rightarrow> []))"

record chat_message_render_state =
  rst_alwaysShowActions :: bool
  rst_content :: jsstr
  rst_isEditing :: bool

definition getChatMessageRenderState ::
  "message list \<Rightarrow> message \<Rightarrow> int \<Rightarrow> jsstr option \<Rightarrow> chat_message_render_state" where
  "getChatMessageRenderState messages m messageIndex editingKey =
     \<lparr>rst_alwaysShowActions = (messageIndex = int (length messages) - 1 \<and> m_from m = Assistant),
      rst_content = getMessageContent m, rst_isEditing = (editingKey = Some (m_key m))\<rparr>"

section \<open>Display states\<close>

record message_content_state =
  cs_displayContent :: jsstr
  cs_hasSources :: bool
  cs_isAssistant :: bool
  cs_showLoader :: bool
  cs_showMessageContent :: bool
  cs_sources :: "(jsstr \<times> jsstr) list"
  cs_hasReasoning :: bool
  cs_reasoningContent :: "jsstr option"

definition shouldShowMessageLoader :: "message \<Rightarrow> bool \<Rightarrow> jsstr \<Rightarrow> bool" where
  "shouldShowMessageLoader m isAssistant versionContent \<longleftrightarrow>
     isAssistant \<and> m_isReasoningStreaming m \<noteq> Some True
     \<and> (m_status m = Some Loading \<or> m_status m = Some Streaming \<and> versionContent = [])"

definition shouldShowMessageContent :: "message \<Rightarrow> jsstr \<Rightarrow> bool" where
  "shouldShowMessageContent m versionContent \<longleftrightarrow>
     (m_from m = User \<or> m_isReasoningStreaming m \<noteq> Some True) \<and> 0 < length versionContent"

definition getDisplayContent :: "message \<Rightarrow> jsstr \<Rightarrow> jsstr" where
  "getDisplayContent m versionContent =
     (if m_from m \<noteq> Assistant then versionContent
      else if \<not> str_includes open_tag versionContent then versionContent
      else pt_visibleContent (parseThinkTags versionContent))"

definition getMessageContentState :: "message \<Rightarrow> jsstr \<Rightarrow> message_content_state" where
  "getMessageContentState m versionContent =
     (let isAssistant = (m_from m = Assistant);
          sources = or_else (m_sources m) [];
          reasoningContent = (if isAssistant then map_option r_content (m_reasoning m) else None);
          shown = (case reasoningContent of Some r \<Rightarrow> if r \<noteq> [] then Some r else None | None \<Rightarrow> None) in
      \<lparr>cs_displayContent = getDisplayContent m versionContent, cs_hasSources = (0 < length sources),
       cs_isAssistant = isAssistant, cs_showLoader = shouldShowMessageLoader m isAssistant versionContent,
       cs_showMessageContent = shouldShowMessageContent m versionContent, cs_sources = sources,
       cs_hasReasoning = (shown \<noteq> None), cs_reasoningContent = shown\<rparr>)"

datatype error_kind = Generic | ModelPrice

record message_error_state =
  es_content :: jsstr
  es_kind :: error_kind

definition isErrorMessage :: "message \<Rightarrow> bool" where
  "isErrorMessage m \<longleftrightarrow> m_status m = Some Error"

definition getMessageErrorState :: "message \<Rightarrow> message_error_state option" where
  "getMessageErrorState m =
     (if \<not> isErrorMessage m then None
      else Some \<lparr>es_content = first_nonempty [getMessageContent m, js ''An unknown error occurred''],
        es_kind = (if m_errorCode m = JStr (js ''model_price_error'') then ModelPrice else Generic)\<rparr>)"

record message_editor_state =
  ed_canSave :: bool
  ed_hasChanged :: bool
  ed_showSaveAndSubmit :: bool

definition getMessageEditorState :: "message \<Rightarrow> jsstr \<Rightarrow> jsstr \<Rightarrow> message_editor_state" where
  "getMessageEditorState m editText originalText =
     \<lparr>ed_canSave = (0 < length (trim editText) \<and> editText \<noteq> originalText),
      ed_hasChanged = (editText \<noteq> originalText), ed_showSaveAndSubmit = (m_from m = User)\<rparr>"

record message_action_state =
  as_content :: jsstr
  as_hasContent :: bool
  as_isAssistant :: bool
  as_isLoading :: bool
  as_isUser :: bool

definition getMessageActionState :: "message \<Rightarrow> message_action_state" where
  "getMessageActionState m =
     \<lparr>as_content = getMessageContent m, as_hasContent = hasMessageContent m,
      as_isAssistant = (m_from m = Assistant),
      as_isLoading = (m_status m = Some Loading \<or> m_status m = Some Streaming), as_isUser = (m_from m = User)\<rparr>"

section \<open>Lemmas: reasoning tags\<close>

lemma index_of_first:
  assumes "index_of p s = Some i"
  shows "s = take i s @ p @ drop (i + length p) s" "p \<noteq> [] \<Longrightarrow> \<not> str_includes p (take i s)"
proof -
  note f = index_of_Some [OF assms]
  from f have p: "take (length p) (drop i s) = p" by (simp add: starts_with_def)
  have "s = take i s @ take (length p) (drop i s) @ drop (length p) (drop i s)"
    by (metis append_take_drop_id)
  then show "s = take i s @ p @ drop (i + length p) s" by (simp only: p drop_drop add.commute)
  assume ne: "p \<noteq> []"
  show "\<not> str_includes p (take i s)"
  proof
    assume "str_includes p (take i s)"
    then obtain j where j: "index_of p (take i s) = Some j" by (auto simp: str_includes_def)
    from index_of_Some [OF j] have "starts_with p (drop j (take i s))" "j + length p \<le> i" using f by auto
    moreover have "drop j s = drop j (take i s) @ drop i s"
      using calculation(2) by (metis append_take_drop_id drop_append drop_take le_add_diff_inverse length_take
          min.absorb2 diff_is_0_eq add_leE drop_0 f)
    ultimately have "starts_with p (drop j s)" by (auto simp: starts_with_prefix)
    with f \<open>j + length p \<le> i\<close> ne show False by (metis add_leD1 le_neq_implies_less length_0_conv add_le_same_cancel1 le_zero_eq)
  qed
qed

lemma index_from_first:
  assumes "index_from p s pos = Some i" "p \<noteq> []"
  shows "drop pos s = slice pos i s @ p @ drop (i + length p) s" "\<not> str_includes p (slice pos i s)"
proof -
  from assms(1) obtain j where j: "index_of p (drop pos s) = Some j" "i = j + pos" by (auto simp: index_from_def)
  have "slice pos i s = take j (drop pos s)" by (simp add: slice_def j(2))
  with index_of_first [OF j(1)] assms(2) j(2)
  show "drop pos s = slice pos i s @ p @ drop (i + length p) s" "\<not> str_includes p (slice pos i s)"
    by (simp_all add: add.commute add.left_commute)
qed

lemma index_from_none: "index_from p s pos = None \<longleftrightarrow> \<not> str_includes p (drop pos s)"
  by (simp add: index_from_def str_includes_def)

text \<open>A text as passages, each visible text followed by a closed tag, and the text after the last.\<close>

definition tagged :: "(jsstr \<times> jsstr) list \<Rightarrow> jsstr" where
  "tagged ps = concat (map (\<lambda>(v, r). v @ open_tag @ r @ close_tag) ps)"

definition tag_free :: "jsstr \<times> jsstr \<Rightarrow> bool" where
  "tag_free p \<longleftrightarrow> \<not> str_includes open_tag (fst p) \<and> \<not> str_includes close_tag (snd p)"

lemma think_loop_spec:
  "think_loop content pos visible reasoned = (vs, rs, unclosed) \<Longrightarrow>
   \<exists>ps rest. list_all tag_free ps \<and> drop pos content = tagged ps @ rest
     \<and> (if unclosed
         then \<exists>v r. tag_free (v, r) \<and> rest = v @ open_tag @ r
           \<and> concat vs = concat visible @ concat (map fst ps) @ v \<and> rs = reasoned @ map snd ps @ [r]
         else \<not> str_includes open_tag rest
           \<and> concat vs = concat visible @ concat (map fst ps) @ rest \<and> rs = reasoned @ map snd ps)"
proof (induction content pos visible reasoned arbitrary: vs rs unclosed rule: think_loop.induct)
  case (1 content pos visible reasoned)
  show ?case
  proof (cases "index_from open_tag content pos")
    case None
    with "1.prems" have e: "vs = (if pos < length content then visible @ [drop pos content] else visible)"
      "rs = reasoned" "\<not> unclosed" by (simp_all add: think_loop.simps)
    have "concat vs = concat visible @ drop pos content" by (simp add: e(1))
    with e None show ?thesis
      by (intro exI [of _ "[]"] exI [of _ "drop pos content"]) (simp add: tagged_def index_from_none)
  next
    case (Some openPos)
    have ne: "open_tag \<noteq> []" "close_tag \<noteq> []" by simp_all
    define v where "v = slice pos openPos content"
    define visible' where "visible' = (if pos < openPos then visible @ [v] else visible)"
    from index_from_bounds [OF Some ne(1)] have "pos \<le> openPos" by simp
    then have cv: "concat visible' = concat visible @ v" by (auto simp: visible'_def v_def slice_def)
    have len: "length open_tag = 7" "length close_tag = 8" by simp_all
    note o = index_from_first [OF Some ne(1), folded v_def, unfolded len(1)]
    show ?thesis
    proof (cases "index_from close_tag content (openPos + 7)")
      case None
      with "1.prems" Some have e: "vs = visible'" "rs = reasoned @ [drop (openPos + 7) content]" unclosed
        by (auto simp: think_loop.simps Let_def visible'_def v_def)
      have "tag_free (v, drop (openPos + 7) content)" using o(2) None by (simp add: tag_free_def index_from_none)
      with e o(1) cv show ?thesis
        by (intro exI [of _ "[]"] exI [of _ "drop pos content"]) (auto simp: tagged_def)
    next
      case (Some closePos)
      define r where "r = slice (openPos + 7) closePos content"
      note c = index_from_first [OF Some ne(2), folded r_def, unfolded len(2)]
      have "think_loop content (closePos + 8) visible' (reasoned @ [r]) = (vs, rs, unclosed)"
        using "1.prems" Some \<open>index_from open_tag content pos = Some openPos\<close>
        by (subst (asm) think_loop.simps) (simp add: Let_def visible'_def v_def r_def split: if_split_asm)
      from "1.IH" [OF \<open>index_from open_tag content pos = Some openPos\<close> _ Some, of visible', folded v_def r_def, OF visible'_def this]
      obtain ps rest where ps: "list_all tag_free ps" "drop (closePos + 8) content = tagged ps @ rest"
        "if unclosed
         then \<exists>v r'. tag_free (v, r') \<and> rest = v @ open_tag @ r'
           \<and> concat vs = concat visible' @ concat (map fst ps) @ v \<and> rs = (reasoned @ [r]) @ map snd ps @ [r']
         else \<not> str_includes open_tag rest
           \<and> concat vs = concat visible' @ concat (map fst ps) @ rest \<and> rs = (reasoned @ [r]) @ map snd ps"
        by blast
      have "drop pos content = tagged ((v, r) # ps) @ rest"
        using o(1) c(1) ps(2) by (simp add: tagged_def)
      moreover have "tag_free (v, r)" using o(2) c(2) by (simp add: tag_free_def)
      ultimately show ?thesis using ps(1,3) cv
        by (intro exI [of _ "(v, r) # ps"] exI [of _ rest]) (simp split: if_splits)
    qed
  qed
qed

section \<open>Lemmas: streaming and loading\<close>

lemma version_update [simp]:
  "mv_content (getCurrentVersion (updateCurrentVersionContent m c)) = c"
  "m_status (updateCurrentVersionContent m c) = m_status m"
  "m_from (updateCurrentVersionContent m c) = m_from m"
  "m_key (updateCurrentVersionContent m c) = m_key m"
  by (simp_all add: updateCurrentVersionContent_def getCurrentVersion_def)

lemma current_version_cong:
  "m_versions a = m_versions b \<Longrightarrow> getCurrentVersion a = getCurrentVersion b"
  by (simp add: getCurrentVersion_def)

lemma reasoning_timing_keeps [simp]:
  "m_versions (completeReasoningTiming m t) = m_versions m"
  "m_status (completeReasoningTiming m t) = m_status m"
  "m_from (completeReasoningTiming m t) = m_from m"
  "m_key (completeReasoningTiming m t) = m_key m"
  by (simp_all add: completeReasoningTiming_def Let_def split: option.split)

lemma assistant_timing_keeps [simp]:
  "m_versions (completeAssistantTiming m t) = m_versions m"
  "m_status (completeAssistantTiming m t) = m_status m"
  "m_from (completeAssistantTiming m t) = m_from m"
  "m_key (completeAssistantTiming m t) = m_key m"
  by (simp_all add: completeAssistantTiming_def Let_def)

lemma process_content: "getMessageContent (processStreamingContent clk m c) = getMessageContent m @ c"
  by (auto simp: processStreamingContent_def getMessageContent_def getCurrentVersion_def
      updateCurrentVersionContent_def Let_def)

lemma appendable: "c @ getAppendableChunk c chunk = (if starts_with c chunk then chunk else c @ chunk)"
  by (auto simp: getAppendableChunk_def starts_with_prefix prefix_def)

lemma stream_content:
  "getMessageContent (applyStreamingChunk clk m ContentChunk chunk) =
     (if m_status m = Some Error then getMessageContent m
      else if starts_with (getMessageContent m) chunk then chunk else getMessageContent m @ chunk)"
proof -
  have c: "mv_content (getCurrentVersion m) = getMessageContent m" by (simp add: getMessageContent_def)
  have v: "getMessageContent (m'\<lparr>m_status := st\<rparr>) = getMessageContent m'" for m' st
    by (simp add: getMessageContent_def getCurrentVersion_def)
  have r: "getMessageContent (completeReasoningTiming m' t) = getMessageContent m'" for m' t
    by (simp add: getMessageContent_def current_version_cong [of "completeReasoningTiming m' t" m'])
  show ?thesis
    using appendable [of "getMessageContent m" chunk]
    by (simp add: applyStreamingChunk_def Let_def v r process_content c)
qed

lemma stream_status:
  "m_status (applyStreamingChunk clk m k chunk) = (if m_status m = Some Error then Some Error else Some Streaming)"
  by (simp add: applyStreamingChunk_def Let_def split: stream_chunk_type.split)

lemma finalize_keeps [simp]:
  "m_from (finalizeMessage clk m a) = m_from m" "m_key (finalizeMessage clk m a) = m_key m"
  by (simp_all add: finalizeMessage_def Let_def)

lemma sanitized_final:
  "isAssistantMessageFinal (sanitized clk t m)" "m_key (sanitized clk t m) = m_key m" "m_from (sanitized clk t m) = m_from m"
  by (simp_all add: sanitized_def Let_def isAssistantMessageFinal_def)

lemma last_index_below_Some:
  "last_index_below P xs n = Some i \<Longrightarrow> i < n \<and> P (xs ! i)"
  by (induction n) (auto split: if_splits)

lemma last_index_below_None: "last_index_below P xs n = None \<Longrightarrow> \<forall>i<n. \<not> P (xs ! i)"
  by (induction n) (auto split: if_splits simp: less_Suc_eq)

lemma length_filter_update:
  "i < length xs \<Longrightarrow> P (xs ! i) \<Longrightarrow> \<not> P y \<Longrightarrow> length (filter P (xs[i := y])) = length (filter P xs) - 1"
proof (induction xs arbitrary: i)
  case (Cons x xs)
  show ?case
  proof (cases i)
    case 0
    with Cons show ?thesis by simp
  next
    case (Suc j)
    with Cons have IH: "length (filter P (xs[j := y])) = length (filter P xs) - 1" and "xs ! j \<in> set xs" "P (xs ! j)" by auto
    then have "0 < length (filter P xs)" by (auto simp: filter_empty_conv)
    with IH Suc show ?thesis by simp
  qed
qed simp

section \<open>Properties\<close>

text \<open>
  C31. Splitting reasoning from visible text loses nothing: a text is a sequence of visible passages
  each followed by a closed tag, and a rest; the visible text is the passages and the rest put
  together, the reasoning is what the tags enclose, and a tag that is still open gives the
  rest after it to the reasoning.
\<close>

theorem think_tags_lossless:
  assumes "str_includes (js ''<think>'') content"
  shows "\<exists>ps rest. content = concat (map (\<lambda>(v, r). v @ js ''<think>'' @ r @ js ''</think>'') ps) @ rest
    \<and> list_all (\<lambda>(v, r). \<not> str_includes (js ''<think>'') v \<and> \<not> str_includes (js ''</think>'') r) ps
    \<and> (if pt_hasUnclosedTag (parseThinkTags content)
        then \<exists>v r. rest = v @ js ''<think>'' @ r \<and> \<not> str_includes (js ''</think>'') r
          \<and> pt_visibleContent (parseThinkTags content) = trim (concat (map fst ps) @ v)
          \<and> pt_reasoning (parseThinkTags content) = trim (join [10, 10] (map snd ps @ [r]))
        else \<not> str_includes (js ''<think>'') rest
          \<and> pt_visibleContent (parseThinkTags content) = trim (concat (map fst ps) @ rest)
          \<and> pt_reasoning (parseThinkTags content) = trim (join [10, 10] (map snd ps)))"
proof -
  obtain vs rs u where l: "think_loop content 0 [] [] = (vs, rs, u)" by (cases "think_loop content 0 [] []") auto
  with assms have p: "parseThinkTags content =
      \<lparr>pt_visibleContent = trim (concat vs), pt_reasoning = trim (join [10, 10] rs), pt_hasUnclosedTag = u\<rparr>"
    by (simp add: parseThinkTags_def)
  have "\<exists>ps rest. list_all tag_free ps \<and> content = tagged ps @ rest \<and>
      (if u then \<exists>v r. tag_free (v, r) \<and> rest = v @ open_tag @ r
           \<and> concat vs = concat (map fst ps) @ v \<and> rs = map snd ps @ [r]
         else \<not> str_includes open_tag rest \<and> concat vs = concat (map fst ps) @ rest \<and> rs = map snd ps)"
    using think_loop_spec [OF l] by (simp only: drop_0 concat.simps append_Nil)
  then obtain ps rest where
    ps: "list_all tag_free ps" "content = tagged ps @ rest" and
    u: "if u then \<exists>v r. tag_free (v, r) \<and> rest = v @ open_tag @ r
           \<and> concat vs = concat (map fst ps) @ v \<and> rs = map snd ps @ [r]
         else \<not> str_includes open_tag rest \<and> concat vs = concat (map fst ps) @ rest \<and> rs = map snd ps"
    by (elim exE conjE)
  have "list_all (\<lambda>(v, r). \<not> str_includes open_tag v \<and> \<not> str_includes close_tag r) ps"
    using ps(1) by (auto simp: list_all_iff tag_free_def)
  note tags = this
  show ?thesis
  proof (cases u)
    case True
    with u obtain v r where "tag_free (v, r)" "rest = v @ open_tag @ r"
      "concat vs = concat (map fst ps) @ v" "rs = map snd ps @ [r]" by auto
    with True ps(2) tags show ?thesis unfolding p tagged_def tag_free_def
      by (intro exI [of _ ps] exI [of _ rest]) (simp, blast)
  next
    case False
    with ps(2) u tags show ?thesis unfolding p tagged_def by (intro exI [of _ ps] exI [of _ rest]) simp
  qed
qed

theorem think_tags_lossless_witness:
  "\<exists>ps rest. js ''a<think>b</think>c'' = concat (map (\<lambda>(v, r). v @ js ''<think>'' @ r @ js ''</think>'') ps) @ rest
    \<and> js ''ac'' = trim (concat (map fst ps) @ rest)"
proof -
  have "str_includes (js ''<think>'') (js ''a<think>b</think>c'')"
    "parseThinkTags (js ''a<think>b</think>c'') = \<lparr>pt_visibleContent = js ''ac'', pt_reasoning = js ''b'', pt_hasUnclosedTag = False\<rparr>"
    by code_simp+
  with think_tags_lossless [of "js ''a<think>b</think>c''"] show ?thesis by auto
qed

text \<open>
  A repeated delta is lost: a content chunk that starts with the whole content so far replaces it
  instead of being appended, so a first chunk that is sent twice is shown once.
\<close>

lemma repeated_delta_lost:
  assumes "m_status m \<noteq> Some Error" "getMessageContent m = []"
  shows "getMessageContent (applyStreamingChunk clk (applyStreamingChunk clk m ContentChunk chunk) ContentChunk (chunk @ further))
    = chunk @ further"
  using assms by (simp add: stream_content stream_status starts_with_def)

text \<open>
  Loading repairs the last interrupted message only: that message becomes complete or failed, all
  others are kept, so with several interrupted messages all but one stay pending.
\<close>

lemma sanitize_last_only:
  "list_all2 (\<lambda>m m'. m' = m \<or> isPendingAssistantMessage (Some m) \<and> isAssistantMessageFinal m' \<and> m_key m' = m_key m)
     messages (sanitizeMessagesOnLoad clk t messages)
   \<and> length (filter (\<lambda>m. isPendingAssistantMessage (Some m)) (sanitizeMessagesOnLoad clk t messages)) =
       length (filter (\<lambda>m. isPendingAssistantMessage (Some m)) messages) - 1"
proof (cases "last_index_below (\<lambda>m. isPendingAssistantMessage (Some m)) messages (length messages)")
  case None
  from last_index_below_None [OF this] have "filter (\<lambda>m. isPendingAssistantMessage (Some m)) messages = []"
    by (auto simp: filter_empty_conv in_set_conv_nth)
  with None show ?thesis by (simp add: sanitizeMessagesOnLoad_def list_all2_refl)
next
  case (Some i)
  note i = last_index_below_Some [OF Some]
  have s: "sanitizeMessagesOnLoad clk t messages = messages[i := sanitized clk t (messages ! i)]"
    by (simp add: sanitizeMessagesOnLoad_def Some)
  have np: "\<not> isPendingAssistantMessage (Some (sanitized clk t (messages ! i)))"
    using sanitized_final(1) [of clk t "messages ! i"]
    by (auto simp: isPendingAssistantMessage_def isAssistantMessageFinal_def isAssistantMessagePending_def)
  have "list_all2 (\<lambda>m m'. m' = m \<or> isPendingAssistantMessage (Some m) \<and> isAssistantMessageFinal m' \<and> m_key m' = m_key m)
      messages (messages[i := sanitized clk t (messages ! i)])"
    using i sanitized_final [of clk t "messages ! i"] by (auto simp: list_all2_conv_all_nth nth_list_update)
  with np i length_filter_update [of i messages "\<lambda>m. isPendingAssistantMessage (Some m)"] show ?thesis
    unfolding s by blast
qed

end
