(* ===== verification/AuthSession.thy ===== *)
theory AuthSession
  imports JsJson StatusCodeRules
begin

text \<open>
  The session of the console: the store (\<open>stores/auth-store.ts\<close>), the validation of bundles, their
  application, the refresh runner and the entry points that decide whether a visitor is signed in
  (\<open>lib/auth-session.ts\<close>), the synthetic bundle (\<open>lib/pbr-auth.ts\<close>), the session hint cookie
  (\<open>lib/session-hint.ts\<close>) and the filter of events from other tabs (\<open>lib/auth-session-sync.ts\<close>).

  The world is the store, the epoch counter and the log of events published to other tabs.  What
  other code does to it while an asynchronous operation is suspended is an argument of the
  operation, so a theorem holds for every interleaving.
\<close>

section \<open>Store\<close>

datatype bootstrap_state = BootIdle | BootChecking | BootComplete

datatype sync_kind = SyncAuthenticated | SyncSignedOut

record auth_world =
  aw_user :: jsval
  aw_accessToken :: jsval
  aw_accessExpiresAt :: jsval
  aw_session :: jsval
  aw_bootstrapState :: bootstrap_state
  aw_epoch :: nat
  aw_published :: "(sync_kind \<times> jsval) list"

definition initial_world :: auth_world where
  "initial_world =
     \<lparr>aw_user = JNull, aw_accessToken = JNull, aw_accessExpiresAt = JNull, aw_session = JNull,
      aw_bootstrapState = BootIdle, aw_epoch = 0, aw_published = []\<rparr>"

definition setBundle :: "jsval \<Rightarrow> auth_world \<Rightarrow> auth_world" where
  "setBundle bundle w =
     w\<lparr>aw_user := get_prop bundle (js ''user''), aw_accessToken := get_prop bundle (js ''access_token''),
       aw_accessExpiresAt := get_prop bundle (js ''access_expires_at''),
       aw_session := get_prop bundle (js ''session''), aw_bootstrapState := BootComplete\<rparr>"

definition setUser :: "jsval \<Rightarrow> auth_world \<Rightarrow> auth_world" where
  "setUser user w = w\<lparr>aw_user := user\<rparr>"

definition setBootstrapState :: "bootstrap_state \<Rightarrow> auth_world \<Rightarrow> auth_world" where
  "setBootstrapState st w = w\<lparr>aw_bootstrapState := st\<rparr>"

definition reset :: "bootstrap_state \<Rightarrow> auth_world \<Rightarrow> auth_world" where
  "reset st w =
     w\<lparr>aw_user := JNull, aw_accessToken := JNull, aw_accessExpiresAt := JNull, aw_session := JNull,
       aw_bootstrapState := st\<rparr>"

section \<open>Validation\<close>

definition isRecord :: "jsval \<Rightarrow> bool" where
  "isRecord v \<longleftrightarrow> truthy v \<and> typeof_object v"

definition is_number :: "jsval \<Rightarrow> bool" where
  "is_number v = (case v of JNum _ \<Rightarrow> True | _ \<Rightarrow> False)"

definition is_bool :: "jsval \<Rightarrow> bool" where
  "is_bool v = (case v of JBool _ \<Rightarrow> True | _ \<Rightarrow> False)"

definition nonempty_string :: "jsval \<Rightarrow> bool" where
  "nonempty_string v = (case v of JStr s \<Rightarrow> 0 < length s | _ \<Rightarrow> False)"

definition isAuthUser :: "jsval \<Rightarrow> bool" where
  "isAuthUser v \<longleftrightarrow>
     isRecord v
     \<and> (case get_prop v (js ''id'') of JNum x \<Rightarrow> is_integer x \<and> num_lt (Fin 0) x | _ \<Rightarrow> False)
     \<and> is_string (get_prop v (js ''username'')) \<and> is_number (get_prop v (js ''role''))"

definition isLoginSession :: "jsval \<Rightarrow> bool" where
  "isLoginSession v \<longleftrightarrow>
     isRecord v \<and> nonempty_string (get_prop v (js ''sid'')) \<and> is_bool (get_prop v (js ''current''))
     \<and> is_string (get_prop v (js ''login_method'')) \<and> is_string (get_prop v (js ''ip''))
     \<and> is_string (get_prop v (js ''user_agent'')) \<and> is_number (get_prop v (js ''created_at''))
     \<and> is_number (get_prop v (js ''last_active_at'')) \<and> is_number (get_prop v (js ''expires_at''))"

definition hasValidTokenFields :: "jsval \<Rightarrow> bool" where
  "hasValidTokenFields v \<longleftrightarrow>
     nonempty_string (get_prop v (js ''access_token'')) \<and> nonempty_string (get_prop v (js ''token_type''))
     \<and> (case get_prop v (js ''access_expires_at'') of JNum x \<Rightarrow> is_finite x \<and> num_lt (Fin 0) x | _ \<Rightarrow> False)"

definition isAuthBundle :: "jsval \<Rightarrow> bool" where
  "isAuthBundle v \<longleftrightarrow>
     isRecord v \<and> hasValidTokenFields v \<and> isAuthUser (get_prop v (js ''user''))
     \<and> isLoginSession (get_prop v (js ''session''))"

definition isAuthTokenRotation :: "jsval \<Rightarrow> bool" where
  "isAuthTokenRotation v \<longleftrightarrow>
     isRecord v \<and> hasValidTokenFields v \<and> get_prop v (js ''token_type'') = JStr (js ''Bearer'')
     \<and> isLoginSession (get_prop v (js ''session''))
     \<and> truthy (get_prop (get_prop v (js ''session'')) (js ''current''))"

section \<open>Applying and clearing\<close>

text \<open>\<open>session?.sid\<close>\<close>

definition session_sid :: "auth_world \<Rightarrow> jsval" where
  "session_sid w = (if nullish (aw_session w) then JUndef else get_prop (aw_session w) (js ''sid''))"

text \<open>Without a window, or on an empty identifier, nothing is published; a window is present here.\<close>

definition publishAuthSessionEvent :: "sync_kind \<Rightarrow> jsval \<Rightarrow> auth_world \<Rightarrow> auth_world" where
  "publishAuthSessionEvent kind sid w =
     (if \<not> truthy sid then w else w\<lparr>aw_published := aw_published w @ [(kind, sid)]\<rparr>)"

definition applyAuthBundle :: "jsval \<Rightarrow> bool \<Rightarrow> auth_world \<Rightarrow> auth_world" where
  "applyAuthBundle bundle synchronizeTabs w =
     (let previousSID = session_sid w;
          sid = get_prop (get_prop bundle (js ''session'')) (js ''sid'');
          w1 = setBundle bundle (w\<lparr>aw_epoch := Suc (aw_epoch w)\<rparr>) in
      if synchronizeTabs \<and> \<not> strict_eq previousSID sid
      then publishAuthSessionEvent SyncAuthenticated sid w1 else w1)"

datatype rotation_error = InvalidRotation | NoActiveSession | SessionMismatch

definition applyAuthRotation :: "jsval \<Rightarrow> auth_world \<Rightarrow> rotation_error + auth_world" where
  "applyAuthRotation v w =
     (if \<not> isAuthTokenRotation v then Inl InvalidRotation
      else if \<not> truthy (aw_user w) \<or> \<not> truthy (aw_session w) then Inl NoActiveSession
      else if \<not> strict_eq (get_prop (get_prop v (js ''session'')) (js ''sid''))
                 (get_prop (aw_session w) (js ''sid''))
      then Inl SessionMismatch
      else Inr (applyAuthBundle
        (JObj [(js ''access_token'', get_prop v (js ''access_token'')),
               (js ''token_type'', get_prop v (js ''token_type'')),
               (js ''access_expires_at'', get_prop v (js ''access_expires_at'')),
               (js ''session'', get_prop v (js ''session'')), (js ''user'', aw_user w)]) False w))"

definition clearAuthentication :: "bool \<Rightarrow> bootstrap_state \<Rightarrow> auth_world \<Rightarrow> auth_world" where
  "clearAuthentication synchronizeTabs st w =
     (let sid = session_sid w;
          w1 = reset st (w\<lparr>aw_epoch := Suc (aw_epoch w)\<rparr>) in
      if synchronizeTabs \<and> truthy sid then publishAuthSessionEvent SyncSignedOut sid w1 else w1)"

section \<open>The refresh runner\<close>

record refresh_response =
  rr_status :: int
  rr_data :: jsval
  rr_error :: jsval

datatype refresh_outcome =
    Authenticated jsval
  | Anonymous
  | TransientError jsval
  | Superseded
  | OutOfSync jsval
  | Stale

definition refreshRaceDelays :: "nat list" where
  "refreshRaceDelays = [80, 200, 500]"

text \<open>
  The environment of one refresh: the answer to the request with a given number, and what happens to
  the world while the request, or the wait after it, is pending.
\<close>

record refresh_env =
  re_response :: "nat \<Rightarrow> refresh_response"
  re_during_request :: "nat \<Rightarrow> auth_world \<Rightarrow> auth_world"
  re_during_wait :: "nat \<Rightarrow> auth_world \<Rightarrow> auth_world"

text \<open>The callback \<open>clear\<close> that \<open>runRefresh\<close> passes.\<close>

definition runner_clear :: "bool \<Rightarrow> bootstrap_state \<Rightarrow> auth_world \<Rightarrow> auth_world" where
  "runner_clear synchronizeTabs st w =
     (if \<not> synchronizeTabs \<and> st = BootIdle then reset BootIdle w
      else clearAuthentication synchronizeTabs st w)"

definition response_record :: "refresh_response \<Rightarrow> jsval" where
  "response_record response = (if isRecord (rr_data response) then rr_data response else JUndef)"

definition response_code :: "refresh_response \<Rightarrow> jsval" where
  "response_code response =
     (let code = get_prop (response_record response) (js ''code'') in
      if is_string code then code else JUndef)"

definition parse_bundle :: "jsval \<Rightarrow> jsval option" where
  "parse_bundle v = (if isAuthBundle v then Some v else None)"

definition accepted_bundle :: "refresh_response \<Rightarrow> jsval option" where
  "accepted_bundle response =
     (if get_prop (response_record response) (js ''success'') = JBool True
      then parse_bundle (get_prop (response_record response) (js ''data'')) else None)"

text \<open>What an answer leads to that is neither accepted nor retried.\<close>

definition refused :: "refresh_response \<Rightarrow> auth_world \<Rightarrow> refresh_outcome \<times> auth_world" where
  "refused response w =
     (if rr_status response = 200 \<and> isRecord (response_record response)
         \<and> get_prop (response_record response) (js ''stale'') = JBool True
      then (Stale, runner_clear True BootComplete w)
      else if rr_status response = 401 then (Anonymous, runner_clear True BootComplete w)
      else if rr_status response = 0 \<or> 500 \<le> rr_status response \<or> rr_status response = 429
      then (TransientError (if nullish (rr_error response) then rr_data response else rr_error response),
            setBootstrapState BootIdle w)
      else (OutOfSync (if nullish (response_code response) then JStr (js ''AUTH_INVALID_REFRESH_RESPONSE'')
              else response_code response),
            runner_clear False BootComplete w))"

text \<open>
  \<open>run(raceAttempt, allowMismatchRetry)\<close> for the refresh that started at an epoch; \<open>k\<close> counts the
  requests made.
\<close>

function run :: "refresh_env \<Rightarrow> nat \<Rightarrow> nat \<Rightarrow> nat \<Rightarrow> bool \<Rightarrow> auth_world \<Rightarrow> refresh_outcome \<times> auth_world \<times> nat" where
  "run env epoch k raceAttempt allowMismatchRetry w =
     (if aw_epoch w \<noteq> epoch then (Superseded, w, k)
      else
        (let response = re_response env k; w1 = re_during_request env k w; code = response_code response in
         if aw_epoch w1 \<noteq> epoch then (Superseded, w1, Suc k)
         else (case accepted_bundle response of
             Some bundle \<Rightarrow> (Authenticated bundle, applyAuthBundle bundle False w1, Suc k)
           | None \<Rightarrow>
               if rr_status response = 409 \<and> code = JStr (js ''AUTH_REFRESH_RACE'') then
                 (if raceAttempt < length refreshRaceDelays
                  then run env epoch (Suc k) (raceAttempt + 1) allowMismatchRetry (re_during_wait env k w1)
                  else (OutOfSync code, runner_clear False BootComplete w1, Suc k))
               else if rr_status response = 409 \<and> code = JStr (js ''AUTH_SESSION_MISMATCH'') then
                 (if allowMismatchRetry
                  then run env epoch (Suc k) 0 False (runner_clear False BootIdle w1)
                  else (OutOfSync code, runner_clear False BootComplete w1, Suc k))
               else (let (outcome, w2) = refused response w1 in (outcome, w2, Suc k)))))"
  by pat_completeness auto
termination
  by (relation "measure (\<lambda>(env, epoch, k, raceAttempt, allow, w). (if allow then 5 else 0) + (4 - raceAttempt))")
    (auto simp: refreshRaceDelays_def)

declare run.simps [simp del]

definition runRefresh :: "refresh_env \<Rightarrow> auth_world \<Rightarrow> refresh_outcome \<times> auth_world \<times> nat" where
  "runRefresh env w = run env (aw_epoch w) 0 0 True w"

section \<open>Entry points\<close>

text \<open>\<open>refresh\<close> is \<open>refreshAuthentication\<close>; \<open>now\<close> is \<open>Math.floor(Date.now() / 1000)\<close>.\<close>

definition expires_after :: "jsval \<Rightarrow> int \<Rightarrow> bool" where
  "expires_after v now = (case v of JNum x \<Rightarrow> num_lt (Fin (of_int now)) x | _ \<Rightarrow> False)"

definition currentValidAuthBundle :: "int \<Rightarrow> auth_world \<Rightarrow> jsval option" where
  "currentValidAuthBundle now w =
     (if \<not> truthy (aw_user w) \<or> \<not> truthy (aw_accessToken w) \<or> \<not> truthy (aw_accessExpiresAt w)
         \<or> \<not> truthy (aw_session w) \<or> \<not> expires_after (aw_accessExpiresAt w) now
      then None
      else Some (JObj [(js ''access_token'', aw_accessToken w), (js ''token_type'', JStr (js ''Bearer'')),
        (js ''access_expires_at'', aw_accessExpiresAt w), (js ''user'', aw_user w), (js ''session'', aw_session w)]))"

type_synonym refresher = "auth_world \<Rightarrow> refresh_outcome \<times> auth_world"

definition resolveAuthentication :: "refresher \<Rightarrow> int \<Rightarrow> auth_world \<Rightarrow> refresh_outcome \<times> auth_world" where
  "resolveAuthentication refresh now w =
     (case currentValidAuthBundle now w of
        Some bundle \<Rightarrow> (Authenticated bundle, setBootstrapState BootComplete w)
      | None \<Rightarrow>
          if aw_bootstrapState w = BootComplete \<and> \<not> (truthy (aw_user w) \<and> truthy (aw_session w))
          then (Anonymous, w)
          else refresh (setBootstrapState BootChecking w))"

definition bootstrapAuthentication ::
  "refresher \<Rightarrow> bool \<Rightarrow> int \<Rightarrow> auth_world \<Rightarrow> refresh_outcome \<times> auth_world" where
  "bootstrapAuthentication refresh hint now w =
     (if currentValidAuthBundle now w = None \<and> \<not> hint \<and> \<not> truthy (aw_user w) \<and> \<not> truthy (aw_session w)
      then (Anonymous, w)
      else resolveAuthentication refresh now w)"

definition getCommonHeaders :: "auth_world \<Rightarrow> (jsstr \<times> jsstr) list" where
  "getCommonHeaders w =
     [(js ''Content-Type'', js ''application/json'')]
     @ (if truthy (aw_accessToken w) then [(js ''Authorization'', js ''Bearer '' @ to_string (aw_accessToken w))] else [])"

datatype header_error = RequestFailed jsval | SessionExpired

definition fresh_token :: "auth_world \<Rightarrow> int \<Rightarrow> bool" where
  "fresh_token w limit \<longleftrightarrow>
     truthy (aw_accessToken w) \<and> truthy (aw_accessExpiresAt w) \<and> expires_after (aw_accessExpiresAt w) limit"

text \<open>
  The caller of a refresh resumes some turns of the event loop after the refresh has settled:
  \<open>meanwhile\<close> is what other code does to the store in between.
\<close>

definition getFreshAuthHeaders ::
  "refresher \<Rightarrow> (auth_world \<Rightarrow> auth_world) \<Rightarrow> int \<Rightarrow> int \<Rightarrow> auth_world
     \<Rightarrow> (header_error + (jsstr \<times> jsstr) list) \<times> auth_world" where
  "getFreshAuthHeaders refresh meanwhile now later w =
     (if fresh_token w (now + 60) then (Inr (getCommonHeaders w), w)
      else
        (let (outcome, w1) = refresh w; w2 = meanwhile w1 in
         (case outcome of
            Authenticated _ \<Rightarrow> Inr (getCommonHeaders w2)
          | _ \<Rightarrow>
              if fresh_token w2 later then Inr (getCommonHeaders w2)
              else (case outcome of
                  TransientError e \<Rightarrow> Inl (RequestFailed e)
                | Superseded \<Rightarrow> Inl (RequestFailed JUndef)
                | _ \<Rightarrow> Inl SessionExpired),
          w2)))"

section \<open>Bundle, hint cookie and other tabs\<close>

definition syntheticSession :: "int \<Rightarrow> jsstr \<Rightarrow> jsval" where
  "syntheticSession now userAgent =
     JObj [(js ''sid'', JStr (js ''pbr-session'')), (js ''current'', JBool True),
       (js ''login_method'', JStr (js ''password'')), (js ''ip'', JStr []), (js ''user_agent'', JStr userAgent),
       (js ''created_at'', JNum (num_of_int now)), (js ''last_active_at'', JNum (num_of_int now)),
       (js ''expires_at'', JNum (num_of_int (now + 7 * 24 * 60 * 60)))]"

definition PBR_ADMIN_USER :: jsval where
  "PBR_ADMIN_USER =
     JObj [(js ''id'', JNum (Fin 1)), (js ''username'', JStr (js ''admin'')),
       (js ''display_name'', JStr [0x7BA1, 0x7406, 0x5458]), (js ''role'', JNum (Fin 100))]"

definition buildPBRBundle :: "int \<Rightarrow> jsstr \<Rightarrow> jsval" where
  "buildPBRBundle now userAgent =
     JObj [(js ''access_token'', JStr (js ''pbr-session-cookie'')), (js ''token_type'', JStr (js ''Cookie'')),
       (js ''access_expires_at'', JNum (num_of_int (now + 7 * 24 * 60 * 60))), (js ''user'', PBR_ADMIN_USER),
       (js ''session'', syntheticSession now userAgent)]"

text \<open>The answer that \<open>requestRefresh\<close> makes of the session endpoint: its status and body, or an error.\<close>

datatype session_reply = Replied int jsval | AxiosFailed "(int \<times> jsval) option" jsval | OtherFailed jsval

definition requestRefresh :: "int \<Rightarrow> jsstr \<Rightarrow> session_reply \<Rightarrow> refresh_response" where
  "requestRefresh now userAgent reply =
     (case reply of
        Replied status body \<Rightarrow>
          if truthy (get_prop body (js ''authenticated''))
          then \<lparr>rr_status = status,
            rr_data = JObj [(js ''success'', JBool True), (js ''data'', buildPBRBundle now userAgent)], rr_error = JUndef\<rparr>
          else if truthy (get_prop body (js ''stale''))
          then \<lparr>rr_status = 200, rr_data = JObj [(js ''stale'', JBool True)], rr_error = JUndef\<rparr>
          else \<lparr>rr_status = 401, rr_data = body, rr_error = JUndef\<rparr>
      | AxiosFailed response e \<Rightarrow>
          (case response of
             None \<Rightarrow> \<lparr>rr_status = 0, rr_data = JUndef, rr_error = e\<rparr>
           | Some (status, body) \<Rightarrow> \<lparr>rr_status = status, rr_data = body, rr_error = e\<rparr>)
      | OtherFailed e \<Rightarrow> \<lparr>rr_status = 0, rr_data = JUndef, rr_error = e\<rparr>)"

fun read_parts :: "jsstr list \<Rightarrow> jsstr \<Rightarrow> jsstr option" where
  "read_parts [] name = None"
| "read_parts (part # parts) name =
     (case index_of (js ''='') part of
        None \<Rightarrow> read_parts parts name
      | Some separator \<Rightarrow>
          if trim (take separator part) \<noteq> name then read_parts parts name
          else Some (trim (drop (separator + 1) part)))"

definition readCookie :: "jsstr \<Rightarrow> jsstr \<Rightarrow> jsstr option" where
  "readCookie cookieHeader name = read_parts (split_on (ch (CHR '';'')) cookieHeader) name"

definition hasSessionHint :: "jsstr option \<Rightarrow> bool" where
  "hasSessionHint cookie =
     (case cookie of None \<Rightarrow> True | Some c \<Rightarrow> readCookie c (js ''pbr_has_session'') \<noteq> None)"

definition isAuthSessionSyncEvent :: "jsval \<Rightarrow> bool" where
  "isAuthSessionSyncEvent v \<longleftrightarrow>
     truthy v \<and> typeof_object v
     \<and> (get_prop v (js ''kind'') = JStr (js ''authenticated'') \<or> get_prop v (js ''kind'') = JStr (js ''signed_out''))
     \<and> nonempty_string (get_prop v (js ''sid'')) \<and> is_string (get_prop v (js ''source''))
     \<and> is_string (get_prop v (js ''nonce'')) \<and> is_number (get_prop v (js ''timestamp''))"

definition deliver :: "jsstr \<Rightarrow> jsnum \<Rightarrow> jsval \<Rightarrow> bool" where
  "deliver authSyncSource now v \<longleftrightarrow>
     isAuthSessionSyncEvent v \<and> get_prop v (js ''source'') \<noteq> JStr authSyncSource
     \<and> (case get_prop v (js ''timestamp'') of
          JNum ts \<Rightarrow> num_lt (num_abs (num_sub now ts)) (Fin 60000) | _ \<Rightarrow> False)"

section \<open>Lemmas\<close>

definition signed_out :: "auth_world \<Rightarrow> bool" where
  "signed_out w \<longleftrightarrow>
     aw_user w = JNull \<and> aw_accessToken w = JNull \<and> aw_accessExpiresAt w = JNull \<and> aw_session w = JNull"

definition holds_bundle :: "jsval \<Rightarrow> auth_world \<Rightarrow> bool" where
  "holds_bundle b w \<longleftrightarrow>
     aw_user w = get_prop b (js ''user'') \<and> aw_accessToken w = get_prop b (js ''access_token'')
     \<and> aw_accessExpiresAt w = get_prop b (js ''access_expires_at'') \<and> aw_session w = get_prop b (js ''session'')"

text \<open>What the world is like when a refresh that started at an epoch ends with an outcome.\<close>

definition settled :: "nat \<Rightarrow> refresh_outcome \<Rightarrow> auth_world \<Rightarrow> bool" where
  "settled epoch outcome w =
     (case outcome of
        Authenticated b \<Rightarrow> isAuthBundle b \<and> holds_bundle b w \<and> aw_bootstrapState w = BootComplete
      | TransientError _ \<Rightarrow> aw_bootstrapState w = BootIdle \<and> aw_epoch w = epoch
      | Superseded \<Rightarrow> aw_epoch w \<noteq> epoch
      | _ \<Rightarrow> signed_out w \<and> aw_bootstrapState w = BootComplete)"

lemma publish_keeps:
  "aw_user (publishAuthSessionEvent k sid w) = aw_user w"
  "aw_accessToken (publishAuthSessionEvent k sid w) = aw_accessToken w"
  "aw_accessExpiresAt (publishAuthSessionEvent k sid w) = aw_accessExpiresAt w"
  "aw_session (publishAuthSessionEvent k sid w) = aw_session w"
  "aw_bootstrapState (publishAuthSessionEvent k sid w) = aw_bootstrapState w"
  by (simp_all add: publishAuthSessionEvent_def)

lemma cleared: "signed_out (clearAuthentication sync st w) \<and> aw_bootstrapState (clearAuthentication sync st w) = st"
  by (simp add: clearAuthentication_def Let_def reset_def signed_out_def publish_keeps)

lemma runner_cleared: "signed_out (runner_clear sync BootComplete w) \<and> aw_bootstrapState (runner_clear sync BootComplete w) = BootComplete"
  by (simp add: runner_clear_def cleared)

lemma applied: "holds_bundle b (applyAuthBundle b sync w) \<and> aw_bootstrapState (applyAuthBundle b sync w) = BootComplete"
  by (simp add: applyAuthBundle_def Let_def setBundle_def holds_bundle_def publish_keeps)

lemma refused_settled:
  "aw_epoch w = epoch \<Longrightarrow> settled epoch (fst (refused response w)) (snd (refused response w))"
  by (simp add: refused_def settled_def runner_cleared setBootstrapState_def)

lemma accepted_bundle_Some: "accepted_bundle r = Some b \<Longrightarrow> isAuthBundle b"
  by (auto simp: accepted_bundle_def parse_bundle_def split: if_splits)

lemma run_settled:
  "run env epoch k r allow w = (outcome, w', n) \<Longrightarrow> r \<le> 3 \<Longrightarrow>
     settled epoch outcome w' \<and> n \<le> k + (4 - r) + (if allow then 4 else 0)"
proof (induction env epoch k r allow w arbitrary: outcome w' n rule: run.induct)
  case (1 env epoch k r allow w)
  define response where "response = re_response env k"
  define w1 where "w1 = re_during_request env k w"
  define code where "code = response_code response"
  note run = "1.prems"(1) [unfolded run.simps [of env epoch k r allow w] Let_def, folded response_def w1_def, folded code_def]
  show ?case
  proof (cases "aw_epoch w = epoch \<and> aw_epoch w1 = epoch \<and> accepted_bundle response = None")
    case False
    with run "1.prems"(2) show ?thesis
      by (auto simp: settled_def applied split: if_splits option.splits dest: accepted_bundle_Some)
  next
    case True
    note IH = "1.IH" [OF _ response_def w1_def code_def]
    consider (race) "rr_status response = 409" "code = JStr (js ''AUTH_REFRESH_RACE'')" "r < 3"
      | (mismatch) "rr_status response = 409" "code = JStr (js ''AUTH_SESSION_MISMATCH'')" allow
      | (other) "outcome = fst (refused response w1) \<and> w' = snd (refused response w1) \<or>
            outcome = OutOfSync code \<and> w' = runner_clear False BootComplete w1" "n = Suc k"
      using run True by (auto simp: refreshRaceDelays_def split_beta split: if_splits)
    then show ?thesis
    proof cases
      case race
      with run True have "run env epoch (Suc k) (r + 1) allow (re_during_wait env k w1) = (outcome, w', n)"
        by (simp add: refreshRaceDelays_def)
      with IH(1) True race show ?thesis by (force simp: refreshRaceDelays_def)
    next
      case mismatch
      with run True have "run env epoch (Suc k) 0 False (runner_clear False BootIdle w1) = (outcome, w', n)"
        by simp
      with IH(2) True mismatch "1.prems"(2) show ?thesis by force
    next
      case other
      with refused_settled [of w1 epoch response] True "1.prems"(2) show ?thesis
        by (auto simp: settled_def runner_cleared)
    qed
  qed
qed

lemma num_of_safe_int: "0 < z \<Longrightarrow> z \<le> max_safe \<Longrightarrow> num_of_int z = Fin (of_int z)"
  by (simp add: num_of_int_def dround_of_int)

lemma get_prop_Cons: "get_prop (JObj ((k, v) # es)) k' = (if k = k' then v else get_prop (JObj es) k')"
  by (simp add: get_prop_def)

lemmas props_simps = get_prop_Cons isRecord_def truthy_def typeof_object_def is_string_def is_number_def
  is_bool_def nonempty_string_def num_zero_def

lemma built_bundle:
  assumes "0 < now" "now + 604800 \<le> max_safe"
  shows "isAuthBundle (buildPBRBundle now ua)"
proof -
  have "isLoginSession (syntheticSession now ua)"
    by (simp add: isLoginSession_def syntheticSession_def props_simps)
  moreover have "isAuthUser PBR_ADMIN_USER"
    by (simp add: isAuthUser_def PBR_ADMIN_USER_def props_simps)
  moreover have "num_of_int (now + 604800) = Fin (of_int (now + 604800))"
    using assms by (intro num_of_safe_int) simp_all
  ultimately show ?thesis
    using assms by (simp add: isAuthBundle_def hasValidTokenFields_def buildPBRBundle_def props_simps)
qed

lemma held_bundle_valid:
  assumes "holds_bundle (buildPBRBundle now ua) w" "0 < now" "now + 604800 \<le> max_safe" "later < now + 604800"
  shows "currentValidAuthBundle later w \<noteq> None"
proof -
  have e: "num_of_int (now + 604800) = Fin (of_int (now + 604800))"
    using assms by (intro num_of_safe_int) simp_all
  have "(of_int later :: rat) < of_int (now + 604800)" using assms(4) by (simp only: of_int_less_iff)
  moreover have "(of_int (now + 604800) :: rat) \<noteq> 0" using assms(2) by (simp only: of_int_eq_0_iff)
  ultimately show ?thesis
    using assms(1) e
    by (simp add: currentValidAuthBundle_def holds_bundle_def buildPBRBundle_def PBR_ADMIN_USER_def
        syntheticSession_def expires_after_def props_simps)
qed

lemma authenticated_reply:
  assumes "truthy (get_prop body (js ''authenticated''))" "0 < now" "now + 604800 \<le> max_safe"
  shows "accepted_bundle (requestRefresh now ua (Replied status body)) = Some (buildPBRBundle now ua)"
  using assms built_bundle [of now ua]
  by (simp add: accepted_bundle_def requestRefresh_def response_record_def parse_bundle_def props_simps)

section \<open>What the entry points need of a refresh\<close>

text \<open>
  The entry points rely on one promise of a refresh: that its outcome tells the state of the store.
\<close>

locale session_refresher =
  fixes refresh :: refresher
  assumes refresh_settled: "refresh w = (outcome, w') \<Longrightarrow> settled (aw_epoch w) outcome w'"
begin

lemma refreshed_token:
  assumes "refresh w = (Authenticated b, w')"
  shows "truthy (aw_accessToken w')"
  using refresh_settled [OF assms]
  by (auto simp: settled_def holds_bundle_def isAuthBundle_def hasValidTokenFields_def nonempty_string_def truthy_def
      split: jsval.splits)

lemma headers_of_store:
  assumes "getFreshAuthHeaders (\<lambda>_. refresh w0) meanwhile now later w = (Inr headers, w')"
  shows "headers = getCommonHeaders w'
    \<and> (truthy (aw_accessToken w')
      \<or> (\<exists>b w1. refresh w0 = (Authenticated b, w1) \<and> truthy (aw_accessToken w1) \<and> w' = meanwhile w1))"
proof -
  obtain outcome w1 where r: "refresh w0 = (outcome, w1)" by (cases "refresh w0")
  show ?thesis
    using assms r refreshed_token [of w0 _ w1]
    by (auto simp: getFreshAuthHeaders_def fresh_token_def Let_def split: if_splits refresh_outcome.splits)
qed

lemma anonymous_is_signed_out:
  assumes "resolveAuthentication refresh now w = (Anonymous, w')"
  shows "\<not> (truthy (aw_user w') \<and> truthy (aw_session w')) \<and> aw_bootstrapState w' = BootComplete"
  using assms refresh_settled [of "setBootstrapState BootChecking w" Anonymous w']
  by (auto simp: resolveAuthentication_def settled_def signed_out_def truthy_def
      split: option.splits if_splits)

end

definition refresh_with :: "refresh_env \<Rightarrow> refresher" where
  "refresh_with env w = (case runRefresh env w of (outcome, w', n) \<Rightarrow> (outcome, w'))"

interpretation runner: session_refresher "refresh_with env" for env
proof
  fix w outcome w'
  assume "refresh_with env w = (outcome, w')"
  then obtain n where "run env (aw_epoch w) 0 0 True w = (outcome, w', n)"
    by (auto simp: refresh_with_def runRefresh_def split: prod.splits)
  from run_settled [OF this] show "settled (aw_epoch w) outcome w'" by simp
qed

section \<open>Properties\<close>

text \<open>
  C3. A refresh always ends, after at most eight requests, and its outcome tells the state of the
  store, whatever else happens meanwhile: authenticated means that the store holds a valid
  bundle, anonymous, stale and out of sync mean that it holds no credentials and the check is
  complete, a transient error leaves the check open in the epoch it started in, and a refresh
  reports being superseded exactly when the epoch has moved on.
\<close>

theorem refresh_settles:
  "case runRefresh env w of (outcome, w', n) \<Rightarrow>
     n \<le> 8
     \<and> (case outcome of
          Authenticated b \<Rightarrow>
            isAuthBundle b \<and> aw_user w' = get_prop b (js ''user'') \<and> aw_accessToken w' = get_prop b (js ''access_token'')
            \<and> aw_accessExpiresAt w' = get_prop b (js ''access_expires_at'') \<and> aw_session w' = get_prop b (js ''session'')
            \<and> aw_bootstrapState w' = BootComplete
        | TransientError _ \<Rightarrow> aw_bootstrapState w' = BootIdle \<and> aw_epoch w' = aw_epoch w
        | Superseded \<Rightarrow> aw_epoch w' \<noteq> aw_epoch w
        | _ \<Rightarrow>
            aw_user w' = JNull \<and> aw_accessToken w' = JNull \<and> aw_accessExpiresAt w' = JNull \<and> aw_session w' = JNull
            \<and> aw_bootstrapState w' = BootComplete)"
proof -
  obtain outcome w' n where r: "runRefresh env w = (outcome, w', n)" by (cases "runRefresh env w") auto
  from run_settled [OF r [unfolded runRefresh_def]] show ?thesis
    by (auto simp: r settled_def holds_bundle_def signed_out_def split: refresh_outcome.splits)
qed

text \<open>
  A confirmed session is remembered for seven days: when the session endpoint confirms the
  session and no other code changes the epoch meanwhile, the refresh yields the synthetic bundle,
  and until that expires every later resolution answers from the store without a request.
\<close>

lemma confirmed_session_remembered:
  assumes "0 < now" "now + 604800 \<le> max_safe" "later < now + 604800"
    and "truthy (get_prop body (js ''authenticated''))"
    and "re_response env 0 = requestRefresh now ua (Replied status body)"
    and "aw_epoch (re_during_request env 0 w) = aw_epoch w"
  shows "\<exists>w' b. runRefresh env w = (Authenticated (buildPBRBundle now ua), w', 1)
    \<and> (\<forall>refresh. resolveAuthentication refresh later w' = (Authenticated b, w'))"
proof -
  let ?b = "buildPBRBundle now ua"
  define w' where "w' = applyAuthBundle ?b False (re_during_request env 0 w)"
  have r: "runRefresh env w = (Authenticated ?b, w', 1)"
    using authenticated_reply [OF assms(4,1,2)] assms(5,6)
    by (simp add: runRefresh_def run.simps [of env "aw_epoch w" 0 0 True w] Let_def w'_def)
  have h: "holds_bundle ?b w'" "aw_bootstrapState w' = BootComplete" using applied by (simp_all add: w'_def)
  from held_bundle_valid [OF h(1) assms(1-3)] obtain b where "currentValidAuthBundle later w' = Some b" by blast
  with h(2) have "resolveAuthentication refresh later w' = (Authenticated b, w')" for refresh
    by (simp add: resolveAuthentication_def setBootstrapState_def)
  with r show ?thesis by blast
qed

definition calm_env :: refresh_env where
  "calm_env =
     \<lparr>re_response = (\<lambda>_. requestRefresh 1000 [] (Replied 200 (JObj [(js ''authenticated'', JBool True)]))),
      re_during_request = (\<lambda>_ w. w), re_during_wait = (\<lambda>_ w. w)\<rparr>"

text \<open>
  C36. The headers of a request match the store at the time they are handed out.  When the store has
  an access token there is exactly one \<open>Authorization\<close> header and it carries that token, whether the
  refresh is started now or was under way already and whatever other code did before, during and after
  it.  Headers without a credential are handed out in one case only: the refresh authenticated the
  store with a token, and other code removed that token after the refresh settled and before its
  caller resumed; every other failure throws.
\<close>

theorem headers_match_store:
  assumes "getFreshAuthHeaders (\<lambda>_. refresh_with env w0) meanwhile now later w = (Inr headers, w')"
  shows "filter (\<lambda>(name, _). name = js ''Authorization'') headers =
      (if truthy (aw_accessToken w')
       then [(js ''Authorization'', js ''Bearer '' @ to_string (aw_accessToken w'))] else [])
    \<and> (truthy (aw_accessToken w')
      \<or> (\<exists>b w1. refresh_with env w0 = (Authenticated b, w1) \<and> truthy (aw_accessToken w1) \<and> w' = meanwhile w1))"
  using runner.headers_of_store [OF assms] by (simp add: getCommonHeaders_def)

text \<open>A refresh with its token, and one whose token is cleared before the caller resumes.\<close>

theorem headers_match_store_witness:
  "(\<exists>headers w'. getFreshAuthHeaders (\<lambda>_. refresh_with calm_env initial_world) (\<lambda>v. v) 1000 1001 initial_world
      = (Inr headers, w')
     \<and> filter (\<lambda>(name, _). name = js ''Authorization'') headers = [(js ''Authorization'', js ''Bearer pbr-session-cookie'')])
   \<and> (\<exists>headers w'. getFreshAuthHeaders (\<lambda>_. refresh_with calm_env initial_world)
        (clearAuthentication False BootComplete) 1000 1001 initial_world = (Inr headers, w')
     \<and> filter (\<lambda>(name, _). name = js ''Authorization'') headers = [])"
proof -
  have "(0::int) < 1000" "1000 + 604800 \<le> max_safe" "truthy (get_prop (JObj [(js ''authenticated'', JBool True)]) (js ''authenticated''))"
    by (simp_all add: props_simps max_safe_def)
  note a = authenticated_reply [OF this(3,1,2), of "[]" 200]
  let ?b = "buildPBRBundle 1000 []" let ?w1 = "applyAuthBundle ?b False initial_world"
  have r: "refresh_with calm_env initial_world = (Authenticated ?b, ?w1)"
    using a by (simp add: refresh_with_def runRefresh_def run.simps [of _ _ 0] calm_env_def Let_def)
  have t: "aw_accessToken ?w1 = JStr (js ''pbr-session-cookie'')"
    using applied(1) [of ?b False initial_world]
    by (simp add: holds_bundle_def) (simp add: buildPBRBundle_def get_prop_Cons)
  have h: "getFreshAuthHeaders (\<lambda>_. refresh_with calm_env initial_world) m 1000 1001 initial_world
      = (Inr (getCommonHeaders (m ?w1)), m ?w1)" for m
    by (simp add: getFreshAuthHeaders_def r Let_def) (simp add: fresh_token_def initial_world_def truthy_def)
  have "truthy (aw_accessToken ?w1)" "to_string (aw_accessToken ?w1) = js ''pbr-session-cookie''"
    by (simp_all add: t truthy_def to_string.simps)
  moreover have "\<not> truthy (aw_accessToken (clearAuthentication False BootComplete ?w1))"
    by (simp add: clearAuthentication_def reset_def Let_def truthy_def)
  moreover have "js ''Bearer '' @ js ''pbr-session-cookie'' = js ''Bearer pbr-session-cookie''"
    by (simp add: js_def)
  ultimately show ?thesis
    using headers_match_store [OF h [of "\<lambda>v. v"]]
      headers_match_store [OF h [of "clearAuthentication False BootComplete"]] h by auto
qed

end
