(* ===== verification/JsNumberPrint.thy ===== *)
theory JsNumberPrint
  imports JsMath JsJson
begin

text \<open>
  Printing a double and reading it back: \<open>Number(String(x))\<close> is \<open>x\<close> for every finite double but
  \<open>-0\<close>.  Seventeen digits always determine a double, and each of the four notations of
  \<open>Number::toString\<close> denotes the digits it is given.
\<close>

section \<open>Seventeen digits suffice\<close>

lemma powi10_pos [simp]: "0 < (10::rat) powi a"
  by (rule zero_less_power_int) simp

lemma powi10_add: "(10::rat) powi (a + b) = 10 powi a * 10 powi b"
  by (simp add: power_int_add)

lemma rne_near: "\<bar>q - of_int z\<bar> < 1 / 2 \<Longrightarrow> rne q = z"
proof -
  assume near: "\<bar>q - of_int z\<bar> < 1 / 2"
  show ?thesis
  proof (cases "of_int z \<le> q")
    case True
    with near have "\<lfloor>q\<rfloor> = z" by (intro floor_unique) auto
    with near True show ?thesis by (simp add: rne_def Let_def)
  next
    case False
    with near have "\<lfloor>q\<rfloor> = z - 1" by (intro floor_unique) auto
    with near False show ?thesis by (auto simp: rne_def Let_def)
  qed
qed

text \<open>The significand of a positive double on the grid of its own unit.\<close>

lemma double_significand:
  assumes "representable v" "0 < v"
  obtains k where "v = of_int k * 2 powi (unit_exp v)" "0 < k" "k < 2 ^ 53" "unit_exp v \<le> 971"
    "unit_exp v = - 1074 \<or> 2 ^ 52 \<le> k"
proof -
  from representable_on_grid [OF assms(1) unit_exp_low [OF assms(2)]]
  obtain k where k: "v = of_int k * 2 powi (unit_exp v)" by blast
  have "0 < (of_int k :: rat) * 2 powi (unit_exp v)" using assms(2) k by metis
  then have "0 < (of_int k :: rat)" by (rule zero_less_mult_pos2) simp
  then have pos: "0 < k" by simp
  have lt: "v < 2 powi (unit_exp v + 53)"
  proof -
    have "v < 2 powi (ilog2 v + 1)" using ilog2_bounds [OF assms(2)] by blast
    also have "\<dots> \<le> 2 powi (unit_exp v + 53)" by (rule powi2_mono) (simp add: unit_exp_def)
    finally show ?thesis .
  qed
  have k53: "k < 2 ^ 53"
  proof (rule ccontr)
    assume "\<not> k < 2 ^ 53"
    then have "2 ^ 53 \<le> k" by simp
    from scaled_le [OF this, of "unit_exp v"] lt show False by (simp flip: k)
  qed
  have low: "unit_exp v = - 1074 \<or> 2 ^ 52 \<le> k"
  proof (rule disjCI)
    assume "\<not> 2 ^ 52 \<le> k"
    then have "k < 2 ^ 52" by simp
    from scaled_less [OF this, of "unit_exp v"] have "v < 2 powi (unit_exp v + 52)" by (simp flip: k)
    with unit_exp_low [OF assms(2)] show "unit_exp v = - 1074" by auto
  qed
  have "unit_exp v \<le> 971"
  proof (rule ccontr)
    assume big: "\<not> unit_exp v \<le> 971"
    from assms(1) obtain j x where j: "v = of_int j * 2 powi x" "\<bar>j\<bar> < 2 ^ 53" "x \<le> 971"
      unfolding representable_def by blast
    have "v < 2 powi (x + int 53)" unfolding j(1) by (rule scaled_less) (use j(2) in simp)
    also have "\<dots> \<le> 2 powi (unit_exp v + 52)" by (rule powi2_mono) (use j(3) big in simp)
    also have "\<dots> \<le> v" using unit_exp_low [OF assms(2)] big by auto
    finally show False by simp
  qed
  with that k pos k53 low show ?thesis by blast
qed

lemma dround_eval:
  assumes "0 < q" "rne (q * 2 powi (- unit_exp q)) = k" "0 < k" "\<not> (971 < unit_exp q \<or> unit_exp q = 971 \<and> 2 ^ 53 \<le> k)"
  shows "dround neg q = Fin (of_int k * 2 powi (unit_exp q))"
  using assms(1,3,4) unfolding dround_def Let_def abs_of_pos [OF assms(1)] assms(2) by simp

text \<open>A rational closer to a double than a relative \<open>10 ^ -16 / 2\<close> rounds to it.\<close>

lemma dround_near:
  assumes v: "representable v" "0 < v" and near: "\<bar>q - v\<bar> * (2 * 10 ^ 16) \<le> v"
  shows "dround False q = Fin v"
proof -
  obtain k where k: "v = of_int k * 2 powi (unit_exp v)" "0 < k" "k < 2 ^ 53" "unit_exp v \<le> 971"
    "unit_exp v = - 1074 \<or> 2 ^ 52 \<le> k"
    using double_significand [OF v] .
  define u where "u = unit_exp v"
  have vu: "v = of_int k * 2 powi u" using k(1) by (simp add: u_def)
  have q: "0 < q" using near v(2) by (auto simp: abs_if split: if_splits)
  have "(of_int k :: rat) \<le> of_int (2 ^ 53 - 1)" using k(3) by (simp only: of_int_le_iff)
  then have kr: "(of_int k :: rat) \<le> 2 ^ 53 - 1" by simp
  define d where "d = (q - v) * 2 powi (- u)"
  have qd: "q * 2 powi (- u) = of_int k + d"
    by (simp add: d_def vu algebra_simps flip: powi2_add)
  have dk: "\<bar>d\<bar> * (2 * 10 ^ 16) \<le> of_int k"
  proof -
    have "\<bar>q - v\<bar> * (2 * 10 ^ 16) * 2 powi (- u) \<le> v * 2 powi (- u)"
      using near by (rule mult_right_mono) (simp add: less_imp_le)
    also have "v * 2 powi (- u) = of_int k" by (simp add: vu mult.assoc flip: powi2_add)
    finally show ?thesis by (simp add: d_def abs_mult mult_ac)
  qed
  from order_trans [OF this kr] have d: "\<bar>d\<bar> < 1 / 2" by simp
  have qv: "q = (of_int k + d) * 2 powi u"
    by (simp add: qd [symmetric] mult.assoc flip: powi2_add)
  have ub: "q < 2 powi (u + 53)"
  proof -
    have "of_int k + d < 2 powi 53" using d kr by auto
    then have "(of_int k + d) * 2 powi u < 2 powi 53 * 2 powi u" by (rule mult_strict_right_mono) simp
    then show ?thesis by (simp only: qv powi2_add [symmetric] add.commute [of 53])
  qed
  have uq: "unit_exp q \<le> u"
    using ilog2_lt [OF q ub] by (auto simp: unit_exp_def u_def)
  show ?thesis
  proof (cases "unit_exp q = u")
    case True
    have r: "rne (q * 2 powi (- unit_exp q)) = k"
      unfolding True qd by (rule rne_near) (use d in simp)
    have "dround False q = Fin (of_int k * 2 powi (unit_exp q))"
      using k(3,4) by (intro dround_eval [OF q r k(2)]) (auto simp: True u_def)
    then show ?thesis by (simp add: vu True)
  next
    case False
    with uq have less: "unit_exp q < u" by simp
    then have "u \<noteq> - 1074" by (auto simp: unit_exp_def)
    then have k52: "2 ^ 52 \<le> k" using k(5) by (simp add: u_def)
    have "ilog2 q < u + 52" using less by (auto simp: unit_exp_def)
    have "q < 2 powi (u + 52)"
      using ilog2_bounds [OF q] \<open>ilog2 q < u + 52\<close> powi2_mono [of "ilog2 q + 1" "u + 52"] by force
    then have "(of_int k + d) * 2 powi u < 2 powi 52 * 2 powi u"
      by (simp only: qv powi2_add [symmetric] add.commute [of 52])
    then have "of_int k + d < (2::rat) ^ 52" by simp
    with d have "(of_int k :: rat) < of_int (2 ^ 52 + 1)" by simp
    then have "k < 2 ^ 52 + 1" by (simp only: of_int_less_iff)
    with k52 have keq: "k = 2 ^ 52" by simp
    have "2 powi (u + 51) \<le> q"
    proof -
      have "(2::rat) powi 51 \<le> of_int k + d" using d by (simp add: keq)
      then have "(2::rat) powi 51 * 2 powi u \<le> (of_int k + d) * 2 powi u"
        by (rule mult_right_mono) (simp add: less_imp_le)
      then show ?thesis by (simp only: qv powi2_add [symmetric] add.commute [of 51])
    qed
    from ilog2_ge [OF q this] less have u1: "unit_exp q = u - 1" by (auto simp: unit_exp_def)
    have "q * 2 powi (- unit_exp q) = (q * 2 powi (- u)) * 2"
      by (simp add: u1 power_int_diff power_int_minus divide_inverse)
    also have "\<dots> = of_int (2 ^ 53) + 2 * d" unfolding qd keq by simp
    finally have qs: "q * 2 powi (- unit_exp q) = of_int (2 ^ 53) + 2 * d" .
    have "\<bar>2 * d\<bar> < 1 / 2" using dk by (simp add: keq abs_mult)
    then have r: "rne (q * 2 powi (- unit_exp q)) = 2 ^ 53"
      unfolding qs by (intro rne_near) (simp only: add_diff_cancel_left')
    have "(2::rat) ^ 53 * 2 powi (u - 1) = v"
      by (simp add: vu keq power_int_diff)
    moreover have "dround False q = Fin (of_int (2 ^ 53) * 2 powi (unit_exp q))"
      using k(4) by (intro dround_eval [OF q r]) (auto simp: u1 u_def)
    ultimately show ?thesis by (simp add: u1)
  qed
qed

text \<open>The decimal exponent of a positive rational.\<close>

lemma dec_string_length: "0 < n \<Longrightarrow> 10 ^ (length (dec_string n) - 1) \<le> n \<and> n < 10 ^ length (dec_string n)"
proof (induction n rule: dec_string.induct)
  case (1 n)
  show ?case
  proof (cases "n < 10")
    case True
    with 1 show ?thesis by (simp add: dec_string.simps [of n])
  next
    case False
    then have "0 < n div 10" by simp
    with 1 False have IH: "10 ^ (length (dec_string (n div 10)) - 1) \<le> n div 10"
      "n div 10 < 10 ^ length (dec_string (n div 10))" by auto
    have len: "length (dec_string n) = Suc (length (dec_string (n div 10)))"
      using False by (simp add: dec_string.simps [of n])
    have "0 < length (dec_string (n div 10))" using dec_string_digits by blast
    then have "(10::nat) ^ length (dec_string (n div 10)) = 10 * 10 ^ (length (dec_string (n div 10)) - 1)"
      by (cases "length (dec_string (n div 10))") simp_all
    with IH show ?thesis unfolding len by simp linarith
  qed
qed

lemma powi10_mono: "a \<le> b \<Longrightarrow> (10::rat) powi a \<le> 10 powi b"
  by (rule power_int_increasing) simp_all

lemma ilog10_bounds:
  assumes "0 < q"
  shows "10 powi (ilog10 q) \<le> q \<and> q < 10 powi (ilog10 q + 1)"
proof -
  obtain p d where pd: "quotient_of q = (p, d)" by (cases "quotient_of q")
  then have d: "0 < d" and q: "q = of_int p / of_int d"
    by (auto simp: quotient_of_denom_pos quotient_of_div)
  with assms have p: "0 < p" by (simp add: zero_less_divide_iff)
  define a where "a = length (dec_string (nat p))"
  define b where "b = length (dec_string (nat d))"
  have ab: "0 < a" "0 < b" using dec_string_digits by (simp_all add: a_def b_def)
  have pw: "(10::rat) powi (int n - 1) = of_nat (10 ^ (n - 1))" if "0 < n" for n
    using that by (simp add: power_int_def nat_diff_distrib')
  have P: "(10::rat) powi (int a - 1) \<le> of_int p" "(of_int p :: rat) < 10 powi (int a)"
  proof -
    have n: "10 ^ (a - 1) \<le> nat p" "nat p < 10 ^ a" using dec_string_length [of "nat p"] p by (auto simp: a_def)
    have "(of_nat (10 ^ (a - 1)) :: rat) \<le> of_nat (nat p)" using n(1) by (simp only: of_nat_le_iff)
    then show "(10::rat) powi (int a - 1) \<le> of_int p" using p by (simp only: pw [OF ab(1)] of_nat_nat less_imp_le)
    have "(of_nat (nat p) :: rat) < of_nat (10 ^ a)" using n(2) by (simp only: of_nat_less_iff)
    then show "(of_int p :: rat) < 10 powi (int a)" using p by simp
  qed
  have D: "(10::rat) powi (int b - 1) \<le> of_int d" "(of_int d :: rat) < 10 powi (int b)"
  proof -
    have n: "10 ^ (b - 1) \<le> nat d" "nat d < 10 ^ b" using dec_string_length [of "nat d"] d by (auto simp: b_def)
    have "(of_nat (10 ^ (b - 1)) :: rat) \<le> of_nat (nat d)" using n(1) by (simp only: of_nat_le_iff)
    then show "(10::rat) powi (int b - 1) \<le> of_int d" using d by (simp only: pw [OF ab(2)] of_nat_nat less_imp_le)
    have "(of_nat (nat d) :: rat) < of_nat (10 ^ b)" using n(2) by (simp only: of_nat_less_iff)
    then show "(of_int d :: rat) < 10 powi (int b)" using d by simp
  qed
  define k where "k = int a - int b"
  have dpos: "(0::rat) < of_int d" using d by simp
  have up: "q < 10 powi (k + 1)"
  proof -
    have "(of_int p :: rat) < 10 powi (int a)" by (rule P(2))
    also have "\<dots> = 10 powi (k + 1) * 10 powi (int b - 1)" by (simp only: powi10_add [symmetric]) (simp add: k_def)
    also have "\<dots> \<le> 10 powi (k + 1) * of_int d" using D(1) by (simp add: mult_left_mono less_imp_le)
    finally show ?thesis using dpos by (simp add: q pos_divide_less_eq)
  qed
  have lo: "10 powi (k - 1) \<le> q"
  proof -
    have "(10::rat) powi (k - 1) * of_int d \<le> 10 powi (k - 1) * 10 powi (int b)"
      using D(2) by (simp add: mult_left_mono less_imp_le)
    also have "\<dots> = 10 powi (int a - 1)" by (simp only: powi10_add [symmetric]) (simp add: k_def)
    also have "\<dots> \<le> of_int p" by (rule P(1))
    finally show ?thesis using dpos by (simp add: q pos_le_divide_eq)
  qed
  have "ilog10 q = (if 10 powi k \<le> q then k else k - 1)"
    by (simp add: ilog10_def pd k_def a_def b_def Let_def)
  with up lo show ?thesis by (auto split: if_splits)
qed

text \<open>What the search for digits returns denotes a decimal that rounds to the value.\<close>

definition denotes :: "nat \<Rightarrow> int \<Rightarrow> nat \<Rightarrow> rat \<Rightarrow> bool" where
  "denotes n x k v \<longleftrightarrow>
     10 ^ (k - 1) \<le> n \<and> n < 10 ^ k \<and> dround False (of_nat n * 10 powi (x - int k + 1)) = Fin v"

lemma floor_digits:
  fixes v :: rat
  assumes v: "10 powi x \<le> v" "v < 10 powi (x + 1)" and k: "0 < k"
  defines "t \<equiv> v / 10 powi (x - int k + 1)"
  shows "10 ^ (k - 1) \<le> nat \<lfloor>t\<rfloor>" "nat \<lfloor>t\<rfloor> < 10 ^ k" "of_nat (nat \<lfloor>t\<rfloor>) \<le> t" "t < of_nat (nat \<lfloor>t\<rfloor>) + 1"
proof -
  have "(10::rat) ^ (k - 1) = 10 powi (int k - 1)" using k by (simp add: power_int_def nat_diff_distrib')
  also have "\<dots> * 10 powi (x - int k + 1) = 10 powi x" by (simp flip: powi10_add)
  finally have lo: "(10::rat) ^ (k - 1) \<le> t" using v(1)
    by (simp add: t_def pos_le_divide_eq flip: powi10_add)
  have "(10::rat) powi (int k) * 10 powi (x - int k + 1) = 10 powi (x + 1)"
    by (simp only: powi10_add [symmetric]) simp
  then have hi: "t < (10::rat) ^ k" using v(2) by (simp add: t_def pos_divide_less_eq)
  have f: "10 ^ (k - 1) \<le> \<lfloor>t\<rfloor>" "\<lfloor>t\<rfloor> < 10 ^ k" using lo hi by (simp_all add: le_floor_iff floor_less_iff)
  then have nn: "0 \<le> \<lfloor>t\<rfloor>" by (meson order_trans zero_le_numeral zero_le_power)
  show "10 ^ (k - 1) \<le> nat \<lfloor>t\<rfloor>" "nat \<lfloor>t\<rfloor> < 10 ^ k"
    using f nn by (simp_all add: le_nat_iff nat_less_iff)
  show "of_nat (nat \<lfloor>t\<rfloor>) \<le> t" "t < of_nat (nat \<lfloor>t\<rfloor>) + 1"
    using nn floor_correct [of t] by (simp_all add: of_nat_nat)
qed

lemma digits_at_denotes:
  assumes v: "10 powi x \<le> v" "v < 10 powi (x + 1)" and k: "0 < k" and d: "digits_at v x k = Some (n, x')"
  shows "denotes n x' k v"
proof -
  define s where "s = (10::rat) powi (x - int k + 1)"
  define lo where "lo = nat \<lfloor>v / s\<rfloor>"
  have b: "10 ^ (k - 1) \<le> lo" "lo < 10 ^ k"
    using floor_digits [OF v k] by (simp_all add: lo_def s_def)
  define fixup where "fixup = (\<lambda>m :: nat. if m = 10 ^ k then (10 ^ (k - 1), x + 1) else (m, x))"
  from d have "dround False (of_nat lo * s) = Fin v \<and> (n, x') = fixup lo
      \<or> dround False (of_nat (lo + 1) * s) = Fin v \<and> (n, x') = fixup (lo + 1)"
    unfolding digits_at_def Let_def s_def [symmetric] lo_def [symmetric] fixup_def [symmetric]
    by (auto split: if_splits)
  then obtain m where m: "m = lo \<or> m = lo + 1" "dround False (of_nat m * s) = Fin v" and nf: "(n, x') = fixup m"
    by blast
  from nf have n: "(n, x') = (if m = 10 ^ k then (10 ^ (k - 1), x + 1) else (m, x))" by (simp add: fixup_def)
  show ?thesis
  proof (cases "m = 10 ^ k")
    case True
    have "(10::rat) ^ (k - 1) * 10 powi (x + 1 - int k + 1) = 10 ^ k * s"
    proof -
      have "(10::rat) powi (x + 1 - int k + 1) = 10 * s"
        using powi10_add [of 1 "x - int k + 1"] by (simp add: s_def algebra_simps)
      moreover have "(10::rat) ^ k = 10 ^ (k - 1) * 10" using k by (cases k) simp_all
      ultimately show ?thesis by simp
    qed
    moreover have "(10::nat) ^ (k - 1) < 10 ^ k" using k by (intro power_strict_increasing) auto
    ultimately show ?thesis using n m True by (simp add: denotes_def)
  next
    case False
    with n m b show ?thesis by (auto simp: denotes_def s_def)
  qed
qed

lemma digits_at_17:
  assumes rep: "representable v" "0 < v" and v: "10 powi x \<le> v" "v < 10 powi (x + 1)"
  shows "digits_at v x 17 \<noteq> None"
proof -
  define s where "s = (10::rat) powi (x - int 17 + 1)"
  define lo where "lo = nat \<lfloor>v / s\<rfloor>"
  have s: "0 < s" by (simp add: s_def)
  have b: "of_nat lo \<le> v / s" "v / s < of_nat lo + 1"
    using floor_digits [OF v, of 17] by (simp_all add: lo_def s_def)
  have s16: "s * 10 ^ 16 \<le> v"
  proof -
    have "s * 10 powi 16 = 10 powi x" unfolding s_def by (simp only: powi10_add [symmetric]) simp
    with v(1) show ?thesis by simp
  qed
  have ok: "dround False (of_nat m * s) = Fin v" if "\<bar>of_nat m - v / s\<bar> \<le> 1 / 2" for m
  proof (rule dround_near [OF rep])
    have "\<bar>of_nat m * s - v\<bar> = \<bar>of_nat m - v / s\<bar> * s" using s by (simp add: abs_mult_pos field_simps)
    also have "\<dots> \<le> 1 / 2 * s" using that s by (intro mult_right_mono) auto
    finally have "\<bar>of_nat m * s - v\<bar> * (2 * 10 ^ 16) \<le> s * 10 ^ 16" by simp
    then show "\<bar>of_nat m * s - v\<bar> * (2 * 10 ^ 16) \<le> v" using s16 by (rule order_trans)
  qed
  have "dround False (of_nat lo * s) = Fin v \<or> dround False (of_nat (lo + 1) * s) = Fin v"
  proof (cases "v / s - of_nat lo \<le> 1 / 2")
    case True
    with b show ?thesis by (intro disjI1 ok) linarith
  next
    case False
    with b show ?thesis by (intro disjI2 ok) (simp add: abs_if)
  qed
  then show ?thesis
    unfolding digits_at_def Let_def s_def [symmetric] lo_def [symmetric] by auto
qed

lemma shortest_digits_denote:
  assumes "representable v" "0 < v"
  shows "\<exists>n k x. shortest_digits v = (dec_string n, x) \<and> 0 < k \<and> denotes n x k v"
proof -
  let ?x = "ilog10 v"
  have v: "10 powi ?x \<le> v" "v < 10 powi (?x + 1)" using ilog10_bounds [OF assms(2)] by auto
  have "\<exists>k. k \<in> set ks \<and> (case shortest_from v ?x ks of (n, x) \<Rightarrow> denotes n x k v)"
    if "17 \<in> set ks" "\<forall>k \<in> set ks. 0 < k" for ks
    using that
  proof (induction ks)
    case (Cons k ks)
    show ?case
    proof (cases "digits_at v ?x k")
      case None
      with digits_at_17 [OF assms v] Cons.prems have "17 \<in> set ks" by auto
      with Cons.IH Cons.prems None show ?thesis by auto
    next
      case (Some r)
      obtain n x where r: "r = (n, x)" by (cases r)
      have "denotes n x k v" using digits_at_denotes [OF v] Cons.prems Some r by simp
      with Some r show ?thesis by auto
    qed
  qed simp
  from this [of "[1..<18]"] obtain k where "k \<in> set [1..<18]"
    "case shortest_from v ?x [1..<18] of (n, x) \<Rightarrow> denotes n x k v" by auto
  moreover obtain n x where "shortest_from v ?x [1..<18] = (n, x)" by (cases "shortest_from v ?x [1..<18]")
  ultimately have "shortest_digits v = (dec_string n, x)" "0 < k" "denotes n x k v"
    by (simp_all add: shortest_digits_def)
  then show ?thesis by blast
qed

section \<open>The notations denote their digits\<close>

text \<open>A numeral: digits, a fraction that is omitted when it is empty, and an exponent.\<close>

definition numeral_text :: "jsstr \<Rightarrow> jsstr \<Rightarrow> jsstr \<Rightarrow> jsstr" where
  "numeral_text ip fp ex = ip @ (if fp = [] then [] else 46 # fp) @ ex"

definition exponent_text :: "jsstr \<Rightarrow> bool" where
  "exponent_text ex \<longleftrightarrow> ex = [] \<or> (\<exists>sg n. ex = 101 # sg # dec_string n \<and> (sg = 43 \<or> sg = 45))"

definition num_stop :: "jsstr \<Rightarrow> bool" where
  "num_stop r \<longleftrightarrow> r = [] \<or> \<not> is_digit (hd r) \<and> hd r \<notin> {43, 45, 46, 69, 101}"

lemma num_stop_Nil [simp]: "num_stop []"
  by (simp add: num_stop_def)

lemma digits_stop: "list_all is_digit ds \<Longrightarrow> r = [] \<or> \<not> is_digit (hd r) \<Longrightarrow> takeWhile is_digit (ds @ r) = ds"
  by (induction ds) (cases r, auto)

lemma is_digit_simps [simp]: "is_digit 48" "\<not> is_digit 46" "\<not> is_digit 101" "\<not> is_digit 43" "\<not> is_digit 45"
  by (simp_all add: is_digit_def)

lemma takeWhile_digits [simp]: "takeWhile is_digit (dec_string n) = dec_string n" "dec_string n \<noteq> []"
  using dec_string_digits [of n] by (simp_all add: takeWhile_eq_all_conv list_all_iff)

lemma match_exponent_text:
  assumes "exponent_text ex" "num_stop r"
  shows "match_exponent (ex @ r) = length ex"
proof (cases "ex = []")
  case True
  with assms(2) show ?thesis by (cases r) (auto simp: match_exponent_def num_stop_def)
next
  case False
  with assms(1) obtain sg n where ex: "ex = 101 # sg # dec_string n" "sg = 43 \<or> sg = 45"
    by (auto simp: exponent_text_def)
  have "takeWhile is_digit (dec_string n @ r) = dec_string n"
    using assms(2) dec_string_digits [of n] by (intro digits_stop) (auto simp: num_stop_def)
  with ex show ?thesis by (auto simp: match_exponent_def)
qed

lemma numeral_tail_stop:
  assumes "exponent_text ex" "num_stop r"
  shows "(if fp = [] then [] else 46 # fp) @ ex @ r = [] \<or> \<not> is_digit (hd ((if fp = [] then [] else 46 # fp) @ ex @ r))"
    "ex @ r = [] \<or> \<not> is_digit (hd (ex @ r)) \<and> hd (ex @ r) \<noteq> 46"
  using assms by (auto simp: exponent_text_def num_stop_def)

lemma numeral_matches:
  assumes "list_all is_digit ip" "ip \<noteq> []" "list_all is_digit fp" "exponent_text ex"
  shows "match_number (numeral_text ip fp ex) = Some (numeral_text ip fp ex)"
    "decimal_value (numeral_text ip fp ex) = of_nat (dec_value (ip @ fp)) * 10 powi (exponent_value ex - int (length fp))"
proof -
  let ?f = "if fp = [] then [] else 46 # fp"
  have ip: "takeWhile is_digit (ip @ ?f @ ex) = ip"
    using numeral_tail_stop(1) [OF assms(4) num_stop_Nil, of fp] by (intro digits_stop assms(1)) simp
  have fp: "takeWhile is_digit (fp @ ex) = fp"
    using numeral_tail_stop(2) [OF assms(4) num_stop_Nil] by (intro digits_stop assms(3)) auto
  have ex: "match_exponent ex = length ex" using match_exponent_text [OF assms(4) num_stop_Nil] by simp
  have ex46: "ex = [] \<or> hd ex \<noteq> 46" using numeral_tail_stop(2) [OF assms(4) num_stop_Nil] by auto
  have m: "match_mantissa (ip @ ?f @ ex) = Some (length ip + length ?f)"
    using ip fp ex46 assms(2) by (cases ex) (auto simp: match_mantissa_def Let_def simp del: takeWhile_eq_all_conv)
  then show "match_number (numeral_text ip fp ex) = Some (numeral_text ip fp ex)"
    using ex by (simp add: match_number_def numeral_text_def)
  show "decimal_value (numeral_text ip fp ex) = of_nat (dec_value (ip @ fp)) * 10 powi (exponent_value ex - int (length fp))"
    using ip fp ex46 by (cases ex) (auto simp: decimal_value_def numeral_text_def Let_def simp del: takeWhile_eq_all_conv)
qed

definition json_numeral :: "jsstr \<Rightarrow> jsstr \<Rightarrow> jsstr \<Rightarrow> bool" where
  "json_numeral ip fp ex \<longleftrightarrow>
     list_all is_digit ip \<and> (ip = [48] \<or> ip \<noteq> [] \<and> hd ip \<noteq> 48) \<and> list_all is_digit fp \<and> exponent_text ex"

lemma json_number_length_numeral:
  assumes "json_numeral ip fp ex" "num_stop r" "m = [] \<or> m = [45]"
  shows "json_number_length (m @ numeral_text ip fp ex @ r) = Some (length (m @ numeral_text ip fp ex))"
proof -
  have num: "list_all is_digit ip" "ip = [48] \<or> ip \<noteq> [] \<and> hd ip \<noteq> 48" "list_all is_digit fp" "exponent_text ex"
    using assms(1) by (simp_all add: json_numeral_def)
  let ?f = "if fp = [] then [] else 46 # fp"
  from num(1,2) obtain c cs where c: "ip = c # cs" "is_digit c" by (cases ip) auto
  then have c45: "c \<noteq> 45" by (auto simp: is_digit_def)
  have ip: "takeWhile is_digit (ip @ ?f @ ex @ r) = ip"
    using numeral_tail_stop(1) [OF num(4) assms(2), of fp] by (intro digits_stop num(1)) simp
  have int: "json_int (ip @ ?f @ ex @ r) = length ip"
    unfolding json_int_def ip using num(2) c by auto
  have fp: "takeWhile is_digit (fp @ ex @ r) = fp"
    using numeral_tail_stop(2) [OF num(4) assms(2)] by (intro digits_stop num(3)) auto
  have frac: "json_fraction (?f @ ex @ r) = length ?f"
    using numeral_tail_stop(2) [OF num(4) assms(2)] fp by (cases "ex @ r") (auto simp: json_fraction_def simp del: takeWhile_eq_all_conv)
  have "json_number_length (m @ ip @ ?f @ ex @ r) = Some (length m + length ip + length ?f + match_exponent (ex @ r))"
    using assms(3) c c45 int frac by (auto simp: json_number_length_def Let_def simp del: append_assoc) 
  then show ?thesis
    by (simp add: numeral_text_def match_exponent_text [OF num(4) assms(2)])
qed

lemma dec_value_append: "dec_value (a @ b) = dec_value a * 10 ^ length b + dec_value b"
proof (induction b rule: rev_induct)
  case (snoc c b)
  then show ?case by (simp add: dec_value_snoc flip: append_assoc)
qed (simp add: dec_value_def)

lemma dec_value_zeros [simp]: "dec_value (replicate n 48) = 0"
  by (induction n) (simp_all add: dec_value_def)

lemma dec_string_leading: "0 < n \<Longrightarrow> \<exists>c cs. dec_string n = c # cs \<and> c \<noteq> 48"
proof (induction n rule: dec_string.induct)
  case (1 n)
  show ?case
  proof (cases "n < 10")
    case False
    then have "0 < n div 10" by simp
    with 1 False obtain c cs where "dec_string (n div 10) = c # cs" "c \<noteq> 48" by blast
    with False show ?thesis by (simp add: dec_string.simps [of n])
  qed (use "1.prems" in \<open>simp add: dec_string.simps [of n]\<close>)
qed

lemma denotes_length:
  assumes "denotes n x k v" "0 < k"
  shows "length (dec_string n) = k" "0 < n"
proof -
  have n: "10 ^ (k - 1) \<le> n" "n < 10 ^ k" using assms(1) by (auto simp: denotes_def)
  then show pos: "0 < n" by (meson less_le_trans zero_less_numeral zero_less_power)
  let ?l = "length (dec_string n)"
  have l: "10 ^ (?l - 1) \<le> n" "n < 10 ^ ?l" using dec_string_length [OF pos] by auto
  from le_less_trans [OF n(1) l(2)] have "k - 1 < ?l" by (rule power_less_imp_less_exp [rotated]) simp
  moreover from le_less_trans [OF l(1) n(2)] have "?l - 1 < k" by (rule power_less_imp_less_exp [rotated]) simp
  ultimately show "?l = k" using assms(2) by linarith
qed

text \<open>The digits of a numeral, with the exponent of the last one.\<close>

lemma positive_string_numeral:
  assumes "representable v" "0 < v"
  obtains ip fp ex where "positive_string v = numeral_text ip fp ex" "json_numeral ip fp ex"
    "dround False (of_nat (dec_value (ip @ fp)) * 10 powi (exponent_value ex - int (length fp))) = Fin v"
proof -
  obtain n k x where sd: "shortest_digits v = (dec_string n, x)" and k: "0 < k" and den: "denotes n x k v"
    using shortest_digits_denote [OF assms] by blast
  define ds where "ds = dec_string n"
  have len: "length ds = k" and dv: "dec_value ds = n" and ds: "list_all is_digit ds"
    using denotes_length(1) [OF den k] dec_string_digits by (simp_all add: ds_def)
  have c: "ds \<noteq> []" "hd ds \<noteq> 48"
    using dec_string_leading [OF denotes_length(2) [OF den k]] by (auto simp: ds_def)
  have dr: "dround False (of_nat n * 10 powi (x - int k + 1)) = Fin v" using den by (simp add: denotes_def)
  have digits: "list_all is_digit (take i ds)" "list_all is_digit (drop i ds)" for i
    using ds by (auto simp: list_all_iff dest: in_set_takeD in_set_dropD)
  have shape: "positive_string v = (if int k \<le> x + 1 \<and> x + 1 \<le> 21 then ds @ replicate (nat (x + 1 - int k)) 48
      else if 0 < x + 1 \<and> x + 1 \<le> 21 then take (nat (x + 1)) ds @ js ''.'' @ drop (nat (x + 1)) ds
      else if - 6 < x + 1 \<and> x + 1 \<le> 0 then js ''0.'' @ replicate (nat (- (x + 1))) 48 @ ds else exp_notation ds x)"
    by (simp add: positive_string_def sd len [unfolded ds_def] Let_def ds_def)
  consider (whole) "int k \<le> x + 1" "x + 1 \<le> 21" | (point) "x + 1 < int k" "0 < x + 1" "x + 1 \<le> 21"
    | (small) "- 6 < x + 1" "x + 1 \<le> 0" | (exp) "x + 1 \<le> - 6 \<or> 21 < x + 1" by linarith
  then show thesis
  proof cases
    case whole
    let ?z = "replicate (nat (x + 1 - int k)) 48 :: jsstr"
    have "of_nat (dec_value (ds @ ?z)) = (of_nat n * 10 powi (x - int k + 1) :: rat)"
      using whole by (simp add: dec_value_append dv power_int_def algebra_simps)
    moreover have "json_numeral (ds @ ?z) [] []"
      using ds c by (auto simp: json_numeral_def exponent_text_def list_all_iff)
    ultimately show thesis
      by (intro that [of "ds @ ?z" "[]" "[]"]) (use whole dr in \<open>simp_all add: shape numeral_text_def exponent_value_def\<close>)
  next
    case point
    let ?ip = "take (nat (x + 1)) ds" and ?fp = "drop (nat (x + 1)) ds"
    have "?ip \<noteq> []" "hd ?ip = hd ds" using point c by simp_all
    with digits [of "nat (x + 1)"] c(2) have "json_numeral ?ip ?fp []"
      by (simp add: json_numeral_def exponent_text_def)
    moreover have "- int (length ?fp) = x - int k + 1" using point by (simp add: len)
    ultimately show thesis
      by (intro that [of ?ip ?fp "[]"])
        (use point dr len in \<open>simp_all add: shape numeral_text_def exponent_value_def dv js_def algebra_simps\<close>)
  next
    case small
    let ?fp = "replicate (nat (- (x + 1))) 48 @ ds"
    have "dec_value ([48] @ ?fp) = n"
      by (simp only: dec_value_append dv dec_value_zeros) (simp add: dec_value_def)
    moreover have "json_numeral [48] ?fp []" using ds by (auto simp: json_numeral_def exponent_text_def list_all_iff)
    moreover have "x - int k + 1 = exponent_value [] - int (length ?fp)"
      using small by (simp add: len exponent_value_def)
    moreover have "positive_string v = numeral_text [48] ?fp []"
      using small k c by (simp add: shape numeral_text_def js_def)
    ultimately show thesis using dr by (intro that [of "[48]" ?fp "[]"]) simp_all
  next
    case exp
    let ?ip = "take 1 ds" and ?fp = "drop 1 ds"
      and ?ex = "101 # (if x < 0 then 45 else 43) # dec_string (nat \<bar>x\<bar>)"
    have "positive_string v = numeral_text ?ip ?fp ?ex"
      using exp k len c by (cases ds) (auto simp: shape numeral_text_def exp_notation_def js_def)
    moreover have "json_numeral ?ip ?fp ?ex"
      using digits [of 1] c by (cases ds) (auto simp: json_numeral_def exponent_text_def)
    moreover have "exponent_value ?ex - int (length ?fp) = x - int k + 1"
      using k len by (simp add: exponent_value_def)
    ultimately show thesis using dr by (intro that [of ?ip ?fp ?ex]) (simp_all only: append_take_drop_id dv)
  qed
qed

section \<open>The round trip\<close>

definition double :: "jsnum \<Rightarrow> bool" where
  "double x = (case x of Fin q \<Rightarrow> representable q | _ \<Rightarrow> True)"

text \<open>The number that the text of a finite number denotes: \<open>-0\<close> prints as \<open>0\<close>.\<close>

definition printed_num :: "jsnum \<Rightarrow> jsnum" where
  "printed_num x = (if x = NegZero then Fin 0 else x)"

lemma representable_uminus: "representable (- q) \<longleftrightarrow> representable q"
proof -
  have "representable (- a)" if "representable a" for a
  proof -
    from that obtain k x where "a = of_int k * 2 powi x" "\<bar>k\<bar> < 2 ^ 53" "- 1074 \<le> x" "x \<le> 971"
      unfolding representable_def by blast
    then show ?thesis unfolding representable_def by (intro exI [of _ "- k"] exI [of _ x]) simp
  qed
  from this [of q] this [of "- q"] show ?thesis by auto
qed

lemma dround_uminus:
  assumes "dround False q = Fin v" "0 < q" "v \<noteq> 0"
  shows "dround True (- q) = Fin (- v)"
  using assms by (simp add: dround_def Let_def split: if_split_asm)

lemma unsigned_numeral:
  assumes "json_numeral ip fp ex"
  shows "unsigned_number (numeral_text ip fp ex) neg =
    dround neg (if neg then - decimal_value (numeral_text ip fp ex) else decimal_value (numeral_text ip fp ex))"
    "numeral_text ip fp ex \<noteq> []" "is_digit (hd (numeral_text ip fp ex))"
proof -
  have num: "list_all is_digit ip" "ip \<noteq> []" "list_all is_digit fp" "exponent_text ex"
    using assms by (auto simp: json_numeral_def)
  then show d: "numeral_text ip fp ex \<noteq> []" "is_digit (hd (numeral_text ip fp ex))"
    by (cases ip; simp add: numeral_text_def)+
  then have "numeral_text ip fp ex \<noteq> js ''Infinity''" by (auto simp: js_def is_digit_def)
  with numeral_matches(1) [OF num] show "unsigned_number (numeral_text ip fp ex) neg =
      dround neg (if neg then - decimal_value (numeral_text ip fp ex) else decimal_value (numeral_text ip fp ex))"
    by (simp add: unsigned_number_def)
qed

lemma finite_text:
  assumes "double x" "is_finite x"
  obtains m ip fp ex where "num_to_string x = m @ numeral_text ip fp ex" "m = [] \<or> m = [45]"
    "json_numeral ip fp ex" "unsigned_number (numeral_text ip fp ex) (m = [45]) = printed_num x"
proof (cases "x = NegZero \<or> x = Fin 0")
  case True
  have j: "json_numeral [48] [] []" by (simp add: json_numeral_def exponent_text_def)
  have "decimal_value (numeral_text [48] [] []) = 0"
    using numeral_matches(2) [of "[48]" "[]" "[]"] by (simp add: exponent_text_def dec_value_def)
  then have "unsigned_number (numeral_text [48] [] []) False = Fin 0"
    by (simp add: unsigned_numeral(1) [OF j] dround_def)
  with True j show thesis
    by (intro that [of "[]" "[48]" "[]" "[]"]) (auto simp: printed_num_def numeral_text_def js_def)
next
  case False
  with assms(2) obtain q where q: "x = Fin q" "q \<noteq> 0" by (cases x) auto
  define v where "v = \<bar>q\<bar>"
  have v: "representable v" "0 < v"
    using assms(1) q representable_uminus [of q] by (auto simp: v_def double_def abs_if)
  obtain ip fp ex where t: "positive_string v = numeral_text ip fp ex" and j: "json_numeral ip fp ex"
    and d: "dround False (of_nat (dec_value (ip @ fp)) * 10 powi (exponent_value ex - int (length fp))) = Fin v"
    using positive_string_numeral [OF v] .
  let ?t = "numeral_text ip fp ex"
  have dec: "decimal_value ?t = of_nat (dec_value (ip @ fp)) * 10 powi (exponent_value ex - int (length fp))"
    using j by (intro numeral_matches) (auto simp: json_numeral_def)
  then have dv: "dround False (decimal_value ?t) = Fin v" using d by simp
  then have "decimal_value ?t \<noteq> 0" using v(2) by (auto simp: dround_def)
  moreover have "0 \<le> decimal_value ?t" unfolding dec by (intro mult_nonneg_nonneg) (simp_all add: less_imp_le)
  ultimately have pos: "0 < decimal_value ?t" by linarith
  show thesis
  proof (cases "q < 0")
    case True
    with dround_uminus [OF dv pos] v(2) t j q show thesis
      by (intro that [of "[45]" ip fp ex]) (simp_all add: printed_num_def v_def js_def unsigned_numeral(1))
  next
    case False
    with dv t j q show thesis
      by (intro that [of "[]" ip fp ex]) (simp_all add: printed_num_def v_def unsigned_numeral(1))
  qed
qed

text \<open>\<open>Number(String(x))\<close>, and the number of a JSON text.\<close>

lemma numeral_no_ws: "c \<in> set (m @ numeral_text ip fp ex) \<Longrightarrow> json_numeral ip fp ex \<Longrightarrow> m = [] \<or> m = [45] \<Longrightarrow> \<not> is_ws c"
proof -
  assume c: "c \<in> set (m @ numeral_text ip fp ex)" and j: "json_numeral ip fp ex" and m: "m = [] \<or> m = [45]"
  have dig: "is_digit d \<Longrightarrow> \<not> is_ws d" for d by (auto simp: is_digit_def is_ws_def)
  have "is_digit d \<or> d \<in> {43, 45, 46, 101}" if "d \<in> set ex" for d
    using j that dec_string_digits by (auto simp: json_numeral_def exponent_text_def list_all_iff)
  then have "is_digit c \<or> c \<in> {43, 45, 46, 101}"
    using c j m by (auto simp: numeral_text_def json_numeral_def list_all_iff split: if_splits)
  then show "\<not> is_ws c" using dig by (auto simp: is_ws_def)
qed

lemma number_roundtrip:
  assumes "double x" "is_finite x"
  shows "number_of_string (num_to_string x) = printed_num x"
proof -
  obtain m ip fp ex where t: "num_to_string x = m @ numeral_text ip fp ex" "m = [] \<or> m = [45]"
    and j: "json_numeral ip fp ex" and u: "unsigned_number (numeral_text ip fp ex) (m = [45]) = printed_num x"
    using finite_text [OF assms] .
  let ?t = "numeral_text ip fp ex"
  have tr: "trim (m @ ?t) = m @ ?t"
  proof (rule trim_id)
    show "m @ ?t = [] \<or> \<not> is_ws (hd (m @ ?t)) \<and> \<not> is_ws (last (m @ ?t))"
      using numeral_no_ws [OF _ j t(2)] hd_in_set last_in_set by blast
  qed
  have ne: "?t \<noteq> []" "is_digit (hd ?t)" using unsigned_numeral(2,3) [OF j] by auto
  have radix: "\<not> starts_with [48, c] (m @ ?t)" if "\<not> is_digit c" "c \<notin> {46, 101}" for c
  proof
    assume s: "starts_with [48, c] (m @ ?t)"
    then have m: "m = []" using t(2) by (auto simp: starts_with_def)
    with s have "take 2 ?t = [48, c]" by (simp add: starts_with_def numeral_2_eq_2)
    then obtain d where "?t = [48, c] @ d" using append_take_drop_id [of 2 ?t] by metis
    then show False
      using j that by (cases ip) (auto simp: json_numeral_def numeral_text_def exponent_text_def split: if_splits)
  qed
  have heads: "\<not> starts_with [43] (m @ ?t)" "starts_with [45] (m @ ?t) \<longleftrightarrow> m = [45]"
    using ne t(2) by (cases ?t; auto simp: starts_with_def)+
  show ?thesis
    using t u ne radix [of 120] radix [of 88] radix [of 111] radix [of 79] radix [of 98] radix [of 66] heads
    by (auto simp: number_of_string_def Let_def js_def tr is_digit_def)
qed

lemma json_number_printed:
  assumes "double x" "is_finite x" "num_stop r"
  shows "json_number (num_to_string x @ r) = Some (JNum (printed_num x), r)"
    "is_digit (hd (num_to_string x)) \<or> hd (num_to_string x) = 45" "num_to_string x \<noteq> []"
proof -
  obtain m ip fp ex where t: "num_to_string x = m @ numeral_text ip fp ex" "m = [] \<or> m = [45]"
    and j: "json_numeral ip fp ex"
    using finite_text [OF assms(1,2)] .
  from json_number_length_numeral [OF j assms(3) t(2)]
  have "json_number_length (num_to_string x @ r) = Some (length (num_to_string x))" by (simp add: t(1))
  then show "json_number (num_to_string x @ r) = Some (JNum (printed_num x), r)"
    using number_roundtrip [OF assms(1,2)] by (simp add: json_number_def)
  show "is_digit (hd (num_to_string x)) \<or> hd (num_to_string x) = 45" "num_to_string x \<noteq> []"
    using t(2) unsigned_numeral(2,3) [OF j] by (auto simp: t(1))
qed

end
