(* ===== verification/JsJsonPrint.thy ===== *)
theory JsJsonPrint
  imports JsNumberPrint
begin

text \<open>
  \<open>JSON.stringify\<close> of ECMAScript with an optional indentation, and the round trip: parsing the text of
  a value gives the value back.  \<open>undefined\<close> is the result \<open>None\<close>; it is left out of objects and is
  \<open>null\<close> in arrays.
\<close>

section \<open>The printer\<close>

definition is_high_surrogate :: "nat \<Rightarrow> bool" where
  "is_high_surrogate c \<longleftrightarrow> 0xD800 \<le> c \<and> c \<le> 0xDBFF"

definition is_low_surrogate :: "nat \<Rightarrow> bool" where
  "is_low_surrogate c \<longleftrightarrow> 0xDC00 \<le> c \<and> c \<le> 0xDFFF"

definition low_hex_char :: "nat \<Rightarrow> nat" where
  "low_hex_char d = (if d < 10 then 48 + d else 87 + d)"

definition unicode_escape :: "nat \<Rightarrow> jsstr" where
  "unicode_escape c =
     [92, 117, low_hex_char (c div 4096 mod 16), low_hex_char (c div 256 mod 16),
      low_hex_char (c div 16 mod 16), low_hex_char (c mod 16)]"

text \<open>The characters with an escape of their own, and one code unit of a string literal.\<close>

definition quote_escapes :: "(nat \<times> nat) list" where
  "quote_escapes = [(8, 98), (9, 116), (10, 110), (12, 102), (13, 114), (34, 34), (92, 92)]"

definition quote_unit :: "nat \<Rightarrow> jsstr" where
  "quote_unit c =
     (case map_of quote_escapes c of
        Some e \<Rightarrow> [92, e]
      | None \<Rightarrow> if c < 32 \<or> is_high_surrogate c \<or> is_low_surrogate c then unicode_escape c else [c])"

text \<open>A surrogate is written as it is in a pair and escaped when it is alone.\<close>

fun quote_units :: "jsstr \<Rightarrow> jsstr" where
  "quote_units [] = []"
| "quote_units [c] = quote_unit c"
| "quote_units (c # d # cs) =
     (if is_high_surrogate c \<and> is_low_surrogate d then c # d # quote_units cs
      else quote_unit c @ quote_units (d # cs))"

definition json_quote :: "jsstr \<Rightarrow> jsstr" where
  "json_quote s = 34 # quote_units s @ [34]"

text \<open>The items of an array or of an object between their brackets.\<close>

definition json_wrap :: "nat \<Rightarrow> nat \<Rightarrow> jsstr \<Rightarrow> jsstr \<Rightarrow> jsstr list \<Rightarrow> jsstr" where
  "json_wrap opening closing gap indent items =
     (if items = [] then [opening, closing]
      else if gap = [] then [opening] @ join [44] items @ [closing]
      else [opening, 10] @ indent @ gap @ join ([44, 10] @ indent @ gap) items @ [10] @ indent @ [closing])"

definition json_member :: "jsstr \<Rightarrow> jsstr \<Rightarrow> jsstr \<Rightarrow> jsstr" where
  "json_member gap k txt = json_quote k @ (if gap = [] then [58] else [58, 32]) @ txt"

function json_text :: "jsstr \<Rightarrow> jsstr \<Rightarrow> jsval \<Rightarrow> jsstr option" where
  "json_text gap indent v =
     (case v of
        JUndef \<Rightarrow> None
      | JNull \<Rightarrow> Some (js ''null'')
      | JBool b \<Rightarrow> Some (if b then js ''true'' else js ''false'')
      | JNum x \<Rightarrow> Some (if is_finite x then num_to_string x else js ''null'')
      | JStr s \<Rightarrow> Some (json_quote s)
      | JArr xs \<Rightarrow>
          Some (json_wrap 91 93 gap indent
            (map (\<lambda>x. case json_text gap (indent @ gap) x of Some t \<Rightarrow> t | None \<Rightarrow> js ''null'') xs))
      | JObj es \<Rightarrow>
          Some (json_wrap 123 125 gap indent
            (concat (map (\<lambda>(k, x).
               case json_text gap (indent @ gap) x of Some t \<Rightarrow> [json_member gap k t] | None \<Rightarrow> []) es))))"
  by pat_completeness auto
termination
  by (relation "measure (\<lambda>(gap, indent, v). size v)") (auto dest: size_JArr_elem size_JObj_entry)

declare json_text.simps [simp del]

text \<open>\<open>JSON.stringify(v)\<close> and \<open>JSON.stringify(v, null, 2)\<close> of a value that is not \<open>undefined\<close>.\<close>

definition json_stringify :: "jsval \<Rightarrow> jsstr" where
  "json_stringify v = (case json_text [] [] v of Some t \<Rightarrow> t | None \<Rightarrow> js ''undefined'')"

definition json_stringify_indented :: "jsval \<Rightarrow> jsstr" where
  "json_stringify_indented v = (case json_text [32, 32] [] v of Some t \<Rightarrow> t | None \<Rightarrow> js ''undefined'')"

section \<open>String literals round-trip\<close>

lemma json_string_plain:
  "c \<noteq> 34 \<Longrightarrow> c \<noteq> 92 \<Longrightarrow> 32 \<le> c \<Longrightarrow>
     json_string (c # r) = map_option (\<lambda>(t, q). (c # t, q)) (json_string r)"
  by (subst json_string.simps) simp

lemma low_hex: "d < 16 \<Longrightarrow> is_hex (low_hex_char d) \<and> hex_digit (low_hex_char d) = d"
  by (auto simp: low_hex_char_def is_hex_def hex_digit_def is_digit_def)

lemma json_string_unicode:
  assumes "c < 65536"
  shows "json_string (unicode_escape c @ r) = map_option (\<lambda>(t, q). (c # t, q)) (json_string r)"
proof -
  let ?h = "[low_hex_char (c div 4096 mod 16), low_hex_char (c div 256 mod 16),
    low_hex_char (c div 16 mod 16), low_hex_char (c mod 16)]"
  have d: "c div 256 = c div 16 div 16" "c div 4096 = c div 16 div 16 div 16"
    by (simp_all add: div_mult2_eq [symmetric])
  have "c div 16 div 16 div 16 < 16" using assms unfolding d(2) [symmetric] by simp
  then have "hex_value ?h = c" unfolding d by (simp add: hex_value_def low_hex)
  moreover have "list_all is_hex ?h" by (simp add: low_hex)
  ultimately show ?thesis
    by (subst json_string.simps) (simp add: unicode_escape_def)
qed

lemma json_string_escaped:
  assumes "map_of quote_escapes c = Some e"
  shows "json_string (92 # e # r) = map_option (\<lambda>(t, q). (c # t, q)) (json_string r)"
  using assms
  by (subst json_string.simps) (auto simp: quote_escapes_def json_escapes_def split: if_splits)

lemma json_string_unit:
  assumes "c < 65536"
  shows "json_string (quote_unit c @ r) = map_option (\<lambda>(t, q). (c # t, q)) (json_string r)"
proof (cases "map_of quote_escapes c")
  case None
  then have "c \<noteq> 34" "c \<noteq> 92" by (auto simp: quote_escapes_def split: if_splits)
  with None assms show ?thesis
    by (auto simp: quote_unit_def json_string_unicode json_string_plain)
qed (simp add: quote_unit_def json_string_escaped)

definition code_units :: "jsstr \<Rightarrow> bool" where
  "code_units s \<longleftrightarrow> list_all (\<lambda>c. c < 65536) s"

lemma json_string_units:
  "code_units s \<Longrightarrow> json_string (quote_units s @ 34 # r) = Some (s, r)"
proof (induction s rule: quote_units.induct)
  case 1
  show ?case by (subst json_string.simps) simp
next
  case (2 c)
  have "json_string (34 # r) = Some ([], r)" by (subst json_string.simps) simp
  with 2 show ?case by (simp add: code_units_def json_string_unit)
next
  case (3 c d cs)
  then show ?case
    by (auto simp: code_units_def json_string_unit json_string_plain is_high_surrogate_def is_low_surrogate_def)
qed

section \<open>Values round-trip\<close>

lemma json_ws_simps [simp]:
  "json_ws 10" "json_ws 32" "\<not> json_ws 34" "\<not> json_ws 44" "\<not> json_ws 58" "\<not> json_ws 91" "\<not> json_ws 93"
  "\<not> json_ws 123" "\<not> json_ws 125" "\<not> json_ws 116" "\<not> json_ws 102" "\<not> json_ws 110"
  by (simp_all add: json_ws_def)

text \<open>A text that reads as a value, whatever white space precedes it and whatever follows.\<close>

definition reads :: "jsstr \<Rightarrow> jsval \<Rightarrow> bool" where
  "reads t v \<longleftrightarrow>
     (\<forall>w r. list_all json_ws w \<longrightarrow> num_stop r \<longrightarrow> json_value (w @ t @ r) = Some (v, r))"

lemma readsD: "reads t v \<Longrightarrow> list_all json_ws w \<Longrightarrow> num_stop r \<Longrightarrow> json_value (w @ t @ r) = Some (v, r)"
  by (simp add: reads_def)

lemma skip_ws_append: "list_all json_ws w \<Longrightarrow> skip_ws (w @ t) = skip_ws t"
  by (induction w) auto

lemma json_value_skip: "list_all json_ws w \<Longrightarrow> json_value (w @ t) = json_value t"
  by (subst (1 2) json_value.simps) (simp add: skip_ws_append)

lemma num_stop_ws: "list_all json_ws w \<Longrightarrow> num_stop (c # r) \<Longrightarrow> num_stop (w @ c # r)"
  by (cases w) (auto simp: num_stop_def json_ws_def is_digit_def)

lemma num_stop_punct: "num_stop (44 # r)" "num_stop (93 # r)" "num_stop (125 # r)"
  by (simp_all add: num_stop_def is_digit_def)

lemma reads_word:
  "reads (js ''null'') JNull" "reads (js ''true'') (JBool True)" "reads (js ''false'') (JBool False)"
  by (auto simp: reads_def json_value_skip json_value.simps [of "_ # _"] json_word_def starts_with_def js_def)

lemma reads_string: "code_units s \<Longrightarrow> reads (json_quote s) (JStr s)"
  by (simp add: reads_def json_value_skip json_value.simps [of "_ # _"] json_quote_def json_string_units)

lemma json_elems_not_close: "json_elems s = Some x \<Longrightarrow> take 1 (skip_ws s) \<noteq> [93]"
proof
  assume e: "json_elems s = Some x" and "take 1 (skip_ws s) = [93]"
  then obtain q where "skip_ws s = 93 # q" by (cases "skip_ws s") auto
  then have "json_value s = None"
    by (simp add: json_value.simps [of s] json_word_def starts_with_def json_number_def
        json_number_length_def json_int_def is_digit_def js_def)
  with e show False by (simp add: json_elems.simps [of s])
qed

lemma json_members_not_close: "json_members s = Some x \<Longrightarrow> take 1 (skip_ws s) \<noteq> [125]"
  by (subst (asm) json_members.simps) (auto split: list.splits if_splits)

lemma json_elems_join:
  assumes "list_all2 reads ts vs" "ts \<noteq> []" "list_all json_ws p" "list_all json_ws u" "list_all json_ws w"
  shows "json_elems (p @ join (44 # u) ts @ w @ 93 # r) = Some (vs, r)"
  using assms
proof (induction ts vs arbitrary: p rule: list_all2_induct)
  case (Cons t ts v vs)
  show ?case
  proof (cases ts)
    case Nil
    with Cons have "json_value (p @ t @ w @ 93 # r) = Some (v, w @ 93 # r)"
      by (intro readsD num_stop_ws num_stop_punct) auto
    with Nil Cons show ?thesis
      by (subst json_elems.simps) (simp add: skip_ws_append)
  next
    case (Cons t' ts')
    let ?q = "u @ join (44 # u) ts @ w @ 93 # r"
    have "json_value (p @ t @ 44 # ?q) = Some (v, 44 # ?q)"
      using Cons.hyps Cons.prems \<open>reads t v\<close> by (intro readsD num_stop_punct) auto
    moreover have "json_elems ?q = Some (vs, r)"
      using Cons.IH [of u] Cons.prems \<open>ts = t' # ts'\<close> by simp
    ultimately show ?thesis
      using \<open>ts = t' # ts'\<close> by (subst json_elems.simps) simp
  qed
qed simp

lemma json_members_join:
  assumes "list_all2 (\<lambda>(k, t) (k', v). k = k' \<and> code_units k \<and> reads t v) kts es" "kts \<noteq> []"
    "list_all json_ws p" "list_all json_ws u" "list_all json_ws w" "list_all json_ws g"
  shows "json_members (p @ join (44 # u) (map (\<lambda>(k, t). json_quote k @ (58 # g) @ t) kts) @ w @ 125 # r)
    = Some (es, r)"
  using assms
proof (induction kts es arbitrary: p rule: list_all2_induct)
  case (Cons kt kts e es)
  obtain k t v where kt: "kt = (k, t)" "e = (k, v)" and k: "code_units k" and t: "reads t v"
    using Cons.hyps(1) by (cases kt; cases e) auto
  have key: "skip_ws (p @ json_quote k @ 58 # q) = 34 # quote_units k @ 34 # 58 # q" for q
    using Cons.prems by (simp add: skip_ws_append json_quote_def)
  show ?case
  proof (cases kts)
    case Nil
    with Cons t have "json_value (g @ t @ w @ 125 # r) = Some (v, w @ 125 # r)"
      by (intro readsD num_stop_ws num_stop_punct) auto
    with Nil Cons kt k show ?thesis
      by (subst json_members.simps) (simp add: key json_string_units skip_ws_append js_def)
  next
    case (Cons kt' kts')
    let ?q = "u @ join (44 # u) (map (\<lambda>(k, t). json_quote k @ (58 # g) @ t) kts) @ w @ 125 # r"
    have "json_value (g @ t @ 44 # ?q) = Some (v, 44 # ?q)"
      using Cons.prems t by (intro readsD num_stop_punct) auto
    moreover have "json_members ?q = Some (es, r)"
      using Cons.IH [of u] Cons.prems \<open>kts = kt' # kts'\<close> by simp
    ultimately show ?thesis
      using \<open>kts = kt' # kts'\<close> kt k
      by (subst json_members.simps) (simp add: key json_string_units js_def case_prod_beta)
  qed
qed simp

lemma from_entries_distinct: "distinct (map fst es) \<Longrightarrow> from_entries es = es"
proof -
  have append: "map_set k v m = m @ [(k, v)]" if "k \<notin> fst ` set m" for k :: 'a and v :: 'b and m
    using that by (induction m) auto
  have "foldl (\<lambda>m (k, v). map_set k v m) m es = m @ es" if "distinct (map fst (m @ es))" for m :: "('a \<times> 'b) list"
    using that by (induction es arbitrary: m) (auto simp: append)
  then show "distinct (map fst es) \<Longrightarrow> from_entries es = es" by (simp add: from_entries_def)
qed

text \<open>The white space that \<^const>\<open>json_wrap\<close> writes before, between and after the items.\<close>

lemma json_wrap_layout:
  assumes "list_all json_ws gap" "list_all json_ws indent"
  obtains p u w where "list_all json_ws p" "list_all json_ws u" "list_all json_ws w"
    "\<And>opening closing items. items \<noteq> [] \<Longrightarrow>
       json_wrap opening closing gap indent items = opening # p @ join (44 # u) items @ w @ [closing]"
proof (cases "gap = []")
  case True
  show ?thesis by (rule that [of "[]" "[]" "[]"]) (simp_all add: json_wrap_def True)
next
  case False
  show ?thesis
    by (rule that [of "10 # indent @ gap" "10 # indent @ gap" "10 # indent"])
      (use False assms in \<open>simp_all add: json_wrap_def\<close>)
qed

lemma reads_array:
  assumes "list_all2 reads ts vs" "list_all json_ws gap" "list_all json_ws indent"
  shows "reads (json_wrap 91 93 gap indent ts) (JArr vs)"
proof (cases "ts = []")
  case True
  with assms(1) show ?thesis
    by (simp add: reads_def json_value_skip json_value.simps [of "_ # _"] json_wrap_def js_def)
next
  case False
  obtain p u w where ws: "list_all json_ws p" "list_all json_ws u" "list_all json_ws w"
    and lay: "json_wrap 91 93 gap indent ts = 91 # p @ join (44 # u) ts @ w @ [93]"
    using json_wrap_layout [OF assms(2,3)] False by metis
  have "json_elems (p @ join (44 # u) ts @ w @ 93 # r) = Some (vs, r)" for r
    using json_elems_join [OF assms(1) False ws] .
  with json_elems_not_close show ?thesis
    by (simp add: reads_def json_value_skip json_value.simps [of "_ # _"] lay js_def)
qed

lemma reads_object:
  assumes "list_all2 (\<lambda>(k, t) (k', v). k = k' \<and> code_units k \<and> reads t v) kts es"
    "list_all json_ws gap" "list_all json_ws indent" "distinct (map fst es)" "property_order es = es"
  shows "reads (json_wrap 123 125 gap indent (map (\<lambda>(k, t). json_member gap k t) kts)) (JObj es)"
proof (cases "kts = []")
  case True
  with assms(1) show ?thesis
    by (simp add: reads_def json_value_skip json_value.simps [of "_ # _"] json_wrap_def js_def)
next
  case False
  let ?g = "if gap = [] then [] else [32]"
  have member: "(\<lambda>(k, t). json_member gap k t) = (\<lambda>(k, t). json_quote k @ (58 # ?g) @ t)"
    by (auto simp: json_member_def)
  obtain p u w where ws: "list_all json_ws p" "list_all json_ws u" "list_all json_ws w"
    and wrap: "\<And>items. items \<noteq> [] \<Longrightarrow>
      json_wrap 123 125 gap indent items = 123 # p @ join (44 # u) items @ w @ [125]"
    using json_wrap_layout [OF assms(2,3)] by metis
  note lay = wrap [of "map (\<lambda>(k, t). json_member gap k t) kts", unfolded member map_is_Nil_conv, OF False]
  have "json_members (p @ join (44 # u) (map (\<lambda>(k, t). json_quote k @ (58 # ?g) @ t) kts) @ w @ 125 # r)
      = Some (es, r)" for r
    by (rule json_members_join [OF assms(1) False ws]) simp
  with json_members_not_close assms(4,5) show ?thesis
    unfolding member lay
    by (simp add: reads_def json_value_skip json_value.simps [of "_ # _"] js_def from_entries_distinct)
qed

lemma reads_number:
  assumes "double x" "is_finite x"
  shows "reads (num_to_string x) (JNum (printed_num x))"
proof -
  obtain c cs where t: "num_to_string x = c # cs" and c: "is_digit c \<or> c = 45"
    using json_number_printed(2,3) [OF assms num_stop_Nil] by (cases "num_to_string x") auto
  have "json_value (c # cs @ r) = json_number (c # cs @ r)" for r
    using c by (auto simp: json_value.simps [of "_ # _"] json_word_def starts_with_def js_def is_digit_def json_ws_def)
  with json_number_printed(1) [OF assms] show ?thesis by (simp add: reads_def json_value_skip t)
qed

text \<open>What a parser sees of a printed value.\<close>

function json_data :: "jsval \<Rightarrow> jsval" where
  "json_data v =
     (case v of
        JNum x \<Rightarrow> if is_finite x then JNum (printed_num x) else JNull
      | JArr xs \<Rightarrow> JArr (map (\<lambda>x. if x = JUndef then JNull else json_data x) xs)
      | JObj es \<Rightarrow> JObj (map (\<lambda>(k, x). (k, json_data x)) (filter (\<lambda>(k, x). x \<noteq> JUndef) es))
      | _ \<Rightarrow> v)"
  by pat_completeness auto
termination
  by (relation "measure size") (auto dest: size_JArr_elem size_JObj_entry)

declare json_data.simps [simp del]

text \<open>
  Values as the language can have them: numbers are doubles, strings consist of code units, and the
  entries of an object are in the order of their keys.
\<close>

function json_printable :: "jsval \<Rightarrow> bool" where
  "json_printable v =
     (case v of
        JNum x \<Rightarrow> double x
      | JStr s \<Rightarrow> code_units s
      | JArr xs \<Rightarrow> list_all json_printable xs
      | JObj es \<Rightarrow>
          distinct (map fst es) \<and> property_order es = es
          \<and> list_all (\<lambda>(k, x). code_units k \<and> json_printable x) es
      | _ \<Rightarrow> True)"
  by pat_completeness auto
termination
  by (relation "measure size") (auto dest: size_JArr_elem size_JObj_entry)

declare json_printable.simps [simp del]

lemma property_order_entries:
  assumes "property_order es = es"
  shows "property_order (map (\<lambda>(k, x). (k, f x)) (filter P es)) = map (\<lambda>(k, x). (k, f x)) (filter P es)"
proof -
  let ?i = "\<lambda>e :: jsstr \<times> 'a. is_index (fst e)" and ?j = "\<lambda>e :: jsstr \<times> 'b. is_index (fst e)"
    and ?g = "\<lambda>(k, x). (k, f x)"
  have "filter ?i es = filter ?i (property_order es)" by (simp add: assms)
  also have "\<dots> = sort_key (\<lambda>e. dec_value (fst e)) (filter ?i es)"
    by (simp add: property_order_def filter_sort)
  finally have "sorted (map (\<lambda>e. dec_value (fst e)) (filter ?i es))" by (metis sorted_sort_key)
  then have "sorted (map (\<lambda>e. dec_value (fst e)) (filter P (filter ?i es)))" by (rule sorted_filter)
  moreover have "map (\<lambda>e. dec_value (fst e)) (map ?g (filter P (filter ?i es)))
      = map (\<lambda>e. dec_value (fst e)) (filter P (filter ?i es))" by (auto simp: case_prod_beta)
  ultimately have "sort_key (\<lambda>e. dec_value (fst e)) (map ?g (filter P (filter ?i es))) = map ?g (filter P (filter ?i es))"
    by (intro sort_key_id_if_sorted) (simp only:)
  moreover have comm: "filter ?j (map ?g (filter P xs)) = map ?g (filter P (filter ?i xs))"
    "filter (\<lambda>e. \<not> ?j e) (map ?g (filter P xs)) = map ?g (filter P (filter (\<lambda>e. \<not> ?i e) xs))" for xs
    by (induction xs) auto
  ultimately have "property_order (map ?g (filter P es))
      = map ?g (filter P (filter ?i es @ filter (\<lambda>e. \<not> ?i e) es))"
    by (simp add: property_order_def)
  also have "filter ?i es @ filter (\<lambda>e. \<not> ?i e) es = es"
  proof -
    have "filter ?i es = sort_key (\<lambda>e. dec_value (fst e)) (filter ?i es)"
      using \<open>sorted (map (\<lambda>e. dec_value (fst e)) (filter ?i es))\<close> by (simp add: sort_key_id_if_sorted)
    then show ?thesis using assms by (simp add: property_order_def)
  qed
  finally show ?thesis .
qed

lemma json_text_object:
  "concat (map (\<lambda>(k, x). case json_text gap indent x of Some t \<Rightarrow> [json_member gap k t] | None \<Rightarrow> []) es)
    = map (\<lambda>(k, t). json_member gap k t)
        (map (\<lambda>(k, x). (k, the (json_text gap indent x))) (filter (\<lambda>(k, x). json_text gap indent x \<noteq> None) es))"
  by (induction es) (auto split: option.split)

lemma json_text_None [simp]: "json_text gap indent v = None \<longleftrightarrow> v = JUndef"
  by (subst json_text.simps) (simp split: jsval.split)

lemma json_text_reads:
  assumes "json_printable v" "list_all json_ws gap" "list_all json_ws indent" "v \<noteq> JUndef"
  shows "reads (the (json_text gap indent v)) (json_data v)"
  using assms
proof (induction gap indent v rule: json_text.induct)
  case (1 gap indent v)
  have ws: "list_all json_ws (indent @ gap)" using "1.prems" by simp
  show ?case
  proof (cases v)
    case (JArr xs)
    let ?t = "\<lambda>x. case json_text gap (indent @ gap) x of Some t \<Rightarrow> t | None \<Rightarrow> js ''null''"
      and ?d = "\<lambda>x. if x = JUndef then JNull else json_data x"
    have "reads (?t x) (?d x)" if "x \<in> set xs" for x
    proof (cases "x = JUndef")
      case True
      then show ?thesis by (simp add: json_text.simps reads_word)
    next
      case False
      have "json_printable x" using "1.prems"(1) JArr that by (subst (asm) json_printable.simps) (simp add: list_all_iff)
      with "1.IH"(1) [OF JArr that] "1.prems" ws False show ?thesis by (auto split: option.split)
    qed
    then have "list_all2 reads (map ?t xs) (map ?d xs)" by (simp add: list_all2_conv_all_nth)
    from reads_array [OF this "1.prems"(2,3)] show ?thesis
      by (simp add: JArr json_text.simps [of gap indent "JArr xs"] json_data.simps [of "JArr xs"])
  next
    case (JObj es)
    let ?t = "\<lambda>(k, x). (k, the (json_text gap (indent @ gap) x))"
    let ?es = "filter (\<lambda>(k, x). x \<noteq> JUndef) es"
    have pr: "distinct (map fst es)" "property_order es = es" "list_all (\<lambda>(k, x). code_units k \<and> json_printable x) es"
      using "1.prems"(1) JObj by (subst (asm) json_printable.simps, simp)+
    have "code_units k \<and> reads (the (json_text gap (indent @ gap) x)) (json_data x)" if "(k, x) \<in> set ?es" for k x
      using that pr(3) "1.IH"(2) [OF JObj, of "(k, x)"] "1.prems" ws by (auto simp: list_all_iff)
    then have "list_all2 (\<lambda>(k, t) (k', v). k = k' \<and> code_units k \<and> reads t v)
        (map ?t ?es) (map (\<lambda>(k, x). (k, json_data x)) ?es)"
      by (auto simp: list_all2_map1 list_all2_map2 list_all2_same)
    moreover have "distinct (map fst (map (\<lambda>(k, x). (k, json_data x)) ?es))"
      using pr(1) by (simp add: case_prod_beta comp_def distinct_map_filter)
    moreover note property_order_entries [OF pr(2), of json_data "\<lambda>(k, x). x \<noteq> JUndef"]
    ultimately have "reads (json_wrap 123 125 gap indent (map (\<lambda>(k, t). json_member gap k t) (map ?t ?es)))
        (JObj (map (\<lambda>(k, x). (k, json_data x)) ?es))"
      using "1.prems"(2,3) by (intro reads_object) auto
    then show ?thesis
      by (simp add: JObj json_text.simps [of gap indent "JObj es"] json_data.simps [of "JObj es"] json_text_object)
  qed (use "1.prems" in \<open>auto simp: json_text.simps [of gap indent] json_data.simps json_printable.simps
      reads_word reads_string reads_number\<close>)
qed

lemma json_roundtrip:
  assumes "json_printable v" "v \<noteq> JUndef"
  shows "json_parse (json_stringify v) = Some (json_data v)"
    "json_parse (json_stringify_indented v) = Some (json_data v)"
proof -
  have parse: "json_parse t = Some w" if "reads t w" for t w
    using readsD [OF that, of "[]" "[]"] by (simp add: json_parse_def)
  have "\<exists>t. json_text gap [] v = Some t" for gap using assms(2) json_text_None by blast
  then show "json_parse (json_stringify v) = Some (json_data v)"
    "json_parse (json_stringify_indented v) = Some (json_data v)"
    using assms(2) json_text_reads [OF assms(1) _ _ assms(2), of "[]" "[]"] json_text_reads [OF assms(1) _ _ assms(2), of "[32, 32]" "[]"]
    by (auto simp: json_stringify_def json_stringify_indented_def intro!: parse split: option.split)
qed

section \<open>Values that came from JSON\<close>

text \<open>Printing such a value and reading it back changes nothing.\<close>

definition json_clean :: "jsval \<Rightarrow> bool" where
  "json_clean v \<longleftrightarrow> json_printable v \<and> json_data v = v"

lemma json_data_simps [simp]:
  "json_data JUndef = JUndef" "json_data JNull = JNull" "json_data (JBool b) = JBool b" "json_data (JStr s) = JStr s"
  by (simp_all add: json_data.simps)

lemma json_clean_str [simp]: "json_clean (JStr s) \<longleftrightarrow> code_units s"
  by (simp add: json_clean_def json_printable.simps)

lemma json_clean_undef [simp]: "json_clean JUndef"
  by (simp add: json_clean_def json_printable.simps)

lemma map_filter_fixed:
  assumes "map f (filter P xs) = xs"
  shows "filter P xs = xs"
proof -
  have "length (filter P xs) = length xs" using arg_cong [OF assms, of length] by simp
  then have "\<forall>x\<in>set xs. P x" using length_filter_less [of _ xs P] by fastforce
  then show ?thesis by simp
qed

lemma map_fixed: "map f xs = xs \<Longrightarrow> x \<in> set xs \<Longrightarrow> f x = x"
  by (induction xs) auto

lemma json_clean_arr:
  assumes "json_clean (JArr xs)" "x \<in> set xs"
  shows "json_clean x"
proof -
  have "map (\<lambda>x. if x = JUndef then JNull else json_data x) xs = xs"
    using assms(1) by (simp add: json_clean_def json_data.simps [of "JArr xs"])
  then have "(if x = JUndef then JNull else json_data x) = x" by (rule map_fixed) (rule assms(2))
  moreover have "json_printable x"
    using assms by (simp add: json_clean_def json_printable.simps [of "JArr xs"] list_all_iff)
  ultimately show ?thesis by (simp add: json_clean_def split: if_splits)
qed

lemma json_clean_entry:
  assumes "json_clean (JObj es)" "(k, x) \<in> set es"
  shows "json_clean x"
proof -
  have fx: "map (\<lambda>(k, x). (k, json_data x)) (filter (\<lambda>(k, x). x \<noteq> JUndef) es) = es"
    using assms(1) by (simp add: json_clean_def json_data.simps [of "JObj es"])
  then have "map (\<lambda>(k, x). (k, json_data x)) es = es" unfolding map_filter_fixed [OF fx] .
  then have "(\<lambda>(k, x). (k, json_data x)) (k, x) = (k, x)" by (rule map_fixed) (rule assms(2))
  moreover have "json_printable x"
    using assms by (auto simp: json_clean_def json_printable.simps [of "JObj es"] list_all_iff)
  ultimately show ?thesis by (simp add: json_clean_def)
qed

lemma json_clean_prop [intro]: "json_clean v \<Longrightarrow> json_clean (get_prop v k)"
  by (auto simp: get_prop_def split: jsval.split option.split dest: map_of_SomeD json_clean_entry)

lemma json_data_prop:
  assumes "distinct (map fst es)"
  shows "get_prop (json_data (JObj es)) k = json_data (get_prop (JObj es) k)"
  using assms
proof (induction es)
  case (Cons e es)
  then show ?case
    by (cases e) (force simp: json_data.simps [of "JObj _"] get_prop_def split: option.split dest: map_of_SomeD)
qed (simp add: json_data.simps get_prop_def)

lemma own_key_order:
  assumes "list_all (\<lambda>(k, x). \<not> is_index k) es"
  shows "property_order es = es"
proof -
  have "filter (\<lambda>e. \<not> is_index (fst e)) es = es" "filter (\<lambda>e. is_index (fst e)) es = []"
    using assms by (auto simp: list_all_iff filter_id_conv filter_empty_conv)
  then show ?thesis by (simp add: property_order_def)
qed

lemma code_units_trim: "code_units s \<Longrightarrow> code_units (trim s)"
  using set_trim by (auto simp: code_units_def list_all_iff)

section \<open>Values that JSON keeps\<close>

lemma json_clean_bool [simp]: "json_clean (JBool b)"
  by (simp add: json_clean_def json_printable.simps)

lemma json_clean_arrI:
  assumes "list_all (\<lambda>x. json_clean x \<and> x \<noteq> JUndef) xs"
  shows "json_clean (JArr xs)"
proof -
  have "map (\<lambda>x. if x = JUndef then JNull else json_data x) xs = map (\<lambda>x. x) xs"
    using assms by (intro map_cong) (auto simp: list_all_iff json_clean_def)
  then show ?thesis
    using assms
    by (auto simp: json_clean_def json_printable.simps [of "JArr _"] json_data.simps [of "JArr _"] list_all_iff)
qed

definition plain_key :: "jsstr \<Rightarrow> bool" where
  "plain_key k \<longleftrightarrow> \<not> is_index k \<and> code_units k"

lemma json_clean_objI:
  assumes "distinct (map fst es)" "list_all (\<lambda>(k, v). plain_key k \<and> json_clean v \<and> v \<noteq> JUndef) es"
  shows "json_clean (JObj es)"
proof -
  have "filter (\<lambda>(k, x). x \<noteq> JUndef) es = es" using assms(2) by (auto simp: list_all_iff filter_id_conv)
  moreover have "map (\<lambda>(k, x). (k, json_data x)) es = map (\<lambda>e. e) es"
    using assms(2) by (intro map_cong) (auto simp: list_all_iff json_clean_def)
  ultimately have "json_data (JObj es) = JObj es" by (simp add: json_data.simps [of "JObj _"])
  moreover have "property_order es = es"
    using assms(2) by (intro own_key_order) (auto simp: list_all_iff plain_key_def)
  ultimately show ?thesis
    using assms
    by (auto simp: json_clean_def json_printable.simps [of "JObj _"] list_all_iff plain_key_def)
qed

lemma json_clean_read_back: "json_clean v \<Longrightarrow> v \<noteq> JUndef \<Longrightarrow> json_parse (json_stringify v) = Some v"
  using json_roundtrip(1) [of v] by (simp add: json_clean_def)

lemma json_clean_number [simp]: "json_clean (JNum x) \<longleftrightarrow> (\<exists>q. x = Fin q \<and> representable q)"
  by (cases x) (auto simp: json_clean_def json_printable.simps json_data.simps double_def printed_num_def)

lemma representable_small: "\<bar>k\<bar> < 2 ^ 53 \<Longrightarrow> representable (of_int k)"
  using representable_scaled [of k 0] by simp

lemma small_numbers [simp]: "representable 0" "representable 1" "representable 8"
  using representable_small [of 0] representable_small [of 1] representable_small [of 8] by simp_all

lemma json_clean_text: "code_units s \<Longrightarrow> json_clean (JStr s)"
  by (simp add: json_clean_def json_printable.simps)

lemma json_clean_filter:
  assumes "json_clean (JObj es)"
  shows "json_clean (JObj (filter P es))"
proof -
  have pr: "distinct (map fst es)" "property_order es = es" "list_all (\<lambda>(k, x). code_units k \<and> json_printable x) es"
    using assms by (simp_all add: json_clean_def json_printable.simps [of "JObj _"])
  have fx: "map (\<lambda>(k, x). (k, json_data x)) (filter (\<lambda>(k, x). x \<noteq> JUndef) es) = es"
    using assms by (simp add: json_clean_def json_data.simps [of "JObj _"])
  have defined: "x \<noteq> JUndef" if "(k, x) \<in> set es" for k x
    using that arg_cong [OF map_filter_fixed [OF fx], of set] by auto
  have "property_order (filter P es) = filter P es"
    using property_order_entries [OF pr(2), of "\<lambda>x. x" P] by simp
  moreover have "filter (\<lambda>(k, x). x \<noteq> JUndef) (filter P es) = filter P es"
    using defined by (auto simp: filter_filter intro!: filter_cong)
  moreover have "map (\<lambda>(k, x). (k, json_data x)) (filter P es) = map (\<lambda>e. e) (filter P es)"
    using json_clean_entry [OF assms] by (intro map_cong) (auto simp: json_clean_def)
  ultimately show ?thesis
    using pr
    by (auto simp: json_clean_def json_printable.simps [of "JObj _"] json_data.simps [of "JObj _"] list_all_iff
        distinct_map_filter)
qed

end
