(* ===== verification/AdvancedCustom.thy ===== *)
theory AdvancedCustom
  imports JsJsonPrint
begin

text \<open>
  \<open>features/channels/lib/advanced-custom.ts\<close>: the routes of an advanced custom channel.  A configuration
  comes from JSON that nothing has checked, so routes are values of any type and every read or
  method call that can throw a \<open>TypeError\<close> does.  \<open>new URL(value)\<close> of the browser is the parameter
  \<open>url\<close>, which returns the protocol and the host or, when it throws, \<open>None\<close>.
\<close>

section \<open>Options\<close>

definition ADVANCED_CUSTOM_MODEL_LIST_PATH :: jsstr where
  "ADVANCED_CUSTOM_MODEL_LIST_PATH = js ''/v1/models''"

definition ADVANCED_CUSTOM_MODEL_LIST_LABEL :: jsstr where
  "ADVANCED_CUSTOM_MODEL_LIST_LABEL = js ''OpenAI Models''"

definition ADVANCED_CUSTOM_BALANCE_PATH :: jsstr where
  "ADVANCED_CUSTOM_BALANCE_PATH = js ''/v1/dashboard/billing/credit_grants''"

definition ADVANCED_CUSTOM_BALANCE_LABEL :: jsstr where
  "ADVANCED_CUSTOM_BALANCE_LABEL = js ''Balance Query''"

record converter_option =
  co_value :: jsstr
  co_label :: jsstr
  co_triggerLabel :: jsstr

definition converter_option :: "string \<Rightarrow> string \<Rightarrow> string \<Rightarrow> converter_option" where
  "converter_option v l t = \<lparr>co_value = js v, co_label = js l, co_triggerLabel = js t\<rparr>"

definition ADVANCED_CUSTOM_CONVERTER_OPTIONS :: "converter_option list" where
  "ADVANCED_CUSTOM_CONVERTER_OPTIONS =
    [converter_option ''none'' ''Native forwarding'' ''Native forwarding'',
     converter_option ''anthropic_messages_to_openai_chat_completions'' ''Anthropic Messages to OpenAI Chat''
       ''To OpenAI Chat'',
     converter_option ''openai_chat_completions_to_anthropic_messages'' ''OpenAI Chat to Anthropic Messages''
       ''To Anthropic Messages'',
     converter_option ''openai_chat_completions_to_openai_responses'' ''OpenAI Chat to OpenAI Responses''
       ''To OpenAI Responses'',
     converter_option ''openai_responses_to_openai_chat_completions'' ''OpenAI Responses to OpenAI Chat''
       ''To OpenAI Chat'',
     converter_option ''openai_responses_to_gemini_generate_content'' ''OpenAI Responses to Gemini Generate Content''
       ''To Gemini Generate Content'',
     converter_option ''gemini_generate_content_to_openai_chat_completions''
       ''Gemini Generate Content to OpenAI Chat'' ''To OpenAI Chat'',
     converter_option ''openai_chat_completions_to_gemini_generate_content''
       ''OpenAI Chat to Gemini Generate Content'' ''To Gemini Generate Content'']"

definition ADVANCED_CUSTOM_AUTH_MODE_OPTIONS :: "(jsstr \<times> jsstr) list" where
  "ADVANCED_CUSTOM_AUTH_MODE_OPTIONS =
    [(js ''default'', js ''Default Bearer''), (js ''none'', js ''No Auth''), (js ''header'', js ''Header''),
     (js ''query'', js ''Query'')]"

definition ADVANCED_CUSTOM_INCOMING_PATH_OPTIONS :: "(jsstr \<times> jsstr) list" where
  "ADVANCED_CUSTOM_INCOMING_PATH_OPTIONS =
    [(js ''/v1/chat/completions'', js ''OpenAI Chat''),
     (js ''/v1/responses'', js ''OpenAI Responses''),
     (js ''/v1/responses/compact'', js ''OpenAI Responses Compact''),
     (js ''/v1/alpha/search'', js ''Codex Alpha Search''),
     (js ''/v1/embeddings'', js ''OpenAI Embeddings''),
     (js ''/v1/images/generations'', js ''OpenAI Image Generations''),
     (js ''/v1/images/edits'', js ''OpenAI Image Edits''),
     (js ''/v1/completions'', js ''OpenAI Completions''),
     (js ''/v1/audio/speech'', js ''OpenAI Audio Speech''),
     (js ''/v1/audio/transcriptions'', js ''OpenAI Audio Transcriptions''),
     (js ''/v1/audio/translations'', js ''OpenAI Audio Translations''),
     (js ''/v1/rerank'', js ''Rerank''),
     (js ''/v1/realtime'', js ''OpenAI Realtime''),
     (js ''/v1/messages'', js ''Claude Messages''),
     (js ''/v1beta/models/{model}:generateContent'', js ''Gemini Generate Content''),
     (js ''/v1beta/models/{model}:embedContent'', js ''Gemini Embed Content''),
     (js ''/v1beta/models/{model}:batchEmbedContents'', js ''Gemini Batch Embed Contents'')]"

definition ADVANCED_CUSTOM_ROUTE_SUMMARY_LABELS :: "(jsstr \<times> jsstr) list" where
  "ADVANCED_CUSTOM_ROUTE_SUMMARY_LABELS =
    [(js ''/v1/chat/completions'', js ''OpenAI Chat''),
     (ADVANCED_CUSTOM_MODEL_LIST_PATH, ADVANCED_CUSTOM_MODEL_LIST_LABEL),
     (ADVANCED_CUSTOM_BALANCE_PATH, ADVANCED_CUSTOM_BALANCE_LABEL)]"

definition ADVANCED_CUSTOM_MODEL_REGEX_PREFIX :: jsstr where
  "ADVANCED_CUSTOM_MODEL_REGEX_PREFIX = js ''re:''"

definition openAIChatPath :: jsstr where
  "openAIChatPath = js ''/v1/chat/completions''"

definition openAIResponsesPath :: jsstr where
  "openAIResponsesPath = js ''/v1/responses''"

definition claudeMessagesPath :: jsstr where
  "claudeMessagesPath = js ''/v1/messages''"

definition geminiGenerateContentPath :: jsstr where
  "geminiGenerateContentPath = js ''/v1beta/models/{model}:generateContent''"

definition route_auth :: "string \<Rightarrow> string \<Rightarrow> string \<Rightarrow> jsval" where
  "route_auth t n v = JObj [(js ''type'', JStr (js t)), (js ''name'', JStr (js n)), (js ''value'', JStr (js v))]"

definition bearerHeaderAuth :: jsval where
  "bearerHeaderAuth = route_auth ''header'' ''Authorization'' ''Bearer {api_key}''"

definition apiKeyHeaderAuth :: jsval where
  "apiKeyHeaderAuth = route_auth ''header'' ''x-api-key'' ''{api_key}''"

definition geminiQueryAuth :: jsval where
  "geminiQueryAuth = route_auth ''query'' ''key'' ''{api_key}''"

section \<open>Templates\<close>

definition native_route :: "jsval \<Rightarrow> string \<Rightarrow> jsval" where
  "native_route auth path =
     JObj [(js ''incoming_path'', JStr (js path)), (js ''upstream_path'', JStr (js path)),
       (js ''converter'', JStr (js ''none'')), (js ''auth'', auth)]"

definition createOpenAINativeRoutes :: "jsval list" where
  "createOpenAINativeRoutes = map (native_route bearerHeaderAuth)
    [''/v1/chat/completions'', ''/v1/completions'', ''/v1/responses'', ''/v1/responses/compact'',
     ''/v1/embeddings'', ''/v1/images/generations'', ''/v1/images/edits'', ''/v1/audio/speech'',
     ''/v1/audio/transcriptions'', ''/v1/audio/translations'', ''/v1/realtime'']"

definition createClaudeNativeRoutes :: "jsval list" where
  "createClaudeNativeRoutes = [native_route apiKeyHeaderAuth ''/v1/messages'']"

definition createGeminiNativeRoutes :: "jsval list" where
  "createGeminiNativeRoutes = map (native_route geminiQueryAuth)
    [''/v1beta/models/{model}:generateContent'', ''/v1beta/models/{model}:embedContent'',
     ''/v1beta/models/{model}:batchEmbedContents'']"

definition createGatewayNativeRoutes :: "jsval list" where
  "createGatewayNativeRoutes = map (native_route bearerHeaderAuth) [''/v1/alpha/search'', ''/v1/rerank'']"

definition routes_config :: "jsval list \<Rightarrow> jsval" where
  "routes_config routes = JObj [(js ''advanced_routes'', JArr routes)]"

record template_option =
  tp_value :: jsstr
  tp_label :: jsstr
  tp_config :: jsval

definition ADVANCED_CUSTOM_TEMPLATE_OPTIONS :: "template_option list" where
  "ADVANCED_CUSTOM_TEMPLATE_OPTIONS =
    [\<lparr>tp_value = js ''all_protocols'', tp_label = js ''All routes'',
      tp_config = routes_config (createOpenAINativeRoutes @ createClaudeNativeRoutes @ createGeminiNativeRoutes
        @ createGatewayNativeRoutes)\<rparr>,
     \<lparr>tp_value = js ''openai_only'', tp_label = js ''OpenAI only'',
      tp_config = routes_config createOpenAINativeRoutes\<rparr>,
     \<lparr>tp_value = js ''claude_only'', tp_label = js ''Claude only'',
      tp_config = routes_config createClaudeNativeRoutes\<rparr>,
     \<lparr>tp_value = js ''gemini_only'', tp_label = js ''Gemini only'',
      tp_config = routes_config createGeminiNativeRoutes\<rparr>]"

definition cloneAdvancedCustomConfig :: "jsval \<Rightarrow> jsval" where
  "cloneAdvancedCustomConfig config = config"

definition getAdvancedCustomTemplateConfig :: "jsstr \<Rightarrow> jsval" where
  "getAdvancedCustomTemplateConfig templateKey =
     (case find (\<lambda>opt. tp_value opt = templateKey) ADVANCED_CUSTOM_TEMPLATE_OPTIONS of
        Some opt \<Rightarrow> cloneAdvancedCustomConfig (tp_config opt)
      | None \<Rightarrow> cloneAdvancedCustomConfig (tp_config (hd ADVANCED_CUSTOM_TEMPLATE_OPTIONS)))"

definition isAdvancedCustomManagementPath :: "jsstr \<Rightarrow> bool" where
  "isAdvancedCustomManagementPath path \<longleftrightarrow>
     path = ADVANCED_CUSTOM_MODEL_LIST_PATH \<or> path = ADVANCED_CUSTOM_BALANCE_PATH"

section \<open>Normalisation\<close>

definition getAdvancedCustomRouteUpstreamPath :: "jsval \<Rightarrow> js_error + jsstr" where
  "getAdvancedCustomRouteUpstreamPath route =
     and_then (read_prop route ''upstream_path'') (\<lambda>p. js_trim (js_or p (JStr [])))"

definition normalizeAdvancedCustomRouteModels :: "jsval \<Rightarrow> js_error + jsstr list" where
  "normalizeAdvancedCustomRouteModels models =
     (case models of
        JArr ms \<Rightarrow> and_then (mapM js_trim ms) (\<lambda>ts. Inr (filter (\<lambda>t. t \<noteq> []) ts))
      | _ \<Rightarrow> Inr [])"

definition normalized_auth :: "jsval \<Rightarrow> jsval" where
  "normalized_auth auth =
     JObj [(js ''type'', get_prop auth (js ''type'')), (js ''name'', js_or (get_prop auth (js ''name'')) (JStr [])),
       (js ''value'', js_or (get_prop auth (js ''value'')) (JStr []))]"

definition normalizeAdvancedCustomRoute :: "jsval \<Rightarrow> js_error + jsval" where
  "normalizeAdvancedCustomRoute route =
     and_then (read_prop route ''incoming_path'') (\<lambda>inc.
     and_then (getAdvancedCustomRouteUpstreamPath route) (\<lambda>upstream.
     and_then (normalizeAdvancedCustomRouteModels (get_prop route (js ''models''))) (\<lambda>models.
       let auth = get_prop route (js ''auth'') in
       Inr (JObj
         ([(js ''incoming_path'', js_or inc (JStr [])), (js ''upstream_path'', JStr upstream),
           (js ''converter'', js_or (get_prop route (js ''converter'')) (JStr (js ''none'')))]
          @ (if models = [] then [] else [(js ''models'', JArr (map JStr models))])
          @ (if truthy auth then [(js ''auth'', normalized_auth auth)] else []))))))"

definition normalizeAdvancedCustomConfig :: "jsval \<Rightarrow> js_error + jsval" where
  "normalizeAdvancedCustomConfig config =
     and_then (read_prop config ''advanced_routes'') (\<lambda>routes.
       case routes of
         JArr rs \<Rightarrow> and_then (mapM normalizeAdvancedCustomRoute rs) (\<lambda>ns. Inr (routes_config ns))
       | _ \<Rightarrow> Inr (routes_config []))"

text \<open>\<open>config.advanced_routes || []\<close> of a configuration that \<^const>\<open>normalizeAdvancedCustomConfig\<close> built.\<close>

definition routes_of :: "jsval \<Rightarrow> jsval list" where
  "routes_of config = (case get_prop config (js ''advanced_routes'') of JArr rs \<Rightarrow> rs | _ \<Rightarrow> [])"

definition normalized_routes :: "jsval \<Rightarrow> js_error + jsval list" where
  "normalized_routes config =
     and_then (normalizeAdvancedCustomConfig config) (\<lambda>n. Inr (routes_of n))"

definition parseAdvancedCustomConfig :: "jsstr option \<Rightarrow> jsval option" where
  "parseAdvancedCustomConfig value =
     (case value of
        None \<Rightarrow> None
      | Some txt \<Rightarrow>
          if trim txt = [] then None
          else (case json_parse txt of
              None \<Rightarrow> None
            | Some parsed \<Rightarrow>
                if \<not> truthy parsed \<or> \<not> typeof_object parsed \<or> is_array parsed then None
                else (case normalizeAdvancedCustomConfig parsed of Inr c \<Rightarrow> Some c | Inl _ \<Rightarrow> None)))"

definition stringifyAdvancedCustomConfig :: "jsval \<Rightarrow> js_error + jsstr" where
  "stringifyAdvancedCustomConfig config =
     and_then (normalizeAdvancedCustomConfig config) (\<lambda>n. Inr (json_stringify_indented n))"

section \<open>Management and forwarding routes\<close>

text \<open>\<open>route.incoming_path?.trim()\<close>, \<open>None\<close> for \<open>undefined\<close>.\<close>

definition trimmed_path :: "jsval \<Rightarrow> js_error + jsstr option" where
  "trimmed_path route =
     and_then (read_prop route ''incoming_path'') (\<lambda>p.
       if nullish p then Inr None else and_then (js_trim p) (\<lambda>t. Inr (Some t)))"

text \<open>\<open>routes.findIndex(f)\<close> for a callback that may throw.\<close>

fun find_indexM :: "('a \<Rightarrow> 'e + bool) \<Rightarrow> 'a list \<Rightarrow> 'e + nat option" where
  "find_indexM f [] = Inr None"
| "find_indexM f (x # xs) =
     and_then (f x) (\<lambda>b. if b then Inr (Some 0) else and_then (find_indexM f xs) (\<lambda>i. Inr (map_option Suc i)))"

fun filterM :: "('a \<Rightarrow> 'e + bool) \<Rightarrow> 'a list \<Rightarrow> 'e + 'a list" where
  "filterM f [] = Inr []"
| "filterM f (x # xs) =
     and_then (f x) (\<lambda>b. and_then (filterM f xs) (\<lambda>ys. Inr (if b then x # ys else ys)))"

definition at_path :: "jsstr \<Rightarrow> jsval \<Rightarrow> js_error + bool" where
  "at_path path route = and_then (trimmed_path route) (\<lambda>p. Inr (p = Some path))"

definition at_management :: "jsval \<Rightarrow> js_error + bool" where
  "at_management route =
     and_then (trimmed_path route) (\<lambda>p.
       Inr (isAdvancedCustomManagementPath (case p of Some t \<Rightarrow> t | None \<Rightarrow> [])))"

definition getAdvancedCustomManagementRoute :: "jsval \<Rightarrow> jsstr \<Rightarrow> js_error + jsval option" where
  "getAdvancedCustomManagementRoute config path =
     and_then (normalized_routes config) (\<lambda>rs.
     and_then (find_indexM (at_path path) rs) (\<lambda>i. Inr (map_option ((!) rs) i)))"

definition management_route :: "jsstr \<Rightarrow> jsval \<Rightarrow> jsval" where
  "management_route path route =
     JObj [(js ''incoming_path'', JStr path),
       (js ''upstream_path'', js_or (get_prop route (js ''upstream_path'')) (JStr [])),
       (js ''converter'', JStr (js ''none'')), (js ''models'', JArr []), (js ''auth'', get_prop route (js ''auth''))]"

definition replaceAdvancedCustomManagementRoute :: "jsval \<Rightarrow> jsstr \<Rightarrow> jsval option \<Rightarrow> js_error + jsval" where
  "replaceAdvancedCustomManagementRoute config path route =
     and_then (normalized_routes config) (\<lambda>rs.
     and_then (find_indexM (at_path path) rs) (\<lambda>index.
       Inr (routes_config
         (case route of
            None \<Rightarrow> (case index of Some i \<Rightarrow> take i rs @ drop (Suc i) rs | None \<Rightarrow> rs)
          | Some r \<Rightarrow>
              (case index of Some i \<Rightarrow> rs[i := management_route path r] | None \<Rightarrow> rs @ [management_route path r])))))"

definition replaceAdvancedCustomForwardingRoutes :: "jsval \<Rightarrow> jsval list \<Rightarrow> js_error + jsval" where
  "replaceAdvancedCustomForwardingRoutes config forwardingRoutes =
     and_then (normalized_routes config) (\<lambda>rs.
     and_then (find_indexM (\<lambda>r. and_then (at_management r) (\<lambda>b. Inr (\<not> b))) rs) (\<lambda>first.
     and_then (filterM at_management rs) (\<lambda>managementRoutes.
       case first of
         None \<Rightarrow> Inr (routes_config (managementRoutes @ forwardingRoutes))
       | Some i \<Rightarrow>
           and_then (filterM at_management (take i rs)) (\<lambda>before.
           and_then (filterM at_management (drop i rs)) (\<lambda>after.
             Inr (routes_config (before @ forwardingRoutes @ after)))))))"

definition createAdvancedCustomRoute :: jsval where
  "createAdvancedCustomRoute =
     JObj [(js ''incoming_path'', JStr openAIChatPath), (js ''upstream_path'', JStr openAIChatPath),
       (js ''converter'', JStr (js ''none''))]"

definition createAdvancedCustomConfig :: jsval where
  "createAdvancedCustomConfig = routes_config [createAdvancedCustomRoute]"

definition createAdvancedCustomManagementRoute :: "jsstr \<Rightarrow> jsval" where
  "createAdvancedCustomManagementRoute path =
     JObj [(js ''incoming_path'', JStr path), (js ''upstream_path'', JStr path),
       (js ''converter'', JStr (js ''none'')), (js ''models'', JArr [])]"

section \<open>Converters\<close>

definition isAdvancedCustomConverter :: "jsval \<Rightarrow> bool" where
  "isAdvancedCustomConverter v \<longleftrightarrow> list_ex (\<lambda>opt. JStr (co_value opt) = v) ADVANCED_CUSTOM_CONVERTER_OPTIONS"

definition isConverterPathAllowed :: "jsstr \<Rightarrow> jsstr \<Rightarrow> bool" where
  "isConverterPathAllowed incomingPath converter =
     (if converter = js ''none'' then True
      else if incomingPath = js ''/v1/alpha/search'' then False
      else if converter = js ''anthropic_messages_to_openai_chat_completions'' then incomingPath = js ''/v1/messages''
      else if converter = js ''openai_chat_completions_to_anthropic_messages''
        \<or> converter = js ''openai_chat_completions_to_openai_responses''
        \<or> converter = js ''openai_chat_completions_to_gemini_generate_content''
      then incomingPath = js ''/v1/chat/completions''
      else if converter = js ''openai_responses_to_openai_chat_completions'' then incomingPath = js ''/v1/responses''
      else if converter = js ''openai_responses_to_gemini_generate_content'' then incomingPath = js ''/v1/responses''
      else str_includes (js '':generateContent'') incomingPath \<or> str_includes (js '':streamGenerateContent'') incomingPath)"

definition getAdvancedCustomIncomingPathOptions :: "jsstr \<Rightarrow> (jsstr \<times> jsstr) list" where
  "getAdvancedCustomIncomingPathOptions converter =
     filter (\<lambda>opt. isConverterPathAllowed (fst opt) converter) ADVANCED_CUSTOM_INCOMING_PATH_OPTIONS"

definition getDefaultAdvancedCustomIncomingPath :: "jsstr \<Rightarrow> jsstr" where
  "getDefaultAdvancedCustomIncomingPath converter =
     (case getAdvancedCustomIncomingPathOptions converter of
        (v, l) # _ \<Rightarrow> if v = [] then js ''/v1/chat/completions'' else v
      | [] \<Rightarrow> js ''/v1/chat/completions'')"

definition isAdvancedCustomIncomingPathAllowed :: "jsstr \<Rightarrow> jsstr \<Rightarrow> bool" where
  "isAdvancedCustomIncomingPathAllowed incomingPath converter = isConverterPathAllowed incomingPath converter"

definition getAdvancedCustomConverterOptions :: "jsstr \<Rightarrow> converter_option list" where
  "getAdvancedCustomConverterOptions incomingPath =
     filter (\<lambda>opt. co_value opt = js ''none'' \<or> isConverterPathAllowed (trim incomingPath) (co_value opt))
       ADVANCED_CUSTOM_CONVERTER_OPTIONS"

definition getAdvancedCustomIncomingPathLabel :: "jsstr \<Rightarrow> jsstr" where
  "getAdvancedCustomIncomingPathLabel v =
     (case map_of ADVANCED_CUSTOM_INCOMING_PATH_OPTIONS v of Some l \<Rightarrow> if l = [] then v else l | None \<Rightarrow> v)"

definition getAdvancedCustomNativeAuth :: "jsstr \<Rightarrow> jsval" where
  "getAdvancedCustomNativeAuth incomingPath =
     (if incomingPath = claudeMessagesPath then apiKeyHeaderAuth
      else if str_includes (js '':generateContent'') incomingPath
        \<or> str_includes (js '':streamGenerateContent'') incomingPath
        \<or> str_includes (js '':embedContent'') incomingPath
        \<or> str_includes (js '':batchEmbedContents'') incomingPath
      then geminiQueryAuth
      else bearerHeaderAuth)"

record converter_defaults =
  cd_upstream_path :: jsstr
  cd_auth :: jsval

definition getAdvancedCustomConverterDefaults :: "jsstr \<Rightarrow> jsstr \<Rightarrow> converter_defaults" where
  "getAdvancedCustomConverterDefaults converter incomingPath =
     (let normalized = (if trim incomingPath = [] then getDefaultAdvancedCustomIncomingPath converter
                        else trim incomingPath) in
      if converter = js ''none'' then
        \<lparr>cd_upstream_path = normalized, cd_auth = getAdvancedCustomNativeAuth normalized\<rparr>
      else if converter = js ''anthropic_messages_to_openai_chat_completions''
        \<or> converter = js ''gemini_generate_content_to_openai_chat_completions''
        \<or> converter = js ''openai_responses_to_openai_chat_completions''
      then \<lparr>cd_upstream_path = openAIChatPath, cd_auth = bearerHeaderAuth\<rparr>
      else if converter = js ''openai_chat_completions_to_openai_responses''
      then \<lparr>cd_upstream_path = openAIResponsesPath, cd_auth = bearerHeaderAuth\<rparr>
      else if converter = js ''openai_chat_completions_to_anthropic_messages''
      then \<lparr>cd_upstream_path = claudeMessagesPath, cd_auth = apiKeyHeaderAuth\<rparr>
      else if converter = js ''openai_chat_completions_to_gemini_generate_content''
        \<or> converter = js ''openai_responses_to_gemini_generate_content''
      then \<lparr>cd_upstream_path = geminiGenerateContentPath, cd_auth = geminiQueryAuth\<rparr>
      else \<lparr>cd_upstream_path = (if normalized = [] then openAIChatPath else normalized),
            cd_auth = getAdvancedCustomNativeAuth normalized\<rparr>)"

definition getAdvancedCustomUpstreamPathPlaceholder :: "jsstr \<Rightarrow> jsstr option \<Rightarrow> jsstr" where
  "getAdvancedCustomUpstreamPathPlaceholder converter incomingPath =
     cd_upstream_path (getAdvancedCustomConverterDefaults converter
       (case incomingPath of Some p \<Rightarrow> p | None \<Rightarrow> getDefaultAdvancedCustomIncomingPath converter))"

definition parseAdvancedCustomRouteModels :: "jsstr \<Rightarrow> jsstr list" where
  "parseAdvancedCustomRouteModels v = uniq (filter (\<lambda>m. m \<noteq> []) (map trim (split_on (ch (CHR '','')) v)))"

datatype model_rule_kind = ExactRule | RegexRule

definition getAdvancedCustomModelRuleKind :: "jsstr \<Rightarrow> model_rule_kind" where
  "getAdvancedCustomModelRuleKind modelRule =
     (if starts_with ADVANCED_CUSTOM_MODEL_REGEX_PREFIX modelRule then RegexRule else ExactRule)"

definition getAdvancedCustomRegexModelPattern :: "jsstr \<Rightarrow> jsstr" where
  "getAdvancedCustomRegexModelPattern modelRule = drop (length ADVANCED_CUSTOM_MODEL_REGEX_PREFIX) modelRule"

section \<open>Authentication of a route\<close>

definition getAdvancedCustomAuthMode :: "jsval \<Rightarrow> jsval" where
  "getAdvancedCustomAuthMode route =
     js_or (get_prop (get_prop route (js ''auth'')) (js ''type'')) (JStr (js ''default''))"

definition named_auth :: "string \<Rightarrow> jsval \<Rightarrow> string \<Rightarrow> string \<Rightarrow> jsval" where
  "named_auth t previousAuth n v =
     JObj [(js ''type'', JStr (js t)), (js ''name'', js_or (get_prop previousAuth (js ''name'')) (JStr (js n))),
       (js ''value'', js_or (get_prop previousAuth (js ''value'')) (JStr (js v)))]"

definition buildAdvancedCustomAuth :: "jsstr \<Rightarrow> jsval \<Rightarrow> jsval" where
  "buildAdvancedCustomAuth mode previousAuth =
     (if mode = js ''default'' then JUndef
      else if mode = js ''none'' then JObj [(js ''type'', JStr (js ''none''))]
      else if mode = js ''header'' then named_auth ''header'' previousAuth ''Authorization'' ''Bearer {api_key}''
      else named_auth ''query'' previousAuth ''api_key'' ''{api_key}'')"

definition validateRouteAuth :: "jsval \<Rightarrow> js_error + jsstr option" where
  "validateRouteAuth auth =
     (if \<not> truthy auth then Inr None
      else
        (let t = get_prop auth (js ''type'') in
         if t = JStr (js ''none'') then Inr None
         else if t \<noteq> JStr (js ''header'') \<and> t \<noteq> JStr (js ''query'') then Inr (Some (js ''Auth type is invalid''))
         else
           and_then (opt_trim (get_prop auth (js ''name''))) (\<lambda>n.
             if n = [] then Inr (Some (js ''Auth name is required''))
             else and_then (opt_trim (get_prop auth (js ''value''))) (\<lambda>v.
               Inr (if v = [] then Some (js ''Auth value is required'') else None)))))"

section \<open>Validation\<close>

type_synonym url_reader = "jsstr \<Rightarrow> (jsstr \<times> jsstr) option"

definition isFullHttpURLOrAbsolutePath :: "url_reader \<Rightarrow> jsstr \<Rightarrow> bool" where
  "isFullHttpURLOrAbsolutePath url v =
     (if starts_with (js ''/'') v then \<not> starts_with (js ''//'') v
      else (case url v of
          Some (protocol, host) \<Rightarrow> host \<noteq> [] \<and> (protocol = js ''http:'' \<or> protocol = js ''https:'')
        | None \<Rightarrow> False))"

record validation_error =
  ve_message :: jsstr
  ve_routeIndex :: "nat option"

definition route_error :: "nat \<Rightarrow> jsstr \<Rightarrow> validation_error" where
  "route_error index message = \<lparr>ve_message = message, ve_routeIndex = Some index\<rparr>"

record path_state =
  ps_catchAllIndex :: "nat option"
  ps_models :: "(jsstr \<times> nat) list"

text \<open>The loop over the models of a route; \<open>models\<close> of the state is updated as it runs.\<close>

fun route_models_loop ::
  "nat \<Rightarrow> jsstr list \<Rightarrow> jsstr list \<Rightarrow> (jsstr \<times> nat) list \<Rightarrow> jsstr option \<times> (jsstr \<times> nat) list" where
  "route_models_loop index seen [] taken = (None, taken)"
| "route_models_loop index seen (m # ms) taken =
     (if getAdvancedCustomModelRuleKind m = RegexRule \<and> getAdvancedCustomRegexModelPattern m = []
      then (Some (js ''Model regex cannot be empty''), taken)
      else if m \<in> set seen then (Some (js ''Duplicate model in route models''), taken)
      else if m \<in> fst ` set taken then (Some (js ''Route models must be unique for the same incoming path''), taken)
      else route_models_loop index (m # seen) ms (map_set m index taken))"

definition validateAdvancedCustomRouteModels ::
  "nat \<Rightarrow> jsstr \<Rightarrow> jsstr list \<Rightarrow> (jsstr \<times> path_state) list \<Rightarrow> jsstr option \<times> (jsstr \<times> path_state) list" where
  "validateAdvancedCustomRouteModels routeIndex incomingPath models byPath =
     (let state = (case map_of byPath incomingPath of
                     Some st \<Rightarrow> st | None \<Rightarrow> \<lparr>ps_catchAllIndex = None, ps_models = []\<rparr>);
          byPath1 = map_set incomingPath state byPath in
      if models = [] then
        (if ps_catchAllIndex state \<noteq> None
         then (Some (js ''Only one catch-all route is allowed for the same incoming path''), byPath1)
         else (None, map_set incomingPath (state\<lparr>ps_catchAllIndex := Some routeIndex\<rparr>) byPath1))
      else if ps_catchAllIndex state \<noteq> None
      then (Some (js ''Catch-all route must be last for the same incoming path''), byPath1)
      else
        (let (err, taken) = route_models_loop routeIndex [] models (ps_models state) in
         (err, map_set incomingPath (state\<lparr>ps_models := taken\<rparr>) byPath1)))"

record validation_state =
  vs_byPath :: "(jsstr \<times> path_state) list"
  vs_modelListRouteIndex :: "nat option"
  vs_balanceRouteIndex :: "nat option"

text \<open>The checks of a management route, and the state with its index set.\<close>

definition check_management ::
  "nat \<Rightarrow> jsstr \<Rightarrow> jsstr \<Rightarrow> jsval \<Rightarrow> jsstr list \<Rightarrow> validation_state \<Rightarrow> jsstr option \<times> validation_state" where
  "check_management index incomingPath upstreamPath converter models st =
     (let isModelList = (incomingPath = ADVANCED_CUSTOM_MODEL_LIST_PATH);
          existing = (if isModelList then vs_modelListRouteIndex st else vs_balanceRouteIndex st);
          lbl = (if isModelList then js ''OpenAI Models'' else js ''Balance Query'') in
      if existing \<noteq> None then (Some (js ''Only one '' @ lbl @ js '' route is allowed''), st)
      else
        (let st1 = (if isModelList then st\<lparr>vs_modelListRouteIndex := Some index\<rparr>
                    else st\<lparr>vs_balanceRouteIndex := Some index\<rparr>) in
         if models \<noteq> [] then (Some (lbl @ js '' route does not support client model rules''), st1)
         else if converter \<noteq> JStr (js ''none'') then (Some (lbl @ js '' route must use native forwarding''), st1)
         else if str_includes (js ''{model}'') upstreamPath
         then (Some (lbl @ js '' upstream path must not contain {model}''), st1)
         else (None, st1)))"

definition check_upstream :: "url_reader \<Rightarrow> jsstr \<Rightarrow> jsstr \<Rightarrow> jsval \<Rightarrow> jsstr option" where
  "check_upstream url incomingPath upstreamPath converter =
     (if upstreamPath = [] then Some (js ''Upstream path is required'')
      else if \<not> isFullHttpURLOrAbsolutePath url upstreamPath
      then Some (js ''Upstream path must be a full URL or a path starting with /'')
      else if \<not> isAdvancedCustomConverter converter then Some (js ''Converter is not registered'')
      else if \<not> isConverterPathAllowed incomingPath (case converter of JStr c \<Rightarrow> c | _ \<Rightarrow> [])
      then Some (js ''Converter does not match incoming path'')
      else None)"

definition check_incoming :: "jsstr \<Rightarrow> jsstr option" where
  "check_incoming incomingPath =
     (if incomingPath = [] then Some (js ''Incoming path is required'')
      else if \<not> starts_with (js ''/'') incomingPath then Some (js ''Incoming path must start with /'')
      else if str_includes (js ''?'') incomingPath then Some (js ''Incoming path must not include query'')
      else None)"

text \<open>The body of the loop over the routes: the message of the error it returns, and the new state.\<close>

definition check_route ::
  "url_reader \<Rightarrow> nat \<Rightarrow> jsval \<Rightarrow> validation_state \<Rightarrow> js_error + jsstr option \<times> validation_state" where
  "check_route url index route st =
     and_then (and_then (read_prop route ''incoming_path'') opt_trim) (\<lambda>incomingPath.
     and_then (getAdvancedCustomRouteUpstreamPath route) (\<lambda>upstreamPath.
       let converter = js_or (get_prop route (js ''converter'')) (JStr (js ''none'')) in
     and_then (normalizeAdvancedCustomRouteModels (get_prop route (js ''models''))) (\<lambda>models.
       case check_incoming incomingPath of Some e \<Rightarrow> Inr (Some e, st)
       | None \<Rightarrow>
           (let (err1, st1) = (if isAdvancedCustomManagementPath incomingPath
                               then check_management index incomingPath upstreamPath converter models st
                               else (None, st)) in
            if err1 \<noteq> None then Inr (err1, st1)
            else
              (let (err2, byPath) = validateAdvancedCustomRouteModels index incomingPath models (vs_byPath st1);
                   st2 = st1\<lparr>vs_byPath := byPath\<rparr> in
               if err2 \<noteq> None then Inr (err2, st2)
               else (case check_upstream url incomingPath upstreamPath converter of
                   Some e \<Rightarrow> Inr (Some e, st2)
                 | None \<Rightarrow> and_then (validateRouteAuth (get_prop route (js ''auth''))) (\<lambda>err. Inr (err, st2))))))))"

fun routes_loop ::
  "url_reader \<Rightarrow> nat \<Rightarrow> jsval list \<Rightarrow> validation_state \<Rightarrow> js_error + validation_error option" where
  "routes_loop url index [] st = Inr None"
| "routes_loop url index (route # routes) st =
     and_then (check_route url index route st) (\<lambda>(err, st').
       case err of
         Some message \<Rightarrow> Inr (Some (route_error index message))
       | None \<Rightarrow> routes_loop url (Suc index) routes st')"

definition validateAdvancedCustomConfig :: "url_reader \<Rightarrow> jsval option \<Rightarrow> js_error + validation_error option" where
  "validateAdvancedCustomConfig url config =
     (case config of
        None \<Rightarrow> Inr (Some \<lparr>ve_message = js ''Advanced custom configuration is required'', ve_routeIndex = None\<rparr>)
      | Some c \<Rightarrow>
          and_then (normalized_routes c) (\<lambda>routes.
            if routes = [] then
              Inr (Some \<lparr>ve_message = js ''Advanced custom configuration requires at least one route'',
                ve_routeIndex = None\<rparr>)
            else routes_loop url 0 routes
              \<lparr>vs_byPath = [], vs_modelListRouteIndex = None, vs_balanceRouteIndex = None\<rparr>))"

fun existsM :: "('a \<Rightarrow> 'e + bool) \<Rightarrow> 'a list \<Rightarrow> 'e + bool" where
  "existsM f [] = Inr False"
| "existsM f (x # xs) = and_then (f x) (\<lambda>b. if b then Inr True else existsM f xs)"

definition hasValidAdvancedCustomModelListRoute :: "url_reader \<Rightarrow> jsval option \<Rightarrow> js_error + bool" where
  "hasValidAdvancedCustomModelListRoute url config =
     (case config of
        None \<Rightarrow> Inr False
      | Some c \<Rightarrow>
          and_then (validateAdvancedCustomConfig url config) (\<lambda>err.
            if err \<noteq> None then Inr False
            else and_then (normalized_routes c) (existsM (at_path ADVANCED_CUSTOM_MODEL_LIST_PATH))))"

definition advancedCustomConfigUsesRelativeUpstreamPath :: "jsval option \<Rightarrow> js_error + bool" where
  "advancedCustomConfigUsesRelativeUpstreamPath config =
     (case config of
        None \<Rightarrow> Inr False
      | Some c \<Rightarrow>
          and_then (normalized_routes c) (existsM (\<lambda>route.
            and_then (getAdvancedCustomRouteUpstreamPath route) (\<lambda>p. Inr (starts_with (js ''/'') p)))))"

text \<open>
  The table of summary labels is a plain object, so that a path which names an inherited property
  reads a function.
\<close>

datatype summary_label = LabelText jsstr | InheritedMember jsstr

definition getAdvancedCustomRouteSummaryLabel :: "jsval \<Rightarrow> js_error + summary_label option" where
  "getAdvancedCustomRouteSummaryLabel route =
     and_then (trimmed_path route) (\<lambda>p.
       let incomingPath = (case p of Some t \<Rightarrow> t | None \<Rightarrow> []) in
       if incomingPath = [] then Inr None
       else Inr (Some (case map_of ADVANCED_CUSTOM_ROUTE_SUMMARY_LABELS incomingPath of
           Some l \<Rightarrow> LabelText l
         | None \<Rightarrow>
             if incomingPath \<in> set inherited_properties then InheritedMember incomingPath
             else LabelText (getAdvancedCustomIncomingPathLabel incomingPath))))"

record custom_stats =
  cs_routeCount :: nat
  cs_valid :: bool
  cs_routeTypeLabels :: "summary_label list"

definition getAdvancedCustomStats :: "url_reader \<Rightarrow> jsstr option \<Rightarrow> js_error + custom_stats" where
  "getAdvancedCustomStats url v =
     (case parseAdvancedCustomConfig v of
        None \<Rightarrow> Inr \<lparr>cs_routeCount = 0, cs_valid = False, cs_routeTypeLabels = []\<rparr>
      | Some config \<Rightarrow>
          and_then (normalizeAdvancedCustomConfig config) (\<lambda>n.
          and_then (mapM getAdvancedCustomRouteSummaryLabel (routes_of n)) (\<lambda>labels.
          and_then (validateAdvancedCustomConfig url (Some n)) (\<lambda>err.
            Inr \<lparr>cs_routeCount = length (routes_of n), cs_valid = (err = None),
              cs_routeTypeLabels = uniq (List.map_filter id labels)\<rparr>))))"

text \<open>The route the editor makes of a converter and a path: the defaults fill in the rest.\<close>

definition offered_route :: "jsstr \<Rightarrow> jsstr \<Rightarrow> jsval" where
  "offered_route converter path =
     (let d = getAdvancedCustomConverterDefaults converter path in
      JObj [(js ''incoming_path'', JStr path), (js ''upstream_path'', JStr (cd_upstream_path d)),
        (js ''converter'', JStr converter), (js ''auth'', cd_auth d)])"

end
