(* ===== verification/ChannelForm.thy ===== *)
theory ChannelForm
  imports AdvancedCustom
begin

text \<open>
  \<open>features/channels/lib/channel-form.ts\<close>: the form of a channel.  Its values, the channel records of the
  server and the JSON texts inside them are objects whose fields nothing has checked where the code
  reads them, so that conversions and method calls that can throw a \<open>TypeError\<close> do.  The schema library
  is not modelled: the predicates of the fields and the callback of \<open>superRefine\<close> are.  \<open>new URL\<close> is a
  parameter: \<open>url\<close> gives protocol and host, \<open>proxy_url\<close> protocol, host name and port.
\<close>

section \<open>Conversions\<close>

text \<open>\<open>Number(v)\<close>, and the comparisons \<open>v < n\<close> and \<open>v > n\<close> with a number.\<close>

definition js_number :: "jsval \<Rightarrow> js_error + jsnum" where
  "js_number v =
     (case v of
        JUndef \<Rightarrow> Inr NaN
      | JNull \<Rightarrow> Inr (Fin 0)
      | JBool b \<Rightarrow> Inr (if b then Fin 1 else Fin 0)
      | JNum x \<Rightarrow> Inr x
      | JStr s \<Rightarrow> Inr (number_of_string s)
      | _ \<Rightarrow> and_then (js_string v) (\<lambda>s. Inr (number_of_string s)))"

definition js_less :: "jsval \<Rightarrow> jsnum \<Rightarrow> js_error + bool" where
  "js_less v n = and_then (js_number v) (\<lambda>x. Inr (num_lt x n))"

definition js_greater :: "jsval \<Rightarrow> jsnum \<Rightarrow> js_error + bool" where
  "js_greater v n = and_then (js_number v) (\<lambda>x. Inr (num_lt n x))"

text \<open>\<open>toLowerCase\<close> on the letters of ASCII: the texts it is compared with consist of them, and no other
  character becomes one of these letters.\<close>

definition lower_ascii :: "jsstr \<Rightarrow> jsstr" where
  "lower_ascii s = map (\<lambda>c. if is_upper c then c + 32 else c) s"

definition fld :: "jsval \<Rightarrow> string \<Rightarrow> jsval" where
  "fld v k = get_prop v (js k)"

definition type_in :: "jsval \<Rightarrow> nat list \<Rightarrow> bool" where
  "type_in v types \<longleftrightarrow> list_ex (\<lambda>n. v = JNum (Fin (of_nat n))) types"

section \<open>Constants\<close>

definition CHANNEL_TYPE_NEW_API :: nat where
  "CHANNEL_TYPE_NEW_API = 60"

definition CHANNEL_TYPE_ADVANCED_CUSTOM :: nat where
  "CHANNEL_TYPE_ADVANCED_CUSTOM = 58"

definition MODEL_FETCHABLE_TYPES :: "nat list" where
  "MODEL_FETCHABLE_TYPES =
     [1, 4, 14, 17, 20, 23, 24, 25, 26, 27, 31, 34, 35, 40, 42, 43, 47, 48, 57, 58, 59, 60]"

definition FIELD_PASSTHROUGH_TYPES :: "nat list" where
  "FIELD_PASSTHROUGH_TYPES = [1, 14, 57, 58, 59, CHANNEL_TYPE_NEW_API]"

definition OPENAI_FIELD_PASSTHROUGH_TYPES :: "nat list" where
  "OPENAI_FIELD_PASSTHROUGH_TYPES = [1, 57, 58, 59, CHANNEL_TYPE_NEW_API]"

definition CLAUDE_FIELD_PASSTHROUGH_TYPES :: "nat list" where
  "CLAUDE_FIELD_PASSTHROUGH_TYPES = [14, 58, 59, CHANNEL_TYPE_NEW_API]"

definition SUPPORTED_PROXY_PROTOCOLS :: "jsstr list" where
  "SUPPORTED_PROXY_PROTOCOLS = [js ''http:'', js ''https:'', js ''socks5:'', js ''socks5h:'']"

definition HTTP_PROTOCOL_AUTO :: jsstr where
  "HTTP_PROTOCOL_AUTO = js ''auto''"

definition HTTP_PROTOCOL_HTTP1 :: jsstr where
  "HTTP_PROTOCOL_HTTP1 = js ''http1''"

definition MAX_HTTP2_CONNECTION_SHARDS :: jsnum where
  "MAX_HTTP2_CONNECTION_SHARDS = Fin 8"

definition isChannelProtocol :: "jsval \<Rightarrow> bool" where
  "isChannelProtocol v \<longleftrightarrow>
     v = JStr (js ''openai-chat'') \<or> v = JStr (js ''openai-responses'') \<or> v = JStr (js ''anthropic'')
     \<or> v = JStr (js ''gemini'')"

section \<open>Checks of the fields\<close>

type_synonym proxy_reader = "jsstr \<Rightarrow> (jsstr \<times> jsstr \<times> jsstr) option"

definition isOptionalProxyURL :: "proxy_reader \<Rightarrow> jsstr option \<Rightarrow> bool" where
  "isOptionalProxyURL proxy_url v =
     (let trimmedValue = (case v of Some s \<Rightarrow> trim s | None \<Rightarrow> []) in
      if trimmedValue = [] then True
      else (case index_of (js ''://'') trimmedValue of
          None \<Rightarrow> False
        | Some i \<Rightarrow>
            if i = 0 then False
            else
              (let authorityAndSuffix = drop (i + 3) trimmedValue in
               if (case find_index (\<lambda>c. c \<in> set (js ''/?#'')) authorityAndSuffix of
                     Some j \<Rightarrow> drop j authorityAndSuffix \<noteq> js ''/''
                   | None \<Rightarrow> False)
               then False
               else (case proxy_url trimmedValue of
                   Some (protocol, hostname, port) \<Rightarrow>
                     protocol \<in> set SUPPORTED_PROXY_PROTOCOLS \<and> hostname \<noteq> [] \<and> port \<noteq> js ''0''
                 | None \<Rightarrow> False))))"

definition normalizeHttpProtocol :: "jsval \<Rightarrow> js_error + jsstr" where
  "normalizeHttpProtocol v =
     and_then (js_string (js_or v (JStr []))) (\<lambda>s.
       Inr (if lower_ascii (trim s) = HTTP_PROTOCOL_HTTP1 then HTTP_PROTOCOL_HTTP1 else HTTP_PROTOCOL_AUTO))"

definition normalizeHttp2ConnectionShards :: "jsval \<Rightarrow> js_error + jsval" where
  "normalizeHttp2ConnectionShards v =
     (if nullish v \<or> v = JNum NaN \<or> strict_eq v (JNum (Fin 0)) then Inr (JNum (Fin 1))
      else and_then (js_less v (Fin 1)) (\<lambda>below.
        if below then Inr (JNum (Fin 1))
        else and_then (js_greater v MAX_HTTP2_CONNECTION_SHARDS) (\<lambda>above.
          Inr (if above then JNum MAX_HTTP2_CONNECTION_SHARDS else v))))"

text \<open>\<open>None\<close> when \<open>JSON.parse\<close> throws.\<close>

definition parseOptionalJson :: "jsstr option \<Rightarrow> jsval option" where
  "parseOptionalJson v =
     (case v of None \<Rightarrow> Some JUndef | Some s \<Rightarrow> if trim s = [] then Some JUndef else json_parse s)"

definition isJsonObjectValue :: "jsval \<Rightarrow> bool" where
  "isJsonObjectValue v \<longleftrightarrow> typeof_object v \<and> v \<noteq> JNull \<and> \<not> is_array v"

definition object_entries :: "jsval \<Rightarrow> (jsstr \<times> jsval) list" where
  "object_entries v = (case v of JObj es \<Rightarrow> es | _ \<Rightarrow> [])"

definition isOptionalJsonObject :: "jsstr option \<Rightarrow> bool" where
  "isOptionalJsonObject v =
     (case parseOptionalJson v of Some p \<Rightarrow> p = JUndef \<or> isJsonObjectValue p | None \<Rightarrow> False)"

definition isOptionalModelMapping :: "jsstr option \<Rightarrow> bool" where
  "isOptionalModelMapping v =
     (case parseOptionalJson v of
        Some p \<Rightarrow>
          if p = JUndef then True
          else if \<not> isJsonObjectValue p then False
          else list_all (\<lambda>(k, item). is_string item) (object_entries p)
      | None \<Rightarrow> False)"

definition valid_code :: "jsnum \<Rightarrow> bool" where
  "valid_code x \<longleftrightarrow> is_integer x \<and> num_le (Fin 100) x \<and> num_le x (Fin 599)"

definition isOptionalStatusCodeMapping :: "jsstr option \<Rightarrow> bool" where
  "isOptionalStatusCodeMapping v =
     (case parseOptionalJson v of
        Some p \<Rightarrow>
          if p = JUndef then True
          else if \<not> isJsonObjectValue p then False
          else list_all (\<lambda>(from_code, to_code).
              case js_number to_code of
                Inr n \<Rightarrow> valid_code (number_of_string from_code) \<and> valid_code n
              | Inl _ \<Rightarrow> False) (object_entries p)
      | None \<Rightarrow> False)"

definition nonblank_text :: "jsval \<Rightarrow> bool" where
  "nonblank_text v = (case v of JStr s \<Rightarrow> trim s \<noteq> [] | _ \<Rightarrow> False)"

definition isCodexCredential :: "jsstr option \<Rightarrow> bool" where
  "isCodexCredential v =
     (case parseOptionalJson v of
        Some p \<Rightarrow>
          p = JUndef
          \<or> isJsonObjectValue p \<and> nonblank_text (fld p ''access_token'') \<and> nonblank_text (fld p ''account_id'')
      | None \<Rightarrow> False)"

definition isVertexJsonKey :: "jsstr option \<Rightarrow> bool" where
  "isVertexJsonKey v =
     (case parseOptionalJson v of
        Some p \<Rightarrow>
          if p = JUndef then True
          else (case p of JArr items \<Rightarrow> list_all isJsonObjectValue items | _ \<Rightarrow> isJsonObjectValue p)
      | None \<Rightarrow> False)"

text \<open>The predicates that the schema attaches to its fields, with their messages.\<close>

type_synonym refinement = "jsstr \<times> (jsstr option \<Rightarrow> bool) \<times> jsstr"

definition model_mapping_refinement :: refinement where
  "model_mapping_refinement =
     (js ''model_mapping'', isOptionalModelMapping, js ''Model mapping must be a JSON object with string values'')"

definition status_code_mapping_refinement :: refinement where
  "status_code_mapping_refinement =
     (js ''status_code_mapping'', isOptionalStatusCodeMapping,
      js ''Status code mapping must use valid HTTP status codes'')"

definition json_refinements :: "refinement list" where
  "json_refinements =
     map (\<lambda>k. (js k, isOptionalJsonObject, js ''Invalid JSON format''))
       [''setting'', ''param_override'', ''header_override'', ''settings'']"

definition proxy_refinement :: "proxy_reader \<Rightarrow> refinement" where
  "proxy_refinement proxy_url =
     (js ''proxy'', isOptionalProxyURL proxy_url,
      js ''Proxy address must use HTTP, HTTPS, SOCKS5, or SOCKS5H and include a valid host'')"

section \<open>Checks across fields\<close>

type_synonym issue = "jsstr \<times> jsstr"

definition addRequiredIssue :: "js_error + bool \<Rightarrow> string \<Rightarrow> jsstr \<Rightarrow> js_error + issue list" where
  "addRequiredIssue cond path message = and_then cond (\<lambda>b. Inr (if b then [(js path, message)] else []))"

text \<open>\<open>a && b\<close> and \<open>!v?.trim()\<close>.\<close>

definition and_also :: "bool \<Rightarrow> js_error + bool \<Rightarrow> js_error + bool" where
  "and_also a b = (if a then b else Inr False)"

definition blank :: "jsval \<Rightarrow> js_error + bool" where
  "blank v = and_then (opt_trim v) (\<lambda>t. Inr (t = []))"

definition not_blank :: "jsval \<Rightarrow> js_error + bool" where
  "not_blank v = and_then (blank v) (\<lambda>b. Inr (\<not> b))"

definition text_field :: "jsval \<Rightarrow> jsstr option" where
  "text_field v = (case v of JStr s \<Rightarrow> Some s | _ \<Rightarrow> None)"

fun concatM :: "(js_error + 'a list) list \<Rightarrow> js_error + 'a list" where
  "concatM [] = Inr []"
| "concatM (m # ms) = and_then m (\<lambda>xs. and_then (concatM ms) (\<lambda>ys. Inr (xs @ ys)))"

definition negM :: "js_error + bool \<Rightarrow> js_error + bool" where
  "negM m = and_then m (\<lambda>b. Inr (\<not> b))"

definition advanced_custom_issues :: "url_reader \<Rightarrow> jsval \<Rightarrow> js_error + issue list" where
  "advanced_custom_issues url data =
     (let config = parseAdvancedCustomConfig (text_field (fld data ''advanced_custom'')) in
      concatM
        [and_then (validateAdvancedCustomConfig url config) (\<lambda>err.
           Inr (case err of Some e \<Rightarrow> [(js ''advanced_custom'', ve_message e)] | None \<Rightarrow> [])),
         addRequiredIssue
           (and_then (advancedCustomConfigUsesRelativeUpstreamPath config) (\<lambda>rel.
              and_also rel (blank (fld data ''base_url''))))
           ''base_url'' (js ''Base URL is required when an advanced route uses an upstream path''),
         addRequiredIssue
           (and_also (fld data ''upstream_model_update_check_enabled'' = JBool True)
              (negM (hasValidAdvancedCustomModelListRoute url config)))
           ''upstream_model_update_check_enabled''
           (js ''OpenAI Models route is required to enable upstream model checks'')])"

definition several_keys :: "jsval \<Rightarrow> bool" where
  "several_keys data \<longleftrightarrow> truthy (fld data ''multi_key_mode'') \<and> fld data ''multi_key_mode'' \<noteq> JStr (js ''single'')"

definition codex_issues :: "jsval \<Rightarrow> js_error + issue list" where
  "codex_issues data =
     concatM
       [addRequiredIssue (Inr (several_keys data)) ''multi_key_mode''
          (js ''Codex channels do not support batch creation''),
        addRequiredIssue
          (and_then (not_blank (fld data ''key'')) (\<lambda>b.
             Inr (b \<and> \<not> isCodexCredential (text_field (fld data ''key'')))))
          ''key'' (js ''Codex credential must be a JSON object with access_token and account_id'')]"

definition transport_issues :: "jsval \<Rightarrow> js_error + issue list" where
  "transport_issues data =
     and_then (normalizeHttpProtocol (fld data ''http_protocol'')) (\<lambda>protocol.
       let shards = (if nullish (fld data ''http2_connection_shards'') then JNum (Fin 1)
                     else fld data ''http2_connection_shards'') in
       concatM
         [addRequiredIssue
            (and_then (js_less shards (Fin 1)) (\<lambda>below.
               if below then Inr True else js_greater shards MAX_HTTP2_CONNECTION_SHARDS))
            ''http2_connection_shards'' (js ''HTTP/2 connection shards must be between 1 and 8''),
          addRequiredIssue (and_also (protocol = HTTP_PROTOCOL_HTTP1) (js_greater shards (Fin 1)))
            ''http2_connection_shards'' (js ''HTTP/2 connection shards must be 1 when HTTP/1.1 is selected'')])"

definition form_issues :: "url_reader \<Rightarrow> jsval \<Rightarrow> js_error + issue list" where
  "form_issues url data =
     (let t = fld data ''type'' in
      concatM
        [addRequiredIssue (and_also (type_in t [3, 8, 36, 45, CHANNEL_TYPE_NEW_API]) (blank (fld data ''base_url'')))
           ''base_url'' (js ''Base URL is required for this channel type''),
         if type_in t [CHANNEL_TYPE_ADVANCED_CUSTOM] then advanced_custom_issues url data else Inr [],
         addRequiredIssue (and_also (type_in t [3, 18, 21, 39, 41, 49]) (blank (fld data ''other'')))
           ''other'' (js ''This channel type requires additional configuration''),
         if type_in t [57] then codex_issues data else Inr [],
         addRequiredIssue
           (and_also (type_in t [41] \<and> fld data ''vertex_key_type'' = JStr (js ''json''))
              (and_then (not_blank (fld data ''key'')) (\<lambda>b.
                 Inr (b \<and> \<not> isVertexJsonKey (text_field (fld data ''key''))))))
           ''key'' (js ''Vertex AI service account key must be valid JSON''),
         addRequiredIssue
           (Inr (type_in t [41] \<and> fld data ''vertex_key_type'' = JStr (js ''api_key'') \<and> several_keys data))
           ''multi_key_mode'' (js ''Vertex AI API Key mode does not support batch creation''),
         transport_issues data])"

section \<open>Default values\<close>

definition str_fields :: "(string \<times> string) list \<Rightarrow> (jsstr \<times> jsval) list" where
  "str_fields es = map (\<lambda>(k, v). (js k, JStr (js v))) es"

definition false_fields :: "string list \<Rightarrow> (jsstr \<times> jsval) list" where
  "false_fields ks = map (\<lambda>k. (js k, JBool False)) ks"

text \<open>The extra settings before the text of a channel is read.\<close>

definition default_extra_settings :: "(jsstr \<times> jsval) list" where
  "default_extra_settings =
     false_fields [''force_format'', ''thinking_to_content'']
     @ [(js ''proxy'', JStr []), (js ''http_protocol'', JStr HTTP_PROTOCOL_AUTO),
        (js ''http2_connection_shards'', JNum (Fin 1)), (js ''pass_through_body_enabled'', JBool False),
        (js ''system_prompt'', JStr []), (js ''system_prompt_override'', JBool False), (js ''pbr_prices'', JArr [])]"

definition CHANNEL_FORM_DEFAULT_VALUES :: jsval where
  "CHANNEL_FORM_DEFAULT_VALUES =
     JObj
       ([(js ''name'', JStr []), (js ''type'', JNum (Fin 1)), (js ''base_url'', JStr []), (js ''key'', JStr []),
         (js ''openai_organization'', JStr []), (js ''models'', JStr []), (js ''model_mapping'', JStr []),
         (js ''test_model'', JStr []), (js ''auto_ban'', JNum (Fin 1)), (js ''status'', JNum (Fin 1))]
        @ str_fields [(''status_code_mapping'', ''''), (''tag'', ''''), (''remark'', ''''), (''setting'', ''''),
            (''param_override'', ''''), (''header_override'', ''''), (''settings'', ''{}''), (''other'', ''''),
            (''multi_key_mode'', ''single''), (''multi_key_type'', ''random'')]
        @ [(js ''batch_add_set_key_prefix_2_name'', JBool False), (js ''key_mode'', JStr (js ''append''))]
        @ default_extra_settings
        @ [(js ''is_enterprise_account'', JBool False)]
        @ str_fields [(''vertex_key_type'', ''json''), (''aws_key_type'', ''ak_sk''), (''azure_responses_version'', '''')]
        @ false_fields [''allow_service_tier'', ''disable_store'', ''allow_safety_identifier'',
            ''allow_include_obfuscation'', ''allow_inference_geo'', ''allow_speed'', ''claude_beta_query'',
            ''upstream_model_update_check_enabled'', ''upstream_model_update_auto_sync_enabled'']
        @ str_fields [(''upstream_model_update_ignored_models'', ''''), (''advanced_custom'', '''')])"

section \<open>From a channel to the form\<close>

definition or_text :: "jsval \<Rightarrow> string \<Rightarrow> jsval" where
  "or_text v s = js_or v (JStr (js s))"

definition or_false :: "jsval \<Rightarrow> jsval" where
  "or_false v = js_or v (JBool False)"

text \<open>\<open>JSON.parse(v)\<close> inside a \<open>try\<close>: \<open>None\<close> when it throws.\<close>

definition parse_setting :: "jsval \<Rightarrow> jsval option" where
  "parse_setting v = (case js_string v of Inr s \<Rightarrow> json_parse s | Inl _ \<Rightarrow> None)"

definition read_extra_settings :: "jsval \<Rightarrow> js_error + (jsstr \<times> jsval) list" where
  "read_extra_settings parsed =
     and_then (and_then (read_prop parsed ''http_protocol'') normalizeHttpProtocol) (\<lambda>protocol.
     and_then (normalizeHttp2ConnectionShards (fld parsed ''http2_connection_shards'')) (\<lambda>shards.
       Inr
         [(js ''force_format'', or_false (fld parsed ''force_format'')),
          (js ''thinking_to_content'', or_false (fld parsed ''thinking_to_content'')),
          (js ''proxy'', or_text (fld parsed ''proxy'') ''''),
          (js ''http_protocol'', JStr protocol),
          (js ''http2_connection_shards'', if protocol = HTTP_PROTOCOL_HTTP1 then JNum (Fin 1) else shards),
          (js ''pass_through_body_enabled'', or_false (fld parsed ''pass_through_body_enabled'')),
          (js ''system_prompt'', or_text (fld parsed ''system_prompt'') ''''),
          (js ''system_prompt_override'', or_false (fld parsed ''system_prompt_override'')),
          (js ''pbr_prices'', if is_array (fld parsed ''pbr_prices'') then fld parsed ''pbr_prices'' else JArr [])]))"

definition extra_settings :: "jsval \<Rightarrow> (jsstr \<times> jsval) list" where
  "extra_settings setting =
     (if truthy setting then
        (case parse_setting setting of
           Some parsed \<Rightarrow>
             (case read_extra_settings parsed of Inr es \<Rightarrow> es | Inl _ \<Rightarrow> default_extra_settings)
         | None \<Rightarrow> default_extra_settings)
      else default_extra_settings)"

text \<open>
  The type-specific settings.  The assignments run in order, so that those before a throw keep their
  effect: the list of ignored models and the advanced configuration come last.
\<close>

definition specific_fields ::
  "jsval \<Rightarrow> jsval \<Rightarrow> jsval \<Rightarrow> jsval \<Rightarrow> jsval \<Rightarrow> (string \<Rightarrow> bool) \<Rightarrow> jsstr \<Rightarrow> jsstr \<Rightarrow> (jsstr \<times> jsval) list" where
  "specific_fields enterprise vertex azure protocol aws flag ignored advanced =
     [(js ''is_enterprise_account'', enterprise), (js ''vertex_key_type'', vertex),
      (js ''azure_responses_version'', azure), (js ''protocol'', protocol), (js ''aws_key_type'', aws)]
     @ map (\<lambda>k. (js k, JBool (flag k)))
         [''allow_service_tier'', ''disable_store'', ''allow_include_obfuscation'', ''allow_inference_geo'',
          ''allow_speed'', ''claude_beta_query'', ''allow_safety_identifier'',
          ''upstream_model_update_check_enabled'', ''upstream_model_update_auto_sync_enabled'']
     @ [(js ''upstream_model_update_ignored_models'', JStr ignored), (js ''advanced_custom'', JStr advanced)]"

definition default_specific :: "(jsstr \<times> jsval) list" where
  "default_specific =
     specific_fields (JBool False) (JStr (js ''json'')) (JStr []) JUndef (JStr (js ''ak_sk'')) (\<lambda>k. False) [] []"

definition ignored_models_text :: "jsval \<Rightarrow> js_error + jsstr" where
  "ignored_models_text v = (if is_array v then js_string v else Inr [])"

definition advanced_text :: "jsval \<Rightarrow> jsstr" where
  "advanced_text v =
     (if truthy v then (case stringifyAdvancedCustomConfig v of Inr s \<Rightarrow> s | Inl _ \<Rightarrow> []) else [])"

definition read_specific :: "jsval \<Rightarrow> (jsstr \<times> jsval) list" where
  "read_specific parsed =
     specific_fields (JBool (fld parsed ''openrouter_enterprise'' = JBool True))
       (or_text (fld parsed ''vertex_key_type'') ''json'')
       (or_text (fld parsed ''azure_responses_version'') '''')
       (if isChannelProtocol (fld parsed ''protocol'') then fld parsed ''protocol'' else JUndef)
       (or_text (fld parsed ''aws_key_type'') ''ak_sk'')
       (\<lambda>k. fld parsed k = JBool True)
       (case ignored_models_text (fld parsed ''upstream_model_update_ignored_models'') of Inr s \<Rightarrow> s | Inl _ \<Rightarrow> [])
       (case ignored_models_text (fld parsed ''upstream_model_update_ignored_models'') of
          Inr _ \<Rightarrow> advanced_text (fld parsed ''advanced_custom'')
        | Inl _ \<Rightarrow> [])"

definition specific_settings :: "jsval \<Rightarrow> (jsstr \<times> jsval) list" where
  "specific_settings settings =
     (if truthy settings then
        (case parse_setting settings of
           Some parsed \<Rightarrow> if nullish parsed then default_specific else read_specific parsed
         | None \<Rightarrow> default_specific)
      else default_specific)"

definition transformChannelToFormDefaults :: "jsval \<Rightarrow> js_error + jsval" where
  "transformChannelToFormDefaults channel =
     and_then (read_prop (fld channel ''channel_info'') ''multi_key_mode'') (\<lambda>multi.
       Inr (JObj
         ([(js ''name'', or_text (fld channel ''name'') ''''), (js ''type'', fld channel ''type''),
           (js ''base_url'', or_text (fld channel ''base_url'') ''''), (js ''key'', JStr []),
           (js ''openai_organization'', or_text (fld channel ''openai_organization'') ''''),
           (js ''models'', or_text (fld channel ''models'') ''''),
           (js ''model_mapping'', or_text (fld channel ''model_mapping'') ''''),
           (js ''test_model'', or_text (fld channel ''test_model'') ''''),
           (js ''auto_ban'', if nullish (fld channel ''auto_ban'') then JNum (Fin 1) else fld channel ''auto_ban''),
           (js ''status'', fld channel ''status''),
           (js ''status_code_mapping'', or_text (fld channel ''status_code_mapping'') ''''),
           (js ''tag'', or_text (fld channel ''tag'') ''''), (js ''remark'', or_text (fld channel ''remark'') ''''),
           (js ''setting'', or_text (fld channel ''setting'') ''''),
           (js ''param_override'', or_text (fld channel ''param_override'') ''''),
           (js ''header_override'', or_text (fld channel ''header_override'') ''''),
           (js ''settings'', or_text (fld channel ''settings'') ''{}''),
           (js ''other'', or_text (fld channel ''other'') ''''), (js ''multi_key_mode'', JStr (js ''single'')),
           (js ''multi_key_type'', or_text multi ''random''),
           (js ''batch_add_set_key_prefix_2_name'', JBool False), (js ''key_mode'', JStr (js ''append''))]
          @ extra_settings (fld channel ''setting'') @ specific_settings (fld channel ''settings''))))"

section \<open>The setting texts\<close>

definition or_zero :: "jsval \<Rightarrow> jsval" where
  "or_zero v = (if nullish v then JNum (Fin 0) else v)"

definition price_fields :: "string list" where
  "price_fields = [''input'', ''output'', ''cache_read'', ''cache_write'']"

text \<open>A row with its model trimmed, whether it is kept, and the row that is stored.\<close>

definition trimmed_row :: "jsval \<Rightarrow> js_error + jsstr \<times> jsval" where
  "trimmed_row item = and_then (and_then (read_prop item ''model'') js_trim) (\<lambda>m. Inr (m, item))"

definition kept_row :: "jsstr \<times> jsval \<Rightarrow> bool" where
  "kept_row row \<longleftrightarrow> fst row \<noteq> [] \<and> list_ex (\<lambda>k. fld (snd row) k \<noteq> JUndef) price_fields"

definition stored_row :: "jsstr \<times> jsval \<Rightarrow> jsval" where
  "stored_row row =
     JObj ((js ''model'', JStr (fst row)) # map (\<lambda>k. (js k, or_zero (fld (snd row) k))) price_fields)"

definition channel_prices :: "jsval \<Rightarrow> js_error + jsval list" where
  "channel_prices prices =
     and_then (if nullish prices then Inr [] else case prices of JArr xs \<Rightarrow> Inr xs | _ \<Rightarrow> Inl TypeError) (\<lambda>items.
     and_then (mapM trimmed_row items) (\<lambda>rows. Inr (map stored_row (filter kept_row rows))))"

definition transport_entries :: "jsval \<Rightarrow> js_error + (jsstr \<times> jsval) list" where
  "transport_entries formData =
     and_then (normalizeHttpProtocol (fld formData ''http_protocol'')) (\<lambda>protocol.
     and_then (if protocol = HTTP_PROTOCOL_HTTP1 then Inr (JNum (Fin 1))
               else normalizeHttp2ConnectionShards (fld formData ''http2_connection_shards'')) (\<lambda>shards.
       if protocol = HTTP_PROTOCOL_HTTP1 then Inr [(js ''http_protocol'', JStr HTTP_PROTOCOL_HTTP1)]
       else and_then (js_greater shards (Fin 1)) (\<lambda>above.
         Inr (if above then [(js ''http2_connection_shards'', shards)] else []))))"

definition setting_object :: "jsval \<Rightarrow> js_error + jsval" where
  "setting_object formData =
     and_then (opt_trim (fld formData ''proxy'')) (\<lambda>proxy.
     and_then (channel_prices (fld formData ''pbr_prices'')) (\<lambda>prices.
     and_then (transport_entries formData) (\<lambda>transport.
       Inr (JObj
         ([(js ''force_format'', or_false (fld formData ''force_format'')),
           (js ''thinking_to_content'', or_false (fld formData ''thinking_to_content'')),
           (js ''proxy'', JStr proxy),
           (js ''pass_through_body_enabled'', or_false (fld formData ''pass_through_body_enabled'')),
           (js ''system_prompt'', or_text (fld formData ''system_prompt'') ''''),
           (js ''system_prompt_override'', or_false (fld formData ''system_prompt_override''))]
          @ (if prices = [] then [] else [(js ''pbr_prices'', JArr prices)]) @ transport)))))"

definition buildSettingJSON :: "jsval \<Rightarrow> js_error + jsstr" where
  "buildSettingJSON formData = and_then (setting_object formData) (\<lambda>obj. Inr (json_stringify obj))"

text \<open>
  The type-specific settings of the server: a setting is written for the channel types that have it and
  deleted for the others.
\<close>

definition put_or_drop :: "(jsstr \<times> jsval) list \<Rightarrow> bool \<times> string \<times> jsval \<Rightarrow> (jsstr \<times> jsval) list" where
  "put_or_drop es rule =
     (case rule of (present, k, v) \<Rightarrow> if present then map_set (js k) v es else map_delete (js k) es)"

definition is_true :: "jsval \<Rightarrow> jsval" where
  "is_true v = JBool (v = JBool True)"

definition settings_rules :: "jsval \<Rightarrow> (bool \<times> string \<times> jsval) list" where
  "settings_rules formData =
     (let t = fld formData ''type'';
          openai = type_in t OPENAI_FIELD_PASSTHROUGH_TYPES;
          claude = type_in t CLAUDE_FIELD_PASSTHROUGH_TYPES in
      [(type_in t [41], ''vertex_key_type'', or_text (fld formData ''vertex_key_type'') ''json''),
       (type_in t [3] \<and> truthy (fld formData ''azure_responses_version''), ''azure_responses_version'',
        fld formData ''azure_responses_version''),
       (truthy (fld formData ''protocol''), ''protocol'', fld formData ''protocol''),
       (type_in t [20], ''openrouter_enterprise'', is_true (fld formData ''is_enterprise_account'')),
       (type_in t [33], ''aws_key_type'', or_text (fld formData ''aws_key_type'') ''ak_sk''),
       (type_in t FIELD_PASSTHROUGH_TYPES, ''allow_service_tier'', is_true (fld formData ''allow_service_tier'')),
       (openai, ''disable_store'', is_true (fld formData ''disable_store'')),
       (openai, ''allow_safety_identifier'', is_true (fld formData ''allow_safety_identifier'')),
       (openai, ''allow_include_obfuscation'', is_true (fld formData ''allow_include_obfuscation'')),
       (openai \<or> claude, ''allow_inference_geo'', is_true (fld formData ''allow_inference_geo'')),
       (claude, ''allow_speed'', is_true (fld formData ''allow_speed'')),
       (type_in t [14], ''claude_beta_query'', is_true (fld formData ''claude_beta_query''))])"

definition ignored_models :: "jsval \<Rightarrow> js_error + jsval" where
  "ignored_models v =
     and_then (js_string (js_or v (JStr []))) (\<lambda>s.
       Inr (JArr (map JStr (uniq (filter (\<lambda>m. m \<noteq> []) (map trim (split_on (ch (CHR '','')) s)))))))"

definition update_flags :: "jsval \<Rightarrow> jsval \<Rightarrow> (jsstr \<times> jsval) list \<Rightarrow> (jsstr \<times> jsval) list" where
  "update_flags formData ignored es =
     (let check_enabled = is_true (fld formData ''upstream_model_update_check_enabled'') in
      map_set (js ''upstream_model_update_ignored_models'') ignored
        (map_set (js ''upstream_model_update_auto_sync_enabled'')
          (JBool (check_enabled = JBool True \<and> fld formData ''upstream_model_update_auto_sync_enabled'' = JBool True))
          (map_set (js ''upstream_model_update_check_enabled'') check_enabled es)))"

definition reset_detected_models :: "(jsstr \<times> jsval) list \<Rightarrow> (jsstr \<times> jsval) list" where
  "reset_detected_models es =
     (if \<not> is_array (fld (JObj es) ''upstream_model_update_last_detected_models'')
        \<or> fld (JObj es) ''upstream_model_update_check_enabled'' \<noteq> JBool True
      then map_set (js ''upstream_model_update_last_detected_models'') (JArr []) es else es)"

definition init_check_time :: "(jsstr \<times> jsval) list \<Rightarrow> (jsstr \<times> jsval) list" where
  "init_check_time es =
     (case fld (JObj es) ''upstream_model_update_last_check_time'' of
        JNum _ \<Rightarrow> es
      | _ \<Rightarrow> map_set (js ''upstream_model_update_last_check_time'') (JNum (Fin 0)) es)"

definition upstream_update_entries :: "jsval \<Rightarrow> (jsstr \<times> jsval) list \<Rightarrow> js_error + (jsstr \<times> jsval) list" where
  "upstream_update_entries formData es =
     and_then (ignored_models (fld formData ''upstream_model_update_ignored_models'')) (\<lambda>ignored.
       Inr (init_check_time (reset_detected_models (update_flags formData ignored es))))"

definition advanced_custom_entry :: "jsval \<Rightarrow> (jsstr \<times> jsval) list \<Rightarrow> (jsstr \<times> jsval) list" where
  "advanced_custom_entry formData es =
     (if type_in (fld formData ''type'') [CHANNEL_TYPE_ADVANCED_CUSTOM]
      then (case parseAdvancedCustomConfig (text_field (fld formData ''advanced_custom'')) of
              Some config \<Rightarrow> map_set (js ''advanced_custom'') config es
            | None \<Rightarrow> es)
      else map_delete (js ''advanced_custom'') es)"

definition settings_entries :: "jsval \<Rightarrow> (jsstr \<times> jsval) list \<Rightarrow> js_error + (jsstr \<times> jsval) list" where
  "settings_entries formData es =
     (let es1 = foldl put_or_drop es (settings_rules formData) in
      and_then (if type_in (fld formData ''type'') MODEL_FETCHABLE_TYPES then upstream_update_entries formData es1
                else Inr es1) (\<lambda>es2.
        Inr (advanced_custom_entry formData es2)))"

definition existing_settings :: "jsval \<Rightarrow> jsval" where
  "existing_settings settings =
     (if truthy settings \<and> settings \<noteq> JStr (js ''{}'')
      then (case parse_setting settings of Some v \<Rightarrow> v | None \<Rightarrow> JObj []) else JObj [])"

text \<open>Named properties of an array are not printed; assigning to a primitive value throws.\<close>

definition settings_object :: "jsval \<Rightarrow> js_error + jsval" where
  "settings_object formData =
     (case existing_settings (fld formData ''settings'') of
        JObj es \<Rightarrow> and_then (settings_entries formData es) (\<lambda>es'. Inr (JObj es'))
      | JArr xs \<Rightarrow> and_then (settings_entries formData []) (\<lambda>es'. Inr (JArr xs))
      | _ \<Rightarrow> Inl TypeError)"

definition buildSettingsJSON :: "jsval \<Rightarrow> js_error + jsstr" where
  "buildSettingsJSON formData = and_then (settings_object formData) (\<lambda>obj. Inr (json_stringify obj))"

section \<open>Payloads\<close>

definition normalizeBaseUrl :: "jsval \<Rightarrow> js_error + jsstr" where
  "normalizeBaseUrl v =
     and_then (js_string (js_or v (JStr []))) (\<lambda>s. Inr (rev (dropWhile (\<lambda>c. c = ch (CHR ''/'')) (rev (trim s)))))"

definition or_nothing :: "jsval \<Rightarrow> jsval" where
  "or_nothing v = js_or v JNull"

text \<open>The fields that both payloads have after the first ones.\<close>

definition channel_fields :: "jsval \<Rightarrow> jsstr \<Rightarrow> jsstr \<Rightarrow> (jsstr \<times> jsval) list \<Rightarrow> (jsstr \<times> jsval) list" where
  "channel_fields formData setting settings status =
     [(js ''openai_organization'', or_nothing (fld formData ''openai_organization'')),
      (js ''models'', fld formData ''models''), (js ''group'', JStr (js ''default'')),
      (js ''model_mapping'', or_nothing (fld formData ''model_mapping'')),
      (js ''test_model'', or_nothing (fld formData ''test_model'')),
      (js ''auto_ban'', if nullish (fld formData ''auto_ban'') then JNum (Fin 1) else fld formData ''auto_ban'')]
     @ status
     @ [(js ''status_code_mapping'', or_nothing (fld formData ''status_code_mapping'')),
        (js ''tag'', or_nothing (fld formData ''tag'')), (js ''remark'', or_text (fld formData ''remark'') ''''),
        (js ''setting'', JStr setting), (js ''param_override'', or_nothing (fld formData ''param_override'')),
        (js ''header_override'', or_nothing (fld formData ''header_override'')), (js ''settings'', JStr settings),
        (js ''other'', or_text (fld formData ''other'') '''')]"

definition null_if_empty :: "(jsstr \<times> jsval) list \<Rightarrow> (jsstr \<times> jsval) list" where
  "null_if_empty es = map (\<lambda>(k, v). (k, if v = JStr [] then JNull else v)) es"

record create_payload =
  cp_mode :: jsval
  cp_multi_key_mode :: jsval
  cp_batch_add_set_key_prefix_2_name :: jsval
  cp_channel :: jsval

definition transformFormDataToCreatePayload :: "jsval \<Rightarrow> js_error + create_payload" where
  "transformFormDataToCreatePayload formData =
     (let mode = or_text (fld formData ''multi_key_mode'') ''single'' in
      and_then (normalizeBaseUrl (fld formData ''base_url'')) (\<lambda>base_url.
      and_then (buildSettingJSON formData) (\<lambda>setting.
      and_then (buildSettingsJSON formData) (\<lambda>settings.
        Inr \<lparr>cp_mode = mode,
          cp_multi_key_mode = (if mode = JStr (js ''multi_to_single'') then fld formData ''multi_key_type'' else JUndef),
          cp_batch_add_set_key_prefix_2_name =
            (if mode = JStr (js ''batch'') then fld formData ''batch_add_set_key_prefix_2_name'' else JUndef),
          cp_channel = JObj (null_if_empty
            ([(js ''name'', fld formData ''name''), (js ''type'', fld formData ''type''),
              (js ''base_url'', or_nothing (JStr base_url)), (js ''key'', fld formData ''key'')]
             @ channel_fields formData setting settings [(js ''status'', fld formData ''status'')]))\<rparr>))))"

text \<open>\<open>if (formData.key && formData.key.trim())\<close>\<close>

definition key_entry :: "jsval \<Rightarrow> js_error + (jsstr \<times> jsval) list" where
  "key_entry key =
     (if truthy key then and_then (js_trim key) (\<lambda>t. Inr (if t = [] then [] else [(js ''key'', key)])) else Inr [])"

definition cleared_fields :: "string list" where
  "cleared_fields = [''openai_organization'', ''test_model'', ''tag'', ''remark'', ''model_mapping'',
     ''status_code_mapping'', ''param_override'', ''header_override'']"

definition transformFormDataToUpdatePayload :: "jsval \<Rightarrow> jsval \<Rightarrow> js_error + jsval" where
  "transformFormDataToUpdatePayload formData channelId =
     and_then (normalizeBaseUrl (fld formData ''base_url'')) (\<lambda>base_url.
     and_then (buildSettingJSON formData) (\<lambda>setting.
     and_then (buildSettingsJSON formData) (\<lambda>settings.
     and_then (key_entry (fld formData ''key'')) (\<lambda>key.
       let payload = null_if_empty
             ([(js ''id'', channelId), (js ''name'', fld formData ''name''), (js ''type'', fld formData ''type''),
               (js ''base_url'', or_nothing (JStr base_url))]
              @ channel_fields formData setting settings [] @ key) in
       Inr (JObj (foldl (\<lambda>es k. map_set (js k) (or_text (fld formData k) '''') es)
         (map_set (js ''base_url'') (JStr base_url) payload) cleared_fields))))))"

section \<open>Helpers\<close>

definition validateJSON :: "jsstr \<Rightarrow> bool" where
  "validateJSON v = (if v = [] \<or> trim v = [] then True else json_parse v \<noteq> None)"

definition validateModelMapping :: "jsstr \<Rightarrow> bool" where
  "validateModelMapping v = (if v = [] \<or> trim v = [] then True else validateJSON v)"

definition parseModels :: "jsstr \<Rightarrow> jsstr list" where
  "parseModels models =
     (if models = [] then [] else filter (\<lambda>m. 0 < length m) (map trim (split_on (ch (CHR '','')) models)))"

definition formatModels :: "jsstr list \<Rightarrow> jsstr" where
  "formatModels models = join (js '','') models"

end
