(* ===== verification/AdvancedCustomProofs.thy ===== *)
theory AdvancedCustomProofs
  imports AdvancedCustom
begin

text \<open>
  Advanced custom channels: what validation accepts, that a configuration survives saving and loading,
  and what replacing routes keeps.
\<close>

section \<open>Lemmas: what validation accepts\<close>

text \<open>The four fields the body of the loop reads first.\<close>

definition route_fields :: "jsval \<Rightarrow> js_error + jsstr \<times> jsstr \<times> jsval \<times> jsstr list" where
  "route_fields route =
     and_then (and_then (read_prop route ''incoming_path'') opt_trim) (\<lambda>p.
     and_then (getAdvancedCustomRouteUpstreamPath route) (\<lambda>u.
     and_then (normalizeAdvancedCustomRouteModels (get_prop route (js ''models''))) (\<lambda>ms.
       Inr (p, u, js_or (get_prop route (js ''converter'')) (JStr (js ''none'')), ms))))"

definition route_path :: "jsval \<Rightarrow> jsstr" where
  "route_path route = (case route_fields route of Inr (p, u, c, ms) \<Rightarrow> p | Inl _ \<Rightarrow> [])"

definition route_models :: "jsval \<Rightarrow> jsstr list" where
  "route_models route = (case route_fields route of Inr (p, u, c, ms) \<Rightarrow> ms | Inl _ \<Rightarrow> [])"

definition auth_ok :: "jsval \<Rightarrow> bool" where
  "auth_ok auth \<longleftrightarrow>
     \<not> truthy auth \<or> get_prop auth (js ''type'') = JStr (js ''none'')
     \<or> get_prop auth (js ''type'') \<in> {JStr (js ''header''), JStr (js ''query'')}
       \<and> (\<exists>n v. get_prop auth (js ''name'') = JStr n \<and> get_prop auth (js ''value'') = JStr v
            \<and> trim n \<noteq> [] \<and> trim v \<noteq> [])"

definition route_ok :: "url_reader \<Rightarrow> jsval \<Rightarrow> bool" where
  "route_ok url route \<longleftrightarrow>
     (\<exists>p u c ms. route_fields route = Inr (p, u, JStr c, ms)
        \<and> p \<noteq> [] \<and> starts_with (js ''/'') p \<and> \<not> str_includes (js ''?'') p
        \<and> (isAdvancedCustomManagementPath p \<longrightarrow> ms = [] \<and> c = js ''none'' \<and> \<not> str_includes (js ''{model}'') u)
        \<and> distinct ms \<and> js ''re:'' \<notin> set ms
        \<and> u \<noteq> [] \<and> isFullHttpURLOrAbsolutePath url u
        \<and> c \<in> co_value ` set ADVANCED_CUSTOM_CONVERTER_OPTIONS \<and> isConverterPathAllowed p c
        \<and> auth_ok (get_prop route (js ''auth'')))"

text \<open>A route after another one: for the same path the earlier one has models, and other models.\<close>

definition compatible :: "jsval \<Rightarrow> jsval \<Rightarrow> bool" where
  "compatible earlier later \<longleftrightarrow>
     (route_path earlier = route_path later \<longrightarrow>
        route_models earlier \<noteq> [] \<and> set (route_models earlier) \<inter> set (route_models later) = {})"

lemma empty_regex:
  "getAdvancedCustomModelRuleKind m = RegexRule \<and> getAdvancedCustomRegexModelPattern m = [] \<longleftrightarrow> m = js ''re:''"
  using append_take_drop_id [of 3 m]
  by (auto simp: getAdvancedCustomModelRuleKind_def getAdvancedCustomRegexModelPattern_def
      ADVANCED_CUSTOM_MODEL_REGEX_PREFIX_def starts_with_def js_def)

lemma route_models_loop_None:
  assumes "set seen \<subseteq> fst ` set taken"
  shows "fst (route_models_loop i seen ms taken) = None \<longleftrightarrow>
      distinct ms \<and> js ''re:'' \<notin> set ms \<and> set ms \<inter> fst ` set taken = {}"
  using assms
proof (induction ms arbitrary: seen taken)
  case (Cons m ms)
  have sub: "set (m # seen) \<subseteq> fst ` set (map_set m i taken)" using Cons.prems by auto
  show ?case using Cons.IH [OF sub] Cons.prems by (auto simp: empty_regex)
qed simp

lemma route_models_loop_taken:
  assumes "fst (route_models_loop i seen ms taken) = None"
  shows "fst ` set (snd (route_models_loop i seen ms taken)) = fst ` set taken \<union> set ms"
  using assms
proof (induction ms arbitrary: seen taken)
  case (Cons m ms)
  then show ?case by (auto split: if_splits)
qed simp

lemma validateRouteAuth_None: "validateRouteAuth auth = Inr None \<longleftrightarrow> auth_ok auth"
  by (auto simp: validateRouteAuth_def auth_ok_def Let_def and_then_simps opt_trim_def js_trim_def nullish_def
      split: if_splits jsval.splits)

text \<open>What the state of the validation knows of a path.\<close>

definition state_at :: "(jsstr \<times> path_state) list \<Rightarrow> jsstr \<Rightarrow> path_state" where
  "state_at byPath p =
     (case map_of byPath p of Some st \<Rightarrow> st | None \<Rightarrow> \<lparr>ps_catchAllIndex = None, ps_models = []\<rparr>)"

definition caught :: "(jsstr \<times> path_state) list \<Rightarrow> jsstr \<Rightarrow> bool" where
  "caught byPath p \<longleftrightarrow> ps_catchAllIndex (state_at byPath p) \<noteq> None"

definition taken :: "(jsstr \<times> path_state) list \<Rightarrow> jsstr \<Rightarrow> jsstr set" where
  "taken byPath p = fst ` set (ps_models (state_at byPath p))"

lemma validateModels_None:
  "fst (validateAdvancedCustomRouteModels i p ms byPath) = None \<longleftrightarrow>
     \<not> caught byPath p \<and> distinct ms \<and> js ''re:'' \<notin> set ms \<and> set ms \<inter> taken byPath p = {}"
  using route_models_loop_None [of "[]" "ps_models (state_at byPath p)" i ms]
  by (auto simp: validateAdvancedCustomRouteModels_def caught_def taken_def state_at_def Let_def
      split: prod.splits option.splits)

lemma validateModels_caught:
  "fst (validateAdvancedCustomRouteModels i p ms byPath) = None \<Longrightarrow>
     caught (snd (validateAdvancedCustomRouteModels i p ms byPath)) q \<longleftrightarrow>
       caught byPath q \<or> q = p \<and> ms = []"
  by (auto simp: validateAdvancedCustomRouteModels_def caught_def state_at_def Let_def
      split: prod.splits option.splits if_splits)

lemma validateModels_taken:
  "fst (validateAdvancedCustomRouteModels i p ms byPath) = None \<Longrightarrow>
     taken (snd (validateAdvancedCustomRouteModels i p ms byPath)) q =
       taken byPath q \<union> (if q = p then set ms else {})"
  using route_models_loop_taken [of i "[]" ms "ps_models (state_at byPath p)"]
  by (auto simp: validateAdvancedCustomRouteModels_def taken_def state_at_def Let_def
      split: prod.splits option.splits if_splits)

text \<open>The state after the routes of \<open>past\<close>.\<close>

definition tracks :: "jsval list \<Rightarrow> validation_state \<Rightarrow> bool" where
  "tracks past st \<longleftrightarrow>
     (\<forall>p. caught (vs_byPath st) p \<longleftrightarrow> (\<exists>r\<in>set past. route_path r = p \<and> route_models r = []))
     \<and> (\<forall>p. taken (vs_byPath st) p = (\<Union>r\<in>{r \<in> set past. route_path r = p}. set (route_models r)))
     \<and> (vs_modelListRouteIndex st \<noteq> None \<longleftrightarrow>
         (\<exists>r\<in>set past. route_path r = ADVANCED_CUSTOM_MODEL_LIST_PATH))
     \<and> (vs_balanceRouteIndex st \<noteq> None \<longleftrightarrow>
         (\<exists>r\<in>set past. route_path r = ADVANCED_CUSTOM_BALANCE_PATH))"

lemma converter_registered:
  "isAdvancedCustomConverter c \<longleftrightarrow> (\<exists>s \<in> co_value ` set ADVANCED_CUSTOM_CONVERTER_OPTIONS. c = JStr s)"
  by (auto simp: isAdvancedCustomConverter_def list_ex_iff)

lemma check_upstream_None:
  "check_upstream url p u c = None \<longleftrightarrow>
     u \<noteq> [] \<and> isFullHttpURLOrAbsolutePath url u
     \<and> (\<exists>s \<in> co_value ` set ADVANCED_CUSTOM_CONVERTER_OPTIONS. c = JStr s \<and> isConverterPathAllowed p s)"
  by (auto simp: check_upstream_def converter_registered split: jsval.splits)

lemma check_incoming_None:
  "check_incoming p = None \<longleftrightarrow> p \<noteq> [] \<and> starts_with (js ''/'') p \<and> \<not> str_includes (js ''?'') p"
  by (simp add: check_incoming_def)

definition managed :: "validation_state \<Rightarrow> jsstr \<Rightarrow> bool" where
  "managed st p \<longleftrightarrow>
     (if p = ADVANCED_CUSTOM_MODEL_LIST_PATH then vs_modelListRouteIndex st else vs_balanceRouteIndex st) \<noteq> None"

lemma check_management_None:
  "fst (check_management i p u c ms st) = None \<longleftrightarrow>
     \<not> managed st p \<and> ms = [] \<and> c = JStr (js ''none'') \<and> \<not> str_includes (js ''{model}'') u"
  by (simp add: check_management_def managed_def Let_def)

text \<open>The body of the loop, without an error.\<close>

definition marked :: "nat \<Rightarrow> jsstr \<Rightarrow> validation_state \<Rightarrow> validation_state" where
  "marked i p st =
     (if p = ADVANCED_CUSTOM_MODEL_LIST_PATH then st\<lparr>vs_modelListRouteIndex := Some i\<rparr>
      else if p = ADVANCED_CUSTOM_BALANCE_PATH then st\<lparr>vs_balanceRouteIndex := Some i\<rparr> else st)"

lemma byPath_marked [simp]: "vs_byPath (marked i p st) = vs_byPath st"
  by (simp add: marked_def)

lemma check_management_state:
  "fst (check_management i p u c ms st) = None \<Longrightarrow> isAdvancedCustomManagementPath p \<Longrightarrow>
     snd (check_management i p u c ms st) = marked i p st"
  by (auto simp: check_management_def marked_def isAdvancedCustomManagementPath_def Let_def split: if_splits)

lemma unmanaged_marked: "\<not> isAdvancedCustomManagementPath p \<Longrightarrow> marked i p st = st"
  by (auto simp: marked_def isAdvancedCustomManagementPath_def)

lemma check_route_fields:
  assumes "route_fields r = Inr (p, u, c, ms)"
  shows "check_route url i r st = Inr (None, st') \<longleftrightarrow>
      check_incoming p = None
      \<and> (isAdvancedCustomManagementPath p \<longrightarrow> fst (check_management i p u c ms st) = None)
      \<and> fst (validateAdvancedCustomRouteModels i p ms (vs_byPath st)) = None
      \<and> check_upstream url p u c = None
      \<and> auth_ok (get_prop r (js ''auth''))
      \<and> st' = (marked i p st)\<lparr>vs_byPath := snd (validateAdvancedCustomRouteModels i p ms (vs_byPath st))\<rparr>"
proof -
  have c: "c = js_or (get_prop r (js ''converter'')) (JStr (js ''none''))"
    and eq: "check_route url i r st = (case check_incoming p of Some e \<Rightarrow> Inr (Some e, st)
       | None \<Rightarrow>
           (let (err1, st1) = (if isAdvancedCustomManagementPath p
                               then check_management i p u c ms st else (None, st)) in
            if err1 \<noteq> None then Inr (err1, st1)
            else
              (let (err2, byPath) = validateAdvancedCustomRouteModels i p ms (vs_byPath st1);
                   st2 = st1\<lparr>vs_byPath := byPath\<rparr> in
               if err2 \<noteq> None then Inr (err2, st2)
               else (case check_upstream url p u c of
                   Some e \<Rightarrow> Inr (Some e, st2)
                 | None \<Rightarrow> and_then (validateRouteAuth (get_prop r (js ''auth''))) (\<lambda>err. Inr (err, st2))))))"
    using assms by (auto simp: route_fields_def check_route_def Let_def and_then_eq_Inr)
  show ?thesis
    using check_management_state [of i p u c ms st] unmanaged_marked [of p i st]
    by (auto simp: eq and_then_eq_Inr validateRouteAuth_None [symmetric] Let_def
        split: option.splits prod.splits if_splits)
qed

lemma check_route_throws: "route_fields r = Inl e \<Longrightarrow> check_route url i r st = Inl e"
  by (auto simp: route_fields_def check_route_def Let_def and_then_def split: sum.splits)

lemma route_fields_sel:
  "route_fields r = Inr (p, u, c, ms) \<Longrightarrow> route_path r = p \<and> route_models r = ms"
  by (simp add: route_path_def route_models_def)

lemma management_models: "route_ok url r \<Longrightarrow> isAdvancedCustomManagementPath (route_path r) \<Longrightarrow> route_models r = []"
  by (auto simp: route_ok_def dest: route_fields_sel)

lemma tracks_managed:
  assumes "tracks past st" "\<forall>r\<in>set past. route_ok url r" "isAdvancedCustomManagementPath p"
  shows "managed st p \<longleftrightarrow> caught (vs_byPath st) p"
proof -
  have "managed st p \<longleftrightarrow> (\<exists>r\<in>set past. route_path r = p)"
    using assms(1,3) by (auto simp: tracks_def managed_def isAdvancedCustomManagementPath_def)
  also have "\<dots> \<longleftrightarrow> (\<exists>r\<in>set past. route_path r = p \<and> route_models r = [])"
    using assms(2,3) management_models by blast
  finally show ?thesis using assms(1) by (simp add: tracks_def)
qed

lemma tracks_compatible:
  assumes "tracks past st" "route_fields r = Inr (p, u, c, ms)"
  shows "(\<forall>e\<in>set past. compatible e r) \<longleftrightarrow> \<not> caught (vs_byPath st) p \<and> set ms \<inter> taken (vs_byPath st) p = {}"
  using assms(1) route_fields_sel [OF assms(2)] by (auto simp: tracks_def compatible_def)

lemma route_ok_fields:
  assumes "route_fields r = Inr (p, u, c, ms)"
  shows "route_ok url r \<longleftrightarrow>
      check_incoming p = None
      \<and> (isAdvancedCustomManagementPath p \<longrightarrow> ms = [] \<and> c = JStr (js ''none'') \<and> \<not> str_includes (js ''{model}'') u)
      \<and> distinct ms \<and> js ''re:'' \<notin> set ms \<and> check_upstream url p u c = None
      \<and> auth_ok (get_prop r (js ''auth''))"
  unfolding route_ok_def check_incoming_None check_upstream_None using assms by auto

lemma tracks_step:
  assumes "tracks past st" "route_fields r = Inr (p, u, c, ms)"
    "fst (validateAdvancedCustomRouteModels i p ms (vs_byPath st)) = None"
  shows "tracks (past @ [r]) ((marked i p st)\<lparr>vs_byPath := snd (validateAdvancedCustomRouteModels i p ms (vs_byPath st))\<rparr>)"
proof -
  have ml: "vs_modelListRouteIndex (marked i p st) \<noteq> None \<longleftrightarrow>
      vs_modelListRouteIndex st \<noteq> None \<or> p = ADVANCED_CUSTOM_MODEL_LIST_PATH"
    by (simp add: marked_def)
  have bl: "vs_balanceRouteIndex (marked i p st) \<noteq> None \<longleftrightarrow>
      vs_balanceRouteIndex st \<noteq> None \<or> p = ADVANCED_CUSTOM_BALANCE_PATH"
    by (simp add: marked_def ADVANCED_CUSTOM_BALANCE_PATH_def ADVANCED_CUSTOM_MODEL_LIST_PATH_def js_def)
  show ?thesis
    using assms(1) route_fields_sel [OF assms(2)]
    unfolding tracks_def
    by (simp add: ml bl validateModels_caught [OF assms(3)] validateModels_taken [OF assms(3)] del: not_None_eq)
      (intro conjI allI; auto simp del: not_None_eq)
qed

lemma check_route_step:
  assumes "tracks past st" "\<forall>e\<in>set past. route_ok url e"
  shows "(\<exists>st'. check_route url i r st = Inr (None, st')) \<longleftrightarrow> route_ok url r \<and> (\<forall>e\<in>set past. compatible e r)"
    and "check_route url i r st = Inr (None, st') \<Longrightarrow> tracks (past @ [r]) st'"
proof -
  show "(\<exists>st'. check_route url i r st = Inr (None, st')) \<longleftrightarrow> route_ok url r \<and> (\<forall>e\<in>set past. compatible e r)"
  proof (cases "route_fields r")
    case (Inl e)
    then show ?thesis by (simp add: check_route_throws route_ok_def)
  next
    case (Inr f)
    obtain p u c ms where f: "route_fields r = Inr (p, u, c, ms)" using Inr by (cases f) auto
    show ?thesis
      using tracks_managed [OF assms, of p]
      by (auto simp: check_route_fields [OF f] route_ok_fields [OF f] tracks_compatible [OF assms(1) f]
          check_management_None validateModels_None)
  qed
  show "tracks (past @ [r]) st'" if "check_route url i r st = Inr (None, st')"
  proof (cases "route_fields r")
    case (Inl e)
    then show ?thesis using that by (simp add: check_route_throws)
  next
    case (Inr f)
    obtain p u c ms where f: "route_fields r = Inr (p, u, c, ms)" using Inr by (cases f) auto
    show ?thesis using that tracks_step [OF assms(1) f] by (simp add: check_route_fields [OF f])
  qed
qed

lemma routes_loop_None:
  assumes "tracks past st" "\<forall>e\<in>set past. route_ok url e"
  shows "routes_loop url i rs st = Inr None \<longleftrightarrow>
     (\<forall>r\<in>set rs. route_ok url r \<and> (\<forall>e\<in>set past. compatible e r)) \<and> sorted_wrt compatible rs"
  using assms
proof (induction rs arbitrary: i past st)
  case (Cons r rs)
  note step = check_route_step [OF Cons.prems, of i r]
  show ?case
  proof (cases "\<exists>st'. check_route url i r st = Inr (None, st')")
    case True
    then obtain st' where st': "check_route url i r st = Inr (None, st')" by blast
    have r: "route_ok url r" "\<forall>e\<in>set past. compatible e r" using True step(1) by auto
    show ?thesis
      using Cons.IH [OF step(2) [OF st'], of "Suc i"] Cons.prems(2) r st' by auto
  next
    case False
    then have "routes_loop url i (r # rs) st \<noteq> Inr None"
      by (auto simp: and_then_eq_Inr split: option.splits prod.splits)
    then show ?thesis using False step(1) by auto
  qed
qed simp

lemma tracks_initial:
  "tracks [] \<lparr>vs_byPath = [], vs_modelListRouteIndex = None, vs_balanceRouteIndex = None\<rparr>"
  by (simp add: tracks_def caught_def taken_def state_at_def)

section \<open>Lemmas: printing and reading a configuration\<close>

lemma json_clean_or [intro]: "json_clean a \<Longrightarrow> json_clean b \<Longrightarrow> json_clean (js_or a b)"
  by (simp add: js_or_def)

text \<open>A normalised route with its fields: \<open>inc\<close>, \<open>conv\<close> and the fields of \<open>auth\<close> may have any type.\<close>

definition auth_object :: "jsval \<Rightarrow> jsval \<Rightarrow> jsval \<Rightarrow> jsval" where
  "auth_object t n v = JObj [(js ''type'', t), (js ''name'', n), (js ''value'', v)]"

definition route_object :: "jsval \<Rightarrow> jsstr \<Rightarrow> jsval \<Rightarrow> jsstr list \<Rightarrow> jsval option \<Rightarrow> jsval" where
  "route_object inc up conv models auth =
     JObj ([(js ''incoming_path'', inc), (js ''upstream_path'', JStr up), (js ''converter'', conv)]
       @ (if models = [] then [] else [(js ''models'', JArr (map JStr models))])
       @ (case auth of None \<Rightarrow> [] | Some a \<Rightarrow> [(js ''auth'', a)]))"

text \<open>A field as normalisation leaves it: a value that is not falsy, or the empty string.\<close>

definition settled :: "jsval \<Rightarrow> bool" where
  "settled v \<longleftrightarrow> json_clean v \<and> (truthy v \<or> v = JStr [])"

definition settled_auth :: "jsval \<Rightarrow> bool" where
  "settled_auth a \<longleftrightarrow> (\<exists>t n v. a = auth_object t n v \<and> json_clean t \<and> settled n \<and> settled v)"

definition settled_route :: "jsval \<Rightarrow> bool" where
  "settled_route r \<longleftrightarrow>
     (\<exists>inc up conv models auth. r = route_object inc up conv models auth \<and> settled inc
        \<and> code_units up \<and> trim up = up \<and> json_clean conv \<and> truthy conv
        \<and> list_all (\<lambda>m. code_units m \<and> trim m = m \<and> m \<noteq> []) models
        \<and> pred_option settled_auth auth)"

lemma settled_routeI:
  "settled inc \<Longrightarrow> code_units up \<Longrightarrow> trim up = up \<Longrightarrow> json_clean conv \<Longrightarrow> truthy conv \<Longrightarrow>
     list_all (\<lambda>m. code_units m \<and> trim m = m \<and> m \<noteq> []) models \<Longrightarrow> pred_option settled_auth auth \<Longrightarrow>
     settled_route (route_object inc up conv models auth)"
  unfolding settled_route_def by blast

lemma settled_or: "json_clean v \<Longrightarrow> settled (js_or v (JStr []))"
  by (simp add: settled_def js_or_def code_units_def)

lemma js_trim_Inr: "js_trim v = Inr t \<longleftrightarrow> (\<exists>s. v = JStr s \<and> t = trim s)"
  by (auto simp: js_trim_def split: jsval.splits)

lemma upstream_settled:
  assumes "json_clean r" "getAdvancedCustomRouteUpstreamPath r = Inr u"
  shows "code_units u \<and> trim u = u"
proof -
  obtain s where s: "js_or (get_prop r (js ''upstream_path'')) (JStr []) = JStr s" "u = trim s"
    using assms(2)
    by (auto simp: getAdvancedCustomRouteUpstreamPath_def and_then_eq_Inr read_prop_def js_trim_Inr split: if_splits)
  have "settled (JStr s)" unfolding s(1) [symmetric] by (rule settled_or) (use assms(1) in blast)
  then show ?thesis using s(2) by (simp add: settled_def code_units_trim)
qed

lemma models_settled:
  assumes "json_clean m" "normalizeAdvancedCustomRouteModels m = Inr ms"
  shows "list_all (\<lambda>m. code_units m \<and> trim m = m \<and> m \<noteq> []) ms"
proof (cases m)
  case (JArr xs)
  then obtain ts where ts: "list_all2 (\<lambda>x t. js_trim x = Inr t) xs ts" "ms = filter (\<lambda>t. t \<noteq> []) ts"
    using assms(2) by (auto simp: normalizeAdvancedCustomRouteModels_def and_then_eq_Inr mapM_Inr)
  have "code_units t \<and> trim t = t" if t: "t \<in> set ts" for t
  proof -
    obtain x where x: "x \<in> set xs" "js_trim x = Inr t"
      using list_all2_member [OF ts(1) t] by blast
    then obtain s where "x = JStr s" "t = trim s" by (auto simp: js_trim_Inr)
    then show ?thesis using json_clean_arr [OF assms(1) [unfolded JArr] x(1)] by (simp add: code_units_trim)
  qed
  then show ?thesis by (auto simp: ts(2) list_all_iff)
qed (use assms(2) in \<open>auto simp: normalizeAdvancedCustomRouteModels_def\<close>)

lemma normalized_auth_settled: "json_clean a \<Longrightarrow> settled_auth (normalized_auth a)"
  unfolding settled_auth_def normalized_auth_def auth_object_def [symmetric]
  by (blast intro: settled_or)

lemma normalizeRoute_settled:
  assumes "json_clean r" "normalizeAdvancedCustomRoute r = Inr n"
  shows "settled_route n"
proof -
  obtain u ms where f: "getAdvancedCustomRouteUpstreamPath r = Inr u"
    "normalizeAdvancedCustomRouteModels (get_prop r (js ''models'')) = Inr ms"
    and n: "n = route_object (js_or (get_prop r (js ''incoming_path'')) (JStr [])) u
      (js_or (get_prop r (js ''converter'')) (JStr (js ''none''))) ms
      (if truthy (get_prop r (js ''auth'')) then Some (normalized_auth (get_prop r (js ''auth''))) else None)"
    using assms(2)
    by (auto simp: normalizeAdvancedCustomRoute_def and_then_eq_Inr read_prop_def route_object_def Let_def
        split: if_splits)
  have conv: "json_clean (js_or (get_prop r (js ''converter'')) (JStr (js ''none'')))"
    "truthy (js_or (get_prop r (js ''converter'')) (JStr (js ''none'')))"
    using json_clean_prop [OF assms(1)] by (auto simp: js_or_def code_units_def js_def truthy_def)
  show ?thesis
    unfolding n
    using upstream_settled [OF assms(1) f(1)] models_settled [OF json_clean_prop [OF assms(1)] f(2)] conv
      settled_or [OF json_clean_prop [OF assms(1)]] normalized_auth_settled [OF json_clean_prop [OF assms(1)]]
    by (intro settled_routeI) simp_all
qed

text \<open>A settled value is printable, and normalising what a parser reads of it gives it back.\<close>

lemma settled_auth_printable: "settled_auth a \<Longrightarrow> json_printable a"
  by (auto simp: settled_auth_def auth_object_def settled_def json_clean_def json_printable.simps [of "JObj _"]
      own_key_order is_index_def is_digit_def js_def code_units_def)

lemma settled_route_printable: "settled_route r \<Longrightarrow> json_printable r"
  by (auto simp: settled_route_def route_object_def settled_def json_clean_def json_printable.simps [of "JObj _"]
      json_printable.simps [of "JArr _"] json_printable.simps [of "JStr _"] list_all_iff
      own_key_order is_index_def is_digit_def js_def code_units_def settled_auth_printable split: option.splits)

lemma get_auth_object [simp]:
  "get_prop (auth_object t n v) (js ''type'') = t" "get_prop (auth_object t n v) (js ''name'') = n"
  "get_prop (auth_object t n v) (js ''value'') = v"
  by (simp_all add: auth_object_def get_prop_def js_def)

lemma get_auth_data [simp]:
  "get_prop (json_data (auth_object t n v)) (js k) = json_data (get_prop (auth_object t n v) (js k))"
  unfolding auth_object_def by (rule json_data_prop) (simp add: js_def)

lemma get_route_object [simp]:
  "get_prop (route_object inc up conv models auth) (js ''incoming_path'') = inc"
  "get_prop (route_object inc up conv models auth) (js ''upstream_path'') = JStr up"
  "get_prop (route_object inc up conv models auth) (js ''converter'') = conv"
  "get_prop (route_object inc up conv models auth) (js ''models'') =
     (if models = [] then JUndef else JArr (map JStr models))"
  "get_prop (route_object inc up conv models auth) (js ''auth'') = (case auth of None \<Rightarrow> JUndef | Some a \<Rightarrow> a)"
  by (simp_all add: route_object_def get_prop_def js_def split: option.split)

lemma get_route_data [simp]:
  "get_prop (json_data (route_object inc up conv models auth)) (js k) =
     json_data (get_prop (route_object inc up conv models auth) (js k))"
  unfolding route_object_def by (rule json_data_prop) (auto simp: js_def split: option.split)

lemma settledD: "settled v \<Longrightarrow> json_data v = v \<and> js_or v (JStr []) = v"
  by (auto simp: settled_def json_clean_def js_or_def)

lemma object_truthy: "truthy (json_data (JObj es))" "\<not> nullish (json_data (JObj es))"
  by (simp_all add: json_data.simps truthy_def nullish_def)

lemma normalized_auth_data:
  assumes "settled_auth a"
  shows "truthy (json_data a)" "normalized_auth (json_data a) = a"
proof -
  obtain t n v where a: "a = auth_object t n v" "json_clean t" "settled n" "settled v"
    using assms by (auto simp: settled_auth_def)
  show "truthy (json_data a)" by (simp add: a(1) auth_object_def object_truthy)
  show "normalized_auth (json_data a) = a"
    using a(2) settledD [OF a(3)] settledD [OF a(4)]
    by (simp add: a(1) normalized_auth_def json_clean_def auth_object_def [symmetric])
qed

lemma normalizeModels_data:
  assumes "list_all (\<lambda>m. code_units m \<and> trim m = m \<and> m \<noteq> []) ms"
  shows "normalizeAdvancedCustomRouteModels (json_data (if ms = [] then JUndef else JArr (map JStr ms))) = Inr ms"
proof -
  have "mapM js_trim (map JStr ms) = Inr (map trim ms)" by (induction ms) (simp_all add: js_trim_def)
  moreover have "map trim ms = ms" "filter (\<lambda>t. t \<noteq> []) ms = ms"
    using assms by (auto simp: list_all_iff intro: map_idI)
  ultimately show ?thesis
    by (simp add: normalizeAdvancedCustomRouteModels_def json_data.simps [of "JArr _"] comp_def)
qed

lemma normalizeRoute_data:
  assumes "settled_route r"
  shows "normalizeAdvancedCustomRoute (json_data r) = Inr r"
proof -
  obtain inc up conv models auth where r: "r = route_object inc up conv models auth" and c: "settled inc"
    "trim up = up" "json_data conv = conv" "truthy conv"
    "list_all (\<lambda>m. code_units m \<and> trim m = m \<and> m \<noteq> []) models" "pred_option settled_auth auth"
    using assms by (auto simp: settled_route_def json_clean_def)
  have nn: "\<not> nullish (json_data r)" by (simp add: r route_object_def object_truthy)
  have up: "getAdvancedCustomRouteUpstreamPath (json_data r) = Inr up"
    using c(2) nn
    by (auto simp: getAdvancedCustomRouteUpstreamPath_def read_prop_def r js_or_def js_trim_def truthy_def)
  have "(if truthy (json_data (case auth of None \<Rightarrow> JUndef | Some a \<Rightarrow> a))
      then [(js ''auth'', normalized_auth (json_data (case auth of None \<Rightarrow> JUndef | Some a \<Rightarrow> a)))] else []) =
      (case auth of None \<Rightarrow> [] | Some a \<Rightarrow> [(js ''auth'', a)])"
    using c(6) by (cases auth) (simp_all add: truthy_def [of JUndef] normalized_auth_data)
  then show ?thesis
    using nn settledD [OF c(1)] c(3,4) normalizeModels_data [OF c(5)] up
    by (simp add: normalizeAdvancedCustomRoute_def read_prop_def r js_or_def Let_def route_object_def [symmetric])
      (simp add: route_object_def)
qed

lemma normalizeConfig_settled:
  assumes "json_clean c" "normalizeAdvancedCustomConfig c = Inr n"
  shows "\<exists>rs. n = routes_config rs \<and> list_all settled_route rs"
proof (cases "get_prop c (js ''advanced_routes'')")
  case (JArr xs)
  then obtain rs where rs: "list_all2 (\<lambda>x r. normalizeAdvancedCustomRoute x = Inr r) xs rs" "n = routes_config rs"
    using assms(2) by (auto simp: normalizeAdvancedCustomConfig_def and_then_eq_Inr read_prop_def mapM_Inr split: if_splits)
  have clean: "json_clean x" if "x \<in> set xs" for x
    using json_clean_arr [OF json_clean_prop [OF assms(1), of "js ''advanced_routes''", unfolded JArr] that] .
  have "settled_route r" if r: "r \<in> set rs" for r
    using list_all2_member [OF rs(1) r] clean normalizeRoute_settled by blast
  then show ?thesis using rs(2) by (auto simp: list_all_iff)
qed (use assms(2) in \<open>auto simp: normalizeAdvancedCustomConfig_def and_then_eq_Inr read_prop_def list_all_iff split: if_splits\<close>)

lemma settled_route_defined: "settled_route r \<Longrightarrow> r \<noteq> JUndef"
  by (auto simp: settled_route_def route_object_def)

lemma routes_config_printable: "list_all settled_route rs \<Longrightarrow> json_printable (routes_config rs)"
  by (auto simp: routes_config_def json_printable.simps [of "JObj _"] json_printable.simps [of "JArr _"] list_all_iff
      own_key_order is_index_def is_digit_def js_def code_units_def settled_route_printable)

lemma routes_config_data:
  assumes "list_all settled_route rs"
  shows "json_data (routes_config rs) = routes_config (map json_data rs)"
proof -
  have "map (\<lambda>x. if x = JUndef then JNull else json_data x) rs = map json_data rs"
    using assms settled_route_defined by (auto simp: list_all_iff)
  then show ?thesis by (simp add: routes_config_def json_data.simps [of "JObj _"] json_data.simps [of "JArr _"])
qed

lemma normalizeConfig_data:
  assumes "list_all settled_route rs"
  shows "normalizeAdvancedCustomConfig (json_data (routes_config rs)) = Inr (routes_config rs)"
proof -
  have "mapM normalizeAdvancedCustomRoute (map json_data rs) = Inr rs"
    using assms by (simp add: mapM_Inr list_all2_map1 list_all2_same normalizeRoute_data list_all_iff)
  then show ?thesis
    unfolding routes_config_data [OF assms]
    by (simp add: normalizeAdvancedCustomConfig_def read_prop_def nullish_def get_prop_def routes_config_def)
qed

lemma object_text_nonblank: "trim (json_stringify_indented (JObj es)) \<noteq> []"
proof -
  have "take 1 (json_stringify_indented (JObj es)) = [123]"
    by (simp add: json_stringify_indented_def json_text.simps [of _ _ "JObj _"] json_wrap_def)
  then obtain t where "json_stringify_indented (JObj es) = 123 # t"
    by (cases "json_stringify_indented (JObj es)") simp_all
  then show ?thesis by (simp add: trim_def trim_start_def trim_end_def is_ws_def)
qed

section \<open>Lemmas: replacing routes\<close>

lemma find_indexM_Some:
  assumes "find_indexM f xs = Inr (Some i)"
  shows "i < length xs" "f (xs ! i) = Inr True" "\<forall>x\<in>set (take i xs). f x = Inr False"
  using assms
  by (induction xs arbitrary: i) (auto simp: and_then_eq_Inr split: if_splits)

lemma find_indexM_None: "find_indexM f xs = Inr None \<longleftrightarrow> (\<forall>x\<in>set xs. f x = Inr False)"
  by (induction xs) (auto simp: and_then_eq_Inr split: if_splits)

lemma filterM_Inr:
  "filterM f xs = Inr ys \<Longrightarrow> ys = filter (\<lambda>x. f x = Inr True) xs"
  by (induction xs arbitrary: ys) (auto simp: and_then_eq_Inr)

lemma routes_of_config [simp]: "routes_of (routes_config rs) = rs"
  by (simp add: routes_of_def routes_config_def get_prop_def)

lemma normalized_path:
  "normalizeAdvancedCustomRoute r = Inr n \<Longrightarrow> truthy (get_prop r (js ''incoming_path'')) \<Longrightarrow>
     get_prop n (js ''incoming_path'') = get_prop r (js ''incoming_path'')"
  by (auto simp: normalizeAdvancedCustomRoute_def and_then_eq_Inr read_prop_def Let_def js_or_def get_prop_def js_def
      split: if_splits)

lemma label_throws:
  assumes "truthy (get_prop r (js ''incoming_path''))" "\<not> is_string (get_prop r (js ''incoming_path''))"
  shows "getAdvancedCustomRouteSummaryLabel r = Inl TypeError"
  using assms
  by (cases "get_prop r (js ''incoming_path'')")
    (auto simp: getAdvancedCustomRouteSummaryLabel_def trimmed_path_def read_prop_def js_trim_def nullish_def is_string_def
      truthy_def)

lemma only_type_errors: "x \<noteq> Inl TypeError \<Longrightarrow> \<exists>y. x = Inr y"
  by (cases x) (metis js_error.exhaust, simp)

section \<open>Lemmas: what the editor offers\<close>

lemma default_auth_checks:
  "list_all (\<lambda>a. truthy a \<and> normalized_auth a = a \<and> validateRouteAuth a = Inr None)
     [bearerHeaderAuth, apiKeyHeaderAuth, geminiQueryAuth]"
  by code_simp

lemma default_auth:
  assumes "a \<in> {bearerHeaderAuth, apiKeyHeaderAuth, geminiQueryAuth}"
  shows "truthy a" "normalized_auth a = a" "auth_ok a"
  using assms default_auth_checks by (auto simp: validateRouteAuth_None)

lemma default_auth_cases:
  "cd_auth (getAdvancedCustomConverterDefaults c p) \<in> {bearerHeaderAuth, apiKeyHeaderAuth, geminiQueryAuth}"
  by (simp add: getAdvancedCustomConverterDefaults_def getAdvancedCustomNativeAuth_def Let_def)

lemma default_upstream:
  assumes "trim p = p" "p \<noteq> []"
  shows "cd_upstream_path (getAdvancedCustomConverterDefaults c p) \<in>
    {p, openAIChatPath, openAIResponsesPath, claudeMessagesPath, geminiGenerateContentPath}"
  using assms by (simp add: getAdvancedCustomConverterDefaults_def Let_def)

lemma upstream_constants:
  assumes "u \<in> {openAIChatPath, openAIResponsesPath, claudeMessagesPath, geminiGenerateContentPath}"
  shows "trim u = u" "u \<noteq> []" "starts_with (js ''/'') u" "\<not> starts_with (js ''//'') u"
  using assms
  by (auto simp: openAIChatPath_def openAIResponsesPath_def claudeMessagesPath_def geminiGenerateContentPath_def
      trim_def trim_start_def trim_end_def is_ws_def starts_with_def js_def)

lemma route_object_defined [simp]: "\<not> nullish (route_object inc u c ms auth)"
  by (simp add: route_object_def nullish_def)

lemma upstream_route_object: "trim u = u \<Longrightarrow> getAdvancedCustomRouteUpstreamPath (route_object inc u c ms auth) = Inr u"
  by (auto simp: getAdvancedCustomRouteUpstreamPath_def read_prop_def js_or_def js_trim_def truthy_def)

lemma normalized_route_object:
  assumes "truthy inc" "trim u = u" "truthy c" "truthy a" "normalized_auth a = a"
  shows "normalizeAdvancedCustomRoute (route_object inc u c [] (Some a)) = Inr (route_object inc u c [] (Some a))"
  using assms
  by (simp add: normalizeAdvancedCustomRoute_def upstream_route_object read_prop_def js_or_def Let_def
      normalizeAdvancedCustomRouteModels_def)
    (simp add: route_object_def)

lemma fields_route_object:
  assumes "trim p = p" "trim u = u" "truthy c"
  shows "route_fields (route_object (JStr p) u c [] auth) = Inr (p, u, c, [])"
  using assms
  by (simp add: route_fields_def upstream_route_object read_prop_def opt_trim_def js_trim_def nullish_def [of "JStr p"]
      js_or_def normalizeAdvancedCustomRouteModels_def)

lemma offered_route_valid:
  assumes p: "trim p = p" "check_incoming p = None" "\<not> isAdvancedCustomManagementPath p" "\<not> starts_with (js ''//'') p"
    and c: "c \<in> co_value ` set ADVANCED_CUSTOM_CONVERTER_OPTIONS" "isConverterPathAllowed p c"
  shows "validateAdvancedCustomConfig url (Some (routes_config [offered_route c p])) = Inr None"
proof -
  let ?d = "getAdvancedCustomConverterDefaults c p"
  define u a where ua: "u = cd_upstream_path ?d" "a = cd_auth ?d"
  let ?r = "route_object (JStr p) u (JStr c) [] (Some a)"
  have r: "offered_route c p = ?r" by (simp add: offered_route_def route_object_def Let_def ua)
  note a = default_auth [OF default_auth_cases, of c p, folded ua(2)]
  have pp: "p \<noteq> []" "starts_with (js ''/'') p" using p(2) by (simp_all add: check_incoming_None)
  have u: "trim u = u" "u \<noteq> []" "starts_with (js ''/'') u" "\<not> starts_with (js ''//'') u"
    using default_upstream [OF p(1) pp(1), of c] upstream_constants [of u] p(1,4) pp by (auto simp: ua(1))
  have cne: "truthy (JStr c)" using c(1) by (auto simp: ADVANCED_CUSTOM_CONVERTER_OPTIONS_def converter_option_def truthy_def js_def)
  have norm: "normalizeAdvancedCustomRoute ?r = Inr ?r"
    using pp(1) cne u(1) a by (intro normalized_route_object) (simp_all add: truthy_def)
  then have rs: "normalized_routes (routes_config [offered_route c p]) = Inr [?r]"
    by (simp add: normalized_routes_def normalizeAdvancedCustomConfig_def read_prop_def nullish_def r routes_config_def
        get_prop_def [of "JObj [(js ''advanced_routes'', JArr [route_object (JStr p) u (JStr c) [] (Some a)])]"])
      (simp add: routes_of_def get_prop_def)
  note f = fields_route_object [OF p(1) u(1) cne, of "Some a"]
  have "route_ok url ?r"
    unfolding route_ok_fields [OF f]
    using p(2,3) c u a(3)
    by (auto simp: check_upstream_None isFullHttpURLOrAbsolutePath_def)
  then show ?thesis
    using routes_loop_None [OF tracks_initial, of url 0 "[?r]"]
    by (simp add: validateAdvancedCustomConfig_def rs)
qed

lemma path_options_plain:
  "list_all (\<lambda>(p, l). trim p = p \<and> check_incoming p = None \<and> \<not> isAdvancedCustomManagementPath p
     \<and> \<not> starts_with (js ''//'') p) ADVANCED_CUSTOM_INCOMING_PATH_OPTIONS"
  by code_simp

lemma templates_valid:
  "list_all (\<lambda>t. validateAdvancedCustomConfig url (Some (tp_config t)) = Inr None) ADVANCED_CUSTOM_TEMPLATE_OPTIONS"
  by code_simp

section \<open>Properties\<close>

text \<open>
  C6. Validation accepts a configuration exactly when it has at least one route, every route is
  well formed on its own (path, upstream, converter, credentials, no repeated or empty model rule,
  management routes without models, converter or placeholder), and two routes for one path never
  compete: the earlier one names its models and shares none with the later one, so that a route
  without models is the last of its path.
\<close>

theorem validate_accepts_iff:
  "validateAdvancedCustomConfig url (Some c) = Inr None \<longleftrightarrow>
     (\<exists>rs. normalized_routes c = Inr rs \<and> rs \<noteq> [] \<and> list_all (route_ok url) rs \<and> sorted_wrt compatible rs)"
  using routes_loop_None [OF tracks_initial, of url 0]
  by (auto simp: validateAdvancedCustomConfig_def and_then_eq_Inr list_all_iff)

text \<open>
  C7. Saving and loading a configuration gives its normal form: for any configuration that came from
  JSON and that normalisation does not reject, the text the editor stores is read back as the
  normalised configuration.  Nothing else is lost, whatever the types of its fields.
\<close>

theorem custom_config_roundtrip:
  assumes "json_clean c" "normalizeAdvancedCustomConfig c = Inr n"
  shows "\<exists>t. stringifyAdvancedCustomConfig c = Inr t \<and> parseAdvancedCustomConfig (Some t) = Some n"
proof -
  obtain rs where rs: "n = routes_config rs" "list_all settled_route rs"
    using normalizeConfig_settled [OF assms] by blast
  have "json_parse (json_stringify_indented n) = Some (json_data n)"
    unfolding rs(1) by (rule json_roundtrip(2) [OF routes_config_printable [OF rs(2)]]) (simp add: routes_config_def)
  moreover have "truthy (json_data n)" "typeof_object (json_data n)" "\<not> is_array (json_data n)"
    unfolding rs(1) routes_config_data [OF rs(2)]
    by (simp_all add: routes_config_def truthy_def typeof_object_def is_array_def)
  moreover have "trim (json_stringify_indented n) \<noteq> []"
    unfolding rs(1) routes_config_def by (rule object_text_nonblank)
  ultimately show ?thesis
    using assms(2) normalizeConfig_data [OF rs(2)]
    by (simp add: stringifyAdvancedCustomConfig_def parseAdvancedCustomConfig_def rs(1))
qed

text \<open>
  What the editor offers passes validation: each template, the configuration it starts from, and
  for every converter and every path offered for it the route with the upstream path and the
  credentials filled in by default.
\<close>

lemma offered_configs_valid:
  "list_all (\<lambda>c. validateAdvancedCustomConfig url (Some c) = Inr None)
     (createAdvancedCustomConfig # map tp_config ADVANCED_CUSTOM_TEMPLATE_OPTIONS
      @ concat (map (\<lambda>converter. map (\<lambda>(path, label). routes_config [offered_route converter path])
          (getAdvancedCustomIncomingPathOptions converter)) (map co_value ADVANCED_CUSTOM_CONVERTER_OPTIONS)))"
proof -
  have "validateAdvancedCustomConfig url (Some createAdvancedCustomConfig) = Inr None"
    by code_simp
  then show ?thesis
    using templates_valid [of url] path_options_plain
    by (auto simp: list_all_iff getAdvancedCustomIncomingPathOptions_def intro!: offered_route_valid)
qed

text \<open>
  Saving the balance or model list route replaces the first route of that path and nothing else:
  the routes before and after it are as they were, and a route that is new goes to the end.
\<close>

lemma replace_management_route:
  assumes "normalized_routes c = Inr rs" "replaceAdvancedCustomManagementRoute c path (Some r) = Inr c'"
  shows "\<exists>pre old post. rs = pre @ old @ post \<and> routes_of c' = pre @ [management_route path r] @ post
     \<and> (\<forall>x\<in>set pre. at_path path x = Inr False) \<and> (\<forall>x\<in>set old. at_path path x = Inr True)
     \<and> length old = (if post = [] \<and> old = [] then 0 else 1)"
proof -
  obtain index where i: "find_indexM (at_path path) rs = Inr index"
    and c': "c' = routes_config (case index of Some i \<Rightarrow> rs[i := management_route path r]
      | None \<Rightarrow> rs @ [management_route path r])"
    using assms by (auto simp: replaceAdvancedCustomManagementRoute_def and_then_eq_Inr)
  show ?thesis
  proof (cases index)
    case None
    then show ?thesis using i c' by (intro exI [of _ rs] exI [of _ "[]"]) (simp add: find_indexM_None)
  next
    case (Some k)
    note k = find_indexM_Some [OF i [unfolded Some]]
    show ?thesis
      using k c' Some
      by (intro exI [of _ "take k rs"] exI [of _ "[rs ! k]"] exI [of _ "drop (Suc k) rs"])
        (simp add: id_take_nth_drop [symmetric] upd_conv_take_nth_drop)
  qed
qed

text \<open>
  Editing the forwarding routes keeps every management route, in order; the new routes stand
  together where the first forwarding route was, or at the end.
\<close>

lemma replace_forwarding_routes:
  assumes "normalized_routes c = Inr rs" "replaceAdvancedCustomForwardingRoutes c fs = Inr c'"
  shows "\<exists>before after. routes_of c' = before @ fs @ after
     \<and> before @ after = filter (\<lambda>r. at_management r = Inr True) rs
     \<and> before = takeWhile (\<lambda>r. at_management r = Inr True) rs"
proof -
  let ?m = "\<lambda>r. at_management r = Inr True"
  let ?f = "\<lambda>r. and_then (at_management r) (\<lambda>b. Inr (\<not> b))"
  have f: "?f r = Inr b \<longleftrightarrow> at_management r = Inr (\<not> b)" for r b by (auto simp: and_then_eq_Inr)
  obtain first where i: "find_indexM ?f rs = Inr first"
    and c': "c' = routes_config (case first of None \<Rightarrow> filter ?m rs @ fs
      | Some i \<Rightarrow> filter ?m (take i rs) @ fs @ filter ?m (drop i rs))"
    using assms
    by (force simp: replaceAdvancedCustomForwardingRoutes_def and_then_eq_Inr dest!: filterM_Inr
        split: option.split_asm)
  show ?thesis
  proof (cases first)
    case None
    then have "\<forall>r\<in>set rs. ?m r" using i by (simp add: find_indexM_None f)
    then have "filter ?m rs = rs" "rs = takeWhile ?m rs" by (simp_all add: takeWhile_eq_all_conv [THEN iffD2])
    then show ?thesis using c' None by (intro exI [of _ rs] exI [of _ "[]"]) auto
  next
    case (Some k)
    note k = find_indexM_Some [OF i [unfolded Some], unfolded f]
    have tk: "filter ?m (take k rs) = take k rs" using k(3) by simp
    have "takeWhile ?m rs = take k rs"
      using k nth_mem [of _ "take k rs"] by (intro takeWhile_eq_take_P_nth) auto
    moreover have "take k rs @ filter ?m (drop k rs) = filter ?m rs"
      using tk by (metis append_take_drop_id filter_append)
    ultimately show ?thesis using c' Some tk by auto
  qed
qed

text \<open>
  A stored configuration whose \<open>incoming_path\<close> is not a string is parsed, and then the statistics the
  channel dialog shows throw.
\<close>

lemma stats_throw_on_non_string_path:
  assumes "parseAdvancedCustomConfig v = Some c" "r \<in> set (routes_of c)"
    "truthy (get_prop r (js ''incoming_path''))" "\<not> is_string (get_prop r (js ''incoming_path''))"
  shows "getAdvancedCustomStats url v = Inl TypeError"
proof (rule ccontr)
  assume "getAdvancedCustomStats url v \<noteq> Inl TypeError"
  then obtain n labels where n: "normalizeAdvancedCustomConfig c = Inr n"
    and labels: "mapM getAdvancedCustomRouteSummaryLabel (routes_of n) = Inr labels"
    using only_type_errors [of "getAdvancedCustomStats url v"] assms(1)
    by (auto simp: getAdvancedCustomStats_def and_then_eq_Inr)
  obtain ns where "n = routes_config ns" "list_all2 (\<lambda>r m. normalizeAdvancedCustomRoute r = Inr m) (routes_of c) ns"
    using n assms(2)
    by (auto simp: normalizeAdvancedCustomConfig_def routes_of_def and_then_eq_Inr read_prop_def mapM_Inr
        split: if_splits jsval.splits)
  then obtain m where m: "m \<in> set (routes_of n)" "normalizeAdvancedCustomRoute r = Inr m"
    using assms(2) list_all2_member [of "\<lambda>m r. normalizeAdvancedCustomRoute r = Inr m" ns "routes_of c" r]
    by (auto simp: list_all2_conv_all_nth)
  have "getAdvancedCustomRouteSummaryLabel m = Inl TypeError"
    using label_throws [of m] normalized_path [OF m(2) assms(3)] assms(3,4) by simp
  moreover obtain l where "getAdvancedCustomRouteSummaryLabel m = Inr l"
    using labels m(1) list_all2_member [of "\<lambda>l r. getAdvancedCustomRouteSummaryLabel r = Inr l" labels "routes_of n" m]
    by (auto simp: mapM_Inr list_all2_conv_all_nth)
  ultimately show False by simp
qed


section \<open>Witnesses\<close>

definition sample_config :: jsval where
  "sample_config = routes_config
     [JObj [(js ''incoming_path'', JStr (js ''/v1/messages'')), (js ''upstream_path'', JStr (js '' /v1/messages '')),
        (js ''auth'', apiKeyHeaderAuth)]]"

definition sample_normal :: jsval where
  "sample_normal = routes_config
     [route_object (JStr (js ''/v1/messages'')) (js ''/v1/messages'') (JStr (js ''none'')) [] (Some apiKeyHeaderAuth)]"

lemma sample_normalized: "normalizeAdvancedCustomConfig sample_config = Inr sample_normal"
  by code_simp

lemma sample_routes: "normalized_routes sample_config = Inr (routes_of sample_normal)"
  by (simp add: normalized_routes_def sample_normalized)

theorem custom_config_roundtrip_witness:
  "\<exists>t. stringifyAdvancedCustomConfig sample_config = Inr t \<and> parseAdvancedCustomConfig (Some t) = Some sample_normal"
proof (rule custom_config_roundtrip)
  show "json_clean sample_config"
    by (simp add: json_clean_def sample_config_def routes_config_def apiKeyHeaderAuth_def route_auth_def
        json_data.simps [of "JObj _"] json_data.simps [of "JArr _"]
        json_printable.simps [of "JObj _"] json_printable.simps [of "JArr _"] json_printable.simps [of "JStr _"]
        own_key_order is_index_def is_digit_def js_def code_units_def)
  show "normalizeAdvancedCustomConfig sample_config = Inr sample_normal" by (rule sample_normalized)
qed

definition bad_path_text :: jsstr where
  "bad_path_text = js ''{\"advanced_routes\":[{\"incoming_path\":5}]}''"

definition bad_path_route :: jsval where
  "bad_path_route = route_object (JNum (Fin 5)) [] (JStr (js ''none'')) [] None"

lemma bad_path_parsed: "parseAdvancedCustomConfig (Some bad_path_text) = Some (routes_config [bad_path_route])"
  by code_simp

text \<open>Such a text is stored and parsed, and then its statistics throw.\<close>

lemma bad_path_throws: "getAdvancedCustomStats (\<lambda>_. None) (Some bad_path_text) = Inl TypeError"
  using stats_throw_on_non_string_path [OF bad_path_parsed, of bad_path_route]
  by (simp add: bad_path_route_def truthy_def is_string_def num_zero_def)

end
