(* ===== verification/ChannelFormProofs.thy ===== *)
theory ChannelFormProofs
  imports ChannelForm AdvancedCustomProofs
begin

text \<open>
  Channel forms: what is saved is loaded again, what a payload contains, and when the checks across
  fields accept a form.
\<close>

section \<open>Lemmas: the extra settings\<close>

text \<open>The extra settings of a form as the schema types them.\<close>

definition opt_bool :: "jsval \<Rightarrow> bool" where
  "opt_bool v \<longleftrightarrow> v \<in> {JUndef, JBool False, JBool True}"

definition opt_text :: "jsval \<Rightarrow> bool" where
  "opt_text v \<longleftrightarrow> v = JUndef \<or> (\<exists>s. v = JStr s \<and> code_units s)"

definition opt_number :: "jsval \<Rightarrow> bool" where
  "opt_number v \<longleftrightarrow> v = JUndef \<or> (\<exists>x. v = JNum x \<and> json_clean v)"

definition typed_row :: "jsval \<Rightarrow> bool" where
  "typed_row item \<longleftrightarrow>
     (\<exists>m. fld item ''model'' = JStr m \<and> code_units m) \<and> list_all (\<lambda>k. opt_number (fld item k)) price_fields"

definition typed_extra :: "jsval \<Rightarrow> bool" where
  "typed_extra f \<longleftrightarrow>
     opt_bool (fld f ''force_format'') \<and> opt_bool (fld f ''thinking_to_content'')
     \<and> opt_bool (fld f ''pass_through_body_enabled'') \<and> opt_bool (fld f ''system_prompt_override'')
     \<and> opt_text (fld f ''proxy'') \<and> opt_text (fld f ''system_prompt'')
     \<and> fld f ''http_protocol'' \<in> {JUndef, JStr HTTP_PROTOCOL_AUTO, JStr HTTP_PROTOCOL_HTTP1}
     \<and> opt_number (fld f ''http2_connection_shards'')
     \<and> (fld f ''pbr_prices'' = JUndef \<or> (\<exists>rows. fld f ''pbr_prices'' = JArr rows \<and> list_all typed_row rows))"

text \<open>What a form stands for: absent fields have their defaults, the number of shards is clamped.\<close>

definition text_of :: "jsval \<Rightarrow> jsstr" where
  "text_of v = (case v of JStr s \<Rightarrow> s | _ \<Rightarrow> [])"

definition protocol_of :: "jsval \<Rightarrow> jsstr" where
  "protocol_of f = (if fld f ''http_protocol'' = JStr HTTP_PROTOCOL_HTTP1 then HTTP_PROTOCOL_HTTP1 else HTTP_PROTOCOL_AUTO)"

definition shards_of :: "jsval \<Rightarrow> jsnum" where
  "shards_of f =
     (if protocol_of f = HTTP_PROTOCOL_HTTP1 then Fin 1
      else (case fld f ''http2_connection_shards'' of
          JNum x \<Rightarrow> if num_lt x (Fin 1) then Fin 1 else if num_lt (Fin 8) x then Fin 8 else x
        | _ \<Rightarrow> Fin 1))"

definition prices_of :: "jsval \<Rightarrow> jsval list" where
  "prices_of f =
     (case fld f ''pbr_prices'' of
        JArr rows \<Rightarrow> map stored_row (filter kept_row (map (\<lambda>r. (trim (text_of (fld r ''model'')), r)) rows))
      | _ \<Rightarrow> [])"

definition loaded_extra ::
  "jsval \<Rightarrow> jsval \<Rightarrow> jsstr \<Rightarrow> jsstr \<Rightarrow> jsnum \<Rightarrow> jsval \<Rightarrow> jsstr \<Rightarrow> jsval \<Rightarrow> jsval list \<Rightarrow> (jsstr \<times> jsval) list" where
  "loaded_extra force think proxy protocol shards pass prompt override prices =
     [(js ''force_format'', force), (js ''thinking_to_content'', think), (js ''proxy'', JStr proxy),
      (js ''http_protocol'', JStr protocol), (js ''http2_connection_shards'', JNum shards),
      (js ''pass_through_body_enabled'', pass), (js ''system_prompt'', JStr prompt),
      (js ''system_prompt_override'', override), (js ''pbr_prices'', JArr prices)]"

definition saved_extra :: "jsval \<Rightarrow> (jsstr \<times> jsval) list" where
  "saved_extra f =
     loaded_extra (is_true (fld f ''force_format'')) (is_true (fld f ''thinking_to_content''))
       (trim (text_of (fld f ''proxy''))) (protocol_of f) (shards_of f)
       (is_true (fld f ''pass_through_body_enabled'')) (text_of (fld f ''system_prompt''))
       (is_true (fld f ''system_prompt_override'')) (prices_of f)"

definition transport_of :: "jsstr \<Rightarrow> jsnum \<Rightarrow> (jsstr \<times> jsval) list" where
  "transport_of protocol shards =
     (if protocol = HTTP_PROTOCOL_HTTP1 then [(js ''http_protocol'', JStr HTTP_PROTOCOL_HTTP1)]
      else if num_lt (Fin 1) shards then [(js ''http2_connection_shards'', JNum shards)] else [])"

definition setting_value ::
  "jsval \<Rightarrow> jsval \<Rightarrow> jsstr \<Rightarrow> jsstr \<Rightarrow> jsnum \<Rightarrow> jsval \<Rightarrow> jsstr \<Rightarrow> jsval \<Rightarrow> jsval list \<Rightarrow> jsval" where
  "setting_value force think proxy protocol shards pass prompt override prices =
     JObj ([(js ''force_format'', force), (js ''thinking_to_content'', think), (js ''proxy'', JStr proxy),
        (js ''pass_through_body_enabled'', pass), (js ''system_prompt'', JStr prompt),
        (js ''system_prompt_override'', override)]
       @ (if prices = [] then [] else [(js ''pbr_prices'', JArr prices)]) @ transport_of protocol shards)"

definition row_object :: "jsstr \<Rightarrow> jsnum \<Rightarrow> jsnum \<Rightarrow> jsnum \<Rightarrow> jsnum \<Rightarrow> jsval" where
  "row_object m a b c d =
     JObj [(js ''model'', JStr m), (js ''input'', JNum a), (js ''output'', JNum b), (js ''cache_read'', JNum c),
       (js ''cache_write'', JNum d)]"

definition good_row :: "jsval \<Rightarrow> bool" where
  "good_row r \<longleftrightarrow>
     (\<exists>m a b c d. r = row_object m a b c d \<and> code_units m \<and> trim m = m \<and> m \<noteq> []
        \<and> list_all (\<lambda>x. json_clean (JNum x)) [a, b, c, d])"

text \<open>The values that saving a form gives.\<close>

definition saved_shape :: "jsval \<Rightarrow> jsval \<Rightarrow> jsstr \<Rightarrow> jsstr \<Rightarrow> jsnum \<Rightarrow> jsval \<Rightarrow> jsstr \<Rightarrow> jsval \<Rightarrow> jsval list \<Rightarrow> bool" where
  "saved_shape force think proxy protocol shards pass prompt override prices \<longleftrightarrow>
     set [force, think, pass, override] \<subseteq> {JBool False, JBool True}
     \<and> code_units proxy \<and> trim proxy = proxy \<and> code_units prompt
     \<and> protocol \<in> {HTTP_PROTOCOL_AUTO, HTTP_PROTOCOL_HTTP1}
     \<and> json_clean (JNum shards) \<and> num_le (Fin 1) shards \<and> num_le shards (Fin 8)
     \<and> (protocol = HTTP_PROTOCOL_HTTP1 \<longrightarrow> shards = Fin 1)
     \<and> list_all good_row prices"

lemma http1_auto [simp]: "HTTP_PROTOCOL_HTTP1 \<noteq> HTTP_PROTOCOL_AUTO" "HTTP_PROTOCOL_AUTO \<noteq> HTTP_PROTOCOL_HTTP1"
  by (simp_all add: HTTP_PROTOCOL_HTTP1_def HTTP_PROTOCOL_AUTO_def js_def)

lemma normalize_protocol [simp]:
  "normalizeHttpProtocol JUndef = Inr HTTP_PROTOCOL_AUTO"
  "normalizeHttpProtocol (JStr HTTP_PROTOCOL_AUTO) = Inr HTTP_PROTOCOL_AUTO"
  "normalizeHttpProtocol (JStr HTTP_PROTOCOL_HTTP1) = Inr HTTP_PROTOCOL_HTTP1"
  by code_simp+

lemma normalize_shards:
  "normalizeHttp2ConnectionShards (JNum (Fin q)) =
     Inr (JNum (if num_lt (Fin q) (Fin 1) then Fin 1 else if num_lt (Fin 8) (Fin q) then Fin 8 else Fin q))"
  by (auto simp: normalizeHttp2ConnectionShards_def nullish_def js_less_def js_greater_def js_number_def
      MAX_HTTP2_CONNECTION_SHARDS_def)

lemma or_false_bool: "opt_bool v \<Longrightarrow> or_false v = is_true v"
  by (auto simp: opt_bool_def or_false_def is_true_def js_or_def truthy_def)

lemma opt_text_trim: "opt_text v \<Longrightarrow> opt_trim v = Inr (trim (text_of v)) \<and> code_units (text_of v)"
  by (auto simp: opt_text_def opt_trim_def text_of_def nullish_def js_trim_def code_units_def)

lemma opt_text_or: "opt_text v \<Longrightarrow> or_text v '''' = JStr (text_of v)"
  by (auto simp: opt_text_def or_text_def text_of_def js_or_def truthy_def js_def)

lemma protocol_typed: "typed_extra f \<Longrightarrow> normalizeHttpProtocol (fld f ''http_protocol'') = Inr (protocol_of f)"
  by (auto simp: typed_extra_def protocol_of_def)

lemma shards_typed:
  assumes "typed_extra f" "protocol_of f \<noteq> HTTP_PROTOCOL_HTTP1"
  shows "normalizeHttp2ConnectionShards (fld f ''http2_connection_shards'') = Inr (JNum (shards_of f))"
proof -
  consider "fld f ''http2_connection_shards'' = JUndef" | q where "fld f ''http2_connection_shards'' = JNum (Fin q)"
    using assms(1) by (auto simp: typed_extra_def opt_number_def)
  then show ?thesis
    using assms(2)
    by cases (simp_all add: shards_of_def normalize_shards, simp add: normalizeHttp2ConnectionShards_def nullish_def)
qed

lemma transport_typed: "typed_extra f \<Longrightarrow> transport_entries f = Inr (transport_of (protocol_of f) (shards_of f))"
  by (simp add: transport_entries_def protocol_typed shards_typed transport_of_def js_greater_def js_number_def)

lemma prices_typed:
  assumes "typed_extra f"
  shows "channel_prices (fld f ''pbr_prices'') = Inr (prices_of f)"
proof (cases "fld f ''pbr_prices'' = JUndef")
  case True
  then show ?thesis by (simp add: channel_prices_def prices_of_def nullish_def)
next
  case False
  then obtain rows where rows: "fld f ''pbr_prices'' = JArr rows" "list_all typed_row rows"
    using assms by (auto simp: typed_extra_def)
  have "trimmed_row r = Inr (trim (text_of (fld r ''model'')), r)" if "typed_row r" for r
    using that
    by (cases r) (auto simp: typed_row_def trimmed_row_def read_prop_def fld_def js_trim_def text_of_def nullish_def get_prop_def)
  then have "mapM trimmed_row rows = Inr (map (\<lambda>r. (trim (text_of (fld r ''model'')), r)) rows)"
    using rows(2) by (induction rows) auto
  then show ?thesis using rows(1) by (simp add: channel_prices_def prices_of_def nullish_def)
qed

lemma setting_object_typed:
  assumes "typed_extra f"
  shows "setting_object f = Inr (setting_value (is_true (fld f ''force_format'')) (is_true (fld f ''thinking_to_content''))
       (trim (text_of (fld f ''proxy''))) (protocol_of f) (shards_of f)
       (is_true (fld f ''pass_through_body_enabled'')) (text_of (fld f ''system_prompt''))
       (is_true (fld f ''system_prompt_override'')) (prices_of f))"
proof -
  have "opt_bool (fld f ''force_format'')" "opt_bool (fld f ''thinking_to_content'')"
    "opt_bool (fld f ''pass_through_body_enabled'')" "opt_bool (fld f ''system_prompt_override'')"
    "opt_text (fld f ''proxy'')" "opt_text (fld f ''system_prompt'')"
    using assms by (simp_all add: typed_extra_def)
  then show ?thesis
    by (simp add: setting_object_def or_false_bool opt_text_trim opt_text_or prices_typed [OF assms]
        transport_typed [OF assms] setting_value_def)
qed

lemma get_row_object [simp]:
  "fld (row_object m a b c d) ''model'' = JStr m" "fld (row_object m a b c d) ''input'' = JNum a"
  "fld (row_object m a b c d) ''output'' = JNum b" "fld (row_object m a b c d) ''cache_read'' = JNum c"
  "fld (row_object m a b c d) ''cache_write'' = JNum d"
  by (simp_all add: row_object_def fld_def get_prop_def js_def)

lemma stored_row_object:
  assumes "list_all (\<lambda>k. opt_number (fld r k)) price_fields"
  shows "\<exists>a b c d. stored_row (m, r) = row_object m a b c d \<and> list_all (\<lambda>x. json_clean (JNum x)) [a, b, c, d]"
proof -
  have "\<exists>x. or_zero v = JNum x \<and> json_clean (JNum x)" if "opt_number v" for v
    using that by (auto simp: opt_number_def or_zero_def nullish_def)
  then show ?thesis using assms by (simp add: stored_row_def row_object_def price_fields_def) metis
qed

lemma good_rowI:
  "code_units m \<Longrightarrow> trim m = m \<Longrightarrow> m \<noteq> [] \<Longrightarrow> list_all (\<lambda>x. json_clean (JNum x)) [a, b, c, d] \<Longrightarrow>
     good_row (row_object m a b c d)"
  unfolding good_row_def by blast

lemma prices_good:
  assumes "typed_extra f"
  shows "list_all good_row (prices_of f)"
proof (cases "fld f ''pbr_prices'' = JUndef")
  case True
  then show ?thesis by (simp add: prices_of_def)
next
  case False
  then obtain rows where rows: "fld f ''pbr_prices'' = JArr rows" "list_all typed_row rows"
    using assms by (auto simp: typed_extra_def)
  have "good_row (stored_row (trim (text_of (fld r ''model'')), r))"
    if r: "r \<in> set rows" "kept_row (trim (text_of (fld r ''model'')), r)" for r
  proof -
    have "typed_row r" using rows(2) r(1) by (simp add: list_all_iff)
    then have "code_units (trim (text_of (fld r ''model'')))" "list_all (\<lambda>k. opt_number (fld r k)) price_fields"
      by (auto simp: typed_row_def text_of_def code_units_trim)
    moreover have "trim (text_of (fld r ''model'')) \<noteq> []" using r(2) by (simp add: kept_row_def)
    ultimately show ?thesis
      using stored_row_object [of r "trim (text_of (fld r ''model''))"] good_rowI by (metis trim_trim)
  qed
  then show ?thesis using rows(1) by (auto simp: prices_of_def list_all_iff)
qed

lemma shards_in_range:
  assumes "typed_extra f"
  shows "\<exists>q. shards_of f = Fin q \<and> representable q \<and> 1 \<le> q \<and> q \<le> 8"
proof -
  consider "fld f ''http2_connection_shards'' = JUndef"
    | q where "fld f ''http2_connection_shards'' = JNum (Fin q)" "representable q"
    using assms by (auto simp: typed_extra_def opt_number_def)
  then show ?thesis by cases (auto simp: shards_of_def)
qed

lemma saved_shape_typed:
  assumes "typed_extra f"
  shows "saved_shape (is_true (fld f ''force_format'')) (is_true (fld f ''thinking_to_content''))
       (trim (text_of (fld f ''proxy''))) (protocol_of f) (shards_of f)
       (is_true (fld f ''pass_through_body_enabled'')) (text_of (fld f ''system_prompt''))
       (is_true (fld f ''system_prompt_override'')) (prices_of f)"
proof -
  have "code_units (text_of (fld f ''proxy''))" "code_units (text_of (fld f ''system_prompt''))"
    using assms opt_text_trim by (auto simp: typed_extra_def)
  moreover have "protocol_of f = HTTP_PROTOCOL_HTTP1 \<Longrightarrow> shards_of f = Fin 1" by (simp add: shards_of_def)
  moreover have "protocol_of f \<in> {HTTP_PROTOCOL_AUTO, HTTP_PROTOCOL_HTTP1}" by (simp add: protocol_of_def)
  ultimately show ?thesis
    using shards_in_range [OF assms] prices_good [OF assms]
    by (auto simp: saved_shape_def is_true_def code_units_trim num_le_def)
qed

lemma good_row_clean:
  assumes "good_row r"
  shows "json_clean r \<and> r \<noteq> JUndef"
proof -
  obtain m a b c d where r: "r = row_object m a b c d" "code_units m" "list_all (\<lambda>x. json_clean (JNum x)) [a, b, c, d]"
    using assms by (auto simp: good_row_def)
  show ?thesis
    unfolding r(1) row_object_def using r(2,3)
    by (intro conjI json_clean_objI) (auto simp: js_def plain_key_def is_index_def is_digit_def code_units_def)
qed

lemma setting_value_clean:
  assumes "saved_shape force think proxy protocol shards pass prompt override prices"
  shows "json_clean (setting_value force think proxy protocol shards pass prompt override prices)"
proof -
  have "json_clean (JArr prices)"
    using assms good_row_clean by (intro json_clean_arrI) (auto simp: saved_shape_def list_all_iff)
  moreover have "json_clean (JNum shards)" "code_units HTTP_PROTOCOL_HTTP1"
    using assms by (auto simp: saved_shape_def HTTP_PROTOCOL_HTTP1_def js_def code_units_def)
  ultimately show ?thesis
    using assms unfolding setting_value_def saved_shape_def
    by (intro json_clean_objI)
      (auto simp: transport_of_def js_def plain_key_def is_index_def is_digit_def code_units_def)
qed

text \<open>Reading the text of a saved form, and saving what was read.\<close>

lemma get_setting_value [simp]:
  "fld (setting_value force think proxy protocol shards pass prompt override prices) ''force_format'' = force"
  "fld (setting_value force think proxy protocol shards pass prompt override prices) ''thinking_to_content'' = think"
  "fld (setting_value force think proxy protocol shards pass prompt override prices) ''proxy'' = JStr proxy"
  "fld (setting_value force think proxy protocol shards pass prompt override prices) ''pass_through_body_enabled'' = pass"
  "fld (setting_value force think proxy protocol shards pass prompt override prices) ''system_prompt'' = JStr prompt"
  "fld (setting_value force think proxy protocol shards pass prompt override prices) ''system_prompt_override'' = override"
  "fld (setting_value force think proxy protocol shards pass prompt override prices) ''pbr_prices'' =
     (if prices = [] then JUndef else JArr prices)"
  "fld (setting_value force think proxy protocol shards pass prompt override prices) ''http_protocol'' =
     (if protocol = HTTP_PROTOCOL_HTTP1 then JStr HTTP_PROTOCOL_HTTP1 else JUndef)"
  "fld (setting_value force think proxy protocol shards pass prompt override prices) ''http2_connection_shards'' =
     (if protocol \<noteq> HTTP_PROTOCOL_HTTP1 \<and> num_lt (Fin 1) shards then JNum shards else JUndef)"
  by (simp_all add: setting_value_def transport_of_def fld_def get_prop_def js_def)

lemma read_setting_value:
  assumes "saved_shape force think proxy protocol shards pass prompt override prices"
  shows "read_extra_settings (setting_value force think proxy protocol shards pass prompt override prices) =
    Inr (loaded_extra force think proxy protocol shards pass prompt override prices)"
proof -
  let ?v = "setting_value force think proxy protocol shards pass prompt override prices"
  obtain q where q: "shards = Fin q" "1 \<le> q" "q \<le> 8"
    using assms by (auto simp: saved_shape_def num_le_def)
  have p: "protocol = HTTP_PROTOCOL_HTTP1 \<or> protocol = HTTP_PROTOCOL_AUTO" "protocol = HTTP_PROTOCOL_HTTP1 \<Longrightarrow> q = 1"
    using assms q by (auto simp: saved_shape_def)
  have nn: "\<not> nullish ?v" by (simp add: setting_value_def nullish_def)
  have proto: "and_then (read_prop ?v ''http_protocol'') normalizeHttpProtocol = Inr protocol"
    using p(1) nn by (auto simp: read_prop_def fld_def [symmetric])
  have shards: "normalizeHttp2ConnectionShards (fld ?v ''http2_connection_shards'') = Inr (JNum shards)"
    using q p
    by (auto simp: normalize_shards) (auto simp: normalizeHttp2ConnectionShards_def nullish_def)
  have bool: "or_false b = b" if "b \<in> {JBool False, JBool True}" for b
    using that by (auto simp: or_false_def js_or_def truthy_def)
  have texts: "or_text (JStr s) '''' = JStr s" for s
    by (simp add: or_text_def js_or_def truthy_def js_def)
  have "or_false force = force" "or_false think = think" "or_false pass = pass" "or_false override = override"
    using assms by (auto simp: saved_shape_def intro!: bool)
  moreover have "(if protocol = HTTP_PROTOCOL_HTTP1 then JNum (Fin 1) else JNum shards) = JNum shards"
    using p q by simp
  ultimately show ?thesis
    unfolding read_extra_settings_def proto and_then_Inr shards
    by (simp add: texts loaded_extra_def is_array_def)
qed

lemma good_rows_kept:
  assumes "list_all good_row rows"
  shows "channel_prices (JArr rows) = Inr rows"
proof -
  have row: "trimmed_row r = Inr (text_of (fld r ''model''), r) \<and> kept_row (text_of (fld r ''model''), r)
      \<and> stored_row (text_of (fld r ''model''), r) = r" if r: "good_row r" for r
  proof -
    obtain m a b c d where r: "r = row_object m a b c d" "trim m = m" "m \<noteq> []"
      using r by (auto simp: good_row_def)
    have "\<not> nullish r" by (simp add: r(1) row_object_def nullish_def)
    then show ?thesis
      using r
      by (auto simp: trimmed_row_def read_prop_def fld_def [symmetric] js_trim_def text_of_def kept_row_def price_fields_def
          stored_row_def or_zero_def nullish_def) (simp add: row_object_def)
  qed
  have "mapM trimmed_row rows = Inr (map (\<lambda>r. (text_of (fld r ''model''), r)) rows)"
    using assms row by (induction rows) auto
  moreover have "map stored_row (filter kept_row (map (\<lambda>r. (text_of (fld r ''model''), r)) rows)) = rows"
    using assms row by (induction rows) auto
  ultimately show ?thesis by (simp add: channel_prices_def nullish_def)
qed

lemma resave:
  assumes "saved_shape force think proxy protocol shards pass prompt override prices"
    and "list_all (\<lambda>(k, v). get_prop g k = v) (loaded_extra force think proxy protocol shards pass prompt override prices)"
  shows "setting_object g = Inr (setting_value force think proxy protocol shards pass prompt override prices)"
proof -
  have g: "fld g ''force_format'' = force" "fld g ''thinking_to_content'' = think" "fld g ''proxy'' = JStr proxy"
    "fld g ''http_protocol'' = JStr protocol" "fld g ''http2_connection_shards'' = JNum shards"
    "fld g ''pass_through_body_enabled'' = pass" "fld g ''system_prompt'' = JStr prompt"
    "fld g ''system_prompt_override'' = override" "fld g ''pbr_prices'' = JArr prices"
    using assms(2) by (simp_all add: loaded_extra_def fld_def)
  obtain q where q: "shards = Fin q" "1 \<le> q" "q \<le> 8"
    using assms(1) by (auto simp: saved_shape_def num_le_def)
  have p: "protocol = HTTP_PROTOCOL_HTTP1 \<or> protocol = HTTP_PROTOCOL_AUTO"
    using assms(1) by (auto simp: saved_shape_def)
  have tr: "transport_entries g = Inr (transport_of protocol shards)"
    using p q by (auto simp: transport_entries_def g normalize_shards transport_of_def js_greater_def js_number_def)
  have bool: "or_false b = b" if "b \<in> {JBool False, JBool True}" for b
    using that by (auto simp: or_false_def js_or_def truthy_def)
  have px: "opt_trim (JStr proxy) = Inr proxy" "or_text (JStr prompt) '''' = JStr prompt"
    using assms(1) by (auto simp: saved_shape_def opt_trim_def nullish_def js_trim_def or_text_def js_or_def truthy_def js_def)
  have "channel_prices (JArr prices) = Inr prices"
    using assms(1) by (intro good_rows_kept) (simp add: saved_shape_def)
  moreover have "or_false force = force" "or_false think = think" "or_false pass = pass" "or_false override = override"
    using assms(1) by (auto simp: saved_shape_def intro!: bool)
  ultimately show ?thesis by (simp add: setting_object_def g tr px setting_value_def)
qed

lemma form_extra_fields:
  assumes "transformChannelToFormDefaults channel = Inr g"
    "extra_settings (fld channel ''setting'') = loaded_extra force think proxy protocol shards pass prompt override prices"
  shows "list_all (\<lambda>(k, v). get_prop g k = v) (loaded_extra force think proxy protocol shards pass prompt override prices)"
  using assms
  by (auto simp: transformChannelToFormDefaults_def and_then_eq_Inr loaded_extra_def get_prop_def js_def)

lemma setting_text_nonempty: "json_stringify (JObj es) \<noteq> []"
  by (simp add: json_stringify_def json_text.simps [of _ _ "JObj _"] json_wrap_def)

section \<open>Lemmas: payloads\<close>

lemma key_entry_Inr: "key_entry v = Inr es \<Longrightarrow> es = (if nonblank_text v then [(js ''key'', v)] else [])"
  by (cases v) (auto simp: key_entry_def nonblank_text_def js_trim_def and_then_eq_Inr truthy_def split: if_splits)

definition update_fields :: "jsval \<Rightarrow> jsval \<Rightarrow> jsstr \<Rightarrow> jsstr \<Rightarrow> jsstr \<Rightarrow> (jsstr \<times> jsval) list" where
  "update_fields f channelId base_url setting settings =
     foldl (\<lambda>es k. map_set (js k) (or_text (fld f k) '''') es)
       (map_set (js ''base_url'') (JStr base_url) (null_if_empty
         ([(js ''id'', channelId), (js ''name'', fld f ''name''), (js ''type'', fld f ''type''),
           (js ''base_url'', or_nothing (JStr base_url))]
          @ channel_fields f setting settings []
          @ (if nonblank_text (fld f ''key'') then [(js ''key'', fld f ''key'')] else [])))) cleared_fields"

lemma update_payload_fields:
  assumes "transformFormDataToUpdatePayload f channelId = Inr p"
  shows "\<exists>base_url setting settings. p = JObj (update_fields f channelId base_url setting settings)"
proof -
  obtain a b c key where "p = JObj (foldl (\<lambda>es k. map_set (js k) (or_text (fld f k) '''') es)
       (map_set (js ''base_url'') (JStr a) (null_if_empty
         ([(js ''id'', channelId), (js ''name'', fld f ''name''), (js ''type'', fld f ''type''),
           (js ''base_url'', or_nothing (JStr a))] @ channel_fields f b c [] @ key))) cleared_fields)"
    and "key_entry (fld f ''key'') = Inr key"
    using assms by (auto simp: transformFormDataToUpdatePayload_def and_then_eq_Inr Let_def)
  then have "p = JObj (update_fields f channelId a b c)"
    using key_entry_Inr by (simp add: update_fields_def)
  then show ?thesis by blast
qed

lemma null_if_empty_keys [simp]: "fst ` set (null_if_empty es) = fst ` set es"
  by (force simp: null_if_empty_def)

lemma map_of_null_if_empty [simp]:
  "map_of (null_if_empty es) k = map_option (\<lambda>v. if v = JStr [] then JNull else v) (map_of es k)"
  by (simp add: null_if_empty_def map_of_map)

lemma foldl_map_set_keys [simp]:
  "fst ` set (foldl (\<lambda>es k. map_set (js k) (h k) es) es ks) = js ` set ks \<union> fst ` set es"
  by (induction ks arbitrary: es) auto

lemma foldl_map_set_of [simp]:
  "map_of (foldl (\<lambda>es k. map_set (js k) (h k) es) es ks) (js k) =
     (if k \<in> set ks then Some (h k) else map_of es (js k))"
  by (induction ks arbitrary: es) auto

lemma foldl_map_set_other:
  "k \<notin> js ` set ks \<Longrightarrow> map_of (foldl (\<lambda>es k. map_set (js k) (h k) es) es ks) k = map_of es k"
  by (induction ks arbitrary: es) auto

section \<open>Lemmas: the type-specific settings\<close>

lemma map_set_same: "map_of m k = Some v \<Longrightarrow> map_set k v m = m"
  by (induction k v m rule: map_set.induct) (auto split: if_splits)

lemma map_delete_absent: "map_of m k = None \<Longrightarrow> map_delete k m = m"
  by (induction m) (auto simp: map_delete_def split: if_splits)

definition rule_holds :: "(jsstr \<times> jsval) list \<Rightarrow> bool \<times> string \<times> jsval \<Rightarrow> bool" where
  "rule_holds es rule \<longleftrightarrow> (case rule of (present, k, v) \<Rightarrow> map_of es (js k) = (if present then Some v else None))"

lemma put_or_drop_of:
  "map_of (put_or_drop es (present, k, v)) k' =
     (if k' = js k then if present then Some v else None else map_of es k')"
  by (simp add: put_or_drop_def map_of_map_delete)

lemma put_or_drop_other:
  "k \<notin> (\<lambda>r. js (fst (snd r))) ` set rules \<Longrightarrow> map_of (foldl put_or_drop es rules) k = map_of es k"
  by (induction rules arbitrary: es) (auto simp: put_or_drop_of)

lemma put_or_drop_holds:
  assumes "distinct (map (\<lambda>r. fst (snd r)) rules)"
  shows "list_all (rule_holds (foldl put_or_drop es rules)) rules"
  using assms
proof (induction rules arbitrary: es)
  case (Cons rule rules)
  obtain present k v where r: "rule = (present, k, v)" by (cases rule) auto
  have "js k \<notin> (\<lambda>r. js (fst (snd r))) ` set rules" using Cons.prems by (force simp: r)
  from put_or_drop_other [OF this] show ?case
    using Cons by (simp add: r rule_holds_def put_or_drop_of)
qed simp

lemma put_or_drop_fixed: "list_all (rule_holds es) rules \<Longrightarrow> foldl put_or_drop es rules = es"
proof (induction rules)
  case (Cons rule rules)
  obtain present k v where r: "rule = (present, k, v)" by (cases rule) auto
  have "put_or_drop es rule = es"
    using Cons.prems by (auto simp: r rule_holds_def put_or_drop_def map_set_same map_delete_absent split: if_splits)
  then show ?case using Cons by simp
qed simp

definition rule_keys :: "string list" where
  "rule_keys = [''vertex_key_type'', ''azure_responses_version'', ''protocol'', ''openrouter_enterprise'', ''aws_key_type'',
     ''allow_service_tier'', ''disable_store'', ''allow_safety_identifier'', ''allow_include_obfuscation'',
     ''allow_inference_geo'', ''allow_speed'', ''claude_beta_query'']"

definition update_keys :: "string list" where
  "update_keys = [''upstream_model_update_check_enabled'', ''upstream_model_update_auto_sync_enabled'',
     ''upstream_model_update_ignored_models'', ''upstream_model_update_last_detected_models'',
     ''upstream_model_update_last_check_time'']"

lemma settings_rules_keys: "map (\<lambda>r. fst (snd r)) (settings_rules f) = rule_keys"
  by (simp add: settings_rules_def rule_keys_def Let_def)

lemma settings_rules_key: "(present, k, v) \<in> set (settings_rules f) \<Longrightarrow> k \<in> set rule_keys"
  unfolding settings_rules_keys [of f, symmetric] by force

lemma settings_rules_image: "(\<lambda>r. js (fst (snd r))) ` set (settings_rules f) = js ` set rule_keys"
  unfolding settings_rules_keys [of f, symmetric] by (simp add: image_image)

text \<open>The entries that the update of the upstream models leaves.\<close>

definition update_settled :: "jsval \<Rightarrow> jsval \<Rightarrow> (jsstr \<times> jsval) list \<Rightarrow> bool" where
  "update_settled f ignored es \<longleftrightarrow>
     map_of es (js ''upstream_model_update_check_enabled'') =
       Some (is_true (fld f ''upstream_model_update_check_enabled''))
     \<and> map_of es (js ''upstream_model_update_auto_sync_enabled'') =
       Some (JBool (fld f ''upstream_model_update_check_enabled'' = JBool True
         \<and> fld f ''upstream_model_update_auto_sync_enabled'' = JBool True))
     \<and> map_of es (js ''upstream_model_update_ignored_models'') = Some ignored
     \<and> (\<exists>xs. map_of es (js ''upstream_model_update_last_detected_models'') = Some (JArr xs)
          \<and> (fld f ''upstream_model_update_check_enabled'' \<noteq> JBool True \<longrightarrow> xs = []))
     \<and> (\<exists>x. map_of es (js ''upstream_model_update_last_check_time'') = Some (JNum x))"

lemma is_true_iff: "is_true v = JBool True \<longleftrightarrow> v = JBool True"
  by (simp add: is_true_def)

lemma fld_entries: "fld (JObj es) k = (case map_of es (js k) of Some x \<Rightarrow> x | None \<Rightarrow> JUndef)"
  by (simp add: fld_def get_prop_def)

lemma array_entry:
  "is_array (fld (JObj es) k) \<Longrightarrow> \<exists>xs. map_of es (js k) = Some (JArr xs)"
  by (auto simp: fld_entries is_array_def split: option.splits jsval.splits)

lemma reset_detected_of:
  "map_of (reset_detected_models es) = (map_of es)(js ''upstream_model_update_last_detected_models'' \<mapsto> JArr [])
   \<or> reset_detected_models es = es \<and> fld (JObj es) ''upstream_model_update_check_enabled'' = JBool True
     \<and> (\<exists>xs. map_of es (js ''upstream_model_update_last_detected_models'') = Some (JArr xs))"
  using array_entry by (auto simp: reset_detected_models_def)

lemma init_check_time_of:
  "map_of (init_check_time es) = (map_of es)(js ''upstream_model_update_last_check_time'' \<mapsto> JNum (Fin 0))
   \<or> init_check_time es = es \<and> (\<exists>x. map_of es (js ''upstream_model_update_last_check_time'') = Some (JNum x))"
  by (auto simp: init_check_time_def fld_entries split: option.split jsval.split)

lemma update_flags_of:
  "map_of (update_flags f ignored es) = (map_of es)
      (js ''upstream_model_update_check_enabled'' \<mapsto> is_true (fld f ''upstream_model_update_check_enabled''),
       js ''upstream_model_update_auto_sync_enabled'' \<mapsto> JBool (fld f ''upstream_model_update_check_enabled'' = JBool True
         \<and> fld f ''upstream_model_update_auto_sync_enabled'' = JBool True),
       js ''upstream_model_update_ignored_models'' \<mapsto> ignored)"
  by (simp add: update_flags_def Let_def is_true_iff)

lemma update_settledI:
  "update_settled f ignored (init_check_time (reset_detected_models (update_flags f ignored es)))"
  using reset_detected_of [of "update_flags f ignored es"]
    init_check_time_of [of "reset_detected_models (update_flags f ignored es)"]
  by (auto simp: update_settled_def update_flags_of fld_entries is_true_iff)

lemma update_entries_other:
  assumes "k \<notin> js ` set update_keys"
  shows "map_of (init_check_time (reset_detected_models (update_flags f ignored es))) k = map_of es k"
  using assms reset_detected_of [of "update_flags f ignored es"]
    init_check_time_of [of "reset_detected_models (update_flags f ignored es)"]
  by (auto simp: update_keys_def update_flags_of)

lemma update_entries_fixed:
  assumes "update_settled f ignored es"
  shows "init_check_time (reset_detected_models (update_flags f ignored es)) = es"
proof -
  have "update_flags f ignored es = es"
    using assms by (simp add: update_settled_def update_flags_def Let_def is_true_iff map_set_same)
  moreover have "reset_detected_models es = es"
    using assms
    by (auto simp: update_settled_def reset_detected_models_def fld_entries is_array_def is_true_iff map_set_same)
  moreover have "init_check_time es = es"
    using assms by (auto simp: update_settled_def init_check_time_def fld_entries)
  ultimately show ?thesis by simp
qed

lemma advanced_entry_of:
  "k \<noteq> js ''advanced_custom'' \<Longrightarrow> map_of (advanced_custom_entry f es) k = map_of es k"
  by (auto simp: advanced_custom_entry_def map_of_map_delete split: option.split)

lemma advanced_entry_fixed: "advanced_custom_entry f (advanced_custom_entry f es) = advanced_custom_entry f es"
  by (auto simp: advanced_custom_entry_def map_set_same map_delete_absent map_of_map_delete split: option.split)

section \<open>What is stored under each key\<close>

text \<open>
  The settings of a saved channel, stated key by key and without the table of the code: the channel
  types are written as numbers.
\<close>

definition stored_for :: "jsval \<Rightarrow> nat list \<Rightarrow> jsval \<Rightarrow> jsval option" where
  "stored_for f types v = (if \<exists>n \<in> set types. fld f ''type'' = JNum (Fin (of_nat n)) then Some v else None)"

definition form_flag :: "jsval \<Rightarrow> string \<Rightarrow> jsval" where
  "form_flag f k = JBool (fld f k = JBool True)"

definition form_text :: "jsval \<Rightarrow> string \<Rightarrow> string \<Rightarrow> jsval" where
  "form_text f k other = (if truthy (fld f k) then fld f k else JStr (js other))"

definition fetches_models :: "jsval \<Rightarrow> bool" where
  "fetches_models f \<longleftrightarrow>
     (\<exists>n \<in> {1, 4, 14, 17, 20, 23, 24, 25, 26, 27, 31, 34, 35, 40, 42, 43, 47, 48, 57, 58, 59, 60::nat}.
        fld f ''type'' = JNum (Fin (of_nat n)))"

text \<open>The names between commas, trimmed, without blank ones and each once.\<close>

definition names_between_commas :: "jsstr \<Rightarrow> jsstr list" where
  "names_between_commas s = uniq (filter (\<lambda>m. m \<noteq> []) (map trim (split_on (ch (CHR '','')) s)))"

definition stored_setting :: "jsval \<Rightarrow> (jsstr \<times> jsval) list \<Rightarrow> jsstr \<Rightarrow> jsval option" where
  "stored_setting f es k =
     (if k = js ''vertex_key_type'' then stored_for f [41] (form_text f ''vertex_key_type'' ''json'')
      else if k = js ''azure_responses_version'' then
        (if truthy (fld f ''azure_responses_version'') then stored_for f [3] (fld f ''azure_responses_version'') else None)
      else if k = js ''protocol'' then (if truthy (fld f ''protocol'') then Some (fld f ''protocol'') else None)
      else if k = js ''openrouter_enterprise'' then stored_for f [20] (form_flag f ''is_enterprise_account'')
      else if k = js ''aws_key_type'' then stored_for f [33] (form_text f ''aws_key_type'' ''ak_sk'')
      else if k = js ''allow_service_tier'' then
        stored_for f [1, 14, 57, 58, 59, 60] (form_flag f ''allow_service_tier'')
      else if k = js ''disable_store'' then stored_for f [1, 57, 58, 59, 60] (form_flag f ''disable_store'')
      else if k = js ''allow_safety_identifier'' then
        stored_for f [1, 57, 58, 59, 60] (form_flag f ''allow_safety_identifier'')
      else if k = js ''allow_include_obfuscation'' then
        stored_for f [1, 57, 58, 59, 60] (form_flag f ''allow_include_obfuscation'')
      else if k = js ''allow_inference_geo'' then
        stored_for f [1, 14, 57, 58, 59, 60] (form_flag f ''allow_inference_geo'')
      else if k = js ''allow_speed'' then stored_for f [14, 58, 59, 60] (form_flag f ''allow_speed'')
      else if k = js ''claude_beta_query'' then stored_for f [14] (form_flag f ''claude_beta_query'')
      else if k = js ''advanced_custom'' then
        (if fld f ''type'' = JNum (Fin 58)
         then (case parseAdvancedCustomConfig (text_field (fld f ''advanced_custom'')) of
                 Some config \<Rightarrow> Some config | None \<Rightarrow> map_of es k)
         else None)
      else if \<not> fetches_models f then map_of es k
      else if k = js ''upstream_model_update_check_enabled'' then
        Some (form_flag f ''upstream_model_update_check_enabled'')
      else if k = js ''upstream_model_update_auto_sync_enabled'' then
        Some (JBool (fld f ''upstream_model_update_check_enabled'' = JBool True
          \<and> fld f ''upstream_model_update_auto_sync_enabled'' = JBool True))
      else if k = js ''upstream_model_update_ignored_models'' then
        (case js_string (form_text f ''upstream_model_update_ignored_models'' []) of
           Inr s \<Rightarrow> Some (JArr (map JStr (names_between_commas s))) | Inl _ \<Rightarrow> None)
      else if k = js ''upstream_model_update_last_detected_models'' then
        (case map_of es k of
           Some (JArr xs) \<Rightarrow> Some (JArr (if fld f ''upstream_model_update_check_enabled'' = JBool True then xs else []))
         | _ \<Rightarrow> Some (JArr []))
      else if k = js ''upstream_model_update_last_check_time'' then
        (case map_of es k of Some (JNum x) \<Rightarrow> Some (JNum x) | _ \<Rightarrow> Some (JNum (Fin 0)))
      else map_of es k)"

lemma type_in_iff: "type_in (fld f ''type'') ns \<longleftrightarrow> (\<exists>n \<in> set ns. fld f ''type'' = JNum (Fin (of_nat n)))"
  by (simp add: type_in_def list_ex_iff)

lemma stored_for_type: "stored_for f ns v = (if type_in (fld f ''type'') ns then Some v else None)"
  by (simp add: stored_for_def type_in_iff)

lemma type_in_or: "type_in t ms \<or> type_in t ns \<longleftrightarrow> (\<exists>n \<in> set ms \<union> set ns. t = JNum (Fin (of_nat n)))"
  by (auto simp: type_in_def list_ex_iff)

lemma form_values: "form_flag f k = is_true (fld f k)" "form_text f k other = or_text (fld f k) other"
  by (simp_all add: form_flag_def is_true_def form_text_def or_text_def js_or_def)

lemma stored_rules:
  "stored_setting f es (js ''vertex_key_type'') = stored_for f [41] (form_text f ''vertex_key_type'' ''json'')"
  "stored_setting f es (js ''azure_responses_version'') =
     (if truthy (fld f ''azure_responses_version'') then stored_for f [3] (fld f ''azure_responses_version'') else None)"
  "stored_setting f es (js ''protocol'') = (if truthy (fld f ''protocol'') then Some (fld f ''protocol'') else None)"
  "stored_setting f es (js ''openrouter_enterprise'') = stored_for f [20] (form_flag f ''is_enterprise_account'')"
  "stored_setting f es (js ''aws_key_type'') = stored_for f [33] (form_text f ''aws_key_type'' ''ak_sk'')"
  "stored_setting f es (js ''allow_service_tier'') =
     stored_for f [1, 14, 57, 58, 59, 60] (form_flag f ''allow_service_tier'')"
  "stored_setting f es (js ''disable_store'') = stored_for f [1, 57, 58, 59, 60] (form_flag f ''disable_store'')"
  "stored_setting f es (js ''allow_safety_identifier'') =
     stored_for f [1, 57, 58, 59, 60] (form_flag f ''allow_safety_identifier'')"
  "stored_setting f es (js ''allow_include_obfuscation'') =
     stored_for f [1, 57, 58, 59, 60] (form_flag f ''allow_include_obfuscation'')"
  "stored_setting f es (js ''allow_inference_geo'') =
     stored_for f [1, 14, 57, 58, 59, 60] (form_flag f ''allow_inference_geo'')"
  "stored_setting f es (js ''allow_speed'') = stored_for f [14, 58, 59, 60] (form_flag f ''allow_speed'')"
  "stored_setting f es (js ''claude_beta_query'') = stored_for f [14] (form_flag f ''claude_beta_query'')"
  by (simp_all add: stored_setting_def)

text \<open>The table of the code, rule by rule, against the specification.\<close>

lemma rules_stored:
  assumes "list_all (rule_holds es') (settings_rules f)" "k \<in> set rule_keys"
  shows "map_of es' (js k) = stored_setting f es (js k)"
proof -
  have both: "type_in t OPENAI_FIELD_PASSTHROUGH_TYPES \<or> type_in t CLAUDE_FIELD_PASSTHROUGH_TYPES
      \<longleftrightarrow> type_in t [1, 14, 57, 58, 59, 60]" for t
    by (auto simp: type_in_def OPENAI_FIELD_PASSTHROUGH_TYPES_def CLAUDE_FIELD_PASSTHROUGH_TYPES_def
        CHANNEL_TYPE_NEW_API_def)
  have lists: "FIELD_PASSTHROUGH_TYPES = [1, 14, 57, 58, 59, 60]"
    "OPENAI_FIELD_PASSTHROUGH_TYPES = [1, 57, 58, 59, 60]" "CLAUDE_FIELD_PASSTHROUGH_TYPES = [14, 58, 59, 60]"
    by (simp_all add: FIELD_PASSTHROUGH_TYPES_def OPENAI_FIELD_PASSTHROUGH_TYPES_def
        CLAUDE_FIELD_PASSTHROUGH_TYPES_def CHANNEL_TYPE_NEW_API_def)
  note rules = assms(1) [unfolded settings_rules_def Let_def both, unfolded lists list.pred_inject rule_holds_def prod.case]
  show ?thesis
    using assms(2) unfolding rule_keys_def list.set insert_iff empty_iff
    by (elim disjE FalseE) (simp_all add: rules stored_rules stored_for_type form_values)
qed

lemma stored_advanced: "stored_setting f es (js ''advanced_custom'') = map_of (advanced_custom_entry f es) (js ''advanced_custom'')"
  by (auto simp: stored_setting_def advanced_custom_entry_def type_in_def CHANNEL_TYPE_ADVANCED_CUSTOM_def map_of_map_delete
      split: option.split)

text \<open>The entries of the update of the upstream models.\<close>

lemma fetches_models_iff: "type_in (fld f ''type'') MODEL_FETCHABLE_TYPES \<longleftrightarrow> fetches_models f"
  by (simp only: type_in_iff fetches_models_def MODEL_FETCHABLE_TYPES_def list.set)

lemma reset_detected_map:
  "map_of (reset_detected_models es) (js ''upstream_model_update_last_detected_models'') =
     (case map_of es (js ''upstream_model_update_last_detected_models'') of
        Some (JArr xs) \<Rightarrow> Some (JArr (if fld (JObj es) ''upstream_model_update_check_enabled'' = JBool True then xs else []))
      | _ \<Rightarrow> Some (JArr []))"
  by (auto simp: reset_detected_models_def fld_entries is_array_def split: option.split jsval.split)

lemma init_check_time_map:
  "map_of (init_check_time es) (js ''upstream_model_update_last_check_time'') =
     (case map_of es (js ''upstream_model_update_last_check_time'') of
        Some (JNum x) \<Rightarrow> Some (JNum x) | _ \<Rightarrow> Some (JNum (Fin 0)))"
  by (auto simp: init_check_time_def fld_entries split: option.split jsval.split)

lemma reset_detected_other:
  "k \<noteq> js ''upstream_model_update_last_detected_models'' \<Longrightarrow> map_of (reset_detected_models es) k = map_of es k"
  by (simp add: reset_detected_models_def)

lemma init_check_time_other:
  "k \<noteq> js ''upstream_model_update_last_check_time'' \<Longrightarrow> map_of (init_check_time es) k = map_of es k"
  by (auto simp: init_check_time_def split: jsval.split)

lemma stored_updates:
  assumes "fetches_models f"
  shows "stored_setting f es (js ''upstream_model_update_check_enabled'') =
      Some (form_flag f ''upstream_model_update_check_enabled'')"
    "stored_setting f es (js ''upstream_model_update_auto_sync_enabled'') =
      Some (JBool (fld f ''upstream_model_update_check_enabled'' = JBool True
        \<and> fld f ''upstream_model_update_auto_sync_enabled'' = JBool True))"
    "stored_setting f es (js ''upstream_model_update_ignored_models'') =
      (case js_string (form_text f ''upstream_model_update_ignored_models'' []) of
         Inr s \<Rightarrow> Some (JArr (map JStr (names_between_commas s))) | Inl _ \<Rightarrow> None)"
    "stored_setting f es (js ''upstream_model_update_last_detected_models'') =
      (case map_of es (js ''upstream_model_update_last_detected_models'') of
         Some (JArr xs) \<Rightarrow> Some (JArr (if fld f ''upstream_model_update_check_enabled'' = JBool True then xs else []))
       | _ \<Rightarrow> Some (JArr []))"
    "stored_setting f es (js ''upstream_model_update_last_check_time'') =
      (case map_of es (js ''upstream_model_update_last_check_time'') of
         Some (JNum x) \<Rightarrow> Some (JNum x) | _ \<Rightarrow> Some (JNum (Fin 0)))"
  using assms by (simp_all add: stored_setting_def)

lemma stored_not_fetched: "\<not> fetches_models f \<Longrightarrow> k \<in> set update_keys \<Longrightarrow> stored_setting f es (js k) = map_of es (js k)"
  unfolding update_keys_def list.set insert_iff empty_iff
  by (elim disjE FalseE) (simp_all add: stored_setting_def)

lemma js_empty: "js [] = []"
  by (simp add: js_def)

lemma updates_stored:
  assumes "fetches_models f" "ignored_models (fld f ''upstream_model_update_ignored_models'') = Inr ignored"
    and "k \<in> set update_keys"
  shows "map_of (init_check_time (reset_detected_models (update_flags f ignored es))) (js k) = stored_setting f es (js k)"
proof -
  obtain s where s: "js_string (form_text f ''upstream_model_update_ignored_models'' []) = Inr s"
    "ignored = JArr (map JStr (names_between_commas s))"
    using assms(2) by (auto simp: ignored_models_def and_then_eq_Inr form_text_def js_or_def js_empty names_between_commas_def
        split: if_splits)
  have flag: "fld (JObj (update_flags f ig es)) ''upstream_model_update_check_enabled'' = JBool True
      \<longleftrightarrow> fld f ''upstream_model_update_check_enabled'' = JBool True" for ig
    by (simp add: fld_entries update_flags_of is_true_iff)
  show ?thesis
    using assms(3) unfolding update_keys_def list.set insert_iff empty_iff
    by (elim disjE FalseE)
      (simp_all add: stored_updates [OF assms(1)] init_check_time_map init_check_time_other reset_detected_map
        reset_detected_other update_flags_of flag is_true_iff s form_values(1)
        split: option.split jsval.split)
qed

lemma stored_other:
  "k \<notin> js ` set (''advanced_custom'' # rule_keys @ update_keys) \<Longrightarrow> stored_setting f es k = map_of es k"
  by (simp add: stored_setting_def rule_keys_def update_keys_def)

lemma stored_cong: "map_of es k = map_of es1 k \<Longrightarrow> stored_setting f es k = stored_setting f es1 k"
  by (simp only: stored_setting_def)

lemma settings_entries_steps:
  assumes "settings_entries f es = Inr es'"
  obtains es1 ignored es2 where "es1 = foldl put_or_drop es (settings_rules f)"
    "fetches_models f \<longrightarrow> ignored_models (fld f ''upstream_model_update_ignored_models'') = Inr ignored"
    "es2 = (if fetches_models f then init_check_time (reset_detected_models (update_flags f ignored es1)) else es1)"
    "es' = advanced_custom_entry f es2"
  using assms
  by (cases "fetches_models f") (auto simp: settings_entries_def upstream_update_entries_def fetches_models_iff Let_def and_then_eq_Inr)

lemma stored_settings:
  assumes "settings_entries f es = Inr es'"
  shows "map_of es' k = stored_setting f es k"
proof -
  from assms obtain es1 ignored es2 where es1: "es1 = foldl put_or_drop es (settings_rules f)"
    and ign: "fetches_models f \<longrightarrow> ignored_models (fld f ''upstream_model_update_ignored_models'') = Inr ignored"
    and es2: "es2 = (if fetches_models f then init_check_time (reset_detected_models (update_flags f ignored es1)) else es1)"
    and es': "es' = advanced_custom_entry f es2" by (rule settings_entries_steps)
  have o1: "map_of es1 k = map_of es k" if "k \<notin> js ` set rule_keys" for k
    unfolding es1 using that by (intro put_or_drop_other) (simp add: settings_rules_image)
  have o2: "map_of es2 k = map_of es1 k" if "k \<notin> js ` set update_keys" for k
    using that update_entries_other by (simp add: es2)
  have o3: "map_of es' k = map_of es2 k" if "k \<noteq> js ''advanced_custom''" for k
    using that by (simp add: es' advanced_entry_of)
  have apart: "js k \<notin> js ` set update_keys" "js k \<noteq> js ''advanced_custom''" if "k \<in> set rule_keys" for k
    using that by (auto simp: rule_keys_def update_keys_def)
  have apart': "js k \<notin> js ` set rule_keys" "js k \<noteq> js ''advanced_custom''" if "k \<in> set update_keys" for k
    using that by (auto simp: rule_keys_def update_keys_def)
  have adv: "js ''advanced_custom'' \<notin> js ` set rule_keys" "js ''advanced_custom'' \<notin> js ` set update_keys"
    by (auto simp: rule_keys_def update_keys_def)
  consider (rule) q where "k = js q" "q \<in> set rule_keys" | (update) q where "k = js q" "q \<in> set update_keys"
    | (advanced) "k = js ''advanced_custom''" | (other) "k \<notin> js ` set (''advanced_custom'' # rule_keys @ update_keys)"
    by auto
  then show ?thesis
  proof cases
    case rule
    have "list_all (rule_holds es1) (settings_rules f)"
      unfolding es1 by (rule put_or_drop_holds) (simp add: settings_rules_keys rule_keys_def)
    from rules_stored [OF this rule(2)] o2 o3 apart [OF rule(2)] rule(1) show ?thesis by simp
  next
    case update
    have "stored_setting f es k = stored_setting f es1 k"
      using o1 apart' [OF update(2)] update(1) by (intro stored_cong) simp
    moreover have "map_of es2 k = stored_setting f es1 k"
      using updates_stored [OF _ ign [rule_format] update(2)] stored_not_fetched [OF _ update(2)] update(1) by (simp add: es2)
    ultimately show ?thesis using o3 apart' [OF update(2)] update(1) by simp
  next
    case advanced
    have "stored_setting f es k = stored_setting f es2 k"
      using o1 o2 adv advanced by (intro stored_cong) simp
    then show ?thesis by (simp add: advanced stored_advanced es')
  next
    case other
    with o1 [of k] o2 [of k] o3 [of k] stored_other show ?thesis by (simp add: image_Un)
  qed
qed

lemma settings_entries_fixed:
  assumes "settings_entries f es = Inr es'"
  shows "settings_entries f es' = Inr es'"
proof -
  from assms obtain es1 ignored es2 where es1: "es1 = foldl put_or_drop es (settings_rules f)"
    and ign: "fetches_models f \<longrightarrow> ignored_models (fld f ''upstream_model_update_ignored_models'') = Inr ignored"
    and es2: "es2 = (if fetches_models f then init_check_time (reset_detected_models (update_flags f ignored es1)) else es1)"
    and es': "es' = advanced_custom_entry f es2" by (rule settings_entries_steps)
  have "list_all (rule_holds es1) (settings_rules f)"
    unfolding es1 by (rule put_or_drop_holds) (simp add: settings_rules_keys rule_keys_def)
  moreover have "map_of es' (js k) = map_of es1 (js k)" if "k \<in> set rule_keys" for k
  proof -
    have "js k \<notin> js ` set update_keys" "js k \<noteq> js ''advanced_custom''"
      using that by (auto simp: rule_keys_def update_keys_def)
    then show ?thesis using update_entries_other by (simp add: es' es2 advanced_entry_of)
  qed
  ultimately have "list_all (rule_holds es') (settings_rules f)"
    using settings_rules_key by (auto simp: list_all_iff rule_holds_def)
  then have "foldl put_or_drop es' (settings_rules f) = es'" by (rule put_or_drop_fixed)
  moreover have "init_check_time (reset_detected_models (update_flags f ignored es')) = es'" if "fetches_models f"
  proof -
    have "update_settled f ignored es2" using that update_settledI by (simp add: es2)
    then have "update_settled f ignored es'" by (simp add: update_settled_def es' advanced_entry_of)
    then show ?thesis by (rule update_entries_fixed)
  qed
  moreover have "advanced_custom_entry f es' = es'" unfolding es' by (rule advanced_entry_fixed)
  ultimately show ?thesis
    using ign by (simp add: settings_entries_def upstream_update_entries_def fetches_models_iff)
qed

section \<open>Properties\<close>

text \<open>
  C8. Saving and loading the extra settings of a channel: the text that a typed form stores is read back
  as the settings of the form (absent ones with their defaults, the proxy and the model names trimmed,
  rows without a price left out, the number of shards between 1 and 8, and 1 with HTTP/1.1), and a
  channel whose stored text was written by such a form stores the same text again when it is loaded
  and saved unedited.  A text that was not written by the form may change when it is saved
  (\<open>foreign_text_rewritten\<close>).
\<close>

theorem setting_roundtrip:
  assumes "typed_extra f"
  shows "\<exists>t. buildSettingJSON f = Inr t \<and> extra_settings (JStr t) = saved_extra f
     \<and> (\<forall>channel g. fld channel ''setting'' = JStr t \<and> transformChannelToFormDefaults channel = Inr g
          \<longrightarrow> buildSettingJSON g = Inr t)"
proof -
  note shape = saved_shape_typed [OF assms]
  define v where v: "v = setting_value (is_true (fld f ''force_format'')) (is_true (fld f ''thinking_to_content''))
       (trim (text_of (fld f ''proxy''))) (protocol_of f) (shards_of f)
       (is_true (fld f ''pass_through_body_enabled'')) (text_of (fld f ''system_prompt''))
       (is_true (fld f ''system_prompt_override'')) (prices_of f)"
  have obj: "setting_object f = Inr v" unfolding v by (rule setting_object_typed [OF assms])
  have parse: "json_parse (json_stringify v) = Some v"
    unfolding v by (rule json_clean_read_back [OF setting_value_clean [OF shape]]) (simp add: setting_value_def)
  have ne: "json_stringify v \<noteq> []" unfolding v setting_value_def by (rule setting_text_nonempty)
  have load: "extra_settings (JStr (json_stringify v)) = saved_extra f"
    using ne
    by (simp add: extra_settings_def truthy_def parse_setting_def js_string.simps parse)
      (simp add: v read_setting_value [OF shape] saved_extra_def)
  have "buildSettingJSON g = Inr (json_stringify v)"
    if "fld channel ''setting'' = JStr (json_stringify v)" "transformChannelToFormDefaults channel = Inr g" for channel g
  proof -
    have "setting_object g = Inr v"
      unfolding v by (rule resave [OF shape form_extra_fields [OF that(2)]]) (simp add: that(1) load saved_extra_def)
    then show ?thesis by (simp add: buildSettingJSON_def)
  qed
  then show ?thesis using load obj by (intro exI [of _ "json_stringify v"]) (auto simp: buildSettingJSON_def)
qed

text \<open>
  C10. The payload of an update carries a key exactly when the form has one that is not blank, and then
  that one; a form just loaded from a channel has none, so saving it never replaces the stored key.
  The texts that can be cleared are sent as texts, never as \<open>null\<close>, and every other empty text as \<open>null\<close>.
\<close>

theorem update_payload_contents:
  assumes "transformFormDataToUpdatePayload f channelId = Inr p"
  shows "\<exists>es. p = JObj es
     \<and> (js ''key'' \<in> fst ` set es \<longleftrightarrow> nonblank_text (fld f ''key''))
     \<and> (nonblank_text (fld f ''key'') \<longrightarrow> fld p ''key'' = fld f ''key'')
     \<and> list_all (\<lambda>k. fld p k = or_text (fld f k) '''') cleared_fields
     \<and> is_string (fld p ''base_url'')
     \<and> (\<forall>k. get_prop p k = JStr [] \<longrightarrow> k \<in> set (map js (''base_url'' # cleared_fields)))
     \<and> (\<forall>channel. transformChannelToFormDefaults channel = Inr f \<longrightarrow> js ''key'' \<notin> fst ` set es)"
proof -
  obtain a b c where p: "p = JObj (update_fields f channelId a b c)"
    using update_payload_fields [OF assms] by blast
  have key: "js ''key'' \<in> fst ` set (update_fields f channelId a b c) \<longleftrightarrow> nonblank_text (fld f ''key'')"
    by (auto simp: update_fields_def channel_fields_def cleared_fields_def)
  have keyv: "fld p ''key'' = fld f ''key''" if "nonblank_text (fld f ''key'')"
    using that
    by (auto simp: p fld_def get_prop_def update_fields_def channel_fields_def cleared_fields_def nonblank_text_def
        split: jsval.splits)
  have cleared: "list_all (\<lambda>k. fld p k = or_text (fld f k) '''') cleared_fields"
    by (simp add: p fld_def [of "JObj _"] get_prop_def update_fields_def list_all_iff)
  have base: "fld p ''base_url'' = JStr a"
    by (simp add: p fld_def [of "JObj _"] get_prop_def update_fields_def cleared_fields_def)
  have empty: "k \<in> set (map js (''base_url'' # cleared_fields))" if "get_prop p k = JStr []" for k
  proof (rule ccontr)
    assume k: "k \<notin> set (map js (''base_url'' # cleared_fields))"
    then have "k \<notin> js ` set cleared_fields" "k \<noteq> js ''base_url''" by auto
    then show False
      using that by (auto simp: p get_prop_def update_fields_def foldl_map_set_other split: option.splits if_splits)
  qed
  have loaded: "js ''key'' \<notin> fst ` set (update_fields f channelId a b c)"
    if "transformChannelToFormDefaults channel = Inr f" for channel
  proof -
    have "fld f ''key'' = JStr []"
      using that by (auto simp: transformChannelToFormDefaults_def and_then_eq_Inr fld_def get_prop_def)
    then show ?thesis by (simp add: key nonblank_text_def)
  qed
  show ?thesis using p key keyv cleared base empty loaded by (auto simp: is_string_def)
qed

text \<open>
  C9. Saving the type-specific settings, setting by setting.  \<open>stored_setting\<close> says, with the numbers of
  the channel types written out, what is stored under each key: a setting of a channel type has the
  value of the form for its types and is removed for the others; the protocol and the responses version
  are stored when the form has one; for the types whose models can be fetched the two update flags,
  the ignored models, the models detected last (kept only while the check is enabled) and the time
  of the last check are stored, and left alone for the others; type 58 stores the advanced
  configuration when its text parses and keeps the old one when not, and every other type removes it;
  settings that the form does not know keep their values.  Saving the result once more changes nothing.
\<close>

theorem settings_saved:
  assumes "settings_entries f es = Inr es'"
  shows "(\<forall>k. map_of es' k = stored_setting f es k) \<and> settings_entries f es' = Inr es'"
  using stored_settings [OF assms] settings_entries_fixed [OF assms] by blast

text \<open>
  A form whose transport settings pass the checks stores the number of shards it shows: clamping
  and the rule for HTTP/1.1 change nothing that was accepted, and the number is between 1 and 8.
\<close>

lemma accepted_transport_kept:
  assumes "typed_extra f" "transport_issues f = Inr []"
  shows "JNum (shards_of f) = (if fld f ''http2_connection_shards'' = JUndef then JNum (Fin 1)
       else fld f ''http2_connection_shards'')
     \<and> num_le (Fin 1) (shards_of f) \<and> num_le (shards_of f) (Fin 8)"
proof -
  consider "fld f ''http2_connection_shards'' = JUndef" | q where "fld f ''http2_connection_shards'' = JNum (Fin q)"
    using assms(1) by (auto simp: typed_extra_def opt_number_def)
  then show ?thesis
    using assms(2) protocol_typed [OF assms(1)] shards_in_range [OF assms(1)]
    by cases (auto simp: transport_issues_def shards_of_def addRequiredIssue_def and_then_eq_Inr nullish_def js_less_def
        js_greater_def js_number_def MAX_HTTP2_CONNECTION_SHARDS_def and_also_def num_le_def Let_def protocol_of_def
        split: if_splits)
qed

section \<open>Witnesses\<close>

definition sample_form :: jsval where
  "sample_form = JObj [(js ''type'', JNum (Fin 41)), (js ''key'', JStr (js ''sk-1'')), (js ''proxy'', JStr (js '' http://p '')),
     (js ''http2_connection_shards'', JNum (Fin 1)), (js ''vertex_key_type'', JStr (js ''api_key'')),
     (js ''pbr_prices'', JArr [JObj [(js ''model'', JStr (js '' m '')), (js ''input'', JNum (Fin 1))]])]"

lemma sample_form_typed: "typed_extra sample_form"
  by (simp add: typed_extra_def sample_form_def fld_def get_prop_def js_def opt_bool_def opt_text_def opt_number_def
      typed_row_def price_fields_def code_units_def)

theorem setting_roundtrip_witness:
  "\<exists>t. buildSettingJSON sample_form = Inr t \<and> extra_settings (JStr t) = saved_extra sample_form"
  using setting_roundtrip [OF sample_form_typed] by blast

theorem update_payload_contents_witness:
  "\<exists>p. transformFormDataToUpdatePayload sample_form (JNum (Fin 7)) = Inr p \<and> fld p ''key'' = JStr (js ''sk-1'')"
proof -
  have "\<not> isl (transformFormDataToUpdatePayload sample_form (JNum (Fin 7)))" by code_simp
  then obtain p where p: "transformFormDataToUpdatePayload sample_form (JNum (Fin 7)) = Inr p"
    by (cases "transformFormDataToUpdatePayload sample_form (JNum (Fin 7))") simp_all
  have "nonblank_text (fld sample_form ''key'')" "fld sample_form ''key'' = JStr (js ''sk-1'')" by code_simp+
  then show ?thesis using p update_payload_contents [OF p] by auto
qed

theorem settings_saved_witness:
  "(\<forall>k. map_of [(js ''future'', JBool True), (js ''vertex_key_type'', JStr (js ''api_key''))] k =
      stored_setting sample_form [(js ''future'', JBool True), (js ''aws_key_type'', JStr (js ''ak_sk''))] k)
   \<and> stored_setting sample_form [(js ''future'', JBool True), (js ''aws_key_type'', JStr (js ''ak_sk''))]
       (js ''vertex_key_type'') = Some (JStr (js ''api_key''))"
proof -
  have "settings_entries sample_form [(js ''future'', JBool True), (js ''aws_key_type'', JStr (js ''ak_sk''))] =
      Inr [(js ''future'', JBool True), (js ''vertex_key_type'', JStr (js ''api_key''))]"
    by code_simp
  from settings_saved [OF this] have *: "\<forall>k. map_of [(js ''future'', JBool True), (js ''vertex_key_type'', JStr (js ''api_key''))] k =
      stored_setting sample_form [(js ''future'', JBool True), (js ''aws_key_type'', JStr (js ''ak_sk''))] k" by blast
  have "stored_setting sample_form [(js ''future'', JBool True), (js ''aws_key_type'', JStr (js ''ak_sk''))]
      (js ''vertex_key_type'') = Some (JStr (js ''api_key''))"
    using * [THEN spec, of "js ''vertex_key_type''"] by simp
  with * show ?thesis by (rule conjI)
qed

text \<open>
  A text that only sets an empty proxy, and one with a key the form does not know, are written anew
  when the channel is saved unedited; the unknown key is lost.
\<close>

definition channel_with_setting :: "jsstr \<Rightarrow> jsval" where
  "channel_with_setting text = JObj [(js ''channel_info'', JObj []), (js ''setting'', JStr text)]"

definition resaved :: "jsstr \<Rightarrow> jsval option" where
  "resaved text =
     (case transformChannelToFormDefaults (channel_with_setting text) of
        Inl _ \<Rightarrow> None
      | Inr g \<Rightarrow> (case buildSettingJSON g of Inl _ \<Rightarrow> None | Inr t \<Rightarrow> json_parse t))"

lemma foreign_text_rewritten:
  "resaved (js ''{\"proxy\":\"\"}'') \<noteq> json_parse (js ''{\"proxy\":\"\"}'')"
  "map_option (\<lambda>v. get_prop v (js ''future'')) (resaved (js ''{\"future\":true}'')) = Some JUndef"
  by code_simp+

end
