(* ===== verification/PlaygroundStorage.thy ===== *)
theory PlaygroundStorage
  imports Messages JsJsonPrint
begin

text \<open>
  \<open>features/playground/lib/storage\<close>: what the playground keeps in the browser.  A storage is the list of
  its entries, or \<open>None\<close> when every access throws; \<open>fits\<close> says which entries the quota allows.  The schema
  library is a parameter: a schema maps a value to the parsed value, or to \<open>None\<close> when it throws.
  A state transition that may throw returns \<open>None\<close> then.
\<close>

section \<open>Storage of the browser\<close>

type_synonym items = "(jsstr \<times> jsstr) list"

record browser =
  br_local :: "items option"
  br_session :: "items option"
  br_fits :: "items \<Rightarrow> bool"

definition get_item :: "items option \<Rightarrow> jsstr \<Rightarrow> jsstr option option" where
  "get_item st k = map_option (\<lambda>es. map_of es k) st"

definition set_item :: "(items \<Rightarrow> bool) \<Rightarrow> jsstr \<Rightarrow> jsstr \<Rightarrow> items option \<Rightarrow> items option option" where
  "set_item fits k v st =
     (case st of
        None \<Rightarrow> None
      | Some es \<Rightarrow> if fits (map_set k v es) then Some (Some (map_set k v es)) else None)"

definition remove_item :: "jsstr \<Rightarrow> items option \<Rightarrow> items option option" where
  "remove_item k st = map_option (\<lambda>es. Some (map_delete k es)) st"

section \<open>Constants\<close>

definition STORAGE_VERSION :: nat where
  "STORAGE_VERSION = 1"

definition MAX_STORED_MESSAGES :: nat where
  "MAX_STORED_MESSAGES = 100"

definition MAX_STORED_MESSAGES_BYTES :: nat where
  "MAX_STORED_MESSAGES_BYTES = 1024 * 1024"

definition MAX_LOADED_MESSAGES_CHARS :: nat where
  "MAX_LOADED_MESSAGES_CHARS = 120000"

definition MAX_LOADED_MESSAGE_CHARS :: nat where
  "MAX_LOADED_MESSAGE_CHARS = 40000"

definition CONFIG_KEY :: jsstr where
  "CONFIG_KEY = js ''pbr_playground_config''"

definition MESSAGES_KEY :: jsstr where
  "MESSAGES_KEY = js ''pbr_playground_messages''"

definition PARAMETER_ENABLED_KEY :: jsstr where
  "PARAMETER_ENABLED_KEY = js ''pbr_playground_parameter_enabled''"

definition CLIENT_KEY :: jsstr where
  "CLIENT_KEY = js ''pbr_playground_client_key''"

definition TRUNCATED_CONTENT_SUFFIX :: jsstr where
  "TRUNCATED_CONTENT_SUFFIX = [10, 10] @ js ''[...]''"

definition MIN_PREFIX_COLLAPSE_LENGTH :: nat where
  "MIN_PREFIX_COLLAPSE_LENGTH = 2000"

definition MIN_REPEATED_SECTION_COUNT :: nat where
  "MIN_REPEATED_SECTION_COUNT = 3"

section \<open>Stored values\<close>

text \<open>\<open>null\<close> without an entry, \<open>None\<close> when the access or \<open>JSON.parse\<close> throws.\<close>

definition readStoredValue :: "jsstr \<Rightarrow> browser \<Rightarrow> jsval option" where
  "readStoredValue k b =
     (case get_item (br_local b) k of
        None \<Rightarrow> None
      | Some None \<Rightarrow> Some JNull
      | Some (Some saved) \<Rightarrow> if saved = [] then Some JNull else json_parse saved)"

definition readStoredMessagesValue :: "browser \<Rightarrow> jsval option \<times> browser" where
  "readStoredMessagesValue b =
     (case get_item (br_local b) MESSAGES_KEY of
        None \<Rightarrow> (None, b)
      | Some None \<Rightarrow> (Some JNull, b)
      | Some (Some saved) \<Rightarrow>
          if saved = [] then (Some JNull, b)
          else if MAX_STORED_MESSAGES_BYTES < length saved
          then (case remove_item MESSAGES_KEY (br_local b) of
                  Some st \<Rightarrow> (Some JNull, b\<lparr>br_local := st\<rparr>)
                | None \<Rightarrow> (None, b))
          else (json_parse saved, b))"

definition has_property :: "jsval \<Rightarrow> string \<Rightarrow> bool" where
  "has_property v k = (case v of JObj es \<Rightarrow> js k \<in> fst ` set es | _ \<Rightarrow> False)"

definition unwrapStoredValue :: "jsval \<Rightarrow> jsval" where
  "unwrapStoredValue v =
     (if \<not> truthy v \<or> \<not> typeof_object v then v
      else if has_property v ''version'' \<and> has_property v ''data'' then get_prop v (js ''data'')
      else v)"

definition envelope :: "jsval \<Rightarrow> jsval" where
  "envelope data = JObj [(js ''version'', JNum (Fin (of_nat STORAGE_VERSION))), (js ''data'', data)]"

definition writeStoredValue :: "jsstr \<Rightarrow> jsval \<Rightarrow> browser \<Rightarrow> browser option" where
  "writeStoredValue k data b =
     map_option (\<lambda>st. b\<lparr>br_local := st\<rparr>)
       (set_item (br_fits b) k (json_stringify (envelope data)) (br_local b))"

text \<open>The client key lives in the storage of the tab only; errors there are ignored.\<close>

definition readSessionClientKey :: "browser \<Rightarrow> jsstr option" where
  "readSessionClientKey b = (case get_item (br_session b) CLIENT_KEY of Some v \<Rightarrow> v | None \<Rightarrow> None)"

definition writeSessionClientKey :: "jsval \<Rightarrow> browser \<Rightarrow> browser" where
  "writeSessionClientKey clientKey b =
     (case (if truthy clientKey
            then set_item (br_fits b) CLIENT_KEY (case clientKey of JStr s \<Rightarrow> s | _ \<Rightarrow> []) (br_session b)
            else remove_item CLIENT_KEY (br_session b)) of
        Some st \<Rightarrow> b\<lparr>br_session := st\<rparr>
      | None \<Rightarrow> b)"

section \<open>Trimming\<close>

definition trimMessages :: "message list \<Rightarrow> message list" where
  "trimMessages messages =
     (if length messages \<le> MAX_STORED_MESSAGES then messages
      else drop (length messages - MAX_STORED_MESSAGES) messages)"

definition getMessageSize :: "message \<Rightarrow> nat" where
  "getMessageSize m =
     (let versionsSize = foldl (\<lambda>total v. total + length (mv_content v)) 0 (m_versions m);
          reasoningSize = (case m_reasoning m of Some r \<Rightarrow> length (r_content r) | None \<Rightarrow> 0) in
      versionsSize + reasoningSize)"

definition truncateText :: "jsstr \<Rightarrow> nat \<Rightarrow> jsstr" where
  "truncateText txt maxLength =
     (if length txt \<le> maxLength then txt
      else if maxLength \<le> length TRUNCATED_CONTENT_SUFFIX then take maxLength txt
      else take (maxLength - length TRUNCATED_CONTENT_SUFFIX) txt @ TRUNCATED_CONTENT_SUFFIX)"

text \<open>The loop from the newest message on; \<open>break\<close> ends it.\<close>

fun content_size_loop :: "message list \<Rightarrow> nat \<Rightarrow> message list \<Rightarrow> message list" where
  "content_size_loop [] totalSize result = result"
| "content_size_loop (m # older) totalSize result =
     (if result \<noteq> [] \<and> totalSize + getMessageSize m > MAX_LOADED_MESSAGES_CHARS then result
      else content_size_loop older (totalSize + getMessageSize m) (result @ [m]))"

definition trimMessagesByContentSize :: "message list \<Rightarrow> message list" where
  "trimMessagesByContentSize messages = rev (content_size_loop (rev messages) 0 [])"

section \<open>Repeated sections\<close>

text \<open>
  \<open>/^#{2,6}\s+\d+\.\s+.+$/gm\<close>.  Line terminators are white space, so that the second run of white space
  may cross lines; when nothing follows it, the run gives characters back until one of them is not a
  line terminator.
\<close>

definition line_end :: "nat \<Rightarrow> bool" where
  "line_end c \<longleftrightarrow> c \<in> {10, 13, 0x2028, 0x2029}"

definition heading_tail :: "jsstr \<Rightarrow> nat option" where
  "heading_tail s =
     (let w = length (takeWhile is_ws s); rest = drop w s in
      if w = 0 then None
      else if rest \<noteq> [] then Some (w + length (takeWhile (\<lambda>c. \<not> line_end c) rest))
      else (case find_index (\<lambda>c. \<not> line_end c) (rev (drop 1 s)) of
              Some k \<Rightarrow> Some (w - k)
            | None \<Rightarrow> None))"

definition heading_at :: "jsstr \<Rightarrow> nat option" where
  "heading_at s =
     (let n = length (takeWhile (\<lambda>c. c = 35) s);
          s1 = drop n s; w = length (takeWhile is_ws s1);
          s2 = drop w s1; d = length (takeWhile is_digit s2);
          s3 = drop d s2 in
      if n < 2 \<or> 6 < n \<or> w = 0 \<or> d = 0 \<or> take 1 s3 \<noteq> [46] then None
      else map_option (\<lambda>t. n + w + d + 1 + t) (heading_tail (drop 1 s3)))"

record section_occurrence =
  so_heading :: jsstr
  so_index :: nat

text \<open>\<open>matchAll\<close> from position \<open>i\<close> of the text: the search resumes at the end of a match.\<close>

function match_headings :: "jsstr \<Rightarrow> nat \<Rightarrow> section_occurrence list" where
  "match_headings txt i =
     (if length txt \<le> i then []
      else if i \<noteq> 0 \<and> \<not> line_end (txt ! (i - 1)) then match_headings txt (i + 1)
      else (case heading_at (drop i txt) of
          None \<Rightarrow> match_headings txt (i + 1)
        | Some n \<Rightarrow> \<lparr>so_heading = take n (drop i txt), so_index = i\<rparr> # match_headings txt (i + max 1 n)))"
  by pat_completeness auto
termination
  by (relation "measure (\<lambda>(txt, i). length txt - i)") auto

declare match_headings.simps [simp del]

definition getSectionOccurrences :: "jsstr \<Rightarrow> section_occurrence list" where
  "getSectionOccurrences txt = match_headings txt 0"

definition getHeadingCounts :: "section_occurrence list \<Rightarrow> (jsstr \<times> nat) list" where
  "getHeadingCounts occurrences =
     foldl (\<lambda>counts oc. map_set (so_heading oc) (or_else (map_of counts (so_heading oc)) 0 + 1) counts) [] occurrences"

fun repeated_loop ::
  "(jsstr \<times> nat) list \<Rightarrow> section_occurrence list \<Rightarrow> jsstr list \<Rightarrow> nat list \<Rightarrow> nat list" where
  "repeated_loop counts [] seen found = found"
| "repeated_loop counts (oc # earlier) seen found =
     (if or_else (map_of counts (so_heading oc)) 0 < MIN_REPEATED_SECTION_COUNT \<or> so_heading oc \<in> set seen
      then repeated_loop counts earlier seen found
      else repeated_loop counts earlier (so_heading oc # seen) (found @ [so_index oc]))"

definition findLastRepeatedSectionRunStart :: "jsstr \<Rightarrow> nat option" where
  "findLastRepeatedSectionRunStart txt =
     (let occurrences = getSectionOccurrences txt;
          found = repeated_loop (getHeadingCounts occurrences) (rev occurrences) [] [] in
      if found = [] then None else Some (foldl min (hd found) (tl found)))"

definition collapseRepeatedSectionSnapshots :: "jsstr \<Rightarrow> jsstr" where
  "collapseRepeatedSectionSnapshots txt =
     (if length txt < MIN_PREFIX_COLLAPSE_LENGTH then txt
      else (case findLastRepeatedSectionRunStart txt of None \<Rightarrow> txt | Some i \<Rightarrow> drop i txt))"

section \<open>Loading a message\<close>

definition truncated_version :: "message_version \<Rightarrow> message_version" where
  "truncated_version v =
     v\<lparr>mv_content := truncateText (collapseRepeatedSectionSnapshots (mv_content v)) MAX_LOADED_MESSAGE_CHARS\<rparr>"

definition version_changed :: "message_version \<Rightarrow> bool" where
  "version_changed v \<longleftrightarrow>
     \<not> (truncateText (collapseRepeatedSectionSnapshots (mv_content v)) MAX_LOADED_MESSAGE_CHARS = mv_content v
        \<and> collapseRepeatedSectionSnapshots (mv_content v) = mv_content v)"

definition truncated_reasoning :: "reasoning \<Rightarrow> reasoning" where
  "truncated_reasoning r = r\<lparr>r_content := truncateText (r_content r) MAX_LOADED_MESSAGE_CHARS\<rparr>"

definition message_changed :: "message \<Rightarrow> bool" where
  "message_changed m \<longleftrightarrow>
     list_ex version_changed (m_versions m)
     \<or> map_option (\<lambda>r. r_content (truncated_reasoning r)) (m_reasoning m) \<noteq> map_option r_content (m_reasoning m)"

definition truncated_message :: "message \<Rightarrow> message" where
  "truncated_message m =
     (if message_changed m
      then m\<lparr>m_versions := map (\<lambda>v. if version_changed v then truncated_version v else v) (m_versions m),
             m_reasoning := map_option truncated_reasoning (m_reasoning m)\<rparr>
      else m)"

text \<open>The message, and whether it is a new object.\<close>

definition normalizeStoredMessageForLoad :: "(nat \<Rightarrow> jsnum) \<Rightarrow> jsnum \<Rightarrow> message \<Rightarrow> message \<times> bool" where
  "normalizeStoredMessageForLoad clk now m =
     (let normalized = truncated_message m;
          hasReasoning = (case m_reasoning normalized of Some r \<Rightarrow> trim (r_content r) \<noteq> [] | None \<Rightarrow> False) in
      if \<not> isAssistantMessagePending normalized then (normalized, message_changed m)
      else if \<not> hasMessageContent normalized \<and> \<not> hasReasoning then (normalized, message_changed m)
      else
        (let completedAt =
               or_else (orElse (m_completedAt normalized)
                 (orElse (case m_reasoning normalized of Some r \<Rightarrow> r_completedAt r | None \<Rightarrow> None)
                   (orElse (m_startedAt normalized) (m_createdAt normalized)))) now in
         (completeAssistantTiming
            ((finalizeMessage clk normalized None)
               \<lparr>m_status := Some Complete, m_isReasoningStreaming := Some False\<rparr>) completedAt, True)))"

section \<open>Configuration\<close>

type_synonym 'a schema = "jsval \<Rightarrow> 'a option"

definition delete_prop :: "string \<Rightarrow> jsval \<Rightarrow> jsval" where
  "delete_prop k v = (case v of JObj es \<Rightarrow> JObj (map_delete (js k) es) | _ \<Rightarrow> v)"

definition set_prop :: "string \<Rightarrow> jsval \<Rightarrow> jsval \<Rightarrow> jsval" where
  "set_prop k x v = (case v of JObj es \<Rightarrow> JObj (map_set (js k) x es) | _ \<Rightarrow> v)"

text \<open>The body of the \<open>try\<close>: \<open>None\<close> when it throws, which leaves the storage as it is.\<close>

definition load_config_body :: "jsval schema \<Rightarrow> browser \<Rightarrow> (jsval \<times> browser) option" where
  "load_config_body configSchema b =
     Option.bind (readStoredValue CONFIG_KEY b) (\<lambda>saved.
     Option.bind (if truthy saved then configSchema (unwrapStoredValue saved) else Some (JObj [])) (\<lambda>parsed.
       let persisted = delete_prop ''clientKey'' parsed;
           legacyClientKey = get_prop parsed (js ''clientKey'') in
     Option.bind (if truthy legacyClientKey then writeStoredValue CONFIG_KEY persisted b else Some b) (\<lambda>b'.
       Some (set_prop ''clientKey'' (JStr (or_else (readSessionClientKey b') [])) persisted, b'))))"

definition loadConfig :: "jsval schema \<Rightarrow> browser \<Rightarrow> jsval \<times> browser" where
  "loadConfig configSchema b = or_else (load_config_body configSchema b) (JObj [], b)"

definition saveConfig :: "jsval schema \<Rightarrow> jsval \<Rightarrow> browser \<Rightarrow> browser" where
  "saveConfig configSchema config b =
     (case configSchema config of
        None \<Rightarrow> b
      | Some parsed \<Rightarrow>
          (case writeStoredValue CONFIG_KEY (delete_prop ''clientKey'' parsed) b of
             None \<Rightarrow> b
           | Some b' \<Rightarrow> writeSessionClientKey (get_prop parsed (js ''clientKey'')) b'))"

definition loadParameterEnabled :: "jsval schema \<Rightarrow> browser \<Rightarrow> jsval" where
  "loadParameterEnabled enabledSchema b =
     or_else (Option.bind (readStoredValue PARAMETER_ENABLED_KEY b) (\<lambda>saved.
       if truthy saved then enabledSchema (unwrapStoredValue saved) else Some (JObj []))) (JObj [])"

definition saveParameterEnabled :: "jsval schema \<Rightarrow> jsval \<Rightarrow> browser \<Rightarrow> browser" where
  "saveParameterEnabled enabledSchema parameterEnabled b =
     or_else (Option.bind (enabledSchema parameterEnabled) (\<lambda>parsed.
       writeStoredValue PARAMETER_ENABLED_KEY parsed b)) b"

section \<open>Messages\<close>

definition optional :: "('a \<Rightarrow> jsval) \<Rightarrow> 'a option \<Rightarrow> jsval" where
  "optional f x = (case x of Some a \<Rightarrow> f a | None \<Rightarrow> JUndef)"

definition role_text :: "message_role \<Rightarrow> jsstr" where
  "role_text r = (case r of User \<Rightarrow> js ''user'' | Assistant \<Rightarrow> js ''assistant'' | System \<Rightarrow> js ''system'')"

definition status_word :: "message_status \<Rightarrow> jsstr" where
  "status_word s =
     (case s of Loading \<Rightarrow> js ''loading'' | Streaming \<Rightarrow> js ''streaming'' | Complete \<Rightarrow> js ''complete'' | Error \<Rightarrow> js ''error'')"

definition reasoning_value :: "reasoning \<Rightarrow> jsval" where
  "reasoning_value r =
     JObj [(js ''content'', JStr (r_content r)), (js ''duration'', JNum (r_duration r)),
       (js ''startedAt'', optional JNum (r_startedAt r)), (js ''completedAt'', optional JNum (r_completedAt r)),
       (js ''durationMs'', optional JNum (r_durationMs r))]"

text \<open>A parsed message as the object it is, with its fields in the order of the schema.\<close>

definition message_value :: "message \<Rightarrow> jsval" where
  "message_value m =
     JObj [(js ''key'', JStr (m_key m)), (js ''from'', JStr (role_text (m_from m))),
       (js ''versions'', JArr (map (\<lambda>v. JObj [(js ''id'', JStr (mv_id v)), (js ''content'', JStr (mv_content v))]) (m_versions m))),
       (js ''createdAt'', optional JNum (m_createdAt m)), (js ''startedAt'', optional JNum (m_startedAt m)),
       (js ''completedAt'', optional JNum (m_completedAt m)), (js ''durationMs'', optional JNum (m_durationMs m)),
       (js ''sources'', optional (\<lambda>ss. JArr (map (\<lambda>(h, t). JObj [(js ''href'', JStr h), (js ''title'', JStr t)]) ss)) (m_sources m)),
       (js ''reasoning'', optional reasoning_value (m_reasoning m)),
       (js ''isReasoningStreaming'', optional JBool (m_isReasoningStreaming m)),
       (js ''isReasoningComplete'', optional JBool (m_isReasoningComplete m)),
       (js ''isContentComplete'', optional JBool (m_isContentComplete m)),
       (js ''status'', optional (\<lambda>s. JStr (status_word s)) (m_status m)),
       (js ''errorCode'', m_errorCode m),
       (js ''servedBy'', optional JStr (m_servedBy m))]"

definition messages_value :: "message list \<Rightarrow> jsval" where
  "messages_value ms = JArr (map message_value ms)"

definition saveMessages :: "message list schema \<Rightarrow> message list \<Rightarrow> browser \<Rightarrow> browser" where
  "saveMessages messagesSchema messages b =
     or_else (Option.bind (messagesSchema (messages_value (trimMessages messages))) (\<lambda>parsed.
       writeStoredValue MESSAGES_KEY (messages_value parsed) b)) b"

text \<open>
  Arrays are compared by identity: \<open>trimMessages\<close> returns its argument unless it cuts,
  \<open>sanitizeMessagesOnLoad\<close> unless it repairs, and \<open>trimMessagesByContentSize\<close> always builds a new array.
\<close>

definition same_array_by_size :: bool where
  "same_array_by_size = False"

definition loadMessages ::
  "message list schema \<Rightarrow> (nat \<Rightarrow> jsnum) \<Rightarrow> jsnum \<Rightarrow> (jsstr \<Rightarrow> jsstr) \<Rightarrow> browser \<Rightarrow> message list option \<times> browser" where
  "loadMessages messagesSchema clk now t b =
     (case readStoredMessagesValue b of
        (None, b1) \<Rightarrow> (None, b1)
      | (Some saved, b1) \<Rightarrow>
          if \<not> truthy saved then (None, b1)
          else (case messagesSchema (unwrapStoredValue saved) of
              None \<Rightarrow> (None, b1)
            | Some parsed \<Rightarrow>
                (let loaded = map (normalizeStoredMessageForLoad clk now) parsed;
                     normalized = map fst loaded;
                     normalizedChanged = list_ex snd loaded;
                     trimmed = trimMessages normalized;
                     sizeTrimmed = trimMessagesByContentSize trimmed;
                     sanitized_messages = sanitizeMessagesOnLoad clk t sizeTrimmed in
                 (Some sanitized_messages,
                  if normalizedChanged \<or> MAX_STORED_MESSAGES < length normalized \<or> \<not> same_array_by_size
                    \<or> list_ex (\<lambda>m. isPendingAssistantMessage (Some m)) sizeTrimmed
                  then saveMessages messagesSchema sanitized_messages b1 else b1))))"

text \<open>Each removal throws when the storage is unavailable, and then the rest is skipped.\<close>

definition clearPlaygroundData :: "browser \<Rightarrow> browser" where
  "clearPlaygroundData b =
     foldl (\<lambda>b k. case remove_item k (br_local b) of Some st \<Rightarrow> b\<lparr>br_local := st\<rparr> | None \<Rightarrow> b) b
       [CONFIG_KEY, PARAMETER_ENABLED_KEY, MESSAGES_KEY]"

section \<open>The interface of a storage\<close>

text \<open>What the code relies on: an entry that was written is read back, and no other entry changes.\<close>

locale key_value_storage =
  fixes get :: "'s \<Rightarrow> jsstr \<Rightarrow> jsstr option option"
    and put :: "jsstr \<Rightarrow> jsstr \<Rightarrow> 's \<Rightarrow> 's option"
    and remove :: "jsstr \<Rightarrow> 's \<Rightarrow> 's option"
  assumes get_put: "put k v s = Some s' \<Longrightarrow> get s' k' = (if k' = k then Some (Some v) else get s k')"
    and get_remove: "remove k s = Some s' \<Longrightarrow> get s' k' = (if k' = k then Some None else get s k')"
begin

lemma put_same: "put k v s = Some s' \<Longrightarrow> get s' k = Some (Some v)"
  by (simp add: get_put)

lemma put_other: "put k v s = Some s' \<Longrightarrow> k' \<noteq> k \<Longrightarrow> get s' k' = get s k'"
  by (simp add: get_put)

lemma remove_other: "remove k s = Some s' \<Longrightarrow> k' \<noteq> k \<Longrightarrow> get s' k' = get s k'"
  by (simp add: get_remove)

text \<open>Removing entries one after the other, skipping those whose removal throws.\<close>

lemma remove_all_other:
  "k \<notin> set ks \<Longrightarrow> get (foldl (\<lambda>s k. case remove k s of Some s' \<Rightarrow> s' | None \<Rightarrow> s) s ks) k = get s k"
  by (induction ks arbitrary: s) (auto simp: get_remove split: option.split)

lemma remove_all_gone:
  assumes "\<And>k s. remove k s = None \<Longrightarrow> get s k = None"
  shows "k \<in> set ks \<Longrightarrow> get (foldl (\<lambda>s k. case remove k s of Some s' \<Rightarrow> s' | None \<Rightarrow> s) s ks) k \<in> {None, Some None}"
proof (induction ks arbitrary: s rule: rev_induct)
  case (snoc l ks)
  let ?s = "foldl (\<lambda>s k. case remove k s of Some s' \<Rightarrow> s' | None \<Rightarrow> s) s ks"
  show ?case
  proof (cases "remove l ?s")
    case None
    then show ?thesis using snoc assms [OF None] by auto
  next
    case (Some s')
    then show ?thesis using snoc get_remove [OF Some, of k] by auto
  qed
qed simp

end

interpretation items: key_value_storage get_item "set_item fits" remove_item
  by unfold_locales
    (auto simp: get_item_def set_item_def remove_item_def map_of_map_delete split: option.splits if_splits)

section \<open>Lemmas: the configuration\<close>

text \<open>
  A schema of objects returns an object of the language (numbers are doubles, strings consist of code
  units; negative zero and properties that hold \<open>undefined\<close> are allowed), and keeps the field it declares.
\<close>

definition config_schema :: "jsval schema \<Rightarrow> bool" where
  "config_schema sch \<longleftrightarrow>
     (\<forall>v p. sch v = Some p \<longrightarrow>
        (\<exists>es. p = JObj es) \<and> json_printable p \<and> get_prop p (js ''clientKey'') = get_prop v (js ''clientKey''))"

lemma envelope_read_back:
  assumes "json_printable data" "data \<noteq> JUndef"
  shows "json_parse (json_stringify (envelope data)) = Some (envelope (json_data data))"
proof -
  have one: "json_clean (JNum (Fin (of_nat STORAGE_VERSION)))" by (simp add: STORAGE_VERSION_def)
  then have n: "json_printable (JNum (Fin (of_nat STORAGE_VERSION)))"
    "json_data (JNum (Fin (of_nat STORAGE_VERSION))) = JNum (Fin (of_nat STORAGE_VERSION))"
    by (simp_all only: json_clean_def)
  have "property_order [(js ''version'', JNum (Fin (of_nat STORAGE_VERSION))), (js ''data'', data)] =
      [(js ''version'', JNum (Fin (of_nat STORAGE_VERSION))), (js ''data'', data)]"
    by (rule own_key_order) (simp add: is_index_def is_digit_def js_def)
  then have "json_printable (envelope data)"
    using assms(1) n(1) by (simp add: envelope_def json_printable.simps [of "JObj _"] code_units_def js_def)
  moreover have "json_data (envelope data) = envelope (json_data data)"
    using assms(2) n(2) by (simp add: envelope_def json_data.simps [of "JObj _"])
  ultimately show ?thesis using json_roundtrip(1) [of "envelope data"] by (simp add: envelope_def)
qed

lemma printable_filter: "json_printable (JObj es) \<Longrightarrow> json_printable (JObj (filter P es))"
proof -
  assume p: "json_printable (JObj es)"
  then have "property_order es = es" by (simp add: json_printable.simps [of "JObj _"])
  from property_order_entries [OF this, of "\<lambda>x. x" P] have "property_order (filter P es) = filter P es" by simp
  with p show ?thesis by (auto simp: json_printable.simps [of "JObj _"] list_all_iff distinct_map_filter)
qed

lemma unwrap_envelope [simp]: "unwrapStoredValue (envelope data) = data"
  by (simp add: unwrapStoredValue_def envelope_def truthy_def typeof_object_def has_property_def get_prop_def)

lemma envelope_truthy [simp]: "truthy (envelope data)"
  by (simp add: envelope_def truthy_def)

lemma stored_text_nonempty [simp]: "json_stringify (envelope data) \<noteq> []"
  by (simp add: envelope_def json_stringify_def json_text.simps [of _ _ "JObj _"] json_wrap_def)

text \<open>Reading what was written.\<close>

lemma read_after_write:
  assumes "writeStoredValue k data b = Some b'" "json_printable data" "data \<noteq> JUndef"
  shows "readStoredValue k b' = Some (envelope (json_data data))"
proof -
  obtain st where st: "set_item (br_fits b) k (json_stringify (envelope data)) (br_local b) = Some st" "b' = b\<lparr>br_local := st\<rparr>"
    using assms(1) by (auto simp: writeStoredValue_def)
  show ?thesis
    using items.put_same [OF st(1)] envelope_read_back [OF assms(2,3)] by (simp add: readStoredValue_def st(2))
qed

lemma read_other_after_write:
  "writeStoredValue k data b = Some b' \<Longrightarrow> k' \<noteq> k \<Longrightarrow> readStoredValue k' b' = readStoredValue k' b"
  by (auto simp: writeStoredValue_def readStoredValue_def items.put_other)

lemma session_after_write: "writeStoredValue k data b = Some b' \<Longrightarrow> br_session b' = br_session b \<and> br_fits b' = br_fits b"
  by (auto simp: writeStoredValue_def)

lemma local_after_client_key [simp]: "br_local (writeSessionClientKey key b) = br_local b"
  by (auto simp: writeSessionClientKey_def split: option.split)

lemma read_after_client_key [simp]: "readStoredValue k (writeSessionClientKey key b) = readStoredValue k b"
  by (simp add: readStoredValue_def)

lemma delete_prop_absent [simp]: "get_prop (delete_prop k v) (js k) = JUndef"
  by (auto simp: delete_prop_def get_prop_def map_of_map_delete split: jsval.split)

lemma delete_prop_twice [simp]: "delete_prop k (delete_prop k v) = delete_prop k v"
  by (cases v) (simp_all add: delete_prop_def map_delete_def)

lemma delete_prop_clean: "json_clean v \<Longrightarrow> json_clean (delete_prop k v)"
  by (cases v) (simp_all add: delete_prop_def map_delete_def json_clean_filter)

lemma delete_prop_printable: "json_printable v \<Longrightarrow> json_printable (delete_prop k v)"
  by (cases v) (simp_all add: delete_prop_def map_delete_def printable_filter)

text \<open>The stored configuration holds a client key.\<close>

definition holds_client_key :: "browser \<Rightarrow> bool" where
  "holds_client_key b =
     (case readStoredValue CONFIG_KEY b of
        Some v \<Rightarrow> truthy (get_prop (unwrapStoredValue v) (js ''clientKey''))
      | None \<Rightarrow> False)"

lemma written_config_holds_no_key:
  assumes "writeStoredValue CONFIG_KEY (delete_prop ''clientKey'' p) b = Some b'" "json_printable p" "p = JObj es"
  shows "\<not> holds_client_key b'"
proof -
  let ?d = "map_delete (js ''clientKey'') es"
  have d: "delete_prop ''clientKey'' p = JObj ?d" by (simp add: assms(3) delete_prop_def)
  have read: "readStoredValue CONFIG_KEY b' = Some (envelope (json_data (JObj ?d)))"
    using read_after_write [OF assms(1) delete_prop_printable [OF assms(2)]] by (simp add: d)
  have "distinct (map fst ?d)"
    using delete_prop_printable [OF assms(2), of "''clientKey''"] by (simp add: d json_printable.simps [of "JObj _"])
  then have "get_prop (json_data (JObj ?d)) (js ''clientKey'') = JUndef"
    by (simp add: json_data_prop) (simp add: get_prop_def map_of_map_delete)
  then show ?thesis by (simp add: holds_client_key_def read truthy_def)
qed

lemma load_config_holds_no_key:
  assumes "config_schema sch" "load_config_body sch b = Some (c, b')"
  shows "\<not> holds_client_key b'"
proof -
  obtain saved parsed where s: "readStoredValue CONFIG_KEY b = Some saved"
    "(if truthy saved then sch (unwrapStoredValue saved) else Some (JObj [])) = Some parsed"
    "(if truthy (get_prop parsed (js ''clientKey''))
      then writeStoredValue CONFIG_KEY (delete_prop ''clientKey'' parsed) b else Some b) = Some b'"
    using assms(2) by (auto simp: load_config_body_def bind_eq_Some_conv Let_def)
  show ?thesis
  proof (cases "truthy (get_prop parsed (js ''clientKey''))")
    case True
    then obtain es where "parsed = JObj es" "json_printable parsed"
      using s(2) assms(1) by (auto simp: config_schema_def get_prop_def truthy_def split: if_splits)
    then show ?thesis using s(3) True written_config_holds_no_key by simp
  next
    case False
    have "\<not> truthy (get_prop (unwrapStoredValue saved) (js ''clientKey''))"
    proof (cases "truthy saved")
      case True
      then show ?thesis using False s(2) assms(1) by (auto simp: config_schema_def)
    next
      case f: False
      then have "get_prop (unwrapStoredValue saved) (js ''clientKey'') = JUndef"
        by (cases saved) (auto simp: unwrapStoredValue_def get_prop_def truthy_def)
      then show ?thesis by (simp add: truthy_def)
    qed
    then show ?thesis using s(1,3) False by (simp add: holds_client_key_def)
  qed
qed

lemma holds_cong: "readStoredValue CONFIG_KEY b' = readStoredValue CONFIG_KEY b \<Longrightarrow> holds_client_key b' = holds_client_key b"
  by (simp add: holds_client_key_def)

lemma key_names [simp]:
  "PARAMETER_ENABLED_KEY \<noteq> CONFIG_KEY" "MESSAGES_KEY \<noteq> CONFIG_KEY" "CONFIG_KEY \<noteq> PARAMETER_ENABLED_KEY" "CONFIG_KEY \<noteq> MESSAGES_KEY"
  "PARAMETER_ENABLED_KEY \<noteq> MESSAGES_KEY" "MESSAGES_KEY \<noteq> PARAMETER_ENABLED_KEY"
  by (simp_all add: PARAMETER_ENABLED_KEY_def CONFIG_KEY_def MESSAGES_KEY_def)

lemma saveMessages_config: "readStoredValue CONFIG_KEY (saveMessages ms xs b) = readStoredValue CONFIG_KEY b"
  by (auto simp: saveMessages_def or_else_def bind_eq_Some_conv read_other_after_write split: option.split)

lemma readMessages_config:
  "readStoredValue CONFIG_KEY (snd (readStoredMessagesValue b)) = readStoredValue CONFIG_KEY b"
  by (auto simp: readStoredMessagesValue_def readStoredValue_def items.remove_other split: option.split)

lemma loadMessages_config:
  "readStoredValue CONFIG_KEY (snd (loadMessages ms clk now t b)) = readStoredValue CONFIG_KEY b"
  using readMessages_config [of b]
  by (auto simp: loadMessages_def Let_def saveMessages_config split: prod.splits option.splits)

text \<open>The operations of the storage, and running some of them.\<close>

datatype storage_op =
    LoadConfig
  | SaveConfig jsval
  | SaveParameterEnabled jsval
  | LoadMessages
  | SaveMessages "message list"
  | ClearData

definition run_op ::
  "jsval schema \<Rightarrow> jsval schema \<Rightarrow> message list schema \<Rightarrow> (nat \<Rightarrow> jsnum) \<Rightarrow> jsnum \<Rightarrow> (jsstr \<Rightarrow> jsstr)
     \<Rightarrow> browser \<Rightarrow> storage_op \<Rightarrow> browser" where
  "run_op cs es ms clk now t b operation =
     (case operation of
        LoadConfig \<Rightarrow> snd (loadConfig cs b)
      | SaveConfig c \<Rightarrow> saveConfig cs c b
      | SaveParameterEnabled p \<Rightarrow> saveParameterEnabled es p b
      | LoadMessages \<Rightarrow> snd (loadMessages ms clk now t b)
      | SaveMessages xs \<Rightarrow> saveMessages ms xs b
      | ClearData \<Rightarrow> clearPlaygroundData b)"

lemma clear_config: "\<not> holds_client_key (clearPlaygroundData b)"
  by (auto simp: clearPlaygroundData_def holds_client_key_def readStoredValue_def get_item_def remove_item_def
      map_of_map_delete truthy_def unwrapStoredValue_def get_prop_def split: option.splits)

lemma run_op_holds_no_key:
  assumes "config_schema cs" "\<not> holds_client_key b"
  shows "\<not> holds_client_key (run_op cs es ms clk now t b operation)"
proof (cases operation)
  case LoadConfig
  then show ?thesis
    using assms load_config_holds_no_key [OF assms(1)]
    by (auto simp: run_op_def loadConfig_def or_else_def split: option.split)
next
  case (SaveConfig c)
  show ?thesis
  proof (cases "cs c")
    case None
    then show ?thesis using SaveConfig assms(2) by (simp add: run_op_def saveConfig_def)
  next
    case (Some p)
    then obtain ps where "p = JObj ps" "json_printable p" using assms(1) by (auto simp: config_schema_def)
    then show ?thesis
      using SaveConfig Some assms(2) written_config_holds_no_key [of p b _ ps]
      by (auto simp: run_op_def saveConfig_def holds_client_key_def split: option.split)
  qed
next
  case (SaveParameterEnabled p)
  then show ?thesis
    using assms(2)
    by (auto simp: run_op_def saveParameterEnabled_def or_else_def bind_eq_Some_conv read_other_after_write
        holds_client_key_def split: option.split)
next
  case LoadMessages
  then show ?thesis using assms(2) by (simp add: run_op_def holds_client_key_def loadMessages_config)
next
  case (SaveMessages xs)
  then show ?thesis using assms(2) by (simp add: run_op_def holds_client_key_def saveMessages_config)
next
  case ClearData
  then show ?thesis by (simp add: run_op_def clear_config)
qed

section \<open>Lemmas: trimming\<close>

definition size_sum :: "message list \<Rightarrow> nat" where
  "size_sum ms = sum_list (map getMessageSize ms)"

lemma content_size_loop_spec:
  "\<exists>n \<le> length ms. content_size_loop ms acc result = result @ take n ms
     \<and> (n = 0 \<or> result = [] \<and> n = 1 \<or> acc + size_sum (take n ms) \<le> MAX_LOADED_MESSAGES_CHARS)
     \<and> (n < length ms \<longrightarrow> result @ take n ms \<noteq> [] \<and> MAX_LOADED_MESSAGES_CHARS < acc + size_sum (take (Suc n) ms))"
proof (induction ms arbitrary: acc result)
  case (Cons m ms)
  show ?case
  proof (cases "result \<noteq> [] \<and> MAX_LOADED_MESSAGES_CHARS < acc + getMessageSize m")
    case True
    then show ?thesis by (intro exI [of _ 0]) (auto simp: size_sum_def)
  next
    case False
    obtain n where n: "n \<le> length ms"
      "content_size_loop ms (acc + getMessageSize m) (result @ [m]) = (result @ [m]) @ take n ms"
      "n = 0 \<or> acc + getMessageSize m + size_sum (take n ms) \<le> MAX_LOADED_MESSAGES_CHARS"
      "n < length ms \<longrightarrow> MAX_LOADED_MESSAGES_CHARS < acc + getMessageSize m + size_sum (take (Suc n) ms)"
      using Cons.IH [of "acc + getMessageSize m" "result @ [m]"] by auto
    have "acc + getMessageSize m \<le> MAX_LOADED_MESSAGES_CHARS \<or> result = []" using False by auto
    then show ?thesis
      using n False by (intro exI [of _ "Suc n"]) (auto simp: size_sum_def)
  qed
qed simp

lemma trim_by_size_spec:
  assumes "ms \<noteq> []"
  shows "\<exists>older kept. ms = older @ kept \<and> trimMessagesByContentSize ms = kept \<and> kept \<noteq> []
     \<and> (length kept = 1 \<or> size_sum kept \<le> MAX_LOADED_MESSAGES_CHARS)
     \<and> (older \<noteq> [] \<longrightarrow> MAX_LOADED_MESSAGES_CHARS < size_sum (last older # kept))"
proof -
  obtain n where n: "n \<le> length ms" "content_size_loop (rev ms) 0 [] = take n (rev ms)"
    "n = 0 \<or> n = 1 \<or> size_sum (take n (rev ms)) \<le> MAX_LOADED_MESSAGES_CHARS"
    "n < length ms \<longrightarrow> take n (rev ms) \<noteq> [] \<and> MAX_LOADED_MESSAGES_CHARS < size_sum (take (Suc n) (rev ms))"
    using content_size_loop_spec [of "rev ms" 0 "[]"] by auto
  have pos: "n \<noteq> 0" using n(1,4) assms by (cases "n < length ms") auto
  let ?k = "length ms - n"
  have rv: "take n (rev ms) = rev (drop ?k ms)" by (rule take_rev)
  have sz: "size_sum (rev xs) = size_sum xs" for xs by (simp add: size_sum_def rev_map [symmetric] sum_list_rev)
  have older: "MAX_LOADED_MESSAGES_CHARS < size_sum (last (take ?k ms) # drop ?k ms)" if "take ?k ms \<noteq> []"
  proof -
    have lt: "n < length ms" using that by auto
    then have "take (Suc n) (rev ms) = rev (drop (?k - 1) ms)" by (simp add: take_rev)
    moreover have "drop (?k - 1) ms = last (take ?k ms) # drop ?k ms"
      using lt by (simp add: Cons_nth_drop_Suc [symmetric] last_conv_nth [OF that] Suc_diff_Suc)
    ultimately show ?thesis using n(4) lt sz by metis
  qed
  show ?thesis
  proof (intro exI conjI)
    show "ms = take ?k ms @ drop ?k ms" by simp
    show "trimMessagesByContentSize ms = drop ?k ms" by (simp add: trimMessagesByContentSize_def n(2) rv)
    have "?k < length ms" using pos assms by simp
    then show "drop ?k ms \<noteq> []" by simp
    show "length (drop ?k ms) = 1 \<or> size_sum (drop ?k ms) \<le> MAX_LOADED_MESSAGES_CHARS"
      using n(1,3) pos sz [of "drop ?k ms"] by (auto simp: rv)
    show "take ?k ms \<noteq> [] \<longrightarrow> MAX_LOADED_MESSAGES_CHARS < size_sum (last (take ?k ms) # drop ?k ms)" using older by blast
  qed
qed

lemma trimMessages_spec:
  "\<exists>older. ms = older @ trimMessages ms \<and> length (trimMessages ms) \<le> MAX_STORED_MESSAGES
     \<and> (older \<noteq> [] \<longrightarrow> length (trimMessages ms) = MAX_STORED_MESSAGES)"
  by (intro exI [of _ "take (length ms - MAX_STORED_MESSAGES) ms"]) (auto simp: trimMessages_def)

lemma truncateText_length: "length (truncateText s n) \<le> n"
  by (auto simp: truncateText_def)

lemma truncated_message_texts:
  "list_all (\<lambda>v. length (mv_content v) \<le> MAX_LOADED_MESSAGE_CHARS) (m_versions (truncated_message m))
   \<and> pred_option (\<lambda>r. length (r_content r) \<le> MAX_LOADED_MESSAGE_CHARS) (m_reasoning (truncated_message m))"
proof -
  have kept: "length (mv_content v) \<le> MAX_LOADED_MESSAGE_CHARS" if "\<not> version_changed v" for v
    using that truncateText_length by (metis version_changed_def)
  show ?thesis
  proof (cases "message_changed m")
    case True
    then show ?thesis
      using kept truncateText_length
      by (auto simp: truncated_message_def list_all_iff truncated_version_def truncated_reasoning_def pred_option_def option.set_map)
  next
    case False
    have "length (r_content r) \<le> MAX_LOADED_MESSAGE_CHARS" if "m_reasoning m = Some r" for r
    proof -
      have "r_content (truncated_reasoning r) = r_content r" using False that by (simp add: message_changed_def)
      then show ?thesis
        using truncateText_length [of "r_content r" MAX_LOADED_MESSAGE_CHARS] by (simp add: truncated_reasoning_def)
    qed
    moreover have "\<forall>v\<in>set (m_versions m). \<not> version_changed v"
      using False by (simp add: message_changed_def list_ex_iff)
    ultimately show ?thesis
      using False kept by (simp add: truncated_message_def list_all_iff pred_option_def)
  qed
qed

section \<open>Lemmas: repeated sections\<close>

definition heading_count :: "section_occurrence list \<Rightarrow> jsstr \<Rightarrow> nat" where
  "heading_count occs h = length (filter (\<lambda>oc. so_heading oc = h) occs)"

lemma counts_step:
  "map_of (foldl (\<lambda>counts oc. map_set (so_heading oc) (or_else (map_of counts (so_heading oc)) 0 + 1) counts) counts occs) h =
     (if heading_count occs h = 0 then map_of counts h else Some (or_else (map_of counts h) 0 + heading_count occs h))"
  by (induction occs arbitrary: counts) (auto simp: heading_count_def or_else_def)

lemma getHeadingCounts_spec: "or_else (map_of (getHeadingCounts occs) h) 0 = heading_count occs h"
  unfolding getHeadingCounts_def counts_step by (simp add: or_else_def)

text \<open>The last occurrence of each heading that occurs at least three times.\<close>

definition last_of :: "section_occurrence list \<Rightarrow> jsstr \<Rightarrow> nat" where
  "last_of occs h = so_index (last (filter (\<lambda>oc. so_heading oc = h) occs))"

lemma repeated_loop_set:
  "set (repeated_loop counts (rev occs) seen found) =
     set found \<union> last_of occs ` {h \<in> so_heading ` set occs.
       MIN_REPEATED_SECTION_COUNT \<le> or_else (map_of counts h) 0 \<and> h \<notin> set seen}"
proof (induction occs arbitrary: seen found rule: rev_induct)
  case (snoc oc occs)
  have last: "last_of (occs @ [oc]) h = (if h = so_heading oc then so_index oc else last_of occs h)" for h
    by (simp add: last_of_def)
  show ?case by (auto simp: snoc.IH last image_iff)
qed simp

lemma foldl_min_Min: "foldl min (x :: nat) xs = Min (set (x # xs))"
proof (induction xs arbitrary: x)
  case (Cons a xs)
  then show ?case by (cases "xs = []") (simp_all add: min.assoc)
qed simp

text \<open>A load that succeeds always rewrites the storage.\<close>

lemma loadMessages_unfold:
  assumes "readStoredMessagesValue b = (Some saved, b1)" "ms (unwrapStoredValue saved) = Some parsed" "truthy saved"
  shows "loadMessages ms clk now t b =
     (let kept = trimMessagesByContentSize (trimMessages (map (\<lambda>m. fst (normalizeStoredMessageForLoad clk now m)) parsed)) in
      (Some (sanitizeMessagesOnLoad clk t kept), saveMessages ms (sanitizeMessagesOnLoad clk t kept) b1))"
  unfolding loadMessages_def assms(1) Let_def same_array_by_size_def by (simp add: assms(2,3) comp_def)

section \<open>Lemmas: clearing\<close>

lemma clear_local:
  "br_local (clearPlaygroundData b) =
     foldl (\<lambda>st k. case remove_item k st of Some st' \<Rightarrow> st' | None \<Rightarrow> st) (br_local b)
       [CONFIG_KEY, PARAMETER_ENABLED_KEY, MESSAGES_KEY]"
  by (simp add: clearPlaygroundData_def split: option.split)

text \<open>Clearing leaves none of the three entries, no other entry changes, and the key of the tab stays.\<close>

lemma clear_spec:
  "k \<in> {CONFIG_KEY, PARAMETER_ENABLED_KEY, MESSAGES_KEY} \<Longrightarrow> get_item (br_local (clearPlaygroundData b)) k \<in> {None, Some None}"
  "k \<notin> {CONFIG_KEY, PARAMETER_ENABLED_KEY, MESSAGES_KEY} \<Longrightarrow>
     get_item (br_local (clearPlaygroundData b)) k = get_item (br_local b) k"
  "br_session (clearPlaygroundData b) = br_session b"
proof -
  show "k \<in> {CONFIG_KEY, PARAMETER_ENABLED_KEY, MESSAGES_KEY} \<Longrightarrow> get_item (br_local (clearPlaygroundData b)) k \<in> {None, Some None}"
    unfolding clear_local by (rule items.remove_all_gone) (auto simp: remove_item_def get_item_def)
  show "k \<notin> {CONFIG_KEY, PARAMETER_ENABLED_KEY, MESSAGES_KEY} \<Longrightarrow>
     get_item (br_local (clearPlaygroundData b)) k = get_item (br_local b) k"
    unfolding clear_local by (rule items.remove_all_other) auto
  show "br_session (clearPlaygroundData b) = br_session b"
    by (simp add: clearPlaygroundData_def split: option.split)
qed

section \<open>Samples\<close>

text \<open>
  A schema of an object whose fields are optional, in the way of the schema library: it accepts an object
  whose declared fields are absent, \<open>undefined\<close> or of their type, and returns these fields in the order
  of the declaration, without any other.  The fields of a configuration, and a browser in which an
  older version left a client key.
\<close>

definition optional_fields :: "(string \<times> (jsval \<Rightarrow> bool)) list \<Rightarrow> jsval schema" where
  "optional_fields fs v =
     (case v of
        JObj es \<Rightarrow>
          if list_all (\<lambda>(k, ok). case map_of es (js k) of Some x \<Rightarrow> x = JUndef \<or> ok x | None \<Rightarrow> True) fs
          then Some (JObj (List.map_filter (\<lambda>(k, ok). map_option (\<lambda>x. (js k, x)) (map_of es (js k))) fs))
          else None
      | _ \<Rightarrow> None)"

definition text_value :: "jsval \<Rightarrow> bool" where
  "text_value v = (case v of JStr s \<Rightarrow> code_units s | _ \<Rightarrow> False)"

definition number_value :: "jsval \<Rightarrow> bool" where
  "number_value v = (case v of JNum x \<Rightarrow> double x \<and> is_finite x | _ \<Rightarrow> False)"

definition bool_value :: "jsval \<Rightarrow> bool" where
  "bool_value v = (case v of JBool _ \<Rightarrow> True | _ \<Rightarrow> False)"

definition config_fields :: "(string \<times> (jsval \<Rightarrow> bool)) list" where
  "config_fields =
     [(''model'', text_value), (''clientKey'', text_value), (''temperature'', number_value), (''top_p'', number_value),
      (''max_tokens'', number_value), (''frequency_penalty'', number_value), (''presence_penalty'', number_value),
      (''seed'', \<lambda>v. v = JNull \<or> number_value v), (''stream'', bool_value)]"

abbreviation declared_config :: "jsval schema" where
  "declared_config \<equiv> optional_fields config_fields"

lemma config_field_printable: "(k, ok) \<in> set config_fields \<Longrightarrow> x = JUndef \<or> ok x \<Longrightarrow> json_printable x"
  by (cases x) (auto simp: config_fields_def text_value_def number_value_def bool_value_def json_printable.simps [of JUndef]
      json_printable.simps [of JNull] json_printable.simps [of "JBool _"] json_printable.simps [of "JNum _"]
      json_printable.simps [of "JStr _"])

lemma config_field_names:
  "distinct (map (\<lambda>f. js (fst f)) config_fields)" "list_all (\<lambda>f. plain_key (js (fst f))) config_fields"
  by (simp_all add: config_fields_def plain_key_def is_index_def is_digit_def js_def code_units_def)

lemma map_filter_fields:
  "map fst (List.map_filter (\<lambda>(k, ok). map_option (\<lambda>x. (js k, x)) (m (js k))) fs) =
     filter (\<lambda>k. m k \<noteq> None) (map (\<lambda>f. js (fst f)) fs)"
  by (induction fs) (auto simp: List.map_filter_simps split: option.split)

lemma map_of_fields:
  "map_of (List.map_filter (\<lambda>(k, ok). map_option (\<lambda>x. (js k, x)) (m (js k))) fs) k' =
     (if k' \<in> (\<lambda>f. js (fst f)) ` set fs then m k' else None)"
proof (induction fs)
  case (Cons f fs)
  then show ?case by (cases f; cases "m (js (fst f))") (simp_all add: List.map_filter_simps)
qed (simp add: List.map_filter_simps)

lemma set_fields:
  "(k, x) \<in> set (List.map_filter (\<lambda>(k, ok). map_option (\<lambda>x. (js k, x)) (m (js k))) fs) \<longleftrightarrow>
     (\<exists>f \<in> set fs. k = js (fst f) \<and> m k = Some x)"
proof (induction fs)
  case (Cons f fs)
  then show ?case by (cases f; cases "m (js (fst f))") (auto simp: List.map_filter_simps)
qed (simp add: List.map_filter_simps)

lemma declared_config_schema: "config_schema declared_config"
  unfolding config_schema_def
proof (intro allI impI)
  fix v p
  assume "declared_config v = Some p"
  then obtain es where v: "v = JObj es"
    and ok: "list_all (\<lambda>(k, ok). case map_of es (js k) of Some x \<Rightarrow> x = JUndef \<or> ok x | None \<Rightarrow> True) config_fields"
    and p: "p = JObj (List.map_filter (\<lambda>(k, ok). map_option (\<lambda>x. (js k, x)) (map_of es (js k))) config_fields)"
    by (auto simp: optional_fields_def split: jsval.splits if_splits)
  let ?fs = "List.map_filter (\<lambda>(k, ok). map_option (\<lambda>x. (js k, x)) (map_of es (js k))) config_fields"
  have entry: "plain_key k \<and> json_printable x" if "(k, x) \<in> set ?fs" for k x
    using that ok config_field_printable config_field_names(2) by (fastforce simp: set_fields list_all_iff)
  have "distinct (map fst ?fs)" using config_field_names(1) by (simp only: map_filter_fields distinct_filter)
  moreover have "property_order ?fs = ?fs"
    using entry by (intro own_key_order) (auto simp: list_all_iff plain_key_def)
  ultimately have "json_printable p"
    using entry by (auto simp: p json_printable.simps [of "JObj _"] list_all_iff plain_key_def)
  moreover have "get_prop p (js ''clientKey'') = get_prop v (js ''clientKey'')"
    by (simp add: p v get_prop_def map_of_fields) (simp add: config_fields_def)
  ultimately show "(\<exists>es. p = JObj es) \<and> json_printable p \<and> get_prop p (js ''clientKey'') = get_prop v (js ''clientKey'')"
    by (simp add: p)
qed

definition key_config :: jsval where
  "key_config = JObj [(js ''clientKey'', JStr (js ''sk''))]"

lemma key_config_clean: "json_clean key_config" "json_clean (JObj [])"
  unfolding key_config_def
  by (rule json_clean_objI; simp add: plain_key_def is_index_def is_digit_def js_def code_units_def json_clean_text)+

definition legacy_browser :: browser where
  "legacy_browser =
     \<lparr>br_local = Some [(CONFIG_KEY, json_stringify (envelope key_config)), (MESSAGES_KEY, js ''1'')], br_session = Some [],
      br_fits = (\<lambda>_. True)\<rparr>"

lemma one_parsed: "json_parse (js ''1'') = Some (JNum (Fin 1))"
  by code_simp

lemma legacy_read: "readStoredValue CONFIG_KEY legacy_browser = Some (envelope key_config)"
  using envelope_read_back [of key_config] key_config_clean(1)
  by (simp add: readStoredValue_def legacy_browser_def get_item_def json_clean_def) (simp add: key_config_def)

lemma key_config_props [simp]:
  "declared_config key_config = Some key_config" "declared_config (JObj []) = Some (JObj [])"
  "delete_prop ''clientKey'' key_config = JObj []" "get_prop key_config (js ''clientKey'') = JStr (js ''sk'')"
  "set_prop ''clientKey'' (JStr (js ''sk'')) (JObj []) = key_config"
  by (simp_all add: optional_fields_def config_fields_def List.map_filter_simps text_value_def code_units_def js_def
      key_config_def delete_prop_def set_prop_def get_prop_def map_delete_def)

section \<open>Properties\<close>

text \<open>
  C23. Once a configuration has been loaded, no sequence of storage operations puts a client key into
  the storage that outlives the tab: loading removes the key that an older version left there, and
  saving keeps it out, also when a write fails.
\<close>

theorem client_key_not_persisted:
  assumes "config_schema cs" "load_config_body cs b = Some (c, b')"
  shows "\<not> holds_client_key (foldl (run_op cs es ms clk now t) b' ops)"
proof (induction ops rule: rev_induct)
  case Nil
  then show ?case using load_config_holds_no_key [OF assms] by simp
next
  case (snoc operation ops)
  then show ?case using run_op_holds_no_key [OF assms(1)] by simp
qed

theorem client_key_not_persisted_witness:
  "holds_client_key legacy_browser
   \<and> \<not> holds_client_key (foldl (run_op declared_config declared_config (\<lambda>_. Some []) (\<lambda>_. Fin 0) (Fin 0) id)
       (snd (loadConfig declared_config legacy_browser)) [SaveConfig key_config, LoadMessages])"
proof -
  obtain b' where w: "writeStoredValue CONFIG_KEY (JObj []) legacy_browser = Some b'"
    by (simp add: writeStoredValue_def set_item_def legacy_browser_def)
  obtain c where b': "load_config_body declared_config legacy_browser = Some (c, b')"
    by (simp add: load_config_body_def legacy_read Let_def truthy_def [of "JStr _"] w)
  show ?thesis
    using client_key_not_persisted [OF declared_config_schema b', of declared_config "\<lambda>_. Some []" "\<lambda>_. Fin 0" "Fin 0" id
        "[SaveConfig key_config, LoadMessages]"]
    by (simp del: foldl.simps add: holds_client_key_def [of legacy_browser] legacy_read truthy_def loadConfig_def b' or_else_def)
qed

text \<open>
  A saved configuration of values that JSON keeps is loaded again when the schema accepts what it
  returned and the write fits; the client key is the one that the tab keeps, and empty when the
  storage of the tab is not available.
\<close>

lemma config_roundtrip:
  assumes "cs c = Some p" "cs (delete_prop ''clientKey'' p) = Some (delete_prop ''clientKey'' p)"
    and p: "p = JObj es" "json_clean p" "get_prop p (js ''clientKey'') = JStr key"
    and "writeStoredValue CONFIG_KEY (delete_prop ''clientKey'' p) b = Some b1" "br_fits b = (\<lambda>_. True)"
  shows "fst (loadConfig cs (saveConfig cs c b)) =
    set_prop ''clientKey'' (JStr (if br_session b = None then [] else key)) (delete_prop ''clientKey'' p)"
proof -
  let ?d = "delete_prop ''clientKey'' p"
  have saved: "saveConfig cs c b = writeSessionClientKey (JStr key) b1"
    using assms(1,5,6) by (simp add: saveConfig_def)
  have clean: "json_printable ?d" "json_data ?d = ?d"
    using delete_prop_clean [OF p(2), of "''clientKey''"] by (simp_all add: json_clean_def)
  have read: "readStoredValue CONFIG_KEY b1 = Some (envelope ?d)"
    using read_after_write [OF assms(6) clean(1)] clean(2) by (simp add: p(1) delete_prop_def)
  have tab: "or_else (readSessionClientKey (writeSessionClientKey (JStr key) b1)) [] = (if br_session b = None then [] else key)"
    using session_after_write [OF assms(6)] assms(7)
    by (auto simp: writeSessionClientKey_def readSessionClientKey_def set_item_def remove_item_def get_item_def truthy_def
        or_else_def map_of_map_delete split: option.split)
  show ?thesis
    using assms(2) p(1) by (simp add: loadConfig_def load_config_body_def saved read tab or_else_def [of "Some _"] truthy_def [of JUndef] Let_def)
qed

text \<open>
  C27. Loading messages keeps the newest ones: at most a hundred, of together at most 120000 characters
  unless there is only one, and no message is dropped without need.  The storage is rewritten by every successful load, also when nothing
  was changed.
\<close>

theorem loaded_messages_bounded:
  assumes "loadMessages ms clk now t b = (Some xs, b')" "xs \<noteq> []"
  shows "\<exists>parsed older kept.
     map (\<lambda>m. fst (normalizeStoredMessageForLoad clk now m)) parsed = older @ kept
     \<and> xs = sanitizeMessagesOnLoad clk t kept
     \<and> length kept \<le> MAX_STORED_MESSAGES
     \<and> (length kept = 1 \<or> size_sum kept \<le> MAX_LOADED_MESSAGES_CHARS)
     \<and> (older \<noteq> [] \<longrightarrow> length kept = MAX_STORED_MESSAGES \<or> MAX_LOADED_MESSAGES_CHARS < size_sum (last older # kept))
     \<and> b' = saveMessages ms xs (snd (readStoredMessagesValue b))"
proof -
  obtain saved b1 parsed where r: "readStoredMessagesValue b = (Some saved, b1)"
    "ms (unwrapStoredValue saved) = Some parsed"
    using assms(1) by (auto simp: loadMessages_def split: prod.splits option.splits if_splits)
  let ?n = "map (\<lambda>m. fst (normalizeStoredMessageForLoad clk now m)) parsed"
  have n: "map fst (map (normalizeStoredMessageForLoad clk now) parsed) = ?n" by simp
  have loaded: "truthy saved"
    using assms(1) r(1) by (cases "truthy saved") (simp_all add: loadMessages_def)
  have xs: "xs = sanitizeMessagesOnLoad clk t (trimMessagesByContentSize (trimMessages ?n))"
    and b': "b' = saveMessages ms xs b1"
    using assms(1) by (auto simp add: loadMessages_unfold [where ms = ms, OF r loaded] Let_def simp del: map_map)
  obtain o1 where o1: "?n = o1 @ trimMessages ?n" "length (trimMessages ?n) \<le> MAX_STORED_MESSAGES"
    "o1 \<noteq> [] \<longrightarrow> length (trimMessages ?n) = MAX_STORED_MESSAGES"
    using trimMessages_spec by blast
  have ne: "trimMessages ?n \<noteq> []"
    using assms(2) xs
    by (auto simp: trimMessagesByContentSize_def sanitizeMessagesOnLoad_def)
  obtain o2 kept where o2: "trimMessages ?n = o2 @ kept" "trimMessagesByContentSize (trimMessages ?n) = kept"
    "length kept = 1 \<or> size_sum kept \<le> MAX_LOADED_MESSAGES_CHARS"
    "o2 \<noteq> [] \<longrightarrow> MAX_LOADED_MESSAGES_CHARS < size_sum (last o2 # kept)"
    using trim_by_size_spec [OF ne] by blast
  have "o1 @ o2 \<noteq> [] \<longrightarrow> length kept = MAX_STORED_MESSAGES \<or> MAX_LOADED_MESSAGES_CHARS < size_sum (last (o1 @ o2) # kept)"
    using o1(3) o2(1,4) by (cases "o2 = []") auto
  then show ?thesis
  proof (intro exI conjI)
    show "?n = (o1 @ o2) @ kept" using o1(1) o2(1) by (metis append_assoc)
    show "xs = sanitizeMessagesOnLoad clk t kept" using xs o2(2) by simp
    show "length kept \<le> MAX_STORED_MESSAGES" using o1(2) o2(1) by simp
    show "b' = saveMessages ms xs (snd (readStoredMessagesValue b))" using b' r(1) by simp
  qed (use o2(3) in simp_all)
qed

theorem loaded_messages_bounded_witness:
  "\<exists>parsed older kept. map (\<lambda>m. fst (normalizeStoredMessageForLoad (\<lambda>_. Fin 0) (Fin 0) m)) parsed = older @ kept
     \<and> fst (loadMessages (\<lambda>_. Some [blank_message]) (\<lambda>_. Fin 0) (Fin 0) id legacy_browser)
         = Some (sanitizeMessagesOnLoad (\<lambda>_. Fin 0) id kept)
     \<and> length kept \<le> MAX_STORED_MESSAGES"
proof -
  let ?load = "loadMessages (\<lambda>_. Some [blank_message]) (\<lambda>_. Fin 0) (Fin 0) id legacy_browser"
  have stored: "readStoredMessagesValue legacy_browser = (Some (JNum (Fin 1)), legacy_browser)"
    by (simp add: readStoredMessagesValue_def legacy_browser_def get_item_def MAX_STORED_MESSAGES_BYTES_def one_parsed)
  have unfolded: "?load = (let kept = trimMessagesByContentSize (trimMessages
       (map (\<lambda>m. fst (normalizeStoredMessageForLoad (\<lambda>_. Fin 0) (Fin 0) m)) [blank_message])) in
     (Some (sanitizeMessagesOnLoad (\<lambda>_. Fin 0) id kept),
      saveMessages (\<lambda>_. Some [blank_message]) (sanitizeMessagesOnLoad (\<lambda>_. Fin 0) id kept) legacy_browser))"
    by (rule loadMessages_unfold [OF stored]) (simp_all add: truthy_def num_zero_def)
  have load: "?load = (Some (the (fst ?load)), snd ?load)" "the (fst ?load) \<noteq> []"
    by (simp_all add: unfolded Let_def trimMessages_def MAX_STORED_MESSAGES_def trimMessagesByContentSize_def sanitizeMessagesOnLoad_def split: option.split)
  show ?thesis using loaded_messages_bounded [OF load] load(1) by (metis fst_conv)
qed

text \<open>
  Collapsing repeated sections keeps the text from the first of the last occurrences of the headings
  that occur three times or more, so that each of these sections survives once; a text without such a
  heading is kept whole.
\<close>

lemma collapse_start:
  "findLastRepeatedSectionRunStart txt =
     (let occs = getSectionOccurrences txt;
          starts = last_of occs ` {h \<in> so_heading ` set occs. MIN_REPEATED_SECTION_COUNT \<le> heading_count occs h} in
      if starts = {} then None else Some (Min starts))"
proof -
  let ?o = "getSectionOccurrences txt"
  let ?found = "repeated_loop (getHeadingCounts ?o) (rev ?o) [] []"
  have found: "set ?found = last_of ?o ` {h \<in> so_heading ` set ?o. MIN_REPEATED_SECTION_COUNT \<le> heading_count ?o h}"
    by (simp add: repeated_loop_set getHeadingCounts_spec)
  have "foldl min (hd ?found) (tl ?found) = Min (set ?found)" if "?found \<noteq> []"
    using that foldl_min_Min [of "hd ?found" "tl ?found"] by simp
  then show ?thesis
    unfolding findLastRepeatedSectionRunStart_def Let_def found [symmetric] by auto
qed

end
