(* ===== verification/PlaygroundState.thy ===== *)
theory PlaygroundState
  imports PlaygroundStorage
begin

text \<open>
  \<open>hooks/use-playground-state.ts\<close> and \<open>lib/state\<close>: the configuration and the messages of the playground, and
  when they are saved.  Messages are saved half a second after the last update, and when the hook is
  unmounted.  Configurations are the objects that the storage has.  A call of a setter queues an
  update; React runs the queued updates of a state in order, the first one possibly at once and the
  others when it renders, and shows the result with the rendering.  Here a queued update may run at
  any time before the next rendering, so that every such schedule is covered.
\<close>

section \<open>Initial state\<close>

text \<open>\<open>{ ...a, ...b }\<close>\<close>

definition spread :: "jsval \<Rightarrow> jsval \<Rightarrow> jsval" where
  "spread a b =
     (case (a, b) of
        (JObj es, JObj fs) \<Rightarrow> JObj (foldl (\<lambda>m (k, v). map_set k v m) es fs)
      | _ \<Rightarrow> a)"

definition DEFAULT_CONFIG :: jsval where
  "DEFAULT_CONFIG =
     JObj [(js ''model'', JStr (js ''gpt-4o'')), (js ''clientKey'', JStr []), (js ''temperature'', JNum (number_of_string (js ''0.7''))),
       (js ''top_p'', JNum (Fin 1)), (js ''max_tokens'', JNum (Fin 4096)), (js ''frequency_penalty'', JNum (Fin 0)),
       (js ''presence_penalty'', JNum (Fin 0)), (js ''seed'', JNull), (js ''stream'', JBool True)]"

definition DEFAULT_PARAMETER_ENABLED :: jsval where
  "DEFAULT_PARAMETER_ENABLED =
     JObj [(js ''temperature'', JBool True), (js ''top_p'', JBool True), (js ''max_tokens'', JBool False),
       (js ''frequency_penalty'', JBool True), (js ''presence_penalty'', JBool True), (js ''seed'', JBool False)]"

definition getInitialPlaygroundConfig :: "jsval schema \<Rightarrow> browser \<Rightarrow> jsval \<times> browser" where
  "getInitialPlaygroundConfig configSchema b =
     (case loadConfig configSchema b of (loaded, b') \<Rightarrow> (spread DEFAULT_CONFIG loaded, b'))"

definition getInitialParameterEnabled :: "jsval schema \<Rightarrow> browser \<Rightarrow> jsval" where
  "getInitialParameterEnabled enabledSchema b = spread DEFAULT_PARAMETER_ENABLED (loadParameterEnabled enabledSchema b)"

definition getInitialMessages ::
  "message list schema \<Rightarrow> (nat \<Rightarrow> jsnum) \<Rightarrow> jsnum \<Rightarrow> (jsstr \<Rightarrow> jsstr) \<Rightarrow> browser \<Rightarrow> message list \<times> browser" where
  "getInitialMessages messagesSchema clk now t b =
     (case loadMessages messagesSchema clk now t b of (loaded, b') \<Rightarrow> (or_else loaded [], b'))"

datatype message_state_updater = NewMessages "message list" | Updater "message list \<Rightarrow> message list"

definition applyMessageStateUpdate :: "message list \<Rightarrow> message_state_updater \<Rightarrow> message list" where
  "applyMessageStateUpdate previousMessages updater =
     (case updater of Updater f \<Rightarrow> f previousMessages | NewMessages ms \<Rightarrow> ms)"

section \<open>State\<close>

text \<open>
  A state of a component: the value that is shown, the value after the updates that have run since,
  and the updates that wait.
\<close>

record ('a, 'u) hook =
  hk_shown :: 'a
  hk_next :: 'a
  hk_queue :: "'u list"

definition useState :: "'a \<Rightarrow> ('a, 'u) hook" where
  "useState v = \<lparr>hk_shown = v, hk_next = v, hk_queue = []\<rparr>"

definition enqueue :: "'u \<Rightarrow> ('a, 'u) hook \<Rightarrow> ('a, 'u) hook" where
  "enqueue u h = h\<lparr>hk_queue := hk_queue h @ [u]\<rparr>"

text \<open>The arguments of the setters: a value, or the updater of one of the actions.\<close>

datatype config_update = SetConfig jsval | ChangeConfig string jsval

datatype enabled_update = SetParameterEnabled jsval | ChangeParameterEnabled string bool

datatype messages_update = SetMessages "message list" | ChangeMessages message_state_updater

text \<open>
  \<open>ps_latest\<close>, \<open>ps_loaded\<close> and \<open>ps_timer\<close> are refs; \<open>ps_mounted\<close> is false once the effects were cleaned up, which
  also cancels the load.
\<close>

record playground_state =
  ps_config :: "(jsval, config_update) hook"
  ps_parameterEnabled :: "(jsval, enabled_update) hook"
  ps_messages :: "(message list, messages_update) hook"
  ps_isLoadingMessages :: "(bool, bool) hook"
  ps_latest :: "message list"
  ps_loaded :: bool
  ps_timer :: bool
  ps_mounted :: bool
  ps_browser :: browser

definition mount :: "jsval schema \<Rightarrow> jsval schema \<Rightarrow> browser \<Rightarrow> playground_state" where
  "mount configSchema enabledSchema b =
     (case getInitialPlaygroundConfig configSchema b of (config, b') \<Rightarrow>
        \<lparr>ps_config = useState config, ps_parameterEnabled = useState (getInitialParameterEnabled enabledSchema b'),
         ps_messages = useState [], ps_isLoadingMessages = useState True, ps_latest = [], ps_loaded = False,
         ps_timer = False, ps_mounted = True, ps_browser = b'\<rparr>)"

definition persistMessages :: "message list \<Rightarrow> playground_state \<Rightarrow> playground_state" where
  "persistMessages messagesToSave s =
     (let s1 = s\<lparr>ps_latest := messagesToSave\<rparr> in
      if \<not> ps_loaded s1 then s1 else s1\<lparr>ps_timer := True\<rparr>)"

definition save_timer :: "message list schema \<Rightarrow> playground_state \<Rightarrow> playground_state" where
  "save_timer messagesSchema s =
     (if \<not> ps_timer s \<or> \<not> ps_mounted s then s
      else s\<lparr>ps_timer := False, ps_browser := saveMessages messagesSchema (ps_latest s) (ps_browser s)\<rparr>)"

definition load_timer ::
  "message list schema \<Rightarrow> (nat \<Rightarrow> jsnum) \<Rightarrow> jsnum \<Rightarrow> (jsstr \<Rightarrow> jsstr) \<Rightarrow> playground_state \<Rightarrow> playground_state" where
  "load_timer messagesSchema clk now t s =
     (case loadMessages messagesSchema clk now t (ps_browser s) of (loaded, b') \<Rightarrow>
        let loadedMessages = or_else loaded [] in
        if \<not> ps_mounted s then s\<lparr>ps_browser := b'\<rparr>
        else s\<lparr>ps_browser := b', ps_latest := loadedMessages, ps_loaded := True,
          ps_messages := enqueue (SetMessages loadedMessages) (ps_messages s),
          ps_isLoadingMessages := enqueue False (ps_isLoadingMessages s)\<rparr>)"

text \<open>
  The clean-up of the effects, when the hook is unmounted.  It cancels a save that is due and saves
  at once; the ref keeps the cancelled timer.  Updates that still wait are dropped.  A tab that is closed
  or reloaded runs no clean-up.
\<close>

definition unmount_state :: "message list schema \<Rightarrow> playground_state \<Rightarrow> playground_state" where
  "unmount_state messagesSchema s =
     (if ps_timer s
      then s\<lparr>ps_mounted := False, ps_browser := saveMessages messagesSchema (ps_latest s) (ps_browser s)\<rparr>
      else s\<lparr>ps_mounted := False\<rparr>)"

section \<open>Updates\<close>

definition updateConfig :: "string \<Rightarrow> jsval \<Rightarrow> playground_state \<Rightarrow> playground_state" where
  "updateConfig key v s = s\<lparr>ps_config := enqueue (ChangeConfig key v) (ps_config s)\<rparr>"

definition updateParameterEnabled :: "string \<Rightarrow> bool \<Rightarrow> playground_state \<Rightarrow> playground_state" where
  "updateParameterEnabled key v s =
     s\<lparr>ps_parameterEnabled := enqueue (ChangeParameterEnabled key v) (ps_parameterEnabled s)\<rparr>"

definition updateMessages :: "message_state_updater \<Rightarrow> playground_state \<Rightarrow> playground_state" where
  "updateMessages updater s = s\<lparr>ps_messages := enqueue (ChangeMessages updater) (ps_messages s)\<rparr>"

definition clearMessages :: "playground_state \<Rightarrow> playground_state" where
  "clearMessages = updateMessages (NewMessages [])"

definition resetConfig :: "jsval schema \<Rightarrow> jsval schema \<Rightarrow> playground_state \<Rightarrow> playground_state" where
  "resetConfig configSchema enabledSchema s =
     s\<lparr>ps_config := enqueue (SetConfig DEFAULT_CONFIG) (ps_config s),
       ps_parameterEnabled := enqueue (SetParameterEnabled DEFAULT_PARAMETER_ENABLED) (ps_parameterEnabled s),
       ps_browser := saveParameterEnabled enabledSchema DEFAULT_PARAMETER_ENABLED
         (saveConfig configSchema DEFAULT_CONFIG (ps_browser s))\<rparr>"

text \<open>Running the first update that waits: the functions that the actions pass to the setters.\<close>

definition run_config :: "jsval schema \<Rightarrow> playground_state \<Rightarrow> playground_state" where
  "run_config configSchema s =
     (case hk_queue (ps_config s) of
        [] \<Rightarrow> s
      | SetConfig config # us \<Rightarrow> s\<lparr>ps_config := (ps_config s)\<lparr>hk_next := config, hk_queue := us\<rparr>\<rparr>
      | ChangeConfig key v # us \<Rightarrow>
          (let updated = set_prop key v (hk_next (ps_config s)) in
           s\<lparr>ps_config := (ps_config s)\<lparr>hk_next := updated, hk_queue := us\<rparr>,
             ps_browser := saveConfig configSchema updated (ps_browser s)\<rparr>))"

definition run_enabled :: "jsval schema \<Rightarrow> playground_state \<Rightarrow> playground_state" where
  "run_enabled enabledSchema s =
     (case hk_queue (ps_parameterEnabled s) of
        [] \<Rightarrow> s
      | SetParameterEnabled enabled # us \<Rightarrow>
          s\<lparr>ps_parameterEnabled := (ps_parameterEnabled s)\<lparr>hk_next := enabled, hk_queue := us\<rparr>\<rparr>
      | ChangeParameterEnabled key v # us \<Rightarrow>
          (let updated = set_prop key (JBool v) (hk_next (ps_parameterEnabled s)) in
           s\<lparr>ps_parameterEnabled := (ps_parameterEnabled s)\<lparr>hk_next := updated, hk_queue := us\<rparr>,
             ps_browser := saveParameterEnabled enabledSchema updated (ps_browser s)\<rparr>))"

definition run_messages :: "playground_state \<Rightarrow> playground_state" where
  "run_messages s =
     (case hk_queue (ps_messages s) of
        [] \<Rightarrow> s
      | SetMessages messages # us \<Rightarrow> s\<lparr>ps_messages := (ps_messages s)\<lparr>hk_next := messages, hk_queue := us\<rparr>\<rparr>
      | ChangeMessages updater # us \<Rightarrow>
          (let newMessages = applyMessageStateUpdate (hk_next (ps_messages s)) updater in
           (persistMessages newMessages s)
             \<lparr>ps_messages := (ps_messages s)\<lparr>hk_next := newMessages, hk_queue := us\<rparr>\<rparr>))"

definition run_loading :: "playground_state \<Rightarrow> playground_state" where
  "run_loading s =
     (case hk_queue (ps_isLoadingMessages s) of
        [] \<Rightarrow> s
      | v # us \<Rightarrow> s\<lparr>ps_isLoadingMessages := (ps_isLoadingMessages s)\<lparr>hk_next := v, hk_queue := us\<rparr>\<rparr>)"

text \<open>A rendering runs all updates, state by state in the order of the calls of \<open>useState\<close>, and shows the results.\<close>

definition show_next :: "('a, 'u) hook \<Rightarrow> ('a, 'u) hook" where
  "show_next h = h\<lparr>hk_shown := hk_next h\<rparr>"

definition render_state :: "jsval schema \<Rightarrow> jsval schema \<Rightarrow> playground_state \<Rightarrow> playground_state" where
  "render_state configSchema enabledSchema s =
     (let s1 = (run_config configSchema ^^ length (hk_queue (ps_config s))) s;
          s2 = (run_enabled enabledSchema ^^ length (hk_queue (ps_parameterEnabled s1))) s1;
          s3 = (run_messages ^^ length (hk_queue (ps_messages s2))) s2;
          s4 = (run_loading ^^ length (hk_queue (ps_isLoadingMessages s3))) s3 in
      s4\<lparr>ps_config := show_next (ps_config s4), ps_parameterEnabled := show_next (ps_parameterEnabled s4),
         ps_messages := show_next (ps_messages s4), ps_isLoadingMessages := show_next (ps_isLoadingMessages s4)\<rparr>)"

section \<open>Lemmas\<close>

text \<open>The operations after the messages were loaded.\<close>

datatype state_op =
    UpdateMessages message_state_updater
  | UpdateConfig string jsval
  | UpdateParameterEnabled string bool
  | ResetConfig
  | RunConfig
  | RunEnabled
  | RunMessages
  | SaveTimer
  | Render

definition run_state_op ::
  "jsval schema \<Rightarrow> jsval schema \<Rightarrow> message list schema \<Rightarrow> playground_state \<Rightarrow> state_op \<Rightarrow> playground_state" where
  "run_state_op cs es ms s operation =
     (case operation of
        UpdateMessages u \<Rightarrow> updateMessages u s
      | UpdateConfig k v \<Rightarrow> updateConfig k v s
      | UpdateParameterEnabled k v \<Rightarrow> updateParameterEnabled k v s
      | ResetConfig \<Rightarrow> resetConfig cs es s
      | RunConfig \<Rightarrow> run_config cs s
      | RunEnabled \<Rightarrow> run_enabled es s
      | RunMessages \<Rightarrow> run_messages s
      | SaveTimer \<Rightarrow> save_timer ms s
      | Render \<Rightarrow> render_state cs es s)"

text \<open>What the browser keeps of the messages.\<close>

definition stored_messages :: "browser \<Rightarrow> jsstr option option" where
  "stored_messages b = get_item (br_local b) MESSAGES_KEY"

lemma stored_write: "writeStoredValue k data b = Some b' \<Longrightarrow> k \<noteq> MESSAGES_KEY \<Longrightarrow> stored_messages b' = stored_messages b"
  by (auto simp: writeStoredValue_def stored_messages_def items.put_other)

lemma stored_save_config: "stored_messages (saveConfig cs c b) = stored_messages b"
proof -
  have "stored_messages (writeSessionClientKey key b') = stored_messages b'" for key b'
    by (simp add: stored_messages_def)
  then show ?thesis by (auto simp: saveConfig_def stored_write split: option.split)
qed

lemma stored_save_enabled: "stored_messages (saveParameterEnabled es p b) = stored_messages b"
  by (auto simp: saveParameterEnabled_def or_else_def bind_eq_Some_conv stored_write split: option.split)

text \<open>A browser with room for everything, and messages that the schema keeps.\<close>

definition roomy :: "browser \<Rightarrow> bool" where
  "roomy b \<longleftrightarrow> br_local b \<noteq> None \<and> br_fits b = (\<lambda>_. True)"

definition accepted :: "message list schema \<Rightarrow> message list \<Rightarrow> bool" where
  "accepted ms xs \<longleftrightarrow> ms (messages_value (trimMessages xs)) = Some (trimMessages xs)"

definition holds_messages :: "browser \<Rightarrow> message list \<Rightarrow> bool" where
  "holds_messages b xs \<longleftrightarrow> stored_messages b = Some (Some (json_stringify (envelope (messages_value (trimMessages xs)))))"

lemma roomy_write: "roomy b \<Longrightarrow> \<exists>b'. writeStoredValue k data b = Some b' \<and> roomy b'"
  by (auto simp: roomy_def writeStoredValue_def set_item_def)

lemma roomy_written: "roomy b \<Longrightarrow> writeStoredValue k data b = Some b' \<Longrightarrow> roomy b'"
  using roomy_write [of b k data] by auto

lemma roomy_load_config: "roomy b \<Longrightarrow> roomy (snd (loadConfig cs b))"
  by (auto simp: loadConfig_def load_config_body_def or_else_def Let_def bind_eq_Some_conv
      split: option.split if_splits dest: roomy_written)

lemma roomy_save:
  "roomy b \<Longrightarrow> roomy (saveMessages ms xs b)" "roomy b \<Longrightarrow> roomy (saveConfig cs c b)" "roomy b \<Longrightarrow> roomy (saveParameterEnabled es p b)"
proof -
  have key: "roomy (writeSessionClientKey v b') = roomy b'" for v b'
    by (auto simp: roomy_def writeSessionClientKey_def split: option.split)
  assume "roomy b"
  show "roomy (saveMessages ms xs b)" "roomy (saveConfig cs c b)" "roomy (saveParameterEnabled es p b)"
    using roomy_written [OF \<open>roomy b\<close>] key \<open>roomy b\<close>
    by (auto simp: saveMessages_def saveConfig_def saveParameterEnabled_def or_else_def bind_eq_Some_conv split: option.split)
qed

lemma save_holds: "roomy b \<Longrightarrow> accepted ms xs \<Longrightarrow> holds_messages (saveMessages ms xs b) xs"
  using roomy_write [of b MESSAGES_KEY "messages_value (trimMessages xs)"]
  by (auto simp: saveMessages_def accepted_def or_else_def holds_messages_def stored_messages_def writeStoredValue_def
      items.put_same)

lemma holds_after_save:
  "holds_messages (saveConfig cs c b) xs = holds_messages b xs" "holds_messages (saveParameterEnabled es p b) xs = holds_messages b xs"
  by (simp_all add: holds_messages_def stored_save_config stored_save_enabled)

text \<open>
  While the loaded messages wait to be set, they are the ones to save next, and an update waits behind
  them.  After that the ones to save next are those after the last update that ran, and when no update
  waits and no save is due the browser holds them.
\<close>

definition only_changes :: "messages_update list \<Rightarrow> bool" where
  "only_changes us \<longleftrightarrow> list_all (\<lambda>u. case u of ChangeMessages _ \<Rightarrow> True | SetMessages _ \<Rightarrow> False) us"

definition ps_inv :: "message list schema \<Rightarrow> playground_state \<Rightarrow> bool" where
  "ps_inv ms s \<longleftrightarrow>
     ps_mounted s \<and> ps_loaded s \<and> roomy (ps_browser s)
     \<and> (\<exists>us. only_changes us
          \<and> (hk_queue (ps_messages s) = SetMessages (ps_latest s) # us \<and> us \<noteq> []
             \<or> hk_queue (ps_messages s) = us \<and> ps_latest s = hk_next (ps_messages s)
               \<and> (us \<noteq> [] \<or> ps_timer s \<or> (accepted ms (ps_latest s) \<longrightarrow> holds_messages (ps_browser s) (ps_latest s)))))"

lemma only_changes_simps [simp]:
  "only_changes []" "only_changes (ChangeMessages u # us) = only_changes us" "\<not> only_changes (SetMessages xs # us)"
  "only_changes (us @ vs) \<longleftrightarrow> only_changes us \<and> only_changes vs"
  by (simp_all add: only_changes_def)

text \<open>Operations that leave the messages alone.\<close>

lemma ps_inv_cong:
  assumes "ps_inv ms s" "ps_mounted s' = ps_mounted s" "ps_loaded s' = ps_loaded s" "roomy (ps_browser s) \<longrightarrow> roomy (ps_browser s')"
    "hk_queue (ps_messages s') = hk_queue (ps_messages s)" "hk_next (ps_messages s') = hk_next (ps_messages s)"
    "ps_latest s' = ps_latest s" "ps_timer s' = ps_timer s"
    "\<And>xs. holds_messages (ps_browser s') xs = holds_messages (ps_browser s) xs"
  shows "ps_inv ms s'"
  using assms by (simp add: ps_inv_def)

lemma ps_inv_config: "ps_inv ms s \<Longrightarrow> ps_inv ms (run_config cs s)"
  by (erule ps_inv_cong; auto simp: run_config_def Let_def roomy_save holds_after_save
      split: list.split config_update.split)

lemma ps_inv_enabled: "ps_inv ms s \<Longrightarrow> ps_inv ms (run_enabled es s)"
  by (erule ps_inv_cong; auto simp: run_enabled_def Let_def roomy_save holds_after_save
      split: list.split enabled_update.split)

lemma ps_inv_loading: "ps_inv ms s \<Longrightarrow> ps_inv ms (run_loading s)"
  by (erule ps_inv_cong; auto simp: run_loading_def split: list.split)

lemma ps_inv_messages: "ps_inv ms s \<Longrightarrow> ps_inv ms (run_messages s)"
  by (auto simp: ps_inv_def run_messages_def persistMessages_def Let_def split: list.split messages_update.split)

lemma ps_inv_power: "(\<And>s. ps_inv ms s \<Longrightarrow> ps_inv ms (f s)) \<Longrightarrow> ps_inv ms s \<Longrightarrow> ps_inv ms ((f ^^ n) s)"
  by (induction n) simp_all

lemma ps_inv_render: "ps_inv ms s \<Longrightarrow> ps_inv ms (render_state cs es s)"
  unfolding render_state_def Let_def
  by (rule ps_inv_cong [OF ps_inv_power [OF ps_inv_loading ps_inv_power [OF ps_inv_messages
        ps_inv_power [OF ps_inv_enabled ps_inv_power [OF ps_inv_config]]]]])
    (auto simp: show_next_def)

lemma ps_inv_step: "ps_inv ms s \<Longrightarrow> ps_inv ms (run_state_op cs es ms s operation)"
proof (cases operation)
  case (UpdateMessages u)
  assume "ps_inv ms s"
  then obtain us where "only_changes us" "ps_mounted s" "ps_loaded s" "roomy (ps_browser s)"
    "hk_queue (ps_messages s) = SetMessages (ps_latest s) # us \<and> us \<noteq> []
     \<or> hk_queue (ps_messages s) = us \<and> ps_latest s = hk_next (ps_messages s)
       \<and> (us \<noteq> [] \<or> ps_timer s \<or> (accepted ms (ps_latest s) \<longrightarrow> holds_messages (ps_browser s) (ps_latest s)))"
    by (auto simp: ps_inv_def)
  with UpdateMessages show ?thesis
    unfolding ps_inv_def run_state_op_def updateMessages_def enqueue_def
    by (intro conjI exI [of _ "us @ [ChangeMessages u]"]) auto
next
  case SaveTimer
  then show "ps_inv ms s \<Longrightarrow> ?thesis"
    by (auto simp: ps_inv_def run_state_op_def save_timer_def roomy_save save_holds)
qed (simp_all add: run_state_op_def ps_inv_config ps_inv_enabled ps_inv_messages ps_inv_render,
    (erule ps_inv_cong; simp add: updateConfig_def updateParameterEnabled_def resetConfig_def roomy_save holds_after_save)+)

lemma ps_inv_run: "ps_inv ms s \<Longrightarrow> ps_inv ms (foldl (run_state_op cs es ms) s ops)"
  by (induction ops arbitrary: s) (simp_all add: ps_inv_step)

lemma load_roomy: "roomy b \<Longrightarrow> roomy (snd (loadMessages ms clk now t b))"
proof -
  assume "roomy b"
  then have "roomy (snd (readStoredMessagesValue b))"
    by (auto simp: readStoredMessagesValue_def roomy_def remove_item_def split: option.split)
  then show ?thesis by (auto simp: loadMessages_def Let_def roomy_save split: prod.split option.split)
qed

lemma updated_inv:
  assumes "ps_mounted s" "roomy (ps_browser s)" "hk_queue (ps_messages s) = []"
  shows "ps_inv ms (updateMessages u (load_timer ms clk now t s))"
  using assms load_roomy [of "ps_browser s" ms clk now t]
  by (auto simp: ps_inv_def updateMessages_def load_timer_def enqueue_def Let_def
      intro!: exI [of _ "[ChangeMessages u]"] split: prod.split)

text \<open>A rendering leaves no update waiting, and shows the messages after the last one.\<close>

lemma run_messages_queue: "hk_queue (ps_messages ((run_messages ^^ n) s)) = drop n (hk_queue (ps_messages s))"
proof (induction n)
  case (Suc n)
  have "hk_queue (ps_messages (run_messages s')) = tl (hk_queue (ps_messages s'))" for s'
    by (simp add: run_messages_def persistMessages_def Let_def split: list.split messages_update.split)
  with Suc show ?case by (simp add: drop_Suc tl_drop)
qed simp

lemma run_loading_messages: "ps_messages ((run_loading ^^ n) s) = ps_messages s"
  by (induction n) (simp_all add: run_loading_def split: list.split)

lemma rendered_messages:
  "hk_queue (ps_messages (render_state cs es s)) = []" "hk_shown (ps_messages (render_state cs es s)) = hk_next (ps_messages (render_state cs es s))"
  by (simp_all add: render_state_def Let_def show_next_def run_loading_messages run_messages_queue)

text \<open>No update waits.\<close>

definition none_waiting :: "playground_state \<Rightarrow> bool" where
  "none_waiting s \<longleftrightarrow> hk_queue (ps_config s) = [] \<and> hk_queue (ps_parameterEnabled s) = [] \<and> hk_queue (ps_messages s) = []
     \<and> hk_queue (ps_isLoadingMessages s) = []"

lemma rendered_config:
  assumes "none_waiting s"
  shows "hk_shown (ps_config (render_state cs es (updateConfig key v s))) = set_prop key v (hk_next (ps_config s))"
    "ps_browser (render_state cs es (updateConfig key v s)) = saveConfig cs (set_prop key v (hk_next (ps_config s))) (ps_browser s)"
  using assms by (simp_all add: none_waiting_def render_state_def updateConfig_def enqueue_def run_config_def Let_def show_next_def)

text \<open>Spreading one object over another.\<close>

lemma spread_foldl:
  "distinct (map fst fs) \<Longrightarrow>
     map_of (foldl (\<lambda>m (k, v). map_set k v m) es fs) k = (case map_of fs k of Some v \<Rightarrow> Some v | None \<Rightarrow> map_of es k)"
proof (induction fs arbitrary: es)
  case (Cons f fs)
  then show ?case
    by (cases f) (auto split: option.split dest: map_of_SomeD simp: rev_image_eqI)
qed simp

lemma get_prop_spread:
  assumes "distinct (map fst fs)"
  shows "get_prop (spread (JObj es) (JObj fs)) k = (if k \<in> fst ` set fs then get_prop (JObj fs) k else get_prop (JObj es) k)"
  using assms by (cases "map_of fs k") (auto simp: spread_def get_prop_def spread_foldl map_of_eq_None_iff [symmetric])

section \<open>Samples\<close>

text \<open>
  The schema of messages in the way of the schema library: the fields are read one by one, fields that
  are not declared are dropped, a message has a version at least, and an error code is a string or
  \<open>null\<close>.
\<close>

definition text_of_value :: "jsval \<Rightarrow> jsstr option" where
  "text_of_value v = (case v of JStr s \<Rightarrow> Some s | _ \<Rightarrow> None)"

definition number_of_value :: "jsval \<Rightarrow> jsnum option" where
  "number_of_value v = (case v of JNum x \<Rightarrow> if is_finite x then Some x else None | _ \<Rightarrow> None)"

definition bool_of_value :: "jsval \<Rightarrow> bool option" where
  "bool_of_value v = (case v of JBool b \<Rightarrow> Some b | _ \<Rightarrow> None)"

definition array_of_value :: "(jsval \<Rightarrow> 'a option) \<Rightarrow> jsval \<Rightarrow> 'a list option" where
  "array_of_value f v = (case v of JArr xs \<Rightarrow> those (map f xs) | _ \<Rightarrow> None)"

definition optional_value :: "(jsval \<Rightarrow> 'a option) \<Rightarrow> jsval \<Rightarrow> 'a option option" where
  "optional_value f v = (if v = JUndef then Some None else map_option Some (f v))"

definition role_of_value :: "jsval \<Rightarrow> message_role option" where
  "role_of_value v = find (\<lambda>r. v = JStr (role_text r)) [User, Assistant, System]"

definition status_of_value :: "jsval \<Rightarrow> message_status option" where
  "status_of_value v = find (\<lambda>s. v = JStr (status_word s)) [Loading, Streaming, Complete, Error]"

definition error_code_of_value :: "jsval \<Rightarrow> jsval option" where
  "error_code_of_value v = (case v of JUndef \<Rightarrow> Some v | JNull \<Rightarrow> Some v | JStr _ \<Rightarrow> Some v | _ \<Rightarrow> None)"

definition version_of_value :: "jsval \<Rightarrow> message_version option" where
  "version_of_value v =
     Option.bind (text_of_value (get_prop v (js ''id''))) (\<lambda>i.
     Option.bind (text_of_value (get_prop v (js ''content''))) (\<lambda>c.
       Some \<lparr>mv_id = i, mv_content = c\<rparr>))"

definition source_of_value :: "jsval \<Rightarrow> (jsstr \<times> jsstr) option" where
  "source_of_value v =
     Option.bind (text_of_value (get_prop v (js ''href''))) (\<lambda>h.
     Option.bind (text_of_value (get_prop v (js ''title''))) (\<lambda>t. Some (h, t)))"

definition reasoning_of_value :: "jsval \<Rightarrow> reasoning option" where
  "reasoning_of_value v =
     Option.bind (text_of_value (get_prop v (js ''content''))) (\<lambda>c.
     Option.bind (number_of_value (get_prop v (js ''duration''))) (\<lambda>d.
     Option.bind (optional_value number_of_value (get_prop v (js ''startedAt''))) (\<lambda>st.
     Option.bind (optional_value number_of_value (get_prop v (js ''completedAt''))) (\<lambda>co.
     Option.bind (optional_value number_of_value (get_prop v (js ''durationMs''))) (\<lambda>ms.
       Some \<lparr>r_content = c, r_duration = d, r_startedAt = st, r_completedAt = co, r_durationMs = ms\<rparr>)))))"

definition message_of_value :: "jsval \<Rightarrow> message option" where
  "message_of_value v =
     (let num = (\<lambda>k. optional_value number_of_value (get_prop v (js k)));
          flag = (\<lambda>k. optional_value bool_of_value (get_prop v (js k))) in
     Option.bind (text_of_value (get_prop v (js ''key''))) (\<lambda>key.
     Option.bind (role_of_value (get_prop v (js ''from''))) (\<lambda>from.
     Option.bind (array_of_value version_of_value (get_prop v (js ''versions''))) (\<lambda>versions.
     Option.bind (if versions = [] then None else num ''createdAt'') (\<lambda>createdAt.
     Option.bind (num ''startedAt'') (\<lambda>startedAt.
     Option.bind (num ''completedAt'') (\<lambda>completedAt.
     Option.bind (num ''durationMs'') (\<lambda>durationMs.
     Option.bind (optional_value (array_of_value source_of_value) (get_prop v (js ''sources''))) (\<lambda>sources.
     Option.bind (optional_value reasoning_of_value (get_prop v (js ''reasoning''))) (\<lambda>reasoning.
     Option.bind (flag ''isReasoningStreaming'') (\<lambda>streaming.
     Option.bind (flag ''isReasoningComplete'') (\<lambda>complete.
     Option.bind (flag ''isContentComplete'') (\<lambda>content.
     Option.bind (optional_value status_of_value (get_prop v (js ''status''))) (\<lambda>status.
     Option.bind (error_code_of_value (get_prop v (js ''errorCode''))) (\<lambda>errorCode.
     Option.bind (optional_value text_of_value (get_prop v (js ''servedBy''))) (\<lambda>servedBy.
       Some \<lparr>m_key = key, m_from = from, m_versions = versions, m_createdAt = createdAt, m_startedAt = startedAt,
         m_completedAt = completedAt, m_durationMs = durationMs, m_sources = sources, m_reasoning = reasoning,
         m_isReasoningStreaming = streaming, m_isReasoningComplete = complete, m_isContentComplete = content,
         m_status = status, m_errorCode = errorCode, m_servedBy = servedBy\<rparr>))))))))))))))))"

definition declared_messages :: "message list schema" where
  "declared_messages = array_of_value message_of_value"

definition greeting :: message where
  "greeting = createUserMessage (js ''k1'') (js ''v1'') (js ''hello'') (Fin 7)"

lemma greeting_accepted: "declared_messages (messages_value [greeting]) = Some [greeting]"
  by code_simp

text \<open>The schema rejects a message with a numeric error code, and one without a version.\<close>

lemma rejected_messages:
  "declared_messages (messages_value [greeting\<lparr>m_errorCode := JNum (Fin 429)\<rparr>]) = None"
  "declared_messages (messages_value [blank_message]) = None"
  by code_simp+

section \<open>Properties\<close>

text \<open>
  C30. Unmounting the playground saves the messages shown.  The hook is mounted, local storage is
  available and takes every write, no update waits when the messages are loaded, and some update
  follows; after that updates of the messages and of the configuration, the running of updates, saves and
  renderings interleave in any way.  Let the last step be a rendering, and the schema accept the newest
  hundred of the messages shown and return them unchanged (it does not when one of them has a numeric
  error code; then nothing is saved).  Then unmounting leaves exactly these newest hundred in local storage, and
  even without it, as when the tab is closed, they are there whenever no save is due.
\<close>

theorem unmounting_saves_messages:
  assumes "ps_mounted s" "roomy (ps_browser s)" "hk_queue (ps_messages s) = []"
    and "s' = render_state cs es (foldl (run_state_op cs es ms) (updateMessages u (load_timer ms clk now t s)) ops)"
    and "accepted ms (hk_shown (ps_messages s'))"
  shows "holds_messages (ps_browser (unmount_state ms s')) (hk_shown (ps_messages s'))
    \<and> (\<not> ps_timer s' \<longrightarrow> holds_messages (ps_browser s') (hk_shown (ps_messages s')))"
proof -
  have inv: "ps_inv ms s'"
    unfolding assms(4) by (intro ps_inv_render ps_inv_run updated_inv assms)
  have "hk_queue (ps_messages s') = []" "hk_shown (ps_messages s') = hk_next (ps_messages s')"
    using rendered_messages by (simp_all add: assms(4))
  with inv have "ps_latest s' = hk_shown (ps_messages s')" "roomy (ps_browser s')"
    "\<not> ps_timer s' \<longrightarrow> holds_messages (ps_browser s') (hk_shown (ps_messages s'))"
    using assms(5) by (auto simp: ps_inv_def)
  then show ?thesis using assms(5) by (auto simp: unmount_state_def save_holds)
qed

text \<open>A greeting that is added in a browser that stores nothing yet.\<close>

definition empty_browser :: browser where
  "empty_browser = \<lparr>br_local = Some [], br_session = Some [], br_fits = (\<lambda>_. True)\<rparr>"

theorem unmounting_saves_messages_witness:
  "holds_messages (ps_browser (unmount_state declared_messages
     (render_state declared_config declared_config
       (updateMessages (Updater (\<lambda>ms. ms @ [greeting]))
         (load_timer declared_messages (\<lambda>_. Fin 0) (Fin 0) id (mount declared_config declared_config empty_browser)))))) [greeting]"
proof -
  let ?s = "mount declared_config declared_config empty_browser"
  have roomy: "roomy empty_browser" by (simp add: roomy_def empty_browser_def)
  have s: "ps_mounted ?s" "roomy (ps_browser ?s)" "hk_queue (ps_messages ?s) = []"
    using roomy_load_config [OF roomy, of declared_config]
    by (auto simp: mount_def getInitialPlaygroundConfig_def useState_def split: prod.split)
  have b: "br_local (ps_browser ?s) = Some []"
    by (simp add: mount_def getInitialPlaygroundConfig_def loadConfig_def load_config_body_def readStoredValue_def
        get_item_def empty_browser_def or_else_def truthy_def Let_def delete_prop_def get_prop_def split: prod.split)
  let ?l = "load_timer declared_messages (\<lambda>_. Fin 0) (Fin 0) id ?s" and ?u = "Updater (\<lambda>ms. ms @ [greeting])"
  let ?r = "render_state declared_config declared_config (updateMessages ?u ?l)"
  have l: "ps_messages ?l = enqueue (SetMessages []) (useState [])" "hk_queue (ps_config ?l) = []"
    "hk_queue (ps_parameterEnabled ?l) = []"
    using b by (auto simp: load_timer_def loadMessages_def readStoredMessagesValue_def get_item_def truthy_def or_else_def
        mount_def useState_def split: prod.split)
  have shown: "hk_shown (ps_messages ?r) = [greeting]"
    by (simp add: render_state_def Let_def updateMessages_def l enqueue_def useState_def run_messages_def persistMessages_def
        show_next_def run_loading_messages applyMessageStateUpdate_def)
  have "accepted declared_messages (hk_shown (ps_messages ?r))"
    using greeting_accepted by (simp add: shown accepted_def trimMessages_def MAX_STORED_MESSAGES_def)
  with unmounting_saves_messages [OF s, of ?r declared_config declared_config declared_messages ?u "\<lambda>_. Fin 0" "Fin 0" id "[]"]
  show ?thesis by (simp add: shown)
qed

text \<open>
  C28. A changed configuration survives a reload.  No update waits when a key is changed, and the change is
  rendered.  The changed configuration has a string as client key and every key of the defaults, its
  values are ones that JSON keeps, local storage is available and takes the write, and the schema returns the
  configuration unchanged, with its client key and without.  Then the configuration of the next
  mount has the value of every key, except that the client key is empty when the storage of the tab
  is not available.
\<close>

theorem config_survives_reload:
  assumes "none_waiting s" "updated = set_prop key v (hk_next (ps_config s))" "updated = JObj entries" "json_clean updated"
    and "cs updated = Some updated" "cs (delete_prop ''clientKey'' updated) = Some (delete_prop ''clientKey'' updated)"
    and "get_prop updated (js ''clientKey'') = JStr k0" "roomy (ps_browser s)"
    and "\<forall>k. get_prop DEFAULT_CONFIG k \<noteq> JUndef \<longrightarrow> k \<in> fst ` set entries"
  shows "hk_shown (ps_config (render_state cs es (updateConfig key v s))) = updated
    \<and> get_prop (hk_shown (ps_config (mount cs es (ps_browser (render_state cs es (updateConfig key v s)))))) k =
        (if k = js ''clientKey'' \<and> br_session (ps_browser s) = None then JStr [] else get_prop updated k)"
proof -
  let ?d = "delete_prop ''clientKey'' updated" and ?b = "ps_browser s"
  define k1 where "k1 = (if br_session ?b = None then [] else k0)"
  obtain b1 where w: "writeStoredValue CONFIG_KEY ?d ?b = Some b1" using roomy_write [OF assms(8)] by blast
  have loaded: "fst (loadConfig cs (saveConfig cs updated ?b)) = set_prop ''clientKey'' (JStr k1) ?d"
    unfolding k1_def using assms(8) by (intro config_roundtrip [OF assms(5,6,3,4,7) w]) (simp add: roomy_def)
  have distinct: "distinct (map fst entries)"
    using assms(3,4) by (simp add: json_clean_def json_printable.simps [of "JObj _"])
  define fs where "fs = map_set (js ''clientKey'') (JStr k1) (map_delete (js ''clientKey'') entries)"
  have fs: "set_prop ''clientKey'' (JStr k1) ?d = JObj fs" "distinct (map fst fs)"
    using distinct
    by (simp_all add: fs_def assms(3) set_prop_def delete_prop_def distinct_map_set map_delete_def distinct_map_filter)
  have keys: "fst ` set fs = insert (js ''clientKey'') (fst ` set entries)"
    by (auto simp: fs_def map_delete_def image_iff)
  have same: "get_prop (JObj fs) k = (if k = js ''clientKey'' then JStr k1 else get_prop updated k)"
    by (auto simp: fs_def get_prop_def assms(3) map_of_map_delete)
  have rendered: "hk_shown (ps_config (render_state cs es (updateConfig key v s))) = updated"
    "ps_browser (render_state cs es (updateConfig key v s)) = saveConfig cs updated ?b"
    using rendered_config [OF assms(1)] by (simp_all add: assms(2))
  have config: "hk_shown (ps_config (mount cs es (ps_browser (render_state cs es (updateConfig key v s))))) = spread DEFAULT_CONFIG (JObj fs)"
    using loaded fs(1)
    by (auto simp: mount_def getInitialPlaygroundConfig_def rendered useState_def split: prod.split)
  obtain ds where ds: "DEFAULT_CONFIG = JObj ds" by (simp add: DEFAULT_CONFIG_def)
  have "get_prop updated k = get_prop DEFAULT_CONFIG k" if "k \<notin> fst ` set fs"
  proof -
    have "map_of entries k = None" "get_prop DEFAULT_CONFIG k = JUndef"
      using that keys assms(9) by (auto simp: map_of_eq_None_iff)
    then show ?thesis by (simp add: get_prop_def [of "JObj entries"] assms(3))
  qed
  then show ?thesis
    using get_prop_spread [OF fs(2), of ds k] same rendered(1) keys assms(7) by (auto simp: config ds k1_def)
qed

definition tuned_entries :: "(jsstr \<times> jsval) list" where
  "tuned_entries =
     [(js ''model'', JStr (js ''m'')), (js ''clientKey'', JStr (js ''sk'')), (js ''temperature'', JNum (Fin 1)), (js ''top_p'', JNum (Fin 1)),
      (js ''max_tokens'', JNum (Fin 8)), (js ''frequency_penalty'', JNum (Fin 0)), (js ''presence_penalty'', JNum (Fin 0)),
      (js ''seed'', JNull), (js ''stream'', JBool True)]"

lemma json_clean_null: "json_clean JNull"
  by (simp add: json_clean_def json_printable.simps json_data.simps)

lemma tuned_clean: "json_clean (JObj tuned_entries)" "json_clean (JObj (map_delete (js ''clientKey'') tuned_entries))"
proof -
  show clean: "json_clean (JObj tuned_entries)"
    unfolding tuned_entries_def
    by (rule json_clean_objI) (simp_all add: plain_key_def is_index_def is_digit_def js_def code_units_def json_clean_text json_clean_null)
  show "json_clean (JObj (map_delete (js ''clientKey'') tuned_entries))"
    unfolding map_delete_def by (rule json_clean_filter [OF clean])
qed

definition tuned :: playground_state where
  "tuned = (mount declared_config declared_config legacy_browser)
     \<lparr>ps_config := useState (JObj (map_set (js ''model'') (JStr (js ''old'')) tuned_entries)), ps_browser := legacy_browser\<rparr>"

theorem config_survives_reload_witness:
  "get_prop (hk_shown (ps_config (mount declared_config declared_config
     (ps_browser (render_state declared_config declared_config (updateConfig ''model'' (JStr (js ''m'')) tuned)))))) (js ''model'')
   = JStr (js ''m'')"
proof -
  have updated: "set_prop ''model'' (JStr (js ''m'')) (hk_next (ps_config tuned)) = JObj tuned_entries"
    by (simp add: tuned_def useState_def set_prop_def tuned_entries_def)
  have accepts: "declared_config (JObj tuned_entries) = Some (JObj tuned_entries)"
    "declared_config (delete_prop ''clientKey'' (JObj tuned_entries)) = Some (delete_prop ''clientKey'' (JObj tuned_entries))"
    by (simp_all add: optional_fields_def config_fields_def tuned_entries_def delete_prop_def map_delete_def List.map_filter_simps
        text_value_def number_value_def bool_value_def code_units_def js_def double_def)
  have keys: "\<forall>k. get_prop DEFAULT_CONFIG k \<noteq> JUndef \<longrightarrow> k \<in> fst ` set tuned_entries"
    by (simp add: get_prop_def DEFAULT_CONFIG_def tuned_entries_def)
  have "none_waiting tuned" "roomy (ps_browser tuned)" "get_prop (JObj tuned_entries) (js ''clientKey'') = JStr (js ''sk'')"
    by (simp_all add: none_waiting_def tuned_def mount_def useState_def roomy_def legacy_browser_def get_prop_def tuned_entries_def
        split: prod.split)
  from config_survives_reload [OF this(1) updated [symmetric] refl tuned_clean(1) accepts this(3,2) keys,
      of declared_config "js ''model''"]
  show ?thesis by (simp add: get_prop_def tuned_entries_def)
qed

end
