(* ===== verification/StreamRequest.thy ===== *)
theory StreamRequest
  imports Messages
begin

text \<open>
  \<open>features/playground/lib/streaming\<close>, \<open>hooks/use-stream-request.ts\<close> and \<open>api.ts\<close>: the request of a
  completion, what a server-sent event means, and the controller that keeps at most one event source.
  The event source of the library \<open>sse.js\<close> is not modelled: any of its events may arrive at any time,
  also after it was closed.  The callbacks of a request are operations on the state of a client; each
  returns that state and whether it threw.
\<close>

section \<open>Messages of errors\<close>

definition API_REQUEST_ERROR :: jsstr where "API_REQUEST_ERROR = js ''Request error occurred''"
definition PARSE_ERROR :: jsstr where "PARSE_ERROR = js ''Error parsing response data''"
definition STREAM_START_ERROR :: jsstr where "STREAM_START_ERROR = js ''Error establishing connection''"
definition CONNECTION_CLOSED :: jsstr where "CONNECTION_CLOSED = js ''Connection closed''"
definition MISSING_CLIENT_KEY :: jsstr where "MISSING_CLIENT_KEY = js ''Fill in a client key before sending a message''"

definition ERROR_MESSAGES :: "jsstr list" where
  "ERROR_MESSAGES =
     [API_REQUEST_ERROR, js ''Network connection failed or server not responding'', PARSE_ERROR, STREAM_START_ERROR,
      CONNECTION_CLOSED, js ''Generation was interrupted'', MISSING_CLIENT_KEY]"

section \<open>Payload\<close>

record playground_config =
  pg_model :: jsstr
  pg_clientKey :: jsstr
  pg_temperature :: jsnum
  pg_top_p :: jsnum
  pg_max_tokens :: jsnum
  pg_frequency_penalty :: jsnum
  pg_presence_penalty :: jsnum
  pg_seed :: "jsnum option"
  pg_stream :: bool

record parameter_enabled =
  en_temperature :: bool
  en_top_p :: bool
  en_max_tokens :: bool
  en_frequency_penalty :: bool
  en_presence_penalty :: bool
  en_seed :: bool

record chat_completion_request =
  rq_model :: jsstr
  rq_messages :: "chat_completion_message list"
  rq_stream :: bool
  rq_temperature :: "jsnum option"
  rq_top_p :: "jsnum option"
  rq_max_tokens :: "jsnum option"
  rq_frequency_penalty :: "jsnum option"
  rq_presence_penalty :: "jsnum option"
  rq_seed :: "jsnum option"

definition buildChatCompletionPayload ::
  "message list \<Rightarrow> playground_config \<Rightarrow> parameter_enabled \<Rightarrow> chat_completion_request" where
  "buildChatCompletionPayload messages config parameterEnabled =
     \<lparr>rq_model = pg_model config,
      rq_messages = map formatMessageForAPI (filter isValidMessage messages),
      rq_stream = pg_stream config,
      rq_temperature = (if en_temperature parameterEnabled then Some (pg_temperature config) else None),
      rq_top_p = (if en_top_p parameterEnabled then Some (pg_top_p config) else None),
      rq_max_tokens = (if en_max_tokens parameterEnabled then Some (pg_max_tokens config) else None),
      rq_frequency_penalty = (if en_frequency_penalty parameterEnabled then Some (pg_frequency_penalty config) else None),
      rq_presence_penalty = (if en_presence_penalty parameterEnabled then Some (pg_presence_penalty config) else None),
      rq_seed = (if en_seed parameterEnabled \<and> pg_seed config \<noteq> None then pg_seed config else None)\<rparr>"

section \<open>The header of the upstream\<close>

definition normalizeServedBy :: "jsstr option \<Rightarrow> jsstr option" where
  "normalizeServedBy v = (case v of None \<Rightarrow> None | Some s \<Rightarrow> if trim s \<noteq> [] then Some (trim s) else None)"

datatype header_value = One jsstr | Many "jsstr list"

definition servedByFromStreamHeaders :: "(jsstr \<times> header_value) list option \<Rightarrow> jsstr option" where
  "servedByFromStreamHeaders headers =
     (case headers of
        None \<Rightarrow> None
      | Some hs \<Rightarrow>
          (case map_of hs (js ''x-served-by'') of
             Some (Many vs) \<Rightarrow> normalizeServedBy (case vs of [] \<Rightarrow> None | v # _ \<Rightarrow> Some v)
           | Some (One v) \<Rightarrow> normalizeServedBy (Some v)
           | None \<Rightarrow> normalizeServedBy None))"

text \<open>\<open>header\<close> looks a header of a response up.\<close>

definition servedByFromResponse :: "(jsstr \<Rightarrow> jsstr option) \<Rightarrow> jsstr option" where
  "servedByFromResponse header = normalizeServedBy (header (js ''X-Served-By''))"

section \<open>Server-sent events\<close>

record error_details =
  ed_errorCode :: jsval
  ed_errorMessage :: jsval

definition parseStreamErrorDetails :: "jsstr option \<Rightarrow> error_details" where
  "parseStreamErrorDetails data =
     (let fallback = \<lparr>ed_errorCode = JUndef,
            ed_errorMessage = JStr (if or_else data [] \<noteq> [] then or_else data [] else API_REQUEST_ERROR)\<rparr> in
      if or_else data [] = [] then fallback
      else (case json_parse (or_else data []) of
          None \<Rightarrow> fallback
        | Some parsed \<Rightarrow>
            (let err = get_prop parsed (js ''error'') in
             if \<not> truthy err then fallback
             else \<lparr>ed_errorCode = js_or (get_prop err (js ''code'')) JUndef,
               ed_errorMessage = js_or (get_prop err (js ''message'')) (ed_errorMessage fallback)\<rparr>)))"

text \<open>\<open>v?.[0]\<close>\<close>

definition first_element :: "jsval \<Rightarrow> jsval" where
  "first_element v =
     (case v of JArr (x # _) \<Rightarrow> x | JStr (c # _) \<Rightarrow> JStr [c] | JObj _ \<Rightarrow> get_prop v (js ''0'') | _ \<Rightarrow> JUndef)"

text \<open>\<open>None\<close> when \<open>JSON.parse\<close> or reading a property of \<open>null\<close> throws.\<close>

definition parseStreamMessageUpdates :: "jsstr \<Rightarrow> (stream_chunk_type \<times> jsval) list option" where
  "parseStreamMessageUpdates data =
     (case json_parse data of
        None \<Rightarrow> None
      | Some chunk \<Rightarrow>
          if nullish chunk then None
          else
            (let delta = get_prop (first_element (get_prop chunk (js ''choices''))) (js ''delta'');
                 reasoning_content = get_prop delta (js ''reasoning_content'');
                 content = get_prop delta (js ''content'') in
             if \<not> truthy delta then Some []
             else Some
               ((if truthy reasoning_content then [(ReasoningChunk, reasoning_content)] else [])
                @ (if truthy content then [(ContentChunk, content)] else []))))"

definition isStreamDoneMessage :: "jsstr \<Rightarrow> bool" where
  "isStreamDoneMessage data \<longleftrightarrow> data = js ''[DONE]''"

definition isStreamClosedReadyState :: "int option \<Rightarrow> bool" where
  "isStreamClosedReadyState readyState \<longleftrightarrow> readyState = Some 2"

definition getStreamReadyStateError :: "int option \<Rightarrow> nat option \<Rightarrow> jsstr option" where
  "getStreamReadyStateError eventReadyState status =
     (case (eventReadyState, status) of
        (Some r, Some n) \<Rightarrow>
          if 2 \<le> r \<and> n \<noteq> 200 then Some (js ''HTTP '' @ dec_string n @ js '': '' @ CONNECTION_CLOSED) else None
      | _ \<Rightarrow> None)"

section \<open>Requests that are not streamed\<close>

definition parseRequestErrorDetails :: "jsval \<Rightarrow> error_details" where
  "parseRequestErrorDetails err =
     (let data = get_prop (get_prop err (js ''response'')) (js ''data'') in
      \<lparr>ed_errorCode = js_or (get_prop (get_prop data (js ''error'')) (js ''code'')) JUndef,
       ed_errorMessage = js_or (get_prop data (js ''message''))
         (js_or (get_prop err (js ''message'')) (JStr API_REQUEST_ERROR))\<rparr>)"

text \<open>The body of the response is \<open>None\<close> when it is no JSON.\<close>

definition buildModelFaceErrorMessage :: "nat \<Rightarrow> jsval option \<Rightarrow> jsstr" where
  "buildModelFaceErrorMessage status body =
     (case body of
        None \<Rightarrow> js ''HTTP '' @ dec_string status
      | Some v \<Rightarrow>
          (case and_then (read_prop v ''error'') (\<lambda>err.
                and_then (opt_trim (get_prop err (js ''message''))) (\<lambda>msg.
                if msg \<noteq> [] then Inr (Some msg)
                else and_then (opt_trim (get_prop err (js ''code''))) (\<lambda>code.
                  Inr (if code \<noteq> [] then Some code else None)))) of
             Inr (Some msg) \<Rightarrow> dec_string status @ js '': '' @ msg
           | _ \<Rightarrow> js ''HTTP '' @ dec_string status))"

text \<open>
  A response: its status, the body or the error that reading it as JSON threw, the choices that the type of a
  completion gives the body, and the headers.
\<close>

datatype fetch_result =
    Rejected jsval
  | Response nat "jsval + jsval" "completion_choice list option" "jsstr \<Rightarrow> jsstr option"

type_synonym chat_completion_result = "completion_choice list option \<times> jsstr option"

definition sendChatCompletion :: "fetch_result \<Rightarrow> jsval + chat_completion_result" where
  "sendChatCompletion result =
     (case result of
        Rejected err \<Rightarrow> Inl err
      | Response status body choices header \<Rightarrow>
          if \<not> (200 \<le> status \<and> status \<le> 299)
          then Inl (JObj [(js ''message'', JStr (buildModelFaceErrorMessage status (case body of Inr v \<Rightarrow> Some v | Inl _ \<Rightarrow> None)))])
          else (case body of Inl err \<Rightarrow> Inl err | Inr _ \<Rightarrow> Inr (choices, servedByFromResponse header)))"

record model_item =
  mi_model :: jsval
  mi_routable :: jsval

definition getUserModels :: "model_item list option \<Rightarrow> (jsstr \<times> jsstr) list" where
  "getUserModels items =
     concat (map (\<lambda>item. case mi_model item of JStr s \<Rightarrow> if s \<noteq> [] then [(s, s)] else [] | _ \<Rightarrow> [])
       (filter (\<lambda>item. mi_routable item = JBool True) (or_else items [])))"

section \<open>The controller\<close>

text \<open>
  An event source, by its place in the list of all that were made: the generation and the callbacks (a
  number) of the request that made it, whether it was closed and started, and the variable \<open>completed\<close>
  that its listeners share.
\<close>

record event_source =
  src_generation :: nat
  src_tag :: nat
  src_closed :: bool
  src_streamed :: bool
  src_completed :: bool

text \<open>
  The controller: the active source, the generation, what \<open>setStreaming\<close> was told last, all sources, and
  the requests that still wait for their headers.
\<close>

record controller =
  ct_source :: "nat option"
  ct_generation :: nat
  ct_streaming :: bool
  ct_sources :: "event_source list"
  ct_waiting :: "(nat \<times> nat) list"

definition initial_controller :: controller where
  "initial_controller = \<lparr>ct_source = None, ct_generation = 0, ct_streaming = False, ct_sources = [], ct_waiting = []\<rparr>"

record 'c client =
  on_update :: "nat \<Rightarrow> stream_chunk_type \<Rightarrow> jsval \<Rightarrow> 'c \<Rightarrow> 'c \<times> bool"
  on_complete :: "nat \<Rightarrow> 'c \<Rightarrow> 'c \<times> bool"
  on_error :: "nat \<Rightarrow> jsval \<Rightarrow> jsval \<Rightarrow> 'c \<Rightarrow> 'c \<times> bool"
  on_served_by :: "nat \<Rightarrow> jsstr \<Rightarrow> 'c \<Rightarrow> 'c \<times> bool"

definition update_source :: "nat \<Rightarrow> (event_source \<Rightarrow> event_source) \<Rightarrow> controller \<Rightarrow> controller" where
  "update_source k f ct =
     (if k < length (ct_sources ct) then ct\<lparr>ct_sources := (ct_sources ct)[k := f (ct_sources ct ! k)]\<rparr> else ct)"

abbreviation close_source :: "nat \<Rightarrow> controller \<Rightarrow> controller" where
  "close_source k \<equiv> update_source k (src_closed_update (\<lambda>_. True))"

definition closeActiveSource :: "nat \<Rightarrow> controller \<Rightarrow> controller" where
  "closeActiveSource k ct =
     (if ct_source ct = Some k then (close_source k ct)\<lparr>ct_source := None, ct_streaming := False\<rparr> else close_source k ct)"

definition isCurrent :: "nat \<Rightarrow> controller \<Rightarrow> bool" where
  "isCurrent k ct \<longleftrightarrow> ct_generation ct = src_generation (ct_sources ct ! k) \<and> ct_source ct = Some k"

definition live :: "nat \<Rightarrow> controller \<Rightarrow> bool" where
  "live k ct \<longleftrightarrow> isCurrent k ct \<and> \<not> src_completed (ct_sources ct ! k)"

text \<open>When the callback throws, the exception leaves the listener and the source stays open.\<close>

definition handleError :: "'c client \<Rightarrow> nat \<Rightarrow> jsval \<Rightarrow> jsval \<Rightarrow> controller \<times> 'c \<Rightarrow> controller \<times> 'c" where
  "handleError cl k errorMessage errorCode s =
     (case s of (ct, c) \<Rightarrow>
        if \<not> live k ct then s
        else
          (let ct1 = update_source k (src_completed_update (\<lambda>_. True)) ct in
           case on_error cl (src_tag (ct_sources ct ! k)) errorMessage errorCode c of
             (c', threw) \<Rightarrow> (if threw then ct1 else closeActiveSource k ct1, c')))"

fun run_updates :: "'c client \<Rightarrow> nat \<Rightarrow> (stream_chunk_type \<times> jsval) list \<Rightarrow> 'c \<Rightarrow> 'c \<times> bool" where
  "run_updates cl tag [] c = (c, False)"
| "run_updates cl tag ((ty, chunk) # updates) c =
     (case on_update cl tag ty chunk c of (c', threw) \<Rightarrow> if threw then (c', True) else run_updates cl tag updates c')"

text \<open>An event with what its listener reads of it and of the source.\<close>

datatype source_event =
    Open "(jsstr \<times> header_value) list option"
  | Message "jsstr option"
  | Failure "int option" "jsstr option"
  | ReadyStateChange "int option" "nat option"

definition message_event :: "'c client \<Rightarrow> nat \<Rightarrow> jsstr \<Rightarrow> controller \<times> 'c \<Rightarrow> controller \<times> 'c" where
  "message_event cl k data s =
     (case s of (ct, c) \<Rightarrow>
        let tag = src_tag (ct_sources ct ! k) in
        if isStreamDoneMessage data
        then (closeActiveSource k (update_source k (src_completed_update (\<lambda>_. True)) ct), fst (on_complete cl tag c))
        else (case parseStreamMessageUpdates data of
            None \<Rightarrow> handleError cl k (JStr PARSE_ERROR) JUndef s
          | Some updates \<Rightarrow>
              (case run_updates cl tag updates c of (c', threw) \<Rightarrow>
                 if threw then handleError cl k (JStr PARSE_ERROR) JUndef (ct, c') else (ct, c'))))"

definition handle_event :: "'c client \<Rightarrow> nat \<Rightarrow> source_event \<Rightarrow> controller \<times> 'c \<Rightarrow> controller \<times> 'c" where
  "handle_event cl k ev s =
     (case s of (ct, c) \<Rightarrow>
        case ev of
          Open headers \<Rightarrow>
            if \<not> isCurrent k ct then s
            else (case servedByFromStreamHeaders headers of
                Some servedBy \<Rightarrow> (ct, fst (on_served_by cl (src_tag (ct_sources ct ! k)) servedBy c))
              | None \<Rightarrow> s)
        | Message data \<Rightarrow> if \<not> live k ct then s else message_event cl k (or_else data []) s
        | Failure readyState data \<Rightarrow>
            if \<not> live k ct \<or> isStreamClosedReadyState readyState then s
            else
              (let details = parseStreamErrorDetails data in
               handleError cl k (ed_errorMessage details) (ed_errorCode details) s)
        | ReadyStateChange readyState status \<Rightarrow>
            if \<not> live k ct then s
            else (case getStreamReadyStateError readyState status of
                Some errorMessage \<Rightarrow> handleError cl k (JStr errorMessage) JUndef s
              | None \<Rightarrow> s))"

text \<open>\<open>send\<close> up to the headers, and after them; \<open>starts\<close> tells whether starting the source throws no error.\<close>

definition begin_send :: "controller \<Rightarrow> controller" where
  "begin_send ct =
     (let closed = (case ct_source ct of Some k \<Rightarrow> close_source k ct | None \<Rightarrow> ct) in
      closed\<lparr>ct_generation := ct_generation ct + 1, ct_source := None, ct_streaming := False\<rparr>)"

definition open_source :: "'c client \<Rightarrow> nat \<Rightarrow> nat \<Rightarrow> bool \<Rightarrow> controller \<times> 'c \<Rightarrow> controller \<times> 'c" where
  "open_source cl requestGeneration tag starts s =
     (case s of (ct, c) \<Rightarrow>
        if ct_generation ct \<noteq> requestGeneration then s
        else
          (let k = length (ct_sources ct);
               nextSource = \<lparr>src_generation = requestGeneration, src_tag = tag, src_closed = False, src_streamed = starts,
                 src_completed = False\<rparr>;
               ct1 = ct\<lparr>ct_sources := ct_sources ct @ [nextSource], ct_source := Some k, ct_streaming := True\<rparr> in
           if starts then (ct1, c) else handleError cl k (JStr STREAM_START_ERROR) JUndef (ct1, c)))"

definition send :: "'c client \<Rightarrow> nat \<Rightarrow> bool \<Rightarrow> controller \<times> 'c \<Rightarrow> controller \<times> 'c" where
  "send cl tag starts s =
     (case s of (ct, c) \<Rightarrow> open_source cl (ct_generation ct + 1) tag starts (begin_send ct, c))"

definition send_without_headers :: "nat \<Rightarrow> controller \<Rightarrow> controller" where
  "send_without_headers tag ct =
     (let ct1 = begin_send ct in ct1\<lparr>ct_waiting := ct_waiting ct1 @ [(ct_generation ct1, tag)]\<rparr>)"

text \<open>The headers of a waiting request arrive, or \<open>getHeaders\<close> fails with an error or another value.\<close>

datatype headers_result = Headers | HeadersError jsstr | HeadersOther

definition headers_settled ::
  "'c client \<Rightarrow> nat \<Rightarrow> nat \<Rightarrow> headers_result \<Rightarrow> bool \<Rightarrow> controller \<times> 'c \<Rightarrow> controller \<times> 'c" where
  "headers_settled cl requestGeneration tag result starts s =
     (case s of (ct, c) \<Rightarrow>
        let ct1 = ct\<lparr>ct_waiting := remove1 (requestGeneration, tag) (ct_waiting ct)\<rparr> in
        case result of
          Headers \<Rightarrow> open_source cl requestGeneration tag starts (ct1, c)
        | HeadersError msg \<Rightarrow>
            (ct1, if ct_generation ct \<noteq> requestGeneration then c else fst (on_error cl tag (JStr msg) JUndef c))
        | HeadersOther \<Rightarrow>
            (ct1, if ct_generation ct \<noteq> requestGeneration then c
                  else fst (on_error cl tag (JStr STREAM_START_ERROR) JUndef c)))"

definition cancel :: "bool \<Rightarrow> controller \<Rightarrow> controller" where
  "cancel notify ct =
     (let closed = (case ct_source ct of Some k \<Rightarrow> close_source k ct | None \<Rightarrow> ct) in
      closed\<lparr>ct_generation := ct_generation ct + 1, ct_source := None,
        ct_streaming := (if notify then False else ct_streaming ct)\<rparr>)"

definition stop :: "controller \<Rightarrow> controller" where
  "stop = cancel True"

definition dispose :: "controller \<Rightarrow> controller" where
  "dispose = cancel False"

section \<open>Runs of the controller\<close>

text \<open>What may happen next; the callbacks of a request are numbered by its generation.\<close>

inductive ct_step :: "'c client \<Rightarrow> controller \<times> 'c \<Rightarrow> controller \<times> 'c \<Rightarrow> bool" for cl where
  sent: "ct_step cl (ct, c) (send cl (ct_generation ct + 1) starts (ct, c))"
| sent_waiting: "ct_step cl (ct, c) (send_without_headers (ct_generation ct + 1) ct, c)"
| headers: "(g, tag) \<in> set (ct_waiting ct) \<Longrightarrow> ct_step cl (ct, c) (headers_settled cl g tag result starts (ct, c))"
| event: "k < length (ct_sources ct) \<Longrightarrow> ct_step cl (ct, c) (handle_event cl k ev (ct, c))"
| stopped: "ct_step cl (ct, c) (stop ct, c)"
| disposed: "ct_step cl (ct, c) (dispose ct, c)"

inductive_cases ct_stepE: "ct_step cl s s'"

inductive reachable :: "'c client \<Rightarrow> 'c \<Rightarrow> controller \<times> 'c \<Rightarrow> bool" for cl c0 where
  start: "reachable cl c0 (initial_controller, c0)"
| step: "reachable cl c0 s \<Longrightarrow> ct_step cl s s' \<Longrightarrow> reachable cl c0 s'"

section \<open>Invariant of the controller\<close>

text \<open>
  At most the active source is open, it belongs to the current generation, and no generation is ahead of
  the controller's.
\<close>

definition ct_inv :: "controller \<Rightarrow> bool" where
  "ct_inv ct \<longleftrightarrow>
     (case ct_source ct of
        Some k \<Rightarrow> k < length (ct_sources ct) \<and> src_generation (ct_sources ct ! k) = ct_generation ct
          \<and> \<not> src_closed (ct_sources ct ! k) \<and> ct_streaming ct
      | None \<Rightarrow> True)
     \<and> (\<forall>k < length (ct_sources ct). ct_source ct \<noteq> Some k \<longrightarrow> src_closed (ct_sources ct ! k))
     \<and> (\<forall>src \<in> set (ct_sources ct). src_generation src \<le> ct_generation ct)
     \<and> (\<forall>w \<in> set (ct_waiting ct). fst w \<le> ct_generation ct)"

lemma update_source_simps [simp]:
  "ct_source (update_source k f ct) = ct_source ct" "ct_generation (update_source k f ct) = ct_generation ct"
  "ct_streaming (update_source k f ct) = ct_streaming ct" "ct_waiting (update_source k f ct) = ct_waiting ct"
  "length (ct_sources (update_source k f ct)) = length (ct_sources ct)"
  by (simp_all add: update_source_def)

lemma update_source_nth:
  "i < length (ct_sources ct) \<Longrightarrow>
     ct_sources (update_source k f ct) ! i = (if i = k then f (ct_sources ct ! i) else ct_sources ct ! i)"
  by (auto simp: update_source_def)

lemma update_source_set:
  "src \<in> set (ct_sources (update_source k f ct)) \<Longrightarrow> src \<in> set (ct_sources ct) \<or> (\<exists>old \<in> set (ct_sources ct). src = f old)"
  by (auto simp: update_source_def set_conv_nth nth_list_update split: if_splits)

lemma ct_inv_complete: "ct_inv ct \<Longrightarrow> ct_inv (update_source k (src_completed_update f) ct)"
  by (auto simp: ct_inv_def update_source_nth split: option.split if_splits dest!: update_source_set)

text \<open>Closing the active source, as a listener and as \<open>send\<close> and \<open>cancel\<close> do it.\<close>

lemma ct_inv_close:
  assumes "ct_inv ct" "ct_source ct = Some k"
  shows "ct_inv ((close_source k ct)\<lparr>ct_source := None, ct_streaming := b\<rparr>)"
  using assms by (auto simp: ct_inv_def update_source_nth dest!: update_source_set)

lemma ct_inv_next:
  "ct_inv ct \<Longrightarrow> ct_source ct = None \<Longrightarrow> ct_inv (ct\<lparr>ct_generation := Suc (ct_generation ct), ct_source := None, ct_streaming := b\<rparr>)"
  by (auto simp: ct_inv_def le_SucI)

lemma ct_inv_cancel:
  assumes "ct_inv ct"
  shows "ct_inv (cancel notify ct)" "ct_inv (begin_send ct)"
proof -
  have none: "ct_inv (ct\<lparr>ct_generation := Suc (ct_generation ct), ct_source := None, ct_streaming := b\<rparr>)" if "ct_source ct = None" for b
    by (rule ct_inv_next [OF assms that])
  have some: "ct_inv ((close_source k ct)\<lparr>ct_generation := Suc (ct_generation ct), ct_source := None, ct_streaming := b\<rparr>)"
    if "ct_source ct = Some k" for k b
    using ct_inv_next [OF ct_inv_close [OF assms that], of b] by simp
  show "ct_inv (cancel notify ct)"
    unfolding cancel_def Let_def
    using none [of "if notify then False else ct_streaming ct"] some [of _ "if notify then False else ct_streaming ct"]
    by (auto simp del: if_cancel split: option.split)
  show "ct_inv (begin_send ct)"
    using none some by (simp add: begin_send_def Let_def split: option.split)
qed

lemma ct_inv_closeActive: "ct_inv ct \<Longrightarrow> ct_source ct = Some k \<Longrightarrow> ct_inv (closeActiveSource k ct)"
  by (simp add: closeActiveSource_def ct_inv_close)

lemma live_source: "live k ct \<Longrightarrow> ct_source ct = Some k"
  by (simp add: live_def isCurrent_def)

lemma ct_inv_handleError: "ct_inv ct \<Longrightarrow> ct_inv (fst (handleError cl k msg code (ct, c)))"
  by (auto simp: handleError_def Let_def ct_inv_complete ct_inv_closeActive live_source split: prod.split)

lemma ct_inv_event: "ct_inv ct \<Longrightarrow> ct_inv (fst (handle_event cl k ev (ct, c)))"
  by (auto simp: handle_event_def message_event_def Let_def ct_inv_handleError ct_inv_complete ct_inv_closeActive live_source
      split: source_event.split option.split prod.split)

lemma ct_inv_open_source:
  assumes "ct_inv ct" "ct_source ct = None"
  shows "ct_inv (fst (open_source cl g tag starts (ct, c)))"
proof -
  have "ct_inv (ct\<lparr>ct_sources := ct_sources ct @ [src], ct_source := Some (length (ct_sources ct)), ct_streaming := True\<rparr>)"
    if "src_generation src = ct_generation ct" "\<not> src_closed src" for src
    using assms that by (auto simp: ct_inv_def nth_append)
  then show ?thesis using assms(1) by (simp add: open_source_def Let_def ct_inv_handleError)
qed

lemma begin_send_simps [simp]:
  "ct_source (begin_send ct) = None" "ct_generation (begin_send ct) = Suc (ct_generation ct)"
  "ct_waiting (begin_send ct) = ct_waiting ct" "length (ct_sources (begin_send ct)) = length (ct_sources ct)"
  by (simp_all add: begin_send_def Let_def split: option.split)


lemma ct_inv_waiting: "ct_inv ct \<Longrightarrow> \<forall>w \<in> set ws. fst w \<le> ct_generation ct \<Longrightarrow> ct_inv (ct\<lparr>ct_waiting := ws\<rparr>)"
  by (auto simp: ct_inv_def split: option.split)

lemma ct_inv_waiting_le: "ct_inv ct \<Longrightarrow> w \<in> set (ct_waiting ct) \<Longrightarrow> fst w \<le> ct_generation ct"
  by (simp add: ct_inv_def)

text \<open>A request that waits for its headers has no source yet: none is active while it is the current one.\<close>

definition waiting_alone :: "controller \<Rightarrow> bool" where
  "waiting_alone ct \<longleftrightarrow>
     distinct (map fst (ct_waiting ct)) \<and> (ct_source ct \<noteq> None \<longrightarrow> ct_generation ct \<notin> fst ` set (ct_waiting ct))"

definition ct_ok :: "controller \<Rightarrow> bool" where
  "ct_ok ct \<longleftrightarrow> ct_inv ct \<and> waiting_alone ct"

lemma handleError_frame [simp]:
  "ct_generation (fst (handleError cl k msg code s)) = ct_generation (fst s)"
  "ct_waiting (fst (handleError cl k msg code s)) = ct_waiting (fst s)"
  "ct_source (fst s) = None \<Longrightarrow> ct_source (fst (handleError cl k msg code s)) = None"
  by (auto simp: handleError_def closeActiveSource_def Let_def live_def isCurrent_def split: prod.split)

lemma handleError_source:
  "ct_source (fst (handleError cl k msg code (ct, c))) = Some i \<Longrightarrow> ct_source ct = Some i"
  by (auto simp: handleError_def closeActiveSource_def Let_def split: prod.splits if_splits)

lemma event_frame:
  "ct_generation (fst (handle_event cl k ev (ct, c))) = ct_generation ct"
  "ct_waiting (fst (handle_event cl k ev (ct, c))) = ct_waiting ct"
  "ct_source (fst (handle_event cl k ev (ct, c))) = Some i \<Longrightarrow> ct_source ct = Some i"
  by (auto simp: handle_event_def message_event_def closeActiveSource_def Let_def
      split: source_event.splits option.splits prod.splits if_splits dest: handleError_source)

lemma ct_ok_event: "ct_ok ct \<Longrightarrow> ct_ok (fst (handle_event cl k ev (ct, c)))"
  using event_frame [of cl k ev ct c] by (auto simp: ct_ok_def ct_inv_event waiting_alone_def)

lemma ct_ok_open_source:
  assumes "ct_inv ct" "ct_source ct = None" "distinct (map fst (ct_waiting ct))" "g \<notin> fst ` set (ct_waiting ct)"
  shows "ct_ok (fst (open_source cl g tag starts (ct, c)))"
proof -
  have "ct_generation (fst (open_source cl g tag starts (ct, c))) = ct_generation ct"
    "ct_waiting (fst (open_source cl g tag starts (ct, c))) = ct_waiting ct"
    "ct_source (fst (open_source cl g tag starts (ct, c))) \<noteq> None \<Longrightarrow> ct_generation ct = g"
    using assms(2) by (cases "ct_generation ct = g"; simp add: open_source_def Let_def)+
  then show ?thesis
    using ct_inv_open_source [OF assms(1,2)] assms(3,4) by (auto simp: ct_ok_def waiting_alone_def)
qed

lemma next_generation_fresh: "ct_inv ct \<Longrightarrow> Suc (ct_generation ct) \<notin> fst ` set (ct_waiting ct)"
  by (auto simp: ct_inv_def)

lemma waiting_source: "ct_ok ct \<Longrightarrow> (ct_generation ct, tag) \<in> set (ct_waiting ct) \<Longrightarrow> ct_source ct = None"
  by (force simp: ct_ok_def waiting_alone_def)

lemma remove1_waiting:
  assumes "distinct (map fst ws)" "(g, tag) \<in> set ws"
  shows "distinct (map fst (remove1 (g, tag) ws)) \<and> g \<notin> fst ` set (remove1 (g, tag) ws)"
proof -
  have ws: "distinct ws" "inj_on fst (set ws)" using assms(1) by (simp_all add: distinct_map)
  have "b = tag" if "(g, b) \<in> set ws" for b
    using inj_onD [OF ws(2), of "(g, b)" "(g, tag)"] that assms(2) by simp
  then show ?thesis
    using ws by (auto simp: distinct_map distinct_remove1 set_remove1_eq inj_on_diff)
qed

lemma ct_ok_step:
  assumes "ct_step cl s s'" "ct_ok (fst s)"
  shows "ct_ok (fst s')"
  using assms
proof (cases rule: ct_step.cases)
  case (sent ct c starts)
  then show ?thesis
    using assms(2) ct_inv_cancel(2) [of ct] next_generation_fresh [of ct] ct_ok_open_source [of "begin_send ct"]
    by (simp add: send_def ct_ok_def [of ct] waiting_alone_def)
next
  case (sent_waiting ct c)
  then show ?thesis
    using assms(2) next_generation_fresh [of ct] ct_inv_cancel(2) [of ct] ct_inv_waiting_le [of ct]
    by (fastforce simp: send_without_headers_def Let_def ct_ok_def waiting_alone_def intro!: ct_inv_waiting)
next
  case (headers g tag ct c result starts)
  let ?ct = "ct\<lparr>ct_waiting := remove1 (g, tag) (ct_waiting ct)\<rparr>"
  have ok: "ct_ok ct" using assms(2) headers(1) by simp
  have w: "distinct (map fst (ct_waiting ?ct)) \<and> g \<notin> fst ` set (ct_waiting ?ct)"
    using remove1_waiting [of "ct_waiting ct" g tag] headers(3) ok by (simp add: ct_ok_def waiting_alone_def)
  have sub: "set (ct_waiting ?ct) \<subseteq> set (ct_waiting ct)" by (simp add: set_remove1_subset)
  have inv: "ct_inv ?ct"
    using ok sub ct_inv_waiting_le [of ct] by (auto simp: ct_ok_def intro!: ct_inv_waiting)
  have ok': "ct_ok ?ct"
    using w inv ok sub by (auto simp: ct_ok_def waiting_alone_def)
  show ?thesis
  proof (cases "result = Headers \<and> ct_generation ct = g")
    case True
    then show ?thesis
      using headers ct_ok_open_source [OF inv] w waiting_source [OF ok] by (auto simp: headers_settled_def Let_def)
  next
    case False
    then show ?thesis
      using headers ok' by (auto simp: headers_settled_def Let_def open_source_def split: headers_result.split)
  qed
next
  case (event k ct c ev)
  then show ?thesis using assms(2) ct_ok_event by simp
next
  case (stopped ct c)
  then show ?thesis
    using assms(2) ct_inv_cancel(1) [of ct True]
    by (auto simp: stop_def ct_ok_def waiting_alone_def cancel_def Let_def split: option.splits)
next
  case (disposed ct c)
  then show ?thesis
    using assms(2) ct_inv_cancel(1) [of ct False]
    by (auto simp: dispose_def ct_ok_def waiting_alone_def cancel_def Let_def split: option.splits)
qed

lemma reachable_ok: "reachable cl c0 s \<Longrightarrow> ct_ok (fst s)"
proof (induction rule: reachable.induct)
  case start
  show ?case by (simp add: ct_ok_def ct_inv_def waiting_alone_def initial_controller_def)
next
  case (step s s')
  then show ?case using ct_ok_step by blast
qed


section \<open>Traces of callbacks\<close>

text \<open>
  A client that writes its callbacks down, with the number of the request; \<open>bad\<close> are the chunks on which
  it throws.
\<close>

datatype callback = Updated stream_chunk_type jsval | Completed | Failed jsval jsval | Served jsstr

type_synonym trace = "(nat \<times> callback) list"

definition trace_client :: "(jsval \<Rightarrow> bool) \<Rightarrow> trace client" where
  "trace_client bad =
     \<lparr>on_update = (\<lambda>tag ty chunk c. (c @ [(tag, Updated ty chunk)], bad chunk)),
      on_complete = (\<lambda>tag c. (c @ [(tag, Completed)], False)),
      on_error = (\<lambda>tag msg code c. (c @ [(tag, Failed msg code)], False)),
      on_served_by = (\<lambda>tag servedBy c. (c @ [(tag, Served servedBy)], False))\<rparr>"

definition final :: "callback \<Rightarrow> bool" where
  "final e = (case e of Completed \<Rightarrow> True | Failed _ _ \<Rightarrow> True | _ \<Rightarrow> False)"

text \<open>A callback may come after another: of a later request, or of the same one unless that has ended.\<close>

definition may_follow :: "nat \<times> callback \<Rightarrow> nat \<times> callback \<Rightarrow> bool" where
  "may_follow e e' \<longleftrightarrow> fst e < fst e' \<or> fst e = fst e' \<and> \<not> final (snd e)"

definition trace_inv :: "controller \<times> trace \<Rightarrow> bool" where
  "trace_inv s \<longleftrightarrow>
     (case s of (ct, tr) \<Rightarrow>
        sorted_wrt may_follow tr
        \<and> (\<forall>e \<in> set tr. fst e \<le> ct_generation ct)
        \<and> (\<forall>src \<in> set (ct_sources ct). src_tag src = src_generation src)
        \<and> (\<forall>w \<in> set (ct_waiting ct). snd w = fst w)
        \<and> (\<forall>e \<in> set tr. final (snd e) \<and> fst e = ct_generation ct \<longrightarrow>
             ct_source ct = None \<and> ct_generation ct \<notin> fst ` set (ct_waiting ct)))"

text \<open>What a listener does: nothing, some callbacks that do not end the request, or these and one that ends it.\<close>

definition ended :: "nat \<Rightarrow> controller \<Rightarrow> controller" where
  "ended k ct = closeActiveSource k (update_source k (src_completed_update (\<lambda>_. True)) ct)"

definition listened :: "nat \<Rightarrow> controller \<times> trace \<Rightarrow> controller \<times> trace \<Rightarrow> bool" where
  "listened k s s' \<longleftrightarrow>
     s' = s \<or> isCurrent k (fst s) \<and>
     (\<exists>es. list_all (\<lambda>e. \<not> final e) es \<and>
       (let tag = src_tag (ct_sources (fst s) ! k) in
        s' = (fst s, snd s @ map (Pair tag) es)
        \<or> (\<exists>e. final e \<and> s' = (ended k (fst s), snd s @ map (Pair tag) (es @ [e])))))"

lemma run_updates_trace:
  "\<exists>es threw. list_all (\<lambda>e. \<not> final e) es \<and> run_updates (trace_client bad) tag us tr = (tr @ map (Pair tag) es, threw)"
proof (induction us arbitrary: tr)
  case (Cons u us)
  obtain ty v where u: "u = (ty, v)" by (cases u)
  show ?case
  proof (cases "bad v")
    case True
    then show ?thesis by (intro exI [of _ "[Updated ty v]"] exI [of _ True]) (simp add: u trace_client_def final_def)
  next
    case False
    obtain es threw where es: "list_all (\<lambda>e. \<not> final e) es"
      "run_updates (trace_client bad) tag us (tr @ [(tag, Updated ty v)]) = ((tr @ [(tag, Updated ty v)]) @ map (Pair tag) es, threw)"
      using Cons.IH by blast
    then show ?thesis
      using False by (intro exI [of _ "Updated ty v # es"] exI [of _ threw]) (simp add: u trace_client_def final_def)
  qed
qed (auto intro: exI [of _ "[]"])

lemma handleError_trace:
  "live k ct \<Longrightarrow>
     handleError (trace_client bad) k msg code (ct, tr) = (ended k ct, tr @ [(src_tag (ct_sources ct ! k), Failed msg code)])"
  by (simp add: handleError_def trace_client_def ended_def Let_def)

lemma listened_error:
  assumes "live k ct" "list_all (\<lambda>e. \<not> final e) es"
  shows "listened k (ct, tr)
     (handleError (trace_client bad) k msg code (ct, tr @ map (Pair (src_tag (ct_sources ct ! k))) es))"
  using assms
  by (auto simp: listened_def handleError_trace live_def Let_def final_def
      intro!: exI [of _ es] exI [of _ "Failed msg code"])

lemma listened_event: "listened k (ct, tr) (handle_event (trace_client bad) k ev (ct, tr))"
proof (cases ev)
  case (Open headers)
  show ?thesis
  proof (cases "isCurrent k ct")
    case True
    then show ?thesis
      by (auto simp: Open handle_event_def listened_def trace_client_def final_def Let_def
          intro: exI [of _ "[Served _]"] split: option.split)
  qed (simp add: Open handle_event_def listened_def)
next
  case (Message data)
  show ?thesis
  proof (cases "live k ct")
    case True
    consider (finished) "isStreamDoneMessage (or_else data [])" | (broken) "\<not> isStreamDoneMessage (or_else data [])"
        "parseStreamMessageUpdates (or_else data []) = None"
      | (good) us where "\<not> isStreamDoneMessage (or_else data [])" "parseStreamMessageUpdates (or_else data []) = Some us"
      by (cases "parseStreamMessageUpdates (or_else data [])") auto
    then show ?thesis
    proof cases
      case finished
      then show ?thesis
        using True by (auto simp: Message handle_event_def message_event_def listened_def trace_client_def ended_def live_def
            final_def Let_def intro!: exI [of _ "[]"])
    next
      case broken
      then show ?thesis
        using True listened_error [OF True, of "[]"] by (simp add: Message handle_event_def message_event_def Let_def)
    next
      case good
      obtain es threw where es: "list_all (\<lambda>e. \<not> final e) es"
        "run_updates (trace_client bad) (src_tag (ct_sources ct ! k)) us tr = (tr @ map (Pair (src_tag (ct_sources ct ! k))) es, threw)"
        using run_updates_trace by blast
      show ?thesis
        using good True es listened_error [OF True es(1)]
        by (auto simp: Message handle_event_def message_event_def Let_def listened_def live_def intro!: exI [of _ es])
    qed
  qed (simp add: Message handle_event_def listened_def)
next
  case (Failure rs data)
  then show ?thesis
    using listened_error [of k ct "[]"] by (auto simp: handle_event_def listened_def [of k "(ct, tr)" "(ct, tr)"] Let_def)
next
  case (ReadyStateChange rs status)
  then show ?thesis
    using listened_error [of k ct "[]"]
    by (auto simp: handle_event_def listened_def [of k "(ct, tr)" "(ct, tr)"] Let_def split: option.split)
qed


lemma trace_inv_frame:
  assumes "trace_inv (ct, tr)" "\<forall>src \<in> set (ct_sources ct'). src_tag src = src_generation src"
    "ct_generation ct' = Suc (ct_generation ct)" "\<forall>w \<in> set (ct_waiting ct'). snd w = fst w"
  shows "trace_inv (ct', tr)"
  using assms by (auto simp: trace_inv_def le_SucI dest: bspec [of "set tr"])

lemma update_source_tags:
  "\<forall>src \<in> set (ct_sources ct). src_tag src = src_generation src \<Longrightarrow> (\<And>src. src_tag (f src) = src_tag src \<and> src_generation (f src) = src_generation src) \<Longrightarrow>
     \<forall>src \<in> set (ct_sources (update_source k f ct)). src_tag src = src_generation src"
  by (auto dest!: update_source_set)

lemma ended_simps [simp]:
  "ct_generation (ended k ct) = ct_generation ct" "ct_waiting (ended k ct) = ct_waiting ct"
  "ct_source ct = Some k \<Longrightarrow> ct_source (ended k ct) = None"
  by (simp_all add: ended_def closeActiveSource_def)

lemma trace_inv_listened:
  assumes "listened k s s'" "trace_inv s" "ct_ok (fst s)"
  shows "trace_inv s'"
proof (cases "s' = s")
  case False
  obtain ct tr where s: "s = (ct, tr)" by (cases s)
  let ?g = "ct_generation ct"
  have cur: "isCurrent k ct" using assms(1) False s by (simp add: listened_def)
  have k: "ct_source ct = Some k" "k < length (ct_sources ct)" "src_generation (ct_sources ct ! k) = ?g"
    using cur assms(3) by (auto simp: isCurrent_def ct_ok_def ct_inv_def s)
  have tags: "\<forall>src \<in> set (ct_sources ct). src_tag src = src_generation src" using assms(2) by (simp add: trace_inv_def s)
  have tag: "src_tag (ct_sources ct ! k) = ?g" using tags k(2,3) by simp
  have alone: "?g \<notin> fst ` set (ct_waiting ct)" using assms(3) k(1) by (simp add: s ct_ok_def waiting_alone_def)
  have before: "may_follow e (?g, x)" if "e \<in> set tr" for e x
    using that assms(2) k(1) by (force simp: trace_inv_def s may_follow_def le_less)
  have open_run: "sorted_wrt may_follow (tr @ map (Pair ?g) es)" if "list_all (\<lambda>e. \<not> final e) (butlast es)" for es
  proof -
    have "sorted_wrt (\<lambda>x y. may_follow (?g, x) (?g, y)) es"
      using that by (induction es) (auto simp: may_follow_def split: if_splits)
    then show ?thesis using assms(2) before by (auto simp: trace_inv_def s sorted_wrt_append sorted_wrt_map)
  qed
  from assms(1) False obtain es where es: "list_all (\<lambda>e. \<not> final e) es"
    "s' = (ct, tr @ map (Pair ?g) es) \<or> (\<exists>e. final e \<and> s' = (ended k ct, tr @ map (Pair ?g) (es @ [e])))"
    by (auto simp: listened_def s tag Let_def)
  have run: "list_all (\<lambda>e. \<not> final e) (butlast es)" using es(1) by (auto simp: list_all_iff dest: in_set_butlastD)
  from es(2) show ?thesis
  proof
    assume "s' = (ct, tr @ map (Pair ?g) es)"
    then show ?thesis
      using assms(2) open_run [OF run] es(1) by (auto simp: trace_inv_def s list_all_iff)
  next
    assume "\<exists>e. final e \<and> s' = (ended k ct, tr @ map (Pair ?g) (es @ [e]))"
    then obtain e where e: "s' = (ended k ct, tr @ map (Pair ?g) (es @ [e]))" by blast
    have "\<forall>src \<in> set (ct_sources (ended k ct)). src_tag src = src_generation src"
      using tags k(1) by (auto simp: ended_def closeActiveSource_def dest!: update_source_set)
    then show ?thesis
      using assms(2) open_run [of "es @ [e]"] es(1) k(1) alone by (auto simp: trace_inv_def s e)
  qed
qed (use assms in simp)


lemma trace_inv_open_source:
  assumes "trace_inv (ct, tr)" "ct_ok ct" "ct_source ct = None" "ct_generation ct \<notin> fst ` set (ct_waiting ct)"
    "\<forall>e \<in> set tr. fst e = ct_generation ct \<longrightarrow> \<not> final (snd e)" "tag = ct_generation ct"
  shows "trace_inv (open_source (trace_client bad) (ct_generation ct) tag starts (ct, tr))"
proof -
  let ?src = "\<lparr>src_generation = ct_generation ct, src_tag = tag, src_closed = False, src_streamed = starts, src_completed = False\<rparr>"
  let ?k = "length (ct_sources ct)"
  let ?ct = "ct\<lparr>ct_sources := ct_sources ct @ [?src], ct_source := Some ?k, ct_streaming := True\<rparr>"
  have inv: "trace_inv (?ct, tr)" using assms by (auto simp: trace_inv_def)
  have ok: "ct_ok ?ct"
    using assms(2-4) by (auto simp: ct_ok_def waiting_alone_def open_source_def Let_def ct_inv_def nth_append)
  have "live ?k ?ct" by (simp add: live_def isCurrent_def)
  then have "trace_inv (handleError (trace_client bad) ?k (JStr STREAM_START_ERROR) JUndef (?ct, tr))"
    using trace_inv_listened [OF listened_error [of ?k ?ct "[]", simplified] inv] ok by simp
  then show ?thesis using inv by (cases starts) (simp_all add: open_source_def Let_def)
qed

lemma begin_send_trace:
  assumes "trace_inv (ct, tr)"
  shows "trace_inv (begin_send ct, tr)" "\<forall>e \<in> set tr. fst e \<noteq> ct_generation (begin_send ct)"
proof -
  have "\<forall>src \<in> set (ct_sources (begin_send ct)). src_tag src = src_generation src"
    using assms by (auto simp: begin_send_def trace_inv_def Let_def split: option.splits dest!: update_source_set)
  moreover have "\<forall>w \<in> set (ct_waiting ct). snd w = fst w" using assms by (simp add: trace_inv_def)
  ultimately show "trace_inv (begin_send ct, tr)" by (intro trace_inv_frame [OF assms]) simp_all
  show "\<forall>e \<in> set tr. fst e \<noteq> ct_generation (begin_send ct)" using assms by (auto simp: trace_inv_def)
qed

lemma cancel_trace:
  assumes "trace_inv (ct, tr)"
  shows "trace_inv (cancel notify ct, tr)"
proof (rule trace_inv_frame [OF assms])
  show "\<forall>src \<in> set (ct_sources (cancel notify ct)). src_tag src = src_generation src"
    using assms by (auto simp: cancel_def trace_inv_def Let_def split: option.splits dest!: update_source_set)
qed (use assms in \<open>auto simp: cancel_def trace_inv_def Let_def split: option.split\<close>)

lemma headers_trace:
  assumes "(g, tag) \<in> set (ct_waiting ct)" "trace_inv (ct, tr)" "ct_ok ct"
  shows "trace_inv (headers_settled (trace_client bad) g tag result starts (ct, tr))"
proof -
  let ?ct = "ct\<lparr>ct_waiting := remove1 (g, tag) (ct_waiting ct)\<rparr>"
  have tag: "tag = g" using assms(1,2) by (force simp: trace_inv_def)
  have sub: "set (ct_waiting ?ct) \<subseteq> set (ct_waiting ct)" by (simp add: set_remove1_subset)
  have inv: "trace_inv (?ct, tr)"
    using assms(2) sub by (auto simp: trace_inv_def)
  have w: "distinct (map fst (ct_waiting ?ct)) \<and> g \<notin> fst ` set (ct_waiting ?ct)"
    using remove1_waiting [OF _ assms(1)] assms(3) by (simp add: ct_ok_def waiting_alone_def)
  have ok: "ct_ok ?ct"
    using assms(3) sub w ct_inv_waiting_le [of ct] by (auto simp: ct_ok_def waiting_alone_def intro!: ct_inv_waiting)
  show ?thesis
  proof (cases "ct_generation ct = g")
    case True
    have src: "ct_source ct = None" using waiting_source [OF assms(3)] assms(1) True by simp
    have nofinal: "\<forall>e \<in> set tr. fst e = g \<longrightarrow> \<not> final (snd e)"
      using assms(1,2) True by (force simp: trace_inv_def)
    have err: "trace_inv (?ct, tr @ [(g, Failed msg code)])" for msg code
      using inv nofinal w src True assms(2)
      by (auto simp: trace_inv_def sorted_wrt_append may_follow_def le_less)
    show ?thesis
      using trace_inv_open_source [OF inv ok, of tag] err src w True nofinal tag
      by (auto simp: headers_settled_def Let_def trace_client_def split: headers_result.split)
  next
    case False
    then show ?thesis
      using inv by (auto simp: headers_settled_def Let_def open_source_def split: headers_result.split)
  qed
qed

lemma trace_inv_step:
  assumes "ct_step (trace_client bad) s s'" "trace_inv s" "ct_ok (fst s)"
  shows "trace_inv s'"
  using assms(1)
proof (cases rule: ct_step.cases)
  case (sent ct c starts)
  have ok: "ct_ok (begin_send ct)"
    using assms(3) sent(1) ct_inv_cancel(2) [of ct] by (simp add: ct_ok_def waiting_alone_def)
  show ?thesis
    using trace_inv_open_source [OF begin_send_trace(1) ok] begin_send_trace(2) next_generation_fresh [of ct] assms(2,3) sent
    by (simp add: send_def ct_ok_def)
next
  case (sent_waiting ct c)
  then show ?thesis
    using begin_send_trace [of ct c] assms(2) by (auto simp: send_without_headers_def Let_def trace_inv_def)
next
  case (headers g tag ct c result starts)
  then show ?thesis using headers_trace assms(2,3) by simp
next
  case (event k ct c ev)
  then show ?thesis using trace_inv_listened [OF listened_event] assms(2,3) by simp
qed (use assms(2) cancel_trace in \<open>auto simp: stop_def dispose_def\<close>)

lemma reachable_trace: "reachable (trace_client bad) [] s \<Longrightarrow> trace_inv s"
proof (induction rule: reachable.induct)
  case start
  show ?case by (simp add: trace_inv_def initial_controller_def)
next
  case (step s s')
  show ?case by (rule trace_inv_step [OF step.hyps(2) step.IH reachable_ok [OF step.hyps(1)]])
qed


section \<open>The client\<close>

text \<open>
  What the controller relies on and what a client gets from it: a client that ignores the callbacks of all
  but its current request is not touched by the events of any other.
\<close>

locale current_client =
  fixes cl :: "'c client" and current :: "'c \<Rightarrow> nat"
  assumes stale_update: "tag \<noteq> current c \<Longrightarrow> on_update cl tag ty chunk c = (c, False)"
    and stale_complete: "tag \<noteq> current c \<Longrightarrow> on_complete cl tag c = (c, False)"
    and stale_error: "tag \<noteq> current c \<Longrightarrow> on_error cl tag msg code c = (c, False)"
    and stale_served: "tag \<noteq> current c \<Longrightarrow> on_served_by cl tag servedBy c = (c, False)"
begin

lemma stale_updates: "tag \<noteq> current c \<Longrightarrow> run_updates cl tag us c = (c, False)"
  by (induction us) (auto simp: stale_update)

lemma stale_handleError:
  "src_tag (ct_sources ct ! k) \<noteq> current c \<Longrightarrow> snd (handleError cl k msg code (ct, c)) = c"
  by (simp add: handleError_def stale_error Let_def)

lemma stale_event:
  assumes "src_tag (ct_sources ct ! k) \<noteq> current c"
  shows "snd (handle_event cl k ev (ct, c)) = c"
  using assms
  by (auto simp: handle_event_def message_event_def stale_complete stale_served stale_updates stale_handleError Let_def
      split: source_event.split option.split)

end

text \<open>A relation between states of the client that each callback respects is respected by every operation.\<close>

locale related_client =
  fixes cl :: "'c client" and R :: "'c \<Rightarrow> 'c \<Rightarrow> bool"
  assumes R_refl: "R c c"
    and R_trans: "R a b \<Longrightarrow> R b c \<Longrightarrow> R a c"
    and R_update: "R c (fst (on_update cl tag ty chunk c))"
    and R_complete: "R c (fst (on_complete cl tag c))"
    and R_error: "R c (fst (on_error cl tag msg code c))"
    and R_served: "R c (fst (on_served_by cl tag servedBy c))"
begin

lemma R_updates: "R c (fst (run_updates cl tag us c))"
proof (induction us arbitrary: c)
  case (Cons u us)
  then show ?case
    using R_update [of c tag "fst u" "snd u"] by (cases u) (auto intro: R_trans split: prod.split)
qed (simp add: R_refl)

lemma R_handleError: "R c (snd (handleError cl k msg code (ct, c)))"
  using R_error [of c "src_tag (ct_sources ct ! k)" msg code] by (auto simp: handleError_def R_refl Let_def split: prod.split)

lemma R_event: "R c (snd (handle_event cl k ev (ct, c)))"
proof -
  have "R c (snd (handleError cl k msg code (ct, fst (run_updates cl tag us c))))" for msg code tag us
    using R_updates R_handleError R_trans by blast
  moreover have "R c c'" if "run_updates cl tag us c = (c', threw)" for c' tag us threw
    using R_updates [of c tag us] that by simp
  ultimately show ?thesis
    using R_refl R_handleError R_served R_complete
    by (auto simp: handle_event_def message_event_def Let_def split: source_event.split option.split prod.split) (metis fst_conv)+
qed

lemma R_send: "R c (snd (send cl tag starts (ct, c)))"
  using R_handleError R_refl by (simp add: send_def open_source_def Let_def)

end

lemma update_source_tag:
  "(\<And>src. src_tag (f src) = src_tag src) \<Longrightarrow> map src_tag (ct_sources (update_source k f ct)) = map src_tag (ct_sources ct)"
  by (auto simp: update_source_def nth_list_update intro!: nth_equalityI)

lemma closeActive_tag: "map src_tag (ct_sources (closeActiveSource k ct)) = map src_tag (ct_sources ct)"
  by (simp add: closeActiveSource_def update_source_tag)

lemma handleError_tag: "map src_tag (ct_sources (fst (handleError cl k msg code (ct, c)))) = map src_tag (ct_sources ct)"
  by (simp add: handleError_def Let_def update_source_tag closeActive_tag split: prod.split)

lemma event_tags: "map src_tag (ct_sources (fst (handle_event cl k ev (ct, c)))) = map src_tag (ct_sources ct)"
  by (simp add: handle_event_def message_event_def Let_def update_source_tag closeActive_tag handleError_tag
      split: source_event.split option.split prod.split)

lemma cancel_tags: "map src_tag (ct_sources (cancel notify ct)) = map src_tag (ct_sources ct)"
  by (simp add: cancel_def Let_def update_source_tag split: option.split)

lemma send_tags: "map src_tag (ct_sources (fst (send cl tag starts (ct, c)))) = map src_tag (ct_sources ct) @ [tag]"
  by (simp add: send_def open_source_def begin_send_def Let_def handleError_tag update_source_tag split: option.split)

section \<open>A run\<close>

lemma reachable_send:
  "reachable cl c0 s \<Longrightarrow> tag = Suc (ct_generation (fst s)) \<Longrightarrow> reachable cl c0 (send cl tag starts s)"
  by (cases s) (auto intro: reachable.step ct_step.sent [unfolded Suc_eq_plus1 [symmetric]])

lemma reachable_event:
  "reachable cl c0 s \<Longrightarrow> k < length (ct_sources (fst s)) \<Longrightarrow> reachable cl c0 (handle_event cl k ev s)"
  by (cases s) (auto intro: reachable.step ct_step.event)

text \<open>The first request is replaced, its late event is ignored, and the second one ends.\<close>

abbreviation tracing :: "trace client" where
  "tracing \<equiv> trace_client (\<lambda>_. False)"

definition run_1 :: "controller \<times> trace" where
  "run_1 = send tracing 2 True (send tracing 1 True (initial_controller, []))"

definition run_2 :: "controller \<times> trace" where
  "run_2 = handle_event tracing 1 (Open (Some [(js ''x-served-by'', One (js ''a''))]))
     (handle_event tracing 0 (Message (Some (js ''[DONE]''))) run_1)"

definition run_3 :: "controller \<times> trace" where
  "run_3 = handle_event tracing 1 (Message (Some (js ''[DONE]''))) run_2"

lemma run_values:
  "ct_generation (fst (send tracing 1 True (initial_controller, []))) = 1"
  "length (ct_sources (fst run_1)) = 2" "length (ct_sources (fst (handle_event tracing 0 (Message (Some (js ''[DONE]''))) run_1))) = 2"
  "ct_source (fst run_2) = Some 1" "length (ct_sources (fst run_2)) = 2"
  "snd run_3 = [(2, Served (js ''a'')), (2, Completed)]"
  by code_simp+

lemma runs_reachable: "reachable tracing [] run_2" "reachable tracing [] run_3"
proof -
  have "reachable tracing [] run_1"
    unfolding run_1_def
    by (rule reachable_send, rule reachable_send, rule reachable.start)
      (simp_all only: run_values, simp_all add: initial_controller_def)
  then show r2: "reachable tracing [] run_2"
    unfolding run_2_def by (intro reachable_event) (simp_all add: run_values)
  then show "reachable tracing [] run_3"
    unfolding run_3_def by (intro reachable_event) (simp_all add: run_values)
qed

section \<open>Properties\<close>

text \<open>
  C29. The controller never leaks a connection: in every state that sends, events in any order, answers for
  headers, stops and disposals lead to, every source but the active one is closed, and the active one is
  of the current generation, open and announced as streaming.
\<close>

theorem at_most_one_open_source:
  assumes "reachable cl c0 (ct, c)" "k < length (ct_sources ct)"
  shows "(src_closed (ct_sources ct ! k) \<longleftrightarrow> ct_source ct \<noteq> Some k)
     \<and> (ct_source ct = Some k \<longrightarrow> src_generation (ct_sources ct ! k) = ct_generation ct \<and> ct_streaming ct)"
  using reachable_ok [OF assms(1)] assms(2) by (auto simp: ct_ok_def ct_inv_def)

theorem at_most_one_open_source_witness:
  "src_closed (ct_sources (fst run_2) ! 0) \<and> \<not> src_closed (ct_sources (fst run_2) ! 1) \<and> ct_streaming (fst run_2)"
  using at_most_one_open_source [of tracing "[]" "fst run_2" "snd run_2" 0]
    at_most_one_open_source [of tracing "[]" "fst run_2" "snd run_2" 1] runs_reachable(1) run_values(4,5)
  by simp

text \<open>
  C13. Callbacks come in order: all of a request before any of a later one, at most one of them ends a
  request, and after that no other follows, whatever the sources emit and when.
\<close>

theorem callbacks_in_order:
  assumes "reachable (trace_client bad) [] (ct, tr)" "i < j" "j < length tr"
  shows "fst (tr ! i) < fst (tr ! j) \<or> fst (tr ! i) = fst (tr ! j) \<and> \<not> final (snd (tr ! i))"
  using reachable_trace [OF assms(1)] assms(2,3) sorted_wrt_nth_less [of may_follow tr i j]
  by (simp add: trace_inv_def may_follow_def)

theorem callbacks_in_order_witness: "fst (snd run_3 ! 0) = fst (snd run_3 ! 1) \<and> \<not> final (snd (snd run_3 ! 0))"
proof -
  have "reachable tracing [] (fst run_3, snd run_3)" using runs_reachable(2) by simp
  from callbacks_in_order [OF this, of 0 1] show ?thesis by (simp add: run_values)
qed

end
