(* ===== verification/ChatHandler.thy ===== *)
theory ChatHandler
  imports StreamRequest
begin

text \<open>
  \<open>hooks/use-chat-handler.ts\<close> and \<open>hooks/use-playground-conversation.ts\<close>: the conversation of the playground
  and its requests.  The state of a component is as React documents it: an update is queued and all queued
  updates run in order when the component renders next, which may be any time later; a ref is read and
  written at once.  Requests that are not streamed settle at any time.
\<close>

section \<open>State\<close>

record pending_stream_chunks =
  pc_generation :: nat
  pc_content :: jsstr
  pc_reasoning :: jsstr

text \<open>The updates of the messages, with the variables that each closes over.\<close>

datatype message_update =
    Replace "message list"
  | Remove jsstr
  | Flush nat jsstr jsstr
  | SetServedBy nat jsstr
  | CompleteMessage nat
  | FailMessage nat jsstr jsval jsstr
  | Respond nat "completion_choice list option" "jsstr option"
  | StopMessage nat
  | FailForKey

text \<open>
  The messages as rendered last and the queued updates, \<open>isRequesting\<close>, and the refs: the request whose abort
  controller is kept, the generation, the pending chunks and the flush timer (the generation of its callback,
  and whether it is still to fire).  \<open>ch_aborted\<close> are the requests that were aborted, \<open>ch_inflight\<close> those not
  settled, and \<open>ch_sent\<close> the client keys and payloads sent.
\<close>

record chat =
  ch_messages :: "message list"
  ch_queue :: "message_update list"
  ch_isRequesting :: bool
  ch_abort :: "nat option"
  ch_generation :: nat
  ch_pending :: pending_stream_chunks
  ch_timer :: "(nat \<times> bool) option"
  ch_aborted :: "nat list"
  ch_inflight :: "nat list"
  ch_sent :: "(jsstr \<times> chat_completion_request) list"

definition no_chunks :: "nat \<Rightarrow> pending_stream_chunks" where
  "no_chunks generation = \<lparr>pc_generation = generation, pc_content = [], pc_reasoning = []\<rparr>"

definition initial_chat :: "message list \<Rightarrow> chat" where
  "initial_chat messages =
     \<lparr>ch_messages = messages, ch_queue = [], ch_isRequesting = False, ch_abort = None, ch_generation = 0,
      ch_pending = no_chunks 0, ch_timer = None, ch_aborted = [], ch_inflight = [], ch_sent = []\<rparr>"

section \<open>Updates of the messages\<close>

definition flush_message :: "(nat \<Rightarrow> jsnum) \<Rightarrow> jsstr \<Rightarrow> jsstr \<Rightarrow> message \<Rightarrow> message" where
  "flush_message clk reasoned content m =
     (let m1 = (if reasoned \<noteq> [] then applyStreamingChunk clk m ReasoningChunk reasoned else m) in
      if content \<noteq> [] then applyStreamingChunk clk m1 ContentChunk content else m1)"

definition run_update :: "(nat \<Rightarrow> jsnum) \<Rightarrow> nat \<Rightarrow> message_update \<Rightarrow> message list \<Rightarrow> message list" where
  "run_update clk current u prev =
     (case u of
        Replace messages \<Rightarrow> messages
      | Remove key \<Rightarrow> removeMessageByKey prev key
      | Flush generation reasoned content \<Rightarrow>
          if generation \<noteq> current then prev else updateLastAssistantMessage prev (flush_message clk reasoned content)
      | SetServedBy generation servedBy \<Rightarrow>
          if generation \<noteq> current then prev
          else updateLastAssistantMessage prev (\<lambda>m. m\<lparr>m_servedBy := Some servedBy\<rparr>)
      | CompleteMessage generation \<Rightarrow>
          if generation \<noteq> current then prev
          else updateLastAssistantMessage prev (\<lambda>m. if isAssistantMessageFinal m then m else completeAssistantMessage clk m)
      | FailMessage generation displayError errorCode errorTitle \<Rightarrow>
          if generation \<noteq> current then prev
          else updateAssistantMessageWithError (clk 0) prev displayError errorCode (Some errorTitle)
      | Respond generation response servedBy \<Rightarrow>
          if generation \<noteq> current then prev
          else updateLastAssistantMessage prev (\<lambda>m.
            case applyChatCompletionResponse clk m response of
              None \<Rightarrow> m
            | Some updated \<Rightarrow> (case servedBy of Some s \<Rightarrow> updated\<lparr>m_servedBy := Some s\<rparr> | None \<Rightarrow> updated))
      | StopMessage idleGeneration \<Rightarrow>
          if idleGeneration \<noteq> current then prev
          else updateLastAssistantMessage prev (\<lambda>m. if isAssistantMessagePending m then completeAssistantMessage clk m else m)
      | FailForKey \<Rightarrow> updateAssistantMessageWithError (clk 0) prev MISSING_CLIENT_KEY JUndef None)"

definition onMessageUpdate :: "message_update \<Rightarrow> chat \<Rightarrow> chat" where
  "onMessageUpdate u s = s\<lparr>ch_queue := ch_queue s @ [u]\<rparr>"

definition render :: "(nat \<Rightarrow> jsnum) \<Rightarrow> chat \<Rightarrow> chat" where
  "render clk s =
     s\<lparr>ch_messages := foldl (\<lambda>prev u. run_update clk (ch_generation s) u prev) (ch_messages s) (ch_queue s), ch_queue := []\<rparr>"

section \<open>Chunks of a stream\<close>

text \<open>A chunk is what the event had: a value that is no string has no method \<open>startsWith\<close>.\<close>

definition mergePendingStreamChunk :: "jsstr \<Rightarrow> jsval \<Rightarrow> js_error + jsstr" where
  "mergePendingStreamChunk currentChunk nextChunk =
     (if currentChunk = [] then js_string nextChunk
      else (case nextChunk of
          JStr s \<Rightarrow> Inr (if \<not> starts_with currentChunk s then currentChunk @ s else s)
        | _ \<Rightarrow> Inl TypeError))"

definition discardPendingStreamUpdates :: "nat \<Rightarrow> chat \<Rightarrow> chat" where
  "discardPendingStreamUpdates generation s = s\<lparr>ch_timer := None, ch_pending := no_chunks generation\<rparr>"

definition flushStreamUpdates :: "nat \<Rightarrow> chat \<Rightarrow> chat" where
  "flushStreamUpdates generation s =
     (if generation \<noteq> ch_generation s then s
      else
        (let s1 = s\<lparr>ch_timer := None\<rparr>; pendingChunks = ch_pending s in
         if pc_generation pendingChunks \<noteq> generation then s1
         else if pc_reasoning pendingChunks = [] \<and> pc_content pendingChunks = [] then s1
         else onMessageUpdate (Flush generation (pc_reasoning pendingChunks) (pc_content pendingChunks))
           (s1\<lparr>ch_pending := no_chunks generation\<rparr>)))"

definition scheduleStreamFlush :: "nat \<Rightarrow> chat \<Rightarrow> chat" where
  "scheduleStreamFlush generation s =
     (if generation \<noteq> ch_generation s then s
      else if ch_timer s \<noteq> None then s
      else s\<lparr>ch_timer := Some (generation, True)\<rparr>)"

definition timer_fired :: "chat \<Rightarrow> chat" where
  "timer_fired s =
     (case ch_timer s of
        Some (generation, True) \<Rightarrow> flushStreamUpdates generation (s\<lparr>ch_timer := Some (generation, False)\<rparr>)
      | _ \<Rightarrow> s)"

definition handleStreamUpdate :: "nat \<Rightarrow> stream_chunk_type \<Rightarrow> jsval \<Rightarrow> chat \<Rightarrow> chat \<times> bool" where
  "handleStreamUpdate generation ty chunk s =
     (if generation \<noteq> ch_generation s \<or> pc_generation (ch_pending s) \<noteq> generation then (s, False)
      else (case mergePendingStreamChunk
              (case ty of ReasoningChunk \<Rightarrow> pc_reasoning (ch_pending s) | ContentChunk \<Rightarrow> pc_content (ch_pending s)) chunk of
          Inl _ \<Rightarrow> (s, True)
        | Inr merged \<Rightarrow>
            (scheduleStreamFlush generation
               (s\<lparr>ch_pending :=
                  (case ty of ReasoningChunk \<Rightarrow> (ch_pending s)\<lparr>pc_reasoning := merged\<rparr>
                   | ContentChunk \<Rightarrow> (ch_pending s)\<lparr>pc_content := merged\<rparr>)\<rparr>), False)))"

section \<open>The end of a stream\<close>

definition handleServedBy :: "nat \<Rightarrow> jsstr \<Rightarrow> chat \<Rightarrow> chat" where
  "handleServedBy generation servedBy s =
     (if generation \<noteq> ch_generation s then s else onMessageUpdate (SetServedBy generation servedBy) s)"

definition handleStreamComplete :: "nat \<Rightarrow> chat \<Rightarrow> chat" where
  "handleStreamComplete generation s =
     (if generation \<noteq> ch_generation s then s
      else onMessageUpdate (CompleteMessage generation) ((flushStreamUpdates generation s)\<lparr>ch_isRequesting := False\<rparr>))"

text \<open>\<open>s.endsWith(p)\<close>\<close>

definition ends_with :: "jsstr \<Rightarrow> jsstr \<Rightarrow> bool" where
  "ends_with p s \<longleftrightarrow> length p \<le> length s \<and> drop (length s - length p) s = p"

definition getDisplayError :: "(jsstr \<Rightarrow> jsstr) \<Rightarrow> jsval \<Rightarrow> js_error + jsstr" where
  "getDisplayError t err =
     (case err of
        JStr e \<Rightarrow>
          Inr (if e \<in> set ERROR_MESSAGES then t e
               else if ends_with (js '': '' @ CONNECTION_CLOSED) e
               then take (length e - length CONNECTION_CLOSED) e @ t CONNECTION_CLOSED
               else e)
      | _ \<Rightarrow> Inl TypeError)"

definition handleStreamError :: "(jsstr \<Rightarrow> jsstr) \<Rightarrow> nat \<Rightarrow> jsval \<Rightarrow> jsval \<Rightarrow> chat \<Rightarrow> chat \<times> bool" where
  "handleStreamError t generation err errorCode s =
     (if generation \<noteq> ch_generation s then (s, False)
      else
        (let s1 = (flushStreamUpdates generation s)\<lparr>ch_isRequesting := False\<rparr> in
         case getDisplayError t err of
           Inl _ \<Rightarrow> (s1, True)
         | Inr displayError \<Rightarrow>
             (onMessageUpdate (FailMessage generation displayError errorCode (t API_REQUEST_ERROR)) s1, False)))"

definition chat_client :: "(jsstr \<Rightarrow> jsstr) \<Rightarrow> chat client" where
  "chat_client t =
     \<lparr>on_update = handleStreamUpdate,
      on_complete = (\<lambda>generation s. (handleStreamComplete generation s, False)),
      on_error = handleStreamError t,
      on_served_by = (\<lambda>generation servedBy s. (handleServedBy generation servedBy s, False))\<rparr>"

section \<open>Sending\<close>

type_synonym playground = "controller \<times> chat"

definition abort_active :: "chat \<Rightarrow> chat" where
  "abort_active s =
     (case ch_abort s of Some g \<Rightarrow> s\<lparr>ch_aborted := g # ch_aborted s, ch_abort := None\<rparr> | None \<Rightarrow> s)"

definition sendStreamingChat ::
  "(jsstr \<Rightarrow> jsstr) \<Rightarrow> playground_config \<Rightarrow> parameter_enabled \<Rightarrow> bool \<Rightarrow> message list \<Rightarrow> playground \<Rightarrow> playground" where
  "sendStreamingChat t config parameterEnabled starts messages p =
     (case p of (ct, s) \<Rightarrow>
        let generation = ch_generation s + 1;
            s1 = discardPendingStreamUpdates generation (abort_active (s\<lparr>ch_generation := generation\<rparr>));
            payload = buildChatCompletionPayload messages config parameterEnabled in
        send (chat_client t) generation starts
          (ct, s1\<lparr>ch_isRequesting := True, ch_sent := ch_sent s1 @ [(trim (pg_clientKey config), payload)]\<rparr>))"

text \<open>Up to the await, and after it.\<close>

definition sendNonStreamingChat ::
  "playground_config \<Rightarrow> parameter_enabled \<Rightarrow> message list \<Rightarrow> playground \<Rightarrow> playground" where
  "sendNonStreamingChat config parameterEnabled messages p =
     (case p of (ct, s) \<Rightarrow>
        let payload = buildChatCompletionPayload messages config parameterEnabled;
            generation = ch_generation s + 1;
            s1 = abort_active (discardPendingStreamUpdates generation (s\<lparr>ch_generation := generation\<rparr>)) in
        (stop ct,
         s1\<lparr>ch_abort := Some generation, ch_isRequesting := True, ch_inflight := generation # ch_inflight s1,
           ch_sent := ch_sent s1 @ [(trim (pg_clientKey config), payload)]\<rparr>))"

definition completion_settled ::
  "(jsstr \<Rightarrow> jsstr) \<Rightarrow> nat \<Rightarrow> fetch_result \<Rightarrow> chat \<Rightarrow> chat" where
  "completion_settled t generation result s0 =
     (let s = s0\<lparr>ch_inflight := remove1 generation (ch_inflight s0)\<rparr>;
          s1 =
            (if generation \<in> set (ch_aborted s) \<or> ch_generation s \<noteq> generation then s
             else (case sendChatCompletion result of
                 Inr (response, servedBy) \<Rightarrow>
                   if \<not> hasChatCompletionChoice response
                   then fst (handleStreamError t generation (JStr API_REQUEST_ERROR) JUndef s)
                   else onMessageUpdate (Respond generation response servedBy) s
               | Inl err \<Rightarrow>
                   (let details = parseRequestErrorDetails err in
                    fst (handleStreamError t generation (ed_errorMessage details) (ed_errorCode details) s)))) in
      if ch_generation s1 = generation then s1\<lparr>ch_abort := None, ch_isRequesting := False\<rparr> else s1)"

definition sendChat ::
  "(jsstr \<Rightarrow> jsstr) \<Rightarrow> playground_config \<Rightarrow> parameter_enabled \<Rightarrow> bool \<Rightarrow> message list \<Rightarrow> playground \<Rightarrow> playground" where
  "sendChat t config parameterEnabled starts messages p =
     (if trim (pg_clientKey config) = []
      then (fst p, onMessageUpdate FailForKey ((snd p)\<lparr>ch_generation := ch_generation (snd p) + 1\<rparr>))
      else if pg_stream config then sendStreamingChat t config parameterEnabled starts messages p
      else sendNonStreamingChat config parameterEnabled messages p)"

definition stopGeneration :: "playground \<Rightarrow> playground" where
  "stopGeneration p =
     (case p of (ct, s) \<Rightarrow>
        let stoppedGeneration = ch_generation s;
            idleGeneration = stoppedGeneration + 1;
            s1 = discardPendingStreamUpdates idleGeneration
              ((flushStreamUpdates stoppedGeneration s)\<lparr>ch_generation := idleGeneration\<rparr>) in
        (stop ct, onMessageUpdate (StopMessage idleGeneration) ((abort_active s1)\<lparr>ch_isRequesting := False\<rparr>)))"

definition isGenerating :: "playground \<Rightarrow> bool" where
  "isGenerating p \<longleftrightarrow> ct_streaming (fst p) \<or> ch_isRequesting (snd p)"

text \<open>The effects' clean-up when the component is removed.\<close>

definition unmount :: "playground \<Rightarrow> playground" where
  "unmount p =
     (case p of (ct, s) \<Rightarrow>
        (dispose ct,
         abort_active (s\<lparr>ch_generation := ch_generation s + 1, ch_timer := map_option (\<lambda>(g, _). (g, False)) (ch_timer s)\<rparr>)))"

section \<open>The conversation\<close>

definition handleSendMessage ::
  "(jsstr \<Rightarrow> jsstr) \<Rightarrow> playground_config \<Rightarrow> parameter_enabled \<Rightarrow> bool \<Rightarrow> fresh_ids \<Rightarrow> jsnum \<Rightarrow> jsstr \<Rightarrow> playground \<Rightarrow> playground" where
  "handleSendMessage t config parameterEnabled starts ids now txt p =
     (let nextMessages = appendUserMessagePair ids now (ch_messages (snd p)) txt in
      sendChat t config parameterEnabled starts nextMessages (fst p, onMessageUpdate (Replace nextMessages) (snd p)))"

definition handleRegenerateMessage ::
  "(jsstr \<Rightarrow> jsstr) \<Rightarrow> playground_config \<Rightarrow> parameter_enabled \<Rightarrow> bool \<Rightarrow> fresh_ids \<Rightarrow> jsnum \<Rightarrow> jsstr \<Rightarrow> playground \<Rightarrow> playground" where
  "handleRegenerateMessage t config parameterEnabled starts ids now key p =
     (case createRegeneratedMessages ids now (ch_messages (snd p)) key of
        None \<Rightarrow> p
      | Some nextMessages \<Rightarrow>
          sendChat t config parameterEnabled starts nextMessages (fst p, onMessageUpdate (Replace nextMessages) (snd p)))"

definition handleDeleteMessage :: "jsstr \<Rightarrow> playground \<Rightarrow> playground" where
  "handleDeleteMessage key p = (fst p, onMessageUpdate (Remove key) (snd p))"

text \<open>The key of the message that is edited, an empty one as none, is the state of the conversation.\<close>

definition handleEditMessage :: "message \<Rightarrow> jsstr option" where
  "handleEditMessage m = Some (m_key m)"

definition handleEditOpenChange :: "bool \<Rightarrow> jsstr option \<Rightarrow> jsstr option" where
  "handleEditOpenChange is_open editingMessageKey = (if \<not> is_open then None else editingMessageKey)"

definition applyEdit ::
  "(jsstr \<Rightarrow> jsstr) \<Rightarrow> playground_config \<Rightarrow> parameter_enabled \<Rightarrow> bool \<Rightarrow> fresh_ids \<Rightarrow> jsnum \<Rightarrow> jsstr \<Rightarrow> bool
     \<Rightarrow> jsstr option \<times> playground \<Rightarrow> jsstr option \<times> playground" where
  "applyEdit t config parameterEnabled starts ids now newContent shouldSubmit st =
     (case st of (editingMessageKey, p) \<Rightarrow>
        let key = or_else editingMessageKey [] in
        if key = [] then st
        else (case applyMessageEdit ids now (ch_messages (snd p)) key newContent shouldSubmit of
            None \<Rightarrow> st
          | Some editResult \<Rightarrow>
              (let p1 = (fst p, onMessageUpdate (Replace (me_messages editResult)) (snd p)) in
               (None, if me_shouldSend editResult
                      then sendChat t config parameterEnabled starts (me_messages editResult) p1 else p1))))"

section \<open>Runs\<close>

text \<open>What happens outside the handlers: events of sources, the timer, settled requests, and renders.\<close>

datatype outside =
    SourceEvent nat source_event
  | TimerFired
  | Settled nat fetch_result
  | Rendered "nat \<Rightarrow> jsnum"

definition outside_step :: "(jsstr \<Rightarrow> jsstr) \<Rightarrow> playground \<Rightarrow> outside \<Rightarrow> playground" where
  "outside_step t p e =
     (case p of (ct, s) \<Rightarrow>
        case e of
          SourceEvent k ev \<Rightarrow> if k < length (ct_sources ct) then handle_event (chat_client t) k ev p else p
        | TimerFired \<Rightarrow> (ct, timer_fired s)
        | Settled generation result \<Rightarrow>
            if generation \<in> set (ch_inflight s) then (ct, completion_settled t generation result s) else p
        | Rendered clk \<Rightarrow> (ct, render clk s))"

inductive pg_step :: "(jsstr \<Rightarrow> jsstr) \<Rightarrow> playground \<Rightarrow> playground \<Rightarrow> bool" for t where
  pg_outside: "pg_step t p (outside_step t p e)"
| pg_send: "pg_step t p (sendChat t config parameterEnabled starts messages p)"
| pg_update: "u \<in> {Replace messages, Remove key} \<Longrightarrow> pg_step t p (fst p, onMessageUpdate u (snd p))"
| pg_stop: "pg_step t p (stopGeneration p)"

inductive pg_reachable :: "(jsstr \<Rightarrow> jsstr) \<Rightarrow> playground \<Rightarrow> bool" for t where
  pg_start: "pg_reachable t (initial_controller, initial_chat messages)"
| pg_next: "pg_reachable t p \<Longrightarrow> pg_step t p p' \<Longrightarrow> pg_reachable t p'"

end
