(* ===== verification/ChatHandlerProofs.thy ===== *)
theory ChatHandlerProofs
  imports ChatHandler
begin

text \<open>
  The conversation and its requests: only the current request changes the messages, stopping is final, and
  the text of a stream is shown whole whatever the timing.
\<close>

section \<open>The handlers as a client of the controller\<close>

text \<open>What every callback keeps: the generation, the requests not settled, and that the timer is not ahead.\<close>

definition kept :: "chat \<Rightarrow> chat \<Rightarrow> bool" where
  "kept s s' \<longleftrightarrow>
     ch_generation s' = ch_generation s \<and> ch_inflight s' = ch_inflight s
     \<and> (\<forall>g b. ch_timer s' = Some (g, b) \<longrightarrow> g = ch_generation s \<or> (\<exists>b. ch_timer s = Some (g, b)))"

lemma kept_refl: "kept s s"
  by (simp add: kept_def)

lemma kept_trans: "kept a b \<Longrightarrow> kept b c \<Longrightarrow> kept a c"
  by (auto simp: kept_def)

lemma kept_fields [simp]:
  "kept s (onMessageUpdate u s') = kept s s'" "kept s (s'\<lparr>ch_isRequesting := r\<rparr>) = kept s s'"
  "kept s (s'\<lparr>ch_pending := p\<rparr>) = kept s s'" "kept s (s'\<lparr>ch_abort := a\<rparr>) = kept s s'"
  by (simp_all add: kept_def onMessageUpdate_def)

lemma kept_flush: "kept s (flushStreamUpdates g s)"
  by (auto simp: kept_def flushStreamUpdates_def onMessageUpdate_def Let_def)

lemma kept_schedule: "kept s (scheduleStreamFlush g (s\<lparr>ch_pending := p\<rparr>))"
  by (auto simp: kept_def scheduleStreamFlush_def)

lemma kept_error: "kept s (fst (handleStreamError t g err code s))"
  using kept_flush [of s g]
  by (auto simp: handleStreamError_def kept_refl Let_def split: sum.split)

interpretation chat_related: related_client "chat_client t" kept
  by unfold_locales
    (auto simp: chat_client_def handleStreamUpdate_def handleStreamComplete_def handleServedBy_def kept_refl kept_flush
      kept_schedule kept_error intro: kept_trans split: sum.split)

interpretation chat_current: current_client "chat_client t" ch_generation
  by unfold_locales
    (auto simp: chat_client_def handleStreamUpdate_def handleStreamComplete_def handleStreamError_def handleServedBy_def)

section \<open>Invariant\<close>

text \<open>No source, request or timer is ahead of the generation.\<close>

definition behind :: "(nat \<Rightarrow> nat \<Rightarrow> bool) \<Rightarrow> playground \<Rightarrow> bool" where
  "behind R p \<longleftrightarrow>
     (\<forall>src \<in> set (ct_sources (fst p)). R (src_tag src) (ch_generation (snd p)))
     \<and> (\<forall>g \<in> set (ch_inflight (snd p)). R g (ch_generation (snd p)))
     \<and> (\<forall>g b. ch_timer (snd p) = Some (g, b) \<longrightarrow> R g (ch_generation (snd p)))"

definition pg_inv :: "playground \<Rightarrow> bool" where
  "pg_inv p \<longleftrightarrow> ct_inv (fst p) \<and> behind (\<le>) p"

lemma behind_kept:
  assumes "behind (\<le>) (ct, s)" "kept s s'" "map src_tag (ct_sources ct') = map src_tag (ct_sources ct)"
  shows "behind (\<le>) (ct', s')"
proof -
  have "src_tag ` set (ct_sources ct') = src_tag ` set (ct_sources ct)" using assms(3) by (metis set_map)
  then have "\<forall>src \<in> set (ct_sources ct'). src_tag src \<le> ch_generation s"
    using assms(1) by (force simp: behind_def)
  then show ?thesis using assms(1,2) by (auto simp: behind_def kept_def)
qed

lemma kept_abort: "ch_generation (abort_active s) = ch_generation s" "ch_inflight (abort_active s) = ch_inflight s"
  "ch_timer (abort_active s) = ch_timer s" "ch_queue (abort_active s) = ch_queue s" "ch_messages (abort_active s) = ch_messages s"
  by (simp_all add: abort_active_def split: option.split)

lemma behind_next:
  assumes "behind (\<le>) (ct, s)" "map src_tag (ct_sources ct') = map src_tag (ct_sources ct)"
    "ch_generation s' = Suc (ch_generation s)" "set (ch_inflight s') \<subseteq> set (ch_inflight s)"
    "ch_timer s' = None \<or> ch_timer s' = ch_timer s"
  shows "behind (<) (ct', s')"
proof -
  have "src_tag ` set (ct_sources ct') = src_tag ` set (ct_sources ct)" using assms(2) by (metis set_map)
  then have "\<forall>src \<in> set (ct_sources ct'). src_tag src \<le> ch_generation s"
    using assms(1) by (force simp: behind_def)
  moreover have "g \<le> ch_generation s" if "ch_timer s' = Some (g, b)" for g b
    using assms(1,5) that unfolding behind_def by (metis option.distinct(1) snd_conv)
  ultimately show ?thesis using assms(1,3,4) by (auto simp: behind_def less_Suc_eq_le)
qed

lemma behind_less: "behind (<) p \<Longrightarrow> behind (\<le>) p"
  by (auto simp: behind_def less_imp_le)

lemma behind_outside:
  assumes "pg_inv p"
  shows "pg_inv (outside_step t p e)"
proof -
  obtain ct s where p: "p = (ct, s)" by (cases p)
  have inv: "ct_inv ct" "behind (\<le>) (ct, s)" using assms by (simp_all add: pg_inv_def p)
  show ?thesis
  proof (cases e)
    case (SourceEvent k ev)
    have "behind (\<le>) (handle_event (chat_client t) k ev (ct, s))"
      using behind_kept [OF inv(2) chat_related.R_event event_tags] by (metis prod.collapse)
    then show ?thesis using inv ct_inv_event by (auto simp: outside_step_def p SourceEvent pg_inv_def)
  next
    case TimerFired
    have "kept s (timer_fired s)"
      using kept_flush [of "s\<lparr>ch_timer := Some (_, False)\<rparr>"]
      by (auto simp: timer_fired_def kept_refl split: option.split bool.split) (auto simp: kept_def)
    then show ?thesis using inv behind_kept [OF inv(2)] by (simp add: outside_step_def p TimerFired pg_inv_def)
  next
    case (Settled g result)
    let ?s = "s\<lparr>ch_inflight := remove1 g (ch_inflight s)\<rparr>"
    have "behind (\<le>) (ct, ?s)" using inv(2) by (auto simp: behind_def dest: notin_set_remove1 [THEN contrapos_pp])
    moreover have "kept ?s (completion_settled t g result s)"
      by (simp add: completion_settled_def Let_def kept_refl kept_error split: sum.split prod.split)
    ultimately have "behind (\<le>) (ct, completion_settled t g result s)" using behind_kept by blast
    then show ?thesis using inv by (simp add: outside_step_def p Settled pg_inv_def)
  next
    case (Rendered clk)
    then show ?thesis using inv by (simp add: outside_step_def p pg_inv_def render_def behind_def)
  qed
qed

lemma sendStreaming_inv:
  assumes "pg_inv (ct, s)"
  shows "pg_inv (sendStreamingChat t config enabled starts messages (ct, s))"
proof -
  define s' where "s' = (discardPendingStreamUpdates (ch_generation s + 1) (abort_active (s\<lparr>ch_generation := ch_generation s + 1\<rparr>)))
    \<lparr>ch_isRequesting := True, ch_sent := ch_sent (discardPendingStreamUpdates (ch_generation s + 1) (abort_active (s\<lparr>ch_generation := ch_generation s + 1\<rparr>)))
       @ [(trim (pg_clientKey config), buildChatCompletionPayload messages config enabled)]\<rparr>"
  let ?p = "send (chat_client t) (ch_generation s + 1) starts (ct, s')"
  have fields: "ch_generation s' = Suc (ch_generation s)" "ch_inflight s' = ch_inflight s" "ch_timer s' = None"
    by (simp_all add: s'_def discardPendingStreamUpdates_def kept_abort)
  have k: "kept s' (snd ?p)" by (rule chat_related.R_send)
  have tags: "src_tag ` set (ct_sources (fst ?p)) = insert (Suc (ch_generation s)) (src_tag ` set (ct_sources ct))"
    using arg_cong [OF send_tags [of "chat_client t" "ch_generation s + 1" starts ct s'], of set] by simp
  have "behind (\<le>) ?p"
    unfolding behind_def
  proof (intro conjI ballI allI impI)
    fix src assume "src \<in> set (ct_sources (fst ?p))"
    then have "src_tag src \<in> insert (Suc (ch_generation s)) (src_tag ` set (ct_sources ct))" using tags by blast
    then show "src_tag src \<le> ch_generation (snd ?p)"
      using assms k fields by (force simp: pg_inv_def behind_def kept_def)
  qed (use assms k fields in \<open>force simp: pg_inv_def behind_def kept_def\<close>)+
  moreover have "ct_inv (fst ?p)"
    using ct_inv_open_source [OF ct_inv_cancel(2), of ct "chat_client t"] assms by (simp add: send_def pg_inv_def)
  ultimately show ?thesis by (simp add: pg_inv_def sendStreamingChat_def Let_def s'_def)
qed

lemma pg_inv_send:
  assumes "pg_inv p"
  shows "pg_inv (sendChat t config enabled starts messages p)"
proof -
  obtain ct s where p: "p = (ct, s)" by (cases p)
  consider (nokey) "trim (pg_clientKey config) = []" | (stream) "trim (pg_clientKey config) \<noteq> []" "pg_stream config"
    | (plain) "trim (pg_clientKey config) \<noteq> []" "\<not> pg_stream config" by blast
  then show ?thesis
  proof cases
    case nokey
    then show ?thesis
      using assms by (auto simp: sendChat_def pg_inv_def behind_def onMessageUpdate_def le_SucI)
  next
    case stream
    then show ?thesis using sendStreaming_inv assms by (simp add: sendChat_def p)
  next
    case plain
    let ?p = "sendNonStreamingChat config enabled messages (ct, s)"
    have f: "fst ?p = stop ct" "ch_generation (snd ?p) = Suc (ch_generation s)"
      "set (ch_inflight (snd ?p)) = insert (Suc (ch_generation s)) (set (ch_inflight s))" "ch_timer (snd ?p) = None"
      by (simp_all add: sendNonStreamingChat_def Let_def discardPendingStreamUpdates_def kept_abort)
    have "behind (<) (stop ct, (snd ?p)\<lparr>ch_inflight := ch_inflight s\<rparr>)"
      using behind_next [of ct s "stop ct" "(snd ?p)\<lparr>ch_inflight := ch_inflight s\<rparr>"] assms f cancel_tags [of True ct]
      by (simp add: pg_inv_def p stop_def)
    then have "behind (\<le>) ?p" using f by (auto simp: behind_def)
    then show ?thesis
      using plain assms ct_inv_cancel(1) [of ct True] f(1) by (simp add: sendChat_def p pg_inv_def stop_def)
  qed
qed

text \<open>Stopping leaves everything behind.\<close>

lemma stop_behind:
  assumes "pg_inv p"
  shows "behind (<) (stopGeneration p)" "ct_inv (fst (stopGeneration p))" "ct_source (fst (stopGeneration p)) = None"
    "\<not> isGenerating (stopGeneration p)"
proof -
  obtain ct s where p: "p = (ct, s)" by (cases p)
  let ?p = "stopGeneration (ct, s)"
  have f: "fst ?p = stop ct" "ch_generation (snd ?p) = Suc (ch_generation s)" "ch_inflight (snd ?p) = ch_inflight s"
    "ch_timer (snd ?p) = None" "\<not> ch_isRequesting (snd ?p)"
    using kept_flush [of s "ch_generation s"]
    by (simp_all add: stopGeneration_def Let_def onMessageUpdate_def discardPendingStreamUpdates_def kept_abort kept_def)
  show "behind (<) (stopGeneration p)"
    using behind_next [of ct s "fst ?p" "snd ?p"] assms f cancel_tags [of True ct]
    by (simp add: p pg_inv_def stop_def) (metis prod.collapse)
  show "ct_inv (fst (stopGeneration p))" using assms f ct_inv_cancel(1) [of ct True] by (simp add: p pg_inv_def stop_def)
  show "ct_source (fst (stopGeneration p)) = None" "\<not> isGenerating (stopGeneration p)"
    using f by (simp_all add: p stop_def cancel_def isGenerating_def Let_def)
qed

lemma reachable_inv: "pg_reachable t p \<Longrightarrow> pg_inv p"
proof (induction rule: pg_reachable.induct)
  case (pg_start messages)
  show ?case by (simp add: pg_inv_def behind_def ct_inv_def initial_controller_def initial_chat_def)
next
  case (pg_next p p')
  from pg_next.hyps(2) show ?case
  proof (cases rule: pg_step.cases)
    case (pg_update u messages key)
    then show ?thesis using pg_next.IH by (auto simp: pg_inv_def behind_def onMessageUpdate_def)
  qed (use pg_next.IH behind_outside pg_inv_send stop_behind behind_less in \<open>auto simp: pg_inv_def\<close>)
qed

section \<open>Requests that are left behind\<close>

text \<open>They change nothing that is shown or will be.\<close>

definition frozen :: "chat \<Rightarrow> chat \<Rightarrow> bool" where
  "frozen s s' \<longleftrightarrow>
     ch_messages s' = ch_messages s \<and> ch_queue s' = ch_queue s \<and> ch_isRequesting s' = ch_isRequesting s
     \<and> ch_generation s' = ch_generation s \<and> ch_pending s' = ch_pending s"

lemma behind_event:
  assumes "behind (<) (ct, s)" "k < length (ct_sources ct)"
  shows "snd (handle_event (chat_client t) k ev (ct, s)) = s"
proof (rule chat_current.stale_event)
  have "\<forall>src \<in> set (ct_sources ct). src_tag src < ch_generation s" using assms(1) by (simp add: behind_def)
  from bspec [OF this nth_mem [OF assms(2)]] show "src_tag (ct_sources ct ! k) \<noteq> ch_generation s" by simp
qed

lemma behind_step:
  assumes "behind (<) p" "\<And>clk. e \<noteq> Rendered clk"
  shows "behind (<) (outside_step t p e)" "frozen (snd p) (snd (outside_step t p e))"
proof -
  obtain ct s where p: "p = (ct, s)" by (cases p)
  have "behind (<) (outside_step t p e) \<and> frozen (snd p) (snd (outside_step t p e))"
  proof (cases e)
    case (SourceEvent k ev)
    show ?thesis
    proof (cases "k < length (ct_sources ct)")
      case True
      let ?p = "handle_event (chat_client t) k ev (ct, s)"
      have "snd ?p = s" using behind_event assms(1) True by (simp add: p)
      moreover have "src_tag ` set (ct_sources (fst ?p)) = src_tag ` set (ct_sources ct)"
        by (metis event_tags set_map)
      ultimately have "behind (<) ?p" using assms(1) by (force simp: behind_def p)
      then show ?thesis using True \<open>snd ?p = s\<close> by (simp add: outside_step_def p SourceEvent frozen_def)
    qed (use assms(1) in \<open>simp add: outside_step_def p SourceEvent frozen_def\<close>)
  next
    case TimerFired
    have "g \<noteq> ch_generation s" if "ch_timer s = Some (g, b)" for g b using assms(1) that by (auto simp: behind_def p)
    then show ?thesis
      using assms(1)
      by (auto simp: outside_step_def p TimerFired timer_fired_def flushStreamUpdates_def frozen_def behind_def
          split: option.split bool.split)
  next
    case (Settled g result)
    show ?thesis
    proof (cases "g \<in> set (ch_inflight s)")
      case True
      then have "g \<noteq> ch_generation s" using assms(1) by (auto simp: behind_def p)
      then have "completion_settled t g result s = s\<lparr>ch_inflight := remove1 g (ch_inflight s)\<rparr>"
        by (auto simp: completion_settled_def Let_def)
      then show ?thesis
        using assms(1) True set_remove1_subset [of g "ch_inflight s"]
        by (auto simp: outside_step_def p Settled frozen_def behind_def)
    qed (use assms(1) in \<open>simp add: outside_step_def p Settled frozen_def\<close>)
  qed (use assms(2) in auto)
  then show "behind (<) (outside_step t p e)" "frozen (snd p) (snd (outside_step t p e))" by simp_all
qed

lemma behind_render: "behind (<) p \<Longrightarrow> behind (<) (outside_step t p (Rendered clk))"
  by (cases p) (simp add: outside_step_def behind_def render_def)

abbreviation run_outside :: "(jsstr \<Rightarrow> jsstr) \<Rightarrow> playground \<Rightarrow> outside list \<Rightarrow> playground" where
  "run_outside t p es \<equiv> foldl (outside_step t) p es"

text \<open>A run leaves the flag alone, and what is shown unless an update was queued.\<close>

definition left_alone :: "playground \<Rightarrow> playground \<Rightarrow> bool" where
  "left_alone p p' \<longleftrightarrow>
     ch_isRequesting (snd p') = ch_isRequesting (snd p) \<and> ch_generation (snd p') = ch_generation (snd p)
     \<and> (ch_queue (snd p) = [] \<longrightarrow> ch_queue (snd p') = [] \<and> ch_messages (snd p') = ch_messages (snd p))
     \<and> (ct_source (fst p) = None \<longrightarrow> fst p' = fst p)"

lemma idle_controller: "ct_source (fst p) = None \<Longrightarrow> fst (outside_step t p e) = fst p"
  by (auto simp: outside_step_def handle_event_def live_def isCurrent_def split: prod.split outside.split source_event.split)

lemma behind_left_alone:
  assumes "behind (<) p"
  shows "behind (<) (outside_step t p e) \<and> left_alone p (outside_step t p e)"
proof (cases "\<exists>clk. e = Rendered clk")
  case True
  then show ?thesis
    using assms behind_render by (auto simp: left_alone_def outside_step_def render_def split: prod.split)
next
  case False
  then show ?thesis
    using behind_step [OF assms] idle_controller [of p] by (auto simp: left_alone_def frozen_def)
qed

lemma run_left_alone: "behind (<) p \<Longrightarrow> left_alone p (run_outside t p es)"
proof (induction es arbitrary: p)
  case (Cons e es)
  have "left_alone (outside_step t p e) (run_outside t (outside_step t p e) es)"
    using Cons behind_left_alone by blast
  then show ?case using behind_left_alone [OF Cons.prems, of t e] by (auto simp: left_alone_def)
qed (simp add: left_alone_def)

lemma run_frozen:
  "behind (<) p \<Longrightarrow> \<forall>clk. Rendered clk \<notin> set es \<Longrightarrow> behind (<) (run_outside t p es) \<and> frozen (snd p) (snd (run_outside t p es))"
proof (induction es arbitrary: p)
  case (Cons e es)
  have ne: "\<And>clk. e \<noteq> Rendered clk" using Cons.prems(2) by auto
  have "behind (<) (run_outside t (outside_step t p e) es)
     \<and> frozen (snd (outside_step t p e)) (snd (run_outside t (outside_step t p e) es))"
    using Cons behind_step(1) [OF Cons.prems(1) ne] by auto
  then show ?case using behind_step(2) [OF Cons.prems(1) ne, of t] by (auto simp: frozen_def)
qed (simp add: frozen_def)

lemma updateLast_last:
  "ms \<noteq> [] \<Longrightarrow> last (updateLastAssistantMessage ms f) = (if m_from (last ms) = Assistant then f (last ms) else last ms)"
  by (auto simp: updateLastAssistantMessage_def last_list_update)

lemma updateLast_Nil [simp]: "updateLastAssistantMessage ms f = [] \<longleftrightarrow> ms = []"
  by (auto simp: updateLastAssistantMessage_def)

lemma complete_status: "m_status (completeAssistantMessage clk m) = Some Complete"
  by (simp add: completeAssistantMessage_def completeAssistantTiming_def Let_def)

lemma stopped_not_pending:
  assumes "render clk (snd (stopGeneration p)) = s" "ch_messages s \<noteq> []"
  shows "\<not> isPendingAssistantMessage (Some (last (ch_messages s)))"
proof -
  obtain ct c where p: "p = (ct, c)" by (cases p)
  obtain before where m: "ch_messages s = run_update clk (Suc (ch_generation c)) (StopMessage (Suc (ch_generation c))) before"
    using assms(1) by (auto simp: p render_def stopGeneration_def onMessageUpdate_def Let_def discardPendingStreamUpdates_def kept_abort)
  then show ?thesis
    using assms(2) complete_status [of clk "last before"]
    by (auto simp: run_update_def updateLast_last isPendingAssistantMessage_def isAssistantMessagePending_def)
qed

text \<open>
  The text that was pending when the user stopped makes no difference: the flush is queued, and is behind
  when it runs.
\<close>

lemma stop_ignores_pending:
  "ch_messages (render clk (snd (stopGeneration (ct, s\<lparr>ch_pending := p\<rparr>)))) = ch_messages (render clk (snd (stopGeneration (ct, s))))"
proof -
  have flush: "\<exists>fs. ch_queue (flushStreamUpdates (ch_generation s) (s\<lparr>ch_pending := x\<rparr>)) = ch_queue s @ fs
      \<and> (\<forall>u \<in> set fs. \<exists>a b. u = Flush (ch_generation s) a b)"
    "ch_messages (flushStreamUpdates (ch_generation s) (s\<lparr>ch_pending := x\<rparr>)) = ch_messages s" for x
    by (auto simp: flushStreamUpdates_def onMessageUpdate_def Let_def)
  have behind: "foldl (\<lambda>prev u. run_update clk (Suc (ch_generation s)) u prev) ms fs = ms"
    if "\<forall>u \<in> set fs. \<exists>a b. u = Flush (ch_generation s) a b" for ms fs
    using that by (induction fs arbitrary: ms) (auto simp: run_update_def)
  have shown: "ch_messages (render clk (snd (stopGeneration (ct, s\<lparr>ch_pending := x\<rparr>)))) =
     run_update clk (Suc (ch_generation s)) (StopMessage (Suc (ch_generation s)))
       (foldl (\<lambda>prev u. run_update clk (Suc (ch_generation s)) u prev) (ch_messages s) (ch_queue s))" for x
    using flush(1) [of x] behind
    by (auto simp: stopGeneration_def render_def onMessageUpdate_def discardPendingStreamUpdates_def kept_abort Let_def flush(2))
  show ?thesis using shown [of p] shown [of "ch_pending s"] by simp
qed

text \<open>
  An error whose message is no string makes the handler throw: the source stays active and announced, and
  ignores every event but \<open>open\<close> from then on.
\<close>

lemma error_without_text_leaks:
  assumes "isCurrent k ct" "\<not> src_completed (ct_sources ct ! k)" "k < length (ct_sources ct)"
    "src_tag (ct_sources ct ! k) = ch_generation s" "\<not> isStreamClosedReadyState rs"
    "\<not> is_string (ed_errorMessage (parseStreamErrorDetails data))"
  shows "ct_source (fst (handle_event (chat_client t) k (Failure rs data) (ct, s))) = Some k"
    "\<not> live k (fst (handle_event (chat_client t) k (Failure rs data) (ct, s)))"
  using assms
  by (auto simp: handle_event_def handleError_def live_def isCurrent_def chat_client_def handleStreamError_def getDisplayError_def
      is_string_def update_source_nth Let_def split: jsval.splits prod.splits)

section \<open>The text of a stream\<close>

text \<open>
  Chunks, firings of the timer and renders.  A stream is unambiguous when no chunk begins with the
  chunks before it that may still be pending, and no run of chunks begins with the whole text before it.
\<close>

datatype stream_input = Chunk jsstr | Tick | Draw "nat \<Rightarrow> jsnum"

definition feed_step :: "nat \<Rightarrow> chat \<Rightarrow> stream_input \<Rightarrow> chat" where
  "feed_step g s f =
     (case f of
        Chunk c \<Rightarrow> fst (handleStreamUpdate g ContentChunk (JStr c) s)
      | Tick \<Rightarrow> timer_fired s
      | Draw clk \<Rightarrow> render clk s)"

definition chunks :: "stream_input list \<Rightarrow> jsstr list" where
  "chunks fs = concat (map (\<lambda>f. case f of Chunk c \<Rightarrow> [c] | _ \<Rightarrow> []) fs)"

definition part :: "jsstr list \<Rightarrow> nat \<Rightarrow> nat \<Rightarrow> jsstr" where
  "part cs i j = concat (drop i (take j cs))"

definition unambiguous :: "jsstr list \<Rightarrow> bool" where
  "unambiguous cs \<longleftrightarrow>
     [] \<notin> set cs
     \<and> (\<forall>j < length cs. \<forall>i < j. \<not> starts_with (part cs i j) (cs ! j))
     \<and> (\<forall>j \<le> length cs. \<forall>i < j. 0 < i \<longrightarrow> \<not> starts_with (part cs 0 i) (part cs i j))"

lemma part_Cons: "i < j \<Longrightarrow> j \<le> length cs \<Longrightarrow> part cs i j = cs ! i @ part cs (Suc i) j"
  using Cons_nth_drop_Suc [of i "take j cs"] by (simp add: part_def) (metis concat.simps(2))

lemma part_empty: "[] \<notin> set cs \<Longrightarrow> j \<le> length cs \<Longrightarrow> part cs i j = [] \<longleftrightarrow> j \<le> i"
proof (cases "i < j")
  case True
  assume a: "[] \<notin> set cs" "j \<le> length cs"
  have "cs ! i \<noteq> []" using a True nth_mem [of i cs] by fastforce
  then show ?thesis using True part_Cons [OF True a(2)] by simp
qed (simp add: part_def)

lemma part_self [simp]: "part cs n n = []"
  by (simp add: part_def)

lemma part_snoc: "i \<le> j \<Longrightarrow> j < length cs \<Longrightarrow> part cs i (Suc j) = part cs i j @ cs ! j"
  by (simp add: part_def take_Suc_conv_app_nth)

lemma part_append:
  assumes "i \<le> j" "j \<le> k"
  shows "part cs i k = part cs i j @ part cs j k"
proof -
  have "drop i (take k cs) = drop i (take j (take k cs) @ drop j (take k cs))" by (simp only: append_take_drop_id)
  also have "\<dots> = drop i (take j cs) @ drop j (take k cs)"
    using assms by (cases "j \<le> length (take k cs)") (simp_all add: min_absorb1)
  finally show ?thesis by (simp add: part_def)
qed

text \<open>The queue holds the runs of chunks from \<open>a\<close> to \<open>b\<close>.\<close>

fun runs :: "jsstr list \<Rightarrow> nat \<Rightarrow> nat \<Rightarrow> message_update list \<Rightarrow> nat \<Rightarrow> bool" where
  "runs cs g a [] b \<longleftrightarrow> a = b"
| "runs cs g a (u # q) b \<longleftrightarrow> (\<exists>c > a. c \<le> b \<and> u = Flush g [] (part cs a c) \<and> runs cs g c q b)"

lemma runs_snoc:
  "runs cs g a q b \<Longrightarrow> b < c \<Longrightarrow> runs cs g a (q @ [Flush g [] (part cs b c)]) c"
proof (induction q arbitrary: a)
  case (Cons u q)
  then obtain d where d: "a < d" "d \<le> b" "u = Flush g [] (part cs a d)" "runs cs g d q b" by auto
  then show ?case using Cons.IH [OF d(4) Cons.prems(2)] Cons.prems(2) by (auto intro!: exI [of _ d])
qed auto

text \<open>The last message is one that text may be added to, and has this text.\<close>

definition has_text :: "message list \<Rightarrow> jsstr \<Rightarrow> bool" where
  "has_text ms s \<longleftrightarrow>
     ms \<noteq> [] \<and> m_from (last ms) = Assistant \<and> m_status (last ms) \<noteq> Some Error \<and> getMessageContent (last ms) = s"

lemma content_chunk:
  assumes "m_status m \<noteq> Some Error"
  shows "getMessageContent (applyStreamingChunk clk m ContentChunk c) = getMessageContent m @ getAppendableChunk (getMessageContent m) c"
    "m_status (applyStreamingChunk clk m ContentChunk c) = Some Streaming"
    "m_from (applyStreamingChunk clk m ContentChunk c) = m_from m"
  using assms
  by (simp_all add: applyStreamingChunk_def processStreamingContent_def completeReasoningTiming_def updateCurrentVersionContent_def
      getMessageContent_def getCurrentVersion_def Let_def split: option.split)

lemma flush_text:
  assumes "has_text ms s" "c \<noteq> []" "s = [] \<or> \<not> starts_with s c"
  shows "has_text (run_update clk g (Flush g [] c) ms) (s @ c)"
  using assms content_chunk [of "last ms"]
  by (auto simp: has_text_def run_update_def flush_message_def updateLast_last getAppendableChunk_def Let_def)

lemma render_text:
  assumes "unambiguous cs" "runs cs g a q b" "b \<le> length cs" "has_text ms (part cs 0 a)"
  shows "has_text (foldl (\<lambda>prev u. run_update clk g u prev) ms q) (part cs 0 b)"
  using assms(2,4)
proof (induction q arbitrary: a ms)
  case (Cons u q)
  then obtain c where c: "a < c" "c \<le> b" "u = Flush g [] (part cs a c)" "runs cs g c q b" by auto
  have "part cs a c \<noteq> []" using assms(1,3) c(1,2) part_empty [of cs c a] by (simp add: unambiguous_def)
  moreover have "part cs 0 a = [] \<or> \<not> starts_with (part cs 0 a) (part cs a c)"
    using assms(1,3) c(1,2) by (cases "a = 0") (auto simp: unambiguous_def part_def)
  ultimately have "has_text (run_update clk g u ms) (part cs 0 c)"
    using flush_text [OF Cons.prems(2)] c(1) part_append [of 0 a c cs] by (simp add: c(3))
  then show ?case using Cons.IH [OF c(4)] by simp
qed simp

text \<open>After \<open>n\<close> chunks: shown up to \<open>a\<close>, queued up to \<open>b\<close>, and pending up to \<open>n\<close>.\<close>

definition feeding :: "jsstr list \<Rightarrow> nat \<Rightarrow> nat \<Rightarrow> chat \<Rightarrow> bool" where
  "feeding cs g n s \<longleftrightarrow>
     (\<exists>a b. runs cs g a (ch_queue s) b \<and> b \<le> n \<and> has_text (ch_messages s) (part cs 0 a)
       \<and> ch_pending s = \<lparr>pc_generation = g, pc_content = part cs b n, pc_reasoning = []\<rparr>
       \<and> (b < n \<longrightarrow> ch_timer s = Some (g, True)))
     \<and> ch_generation s = g \<and> ch_timer s \<in> {None, Some (g, True)}"

lemma feedingI:
  assumes "runs cs g a (ch_queue s) b" "b \<le> n" "has_text (ch_messages s) (part cs 0 a)"
    "ch_pending s = \<lparr>pc_generation = g, pc_content = part cs b n, pc_reasoning = []\<rparr>"
    "b < n \<Longrightarrow> ch_timer s = Some (g, True)" "ch_generation s = g" "ch_timer s \<in> {None, Some (g, True)}"
  shows "feeding cs g n s"
  using assms unfolding feeding_def by blast

lemma feeding_chunk:
  assumes "unambiguous cs" "feeding cs g n s" "n < length cs"
  shows "feeding cs g (Suc n) (fst (handleStreamUpdate g ContentChunk (JStr (cs ! n)) s))"
proof -
  obtain a b where s: "runs cs g a (ch_queue s) b" "b \<le> n" "has_text (ch_messages s) (part cs 0 a)"
    "ch_pending s = \<lparr>pc_generation = g, pc_content = part cs b n, pc_reasoning = []\<rparr>" "ch_generation s = g"
    "ch_timer s \<in> {None, Some (g, True)}"
    using assms(2) by (auto simp: feeding_def)
  have "mergePendingStreamChunk (part cs b n) (JStr (cs ! n)) = Inr (part cs b (Suc n))"
  proof (cases "b = n")
    case True
    then show ?thesis using part_snoc [of b n cs] assms(3)
      by (simp add: mergePendingStreamChunk_def js_string.simps part_def)
  next
    case False
    then show ?thesis
      using assms(1,3) s(2) part_snoc [of b n cs] part_empty [of cs n b]
      by (auto simp: mergePendingStreamChunk_def unambiguous_def)
  qed
  then show ?thesis
    using s by (intro feedingI [of cs g a _ b]) (auto simp: handleStreamUpdate_def scheduleStreamFlush_def)
qed

lemma feeding_flush:
  assumes "unambiguous cs" "feeding cs g n s" "n \<le> length cs"
  shows "feeding cs g n (flushStreamUpdates g s) \<and> pc_content (ch_pending (flushStreamUpdates g s)) = []"
proof -
  obtain a b where s: "runs cs g a (ch_queue s) b" "b \<le> n" "has_text (ch_messages s) (part cs 0 a)"
    "ch_pending s = \<lparr>pc_generation = g, pc_content = part cs b n, pc_reasoning = []\<rparr>" "ch_generation s = g"
    using assms(2) by (auto simp: feeding_def)
  show ?thesis
  proof (cases "b = n")
    case True
    then show ?thesis
      using s by (auto simp: flushStreamUpdates_def Let_def intro!: feedingI [of cs "ch_generation s" a _ n])
  next
    case False
    then have "part cs b n \<noteq> []" "b < n" using assms(1,3) s(2) part_empty [of cs n b] by (auto simp: unambiguous_def)
    then show ?thesis
      using s runs_snoc [OF s(1), of n]
      by (auto simp: flushStreamUpdates_def onMessageUpdate_def no_chunks_def Let_def
          intro!: feedingI [of cs "ch_generation s" a _ n])
  qed
qed

lemma feeding_render:
  assumes "unambiguous cs" "feeding cs g n s" "n \<le> length cs"
  shows "feeding cs g n (render clk s)"
    "pc_content (ch_pending s) = [] \<Longrightarrow> has_text (ch_messages (render clk s)) (part cs 0 n)"
proof -
  obtain a b where s: "runs cs g a (ch_queue s) b" "b \<le> n" "has_text (ch_messages s) (part cs 0 a)"
    "ch_pending s = \<lparr>pc_generation = g, pc_content = part cs b n, pc_reasoning = []\<rparr>" "ch_generation s = g"
    "b < n \<longrightarrow> ch_timer s = Some (g, True)" "ch_timer s \<in> {None, Some (g, True)}"
    using assms(2) by (auto simp: feeding_def)
  have shown: "has_text (ch_messages (render clk s)) (part cs 0 b)"
    using render_text [OF assms(1) s(1) _ s(3)] s(2,5) assms(3) by (simp add: render_def)
  then show "feeding cs g n (render clk s)"
    using s by (intro feedingI [of cs g b _ b]) (auto simp: render_def)
  assume "pc_content (ch_pending s) = []"
  then have "b = n" using assms(1,3) s(2,4) part_empty [of cs n b] by (simp add: unambiguous_def)
  then show "has_text (ch_messages (render clk s)) (part cs 0 n)" using shown by simp
qed

lemma feeding_tick:
  assumes "unambiguous cs" "feeding cs g n s" "n \<le> length cs"
  shows "feeding cs g n (timer_fired s)"
proof (cases "ch_timer s")
  case (Some x)
  then have "x = (g, True)" "ch_generation s = g" using assms(2) by (auto simp: feeding_def)
  then have "timer_fired s = flushStreamUpdates g s"
    using Some by (simp add: timer_fired_def flushStreamUpdates_def Let_def)
  then show ?thesis using feeding_flush [OF assms] by simp
qed (use assms in \<open>simp add: timer_fired_def\<close>)

lemma feeding_run:
  assumes "unambiguous cs"
  shows "feeding cs g n s \<Longrightarrow> drop n cs = chunks fs \<Longrightarrow> n \<le> length cs \<Longrightarrow> feeding cs g (length cs) (foldl (feed_step g) s fs)"
proof (induction fs arbitrary: n s)
  case (Cons f fs)
  show ?case
  proof (cases f)
    case (Chunk c)
    have "drop n cs = c # chunks fs" using Cons.prems(2) by (simp add: chunks_def Chunk)
    then have n: "n < length cs" "cs ! n = c" "drop (Suc n) cs = chunks fs"
      by (auto simp: nth_via_drop drop_Suc tl_drop [symmetric]) (metis drop_all list.distinct(1) not_le)
    then show ?thesis
      using Cons.IH [of "Suc n"] feeding_chunk [OF assms Cons.prems(1) n(1)] by (simp add: feed_step_def Chunk)
  next
    case Tick
    then show ?thesis
      using Cons.IH [of n] Cons.prems feeding_tick [OF assms Cons.prems(1)] by (simp add: feed_step_def chunks_def)
  next
    case (Draw clk)
    then show ?thesis
      using Cons.IH [of n] Cons.prems feeding_render(1) [OF assms Cons.prems(1)] by (simp add: feed_step_def chunks_def)
  qed
qed (simp add: chunks_def)

section \<open>A conversation\<close>

definition chat_config :: playground_config where
  "chat_config =
     \<lparr>pg_model = js ''m'', pg_clientKey = js ''k'', pg_temperature = Fin 1, pg_top_p = Fin 1, pg_max_tokens = Fin 1,
      pg_frequency_penalty = Fin 0, pg_presence_penalty = Fin 0, pg_seed = None, pg_stream = True\<rparr>"

definition sample_enabled :: parameter_enabled where
  "sample_enabled =
     \<lparr>en_temperature = True, en_top_p = False, en_max_tokens = False, en_frequency_penalty = False,
      en_presence_penalty = False, en_seed = True\<rparr>"

definition sample_messages :: "message list" where
  "sample_messages = [createUserMessage (js ''u'') (js ''v'') (js ''hi'') (Fin 1), createLoadingAssistantMessage (js ''a'') (js ''w'') (Fin 1)]"

definition started :: playground where
  "started = sendChat id chat_config sample_enabled True sample_messages (initial_controller, initial_chat sample_messages)"

lemma started_reachable: "pg_reachable id started"
  unfolding started_def by (rule pg_next [OF pg_start pg_send])

lemma started_values:
  "isGenerating started" "ch_isRequesting (snd started)" "ch_messages (snd started) = sample_messages" "ch_queue (snd started) = []"
  "ch_pending (snd started) = no_chunks (ch_generation (snd started))" "ch_timer (snd started) = None"
  "ch_generation (snd started) = 1" "has_text sample_messages []"
  by code_simp+

section \<open>Properties\<close>

text \<open>
  C11. Stopping is final: whatever sources, timers and requests of the past still do, nothing is generating
  any more, the first render shows the messages as they were stopped, no later one changes them, and the
  last one is not pending.
\<close>

theorem stop_is_final:
  assumes "pg_reachable t p" "\<forall>clk. Rendered clk \<notin> set es"
  shows "let q = run_outside t (stopGeneration p) (es @ Rendered clk # es');
             shown = ch_messages (render clk (snd (stopGeneration p))) in
         \<not> isGenerating q \<and> ch_messages (snd q) = shown
         \<and> (shown \<noteq> [] \<longrightarrow> \<not> isPendingAssistantMessage (Some (last shown)))"
proof -
  let ?p = "stopGeneration p" and ?shown = "ch_messages (render clk (snd (stopGeneration p)))"
  note stopped = stop_behind [OF reachable_inv [OF assms(1)]]
  let ?a = "run_outside t ?p es"
  have a: "behind (<) ?a" "frozen (snd ?p) (snd ?a)" using run_frozen [OF stopped(1) assms(2)] by simp_all
  have ra: "snd (outside_step t ?a (Rendered clk)) = render clk (snd ?a)" by (cases ?a) (simp add: outside_step_def)
  let ?b = "outside_step t ?a (Rendered clk)"
  have b: "behind (<) ?b" "ch_queue (snd ?b) = []" "ch_messages (snd ?b) = ?shown"
    using behind_render [OF a(1)] a(2) by (auto simp: ra render_def frozen_def)
  have "left_alone ?p (run_outside t ?p (es @ Rendered clk # es'))" by (rule run_left_alone [OF stopped(1)])
  then have "\<not> isGenerating (run_outside t ?p (es @ Rendered clk # es'))"
    using stopped(3,4) by (simp add: left_alone_def isGenerating_def)
  moreover have "ch_messages (snd (run_outside t ?b es')) = ?shown"
    using run_left_alone [OF b(1), of t es'] b(2,3) by (simp add: left_alone_def)
  ultimately show ?thesis using stopped_not_pending [OF refl] by (simp add: Let_def)
qed

theorem stop_is_final_witness:
  "isGenerating started \<and> \<not> isGenerating (run_outside id (stopGeneration started)
     ([SourceEvent 0 (Message (Some (js ''[DONE]'')))] @ Rendered (\<lambda>_. Fin 2) # [TimerFired]))"
  using stop_is_final [OF started_reachable, of "[SourceEvent 0 (Message (Some (js ''[DONE]'')))]" "\<lambda>_. Fin 2" "[TimerFired]"]
    started_values(1)
  by (simp add: Let_def del: foldl_append foldl.simps)

text \<open>
  C40. A message that is sent without a client key while a request is running takes the running request's
  place and does not end it: however that request goes on, the playground counts as generating until the
  next send or stop.
\<close>

theorem missing_key_keeps_generating:
  assumes "pg_reachable t p" "ch_isRequesting (snd p)" "trim (pg_clientKey config) = []"
  shows "isGenerating (run_outside t (sendChat t config enabled starts messages p) es)"
proof -
  let ?p = "sendChat t config enabled starts messages p"
  have "behind (<) ?p"
    using reachable_inv [OF assms(1)] behind_next [of "fst p" "snd p" "fst ?p" "snd ?p"] assms(3)
    by (simp add: sendChat_def pg_inv_def onMessageUpdate_def)
  then show ?thesis
    using run_left_alone [of ?p t es] assms(2,3) by (simp add: left_alone_def isGenerating_def sendChat_def onMessageUpdate_def)
qed

theorem missing_key_keeps_generating_witness:
  "isGenerating (run_outside id (sendChat id (chat_config\<lparr>pg_clientKey := []\<rparr>) sample_enabled True [] started)
     [SourceEvent 0 (Message (Some (js ''[DONE]''))), Rendered (\<lambda>_. Fin 2)])"
  by (rule missing_key_keeps_generating [OF started_reachable started_values(2)]) code_simp

text \<open>
  C12. The text of a stream is shown whole: for an unambiguous stream, in whatever way the chunks interleave
  with flushes and renders, each render shows the text of the first so many chunks, and the flush at the
  end the text of all of them.
\<close>

theorem streamed_text_whole:
  assumes "unambiguous (chunks fs)" "has_text (ch_messages s) []" "ch_queue s = []" "ch_timer s = None"
    "ch_pending s = no_chunks (ch_generation s)"
  shows "let s' = foldl (feed_step (ch_generation s)) s fs in
     (\<exists>n. has_text (ch_messages s') (concat (take n (chunks fs))))
     \<and> has_text (ch_messages (render clk (flushStreamUpdates (ch_generation s) s'))) (concat (chunks fs))"
proof -
  let ?cs = "chunks fs" and ?g = "ch_generation s"
  let ?s = "foldl (feed_step ?g) s fs"
  have "feeding ?cs ?g 0 s"
    using assms by (intro feedingI [of ?cs ?g 0 _ 0]) (simp_all add: no_chunks_def)
  then have f: "feeding ?cs ?g (length ?cs) ?s" using feeding_run [OF assms(1), of ?g 0 s fs] by simp
  then have "\<exists>n. has_text (ch_messages ?s) (concat (take n ?cs))" by (auto simp: feeding_def part_def)
  moreover have "has_text (ch_messages (render clk (flushStreamUpdates ?g ?s))) (part ?cs 0 (length ?cs))"
    using feeding_flush [OF assms(1) f] feeding_render(2) [OF assms(1)] by blast
  ultimately show ?thesis by (simp add: part_def Let_def)
qed

theorem streamed_text_whole_witness:
  "has_text (ch_messages (render (\<lambda>_. Fin 3) (flushStreamUpdates 1
     (foldl (feed_step 1) (snd started) [Chunk (js ''he''), Tick, Draw (\<lambda>_. Fin 2), Chunk (js ''l''), Chunk (js ''o'')])))) (js ''helo'')"
proof -
  let ?fs = "[Chunk (js ''he''), Tick, Draw (\<lambda>_. Fin 2), Chunk (js ''l''), Chunk (js ''o'')]"
  have "unambiguous (chunks ?fs)"
    by (auto simp: unambiguous_def part_def chunks_def js_def starts_with_def less_Suc_eq le_Suc_eq)
  from streamed_text_whole [OF this, of "snd started" "\<lambda>_. Fin 3"] show ?thesis
    by (simp add: started_values Let_def chunks_def js_def)
qed

end
