(* ===== verification/ServerErrors.thy ===== *)
theory ServerErrors
  imports JsJson
begin

text \<open>
  \<open>lib/server-error-message.ts\<close>: what an error says.  Errors wrap each other and may do so in circles, so that
  objects are cells of a heap and values refer to them.  A heap is the list of its cells.  An object has the
  properties that reading finds, whether it is an instance of \<open>Error\<close>, the truth of the symbol \<open>safeServerErrorMessage\<close>, and whether
  one of the two libraries takes it for a cancellation.
\<close>

section \<open>Values and objects\<close>

datatype cell_value = Undefined | Null | Boolean bool | Number jsnum | Text jsstr | Ref nat

record object_cell =
  ob_props :: "(jsstr \<times> cell_value) list"
  ob_isError :: bool
  ob_safe :: bool
  ob_cancel :: bool

type_synonym heap = "object_cell list"

definition isErrorRecord :: "heap \<Rightarrow> cell_value \<Rightarrow> bool" where
  "isErrorRecord h v = (case v of Ref a \<Rightarrow> a < length h | _ \<Rightarrow> False)"

definition get_field :: "heap \<Rightarrow> nat \<Rightarrow> string \<Rightarrow> cell_value" where
  "get_field h a k = (case map_of (ob_props (h ! a)) (js k) of Some v \<Rightarrow> v | None \<Rightarrow> Undefined)"

text \<open>A property of a value that \<open>isErrorRecord\<close> has accepted.\<close>

definition sub :: "heap \<Rightarrow> cell_value \<Rightarrow> string \<Rightarrow> cell_value" where
  "sub h v k = (case v of Ref a \<Rightarrow> get_field h a k | _ \<Rightarrow> Undefined)"

definition value_true :: "cell_value \<Rightarrow> bool" where
  "value_true v =
     (case v of
        Undefined \<Rightarrow> False | Null \<Rightarrow> False | Boolean b \<Rightarrow> b | Number x \<Rightarrow> x \<noteq> NaN \<and> \<not> num_zero x
      | Text s \<Rightarrow> s \<noteq> [] | Ref _ \<Rightarrow> True)"

section \<open>Sources\<close>

text \<open>What a source adds to the end of the queue.\<close>

definition origins :: "heap \<Rightarrow> nat \<Rightarrow> cell_value list" where
  "origins h a =
     (if isErrorRecord h (get_field h a ''response'') then [sub h (get_field h a ''response'') ''data''] else [])
     @ [get_field h a ''cause'', get_field h a ''error'']"

text \<open>A value of the queue that is a record and was not seen.\<close>

definition new_source :: "heap \<Rightarrow> nat list \<Rightarrow> cell_value \<Rightarrow> nat option" where
  "new_source h seen v = (case v of Ref a \<Rightarrow> if isErrorRecord h v \<and> a \<notin> set seen then Some a else None | _ \<Rightarrow> None)"

lemma new_source_Some: "new_source h seen v = Some a \<longleftrightarrow> v = Ref a \<and> a < length h \<and> a \<notin> set seen"
  by (auto simp: new_source_def isErrorRecord_def split: cell_value.split)

function sources_loop :: "heap \<Rightarrow> cell_value list \<Rightarrow> nat list \<Rightarrow> nat list" where
  "sources_loop h [] seen = []"
| "sources_loop h (v # pending) seen =
     (case new_source h seen v of
        Some a \<Rightarrow> a # sources_loop h (pending @ origins h a) (a # seen)
      | None \<Rightarrow> sources_loop h pending seen)"
  by pat_completeness auto
termination
proof (relation "measures [\<lambda>(h, pending, seen). card ({..<length h} - set seen), \<lambda>(h, pending, seen). length pending]", goal_cases)
  case (3 h v pending seen a)
  have "{..<length h} - set (a # seen) \<subset> {..<length h} - set seen" using 3 by (auto simp: new_source_Some)
  then have "card ({..<length h} - set (a # seen)) < card ({..<length h} - set seen)" by (intro psubset_card_mono) auto
  then show ?case by simp
qed simp_all

declare sources_loop.simps [simp del]

definition getServerErrorSources :: "heap \<Rightarrow> cell_value \<Rightarrow> nat list" where
  "getServerErrorSources h v = sources_loop h [v] []"

section \<open>Codes, status and cancellation\<close>

definition serverErrorMessageKeys :: "(jsstr \<times> jsstr) list" where
  "serverErrorMessageKeys =
     [(js ''AUTH_INTERNAL_ERROR'', js ''Please try again later.''),
      (js ''AUTH_SESSION_LIMIT'',
       js ''Too many active login sessions. On a device where you are already signed in, open Login sessions and use ''
       @ [0x201C] @ js ''Sign out other sessions'' @ [0x201D]
       @ js '' to revoke them. If you cannot access a signed-in device, reset your password to sign out all sessions.''),
      (js ''AUTH_SESSION_ISSUANCE_LIMIT'',
       js ''Too many login sessions were created recently. Please wait for the rolling window to pass, then try again.'')]"

text \<open>
  What is translated: a text, or what every object inherits under a name; the table is read with any code,
  so that a code such as \<open>constructor\<close> gives the latter.
\<close>

datatype message_key = Literally jsstr | Inherited jsstr

definition code_key :: "heap \<Rightarrow> nat \<Rightarrow> message_key option" where
  "code_key h a =
     (case get_field h a ''code'' of
        Text c \<Rightarrow>
          (case map_of serverErrorMessageKeys c of
             Some m \<Rightarrow> Some (Literally m)
           | None \<Rightarrow> if c \<in> set inherited_properties then Some (Inherited c) else None)
      | _ \<Rightarrow> None)"

fun first_key :: "heap \<Rightarrow> nat list \<Rightarrow> message_key option" where
  "first_key h [] = None"
| "first_key h (a # rest) =
     (case code_key h a of Some key \<Rightarrow> Some key | None \<Rightarrow> if ob_safe (h ! a) then None else first_key h rest)"

definition getServerErrorMessageKey :: "heap \<Rightarrow> cell_value \<Rightarrow> message_key option" where
  "getServerErrorMessageKey h v = first_key h (getServerErrorSources h v)"

text \<open>The first value that a function finds in a list.\<close>

fun first_some :: "('a \<Rightarrow> 'b option) \<Rightarrow> 'a list \<Rightarrow> 'b option" where
  "first_some f [] = None"
| "first_some f (x # xs) = (case f x of Some y \<Rightarrow> Some y | None \<Rightarrow> first_some f xs)"

definition source_status :: "heap \<Rightarrow> nat \<Rightarrow> jsnum option" where
  "source_status h a =
     (case (if isErrorRecord h (get_field h a ''response'') then sub h (get_field h a ''response'') ''status'' else get_field h a ''status'') of
        Number n \<Rightarrow> Some n | _ \<Rightarrow> None)"

definition getServerErrorStatus :: "heap \<Rightarrow> cell_value \<Rightarrow> jsnum option" where
  "getServerErrorStatus h v = first_some (source_status h) (getServerErrorSources h v)"

definition isServerErrorCancelled :: "heap \<Rightarrow> cell_value \<Rightarrow> bool" where
  "isServerErrorCancelled h v =
     list_ex (\<lambda>a. ob_cancel (h ! a) \<or> get_field h a ''name'' = Text (js ''AbortError'')) (getServerErrorSources h v)"

section \<open>Messages\<close>

definition ascii_lower :: "nat \<Rightarrow> nat" where
  "ascii_lower c = (if 65 \<le> c \<and> c \<le> 90 then c + 32 else c)"

text \<open>\<open>/^\s*(?:<!doctype|<html[\s>])/i\<close>\<close>

definition html_document :: "jsstr \<Rightarrow> bool" where
  "html_document s =
     (let rest = map ascii_lower (dropWhile is_ws s) in
      starts_with (js ''<!doctype'') rest
      \<or> starts_with (js ''<html'') rest \<and> (case drop 5 rest of c # _ \<Rightarrow> is_ws c \<or> c = ch (CHR ''>'') | [] \<Rightarrow> False))"

definition messageText :: "cell_value \<Rightarrow> jsstr option" where
  "messageText v =
     (case v of
        Text s \<Rightarrow> if trim s = [] \<or> trim s = js ''success'' then None else if html_document s then None else Some s
      | _ \<Rightarrow> None)"

definition isRawPayloadSource :: "heap \<Rightarrow> nat \<Rightarrow> bool" where
  "isRawPayloadSource h a \<longleftrightarrow>
     \<not> (ob_isError (h ! a) \<or> value_true (get_field h a ''isAxiosError'') \<or> isErrorRecord h (get_field h a ''response''))"

definition payload_message :: "heap \<Rightarrow> nat \<Rightarrow> jsstr option" where
  "payload_message h a =
     (if \<not> isRawPayloadSource h a then None
      else
        (let detail = (if isErrorRecord h (get_field h a ''error'') then messageText (sub h (get_field h a ''error'') ''message'')
                       else messageText (get_field h a ''error'')) in
         case messageText (get_field h a ''message'') of
           Some m \<Rightarrow> Some m
         | None \<Rightarrow> (case detail of Some m \<Rightarrow> Some m | None \<Rightarrow> messageText (get_field h a ''title''))))"

abbreviation something_wrong :: jsstr where
  "something_wrong \<equiv> js ''Something went wrong!''"

text \<open>What an error that hides its details says.\<close>

definition safe_message :: "(message_key \<Rightarrow> jsstr) \<Rightarrow> heap \<Rightarrow> nat \<Rightarrow> jsstr option \<Rightarrow> jsstr" where
  "safe_message t h a fallback =
     t (case getServerErrorMessageKey h (Ref a) of
          Some key \<Rightarrow> key
        | None \<Rightarrow>
            (case messageText (get_field h a ''message'') of
               Some m \<Rightarrow> Literally m
             | None \<Rightarrow> Literally (if or_else fallback [] \<noteq> [] then or_else fallback [] else something_wrong)))"

text \<open>What any other error says, from its sources in order.\<close>

definition plain_message :: "(message_key \<Rightarrow> jsstr) \<Rightarrow> heap \<Rightarrow> nat list \<Rightarrow> cell_value \<Rightarrow> jsstr option \<Rightarrow> jsstr" where
  "plain_message t h sources v fallback =
     (case first_key h sources of
        Some key \<Rightarrow> t key
      | None \<Rightarrow>
          (case first_some (payload_message h) sources of
             Some m \<Rightarrow> m
           | None \<Rightarrow>
               (let status = first_some (source_status h) sources in
                if status = Some (Fin 304) then t (Literally (js ''Content not modified!''))
                else if status = Some (Fin 204) then t (Literally (js ''Content not found.''))
                else (case first_some (\<lambda>a. messageText (get_field h a ''message'')) sources of
                    Some m \<Rightarrow> m
                  | None \<Rightarrow> (case messageText v of Some m \<Rightarrow> m | None \<Rightarrow> or_else fallback (t (Literally something_wrong)))))))"

definition getServerErrorMessage :: "(message_key \<Rightarrow> jsstr) \<Rightarrow> heap \<Rightarrow> cell_value \<Rightarrow> jsstr option \<Rightarrow> jsstr" where
  "getServerErrorMessage t h v fallback =
     (let sources = getServerErrorSources h v in
      case find (\<lambda>a. ob_safe (h ! a)) sources of
        Some a \<Rightarrow> safe_message t h a fallback
      | None \<Rightarrow> plain_message t h sources v fallback)"

section \<open>Details\<close>

record server_error_details =
  sd_message :: jsstr
  sd_code :: "jsstr option"
  sd_hint :: "jsstr option"
  sd_details :: cell_value

definition rawPayloadField :: "heap \<Rightarrow> nat \<Rightarrow> string \<Rightarrow> cell_value" where
  "rawPayloadField h a field =
     (if get_field h a field \<noteq> Undefined then get_field h a field
      else if isErrorRecord h (get_field h a ''error'') then sub h (get_field h a ''error'') field
      else Undefined)"

definition rawPayloadStringField :: "heap \<Rightarrow> nat list \<Rightarrow> string \<Rightarrow> jsstr option" where
  "rawPayloadStringField h sources field =
     first_some (\<lambda>a. if \<not> isRawPayloadSource h a then None
       else (case rawPayloadField h a field of Text s \<Rightarrow> if trim s \<noteq> [] then Some (trim s) else None | _ \<Rightarrow> None)) sources"

definition rawPayloadDetails :: "heap \<Rightarrow> nat list \<Rightarrow> cell_value" where
  "rawPayloadDetails h sources =
     or_else (first_some (\<lambda>a. if \<not> isRawPayloadSource h a then None
       else if rawPayloadField h a ''details'' \<in> {Undefined, Null} then None
       else Some (rawPayloadField h a ''details'')) sources) Undefined"

definition getServerErrorDetails :: "(message_key \<Rightarrow> jsstr) \<Rightarrow> heap \<Rightarrow> cell_value \<Rightarrow> jsstr option \<Rightarrow> server_error_details" where
  "getServerErrorDetails t h v fallback =
     (let sources = getServerErrorSources h v in
      case find (\<lambda>a. ob_safe (h ! a)) sources of
        Some a \<Rightarrow>
          \<lparr>sd_message = getServerErrorMessage t h (Ref a) fallback, sd_code = None, sd_hint = None, sd_details = Undefined\<rparr>
      | None \<Rightarrow>
          \<lparr>sd_message = getServerErrorMessage t h v fallback, sd_code = rawPayloadStringField h sources ''code'',
           sd_hint = rawPayloadStringField h sources ''hint'', sd_details = rawPayloadDetails h sources\<rparr>)"

text \<open>The new error is the next cell of the heap; \<open>name\<close> is what every \<open>Error\<close> inherits.\<close>

definition new_error :: "jsstr \<Rightarrow> cell_value \<Rightarrow> object_cell" where
  "new_error m v =
     \<lparr>ob_props = [(js ''message'', Text m), (js ''cause'', v), (js ''name'', Text (js ''Error''))],
      ob_isError = True, ob_safe = False, ob_cancel = False\<rparr>"

definition createServerError :: "(message_key \<Rightarrow> jsstr) \<Rightarrow> heap \<Rightarrow> cell_value \<Rightarrow> jsstr option \<Rightarrow> heap \<times> cell_value" where
  "createServerError t h v fallback =
     (h @ [new_error (getServerErrorMessage t h v (Some (or_else fallback []))) v], Ref (length h))"

section \<open>Lemmas: the sources\<close>

text \<open>An object refers to its cause, to its \<open>error\<close> and to the data of its response.\<close>

definition refers :: "heap \<Rightarrow> nat \<Rightarrow> nat \<Rightarrow> bool" where
  "refers h a b \<longleftrightarrow>
     b < length h
     \<and> (get_field h a ''cause'' = Ref b \<or> get_field h a ''error'' = Ref b
        \<or> (\<exists>r < length h. get_field h a ''response'' = Ref r \<and> get_field h r ''data'' = Ref b))"

lemma refers_origins: "refers h a b \<longleftrightarrow> Ref b \<in> set (origins h a) \<and> b < length h"
  by (auto simp: refers_def origins_def isErrorRecord_def sub_def split: cell_value.splits)

definition roots :: "heap \<Rightarrow> cell_value list \<Rightarrow> nat set" where
  "roots h vs = {a. Ref a \<in> set vs \<and> a < length h}"

lemma roots_simps [simp]:
  "roots h [] = {}" "roots h (vs @ ws) = roots h vs \<union> roots h ws" "roots h (origins h a) = {b. refers h a b}"
  by (auto simp: roots_def refers_origins)

lemma roots_Cons: "roots h (v # vs) = (case v of Ref a \<Rightarrow> if a < length h then {a} else {} | _ \<Rightarrow> {}) \<union> roots h vs"
  by (auto simp: roots_def split: cell_value.splits)

text \<open>Each source is new and listed once, comes from the queue, and its origins are listed or were seen.\<close>

lemma sources_loop_spec:
  "distinct (sources_loop h pending seen) \<and> set (sources_loop h pending seen) \<inter> set seen = {}
   \<and> set (sources_loop h pending seen) \<subseteq> {a. \<exists>r \<in> roots h pending. (refers h)\<^sup>*\<^sup>* r a}
   \<and> roots h pending \<subseteq> set (sources_loop h pending seen) \<union> set seen
   \<and> (\<forall>a \<in> set (sources_loop h pending seen). \<forall>b. refers h a b \<longrightarrow> b \<in> set (sources_loop h pending seen) \<union> set seen)"
proof (induction h pending seen rule: sources_loop.induct)
  case (1 h seen)
  show ?case by (simp add: sources_loop.simps)
next
  case (2 h v pending seen)
  show ?case
  proof (cases "new_source h seen v")
    case (Some a)
    then have a: "v = Ref a" "a < length h" "a \<notin> set seen" by (simp_all add: new_source_Some)
    let ?rest = "sources_loop h (pending @ origins h a) (a # seen)"
    have loop: "sources_loop h (v # pending) seen = a # ?rest" using Some by (simp add: sources_loop.simps)
    have IH: "distinct ?rest" "set ?rest \<inter> set (a # seen) = {}"
      "set ?rest \<subseteq> {b. \<exists>r \<in> roots h (pending @ origins h a). (refers h)\<^sup>*\<^sup>* r b}"
      "roots h (pending @ origins h a) \<subseteq> set ?rest \<union> set (a # seen)"
      "\<forall>b \<in> set ?rest. \<forall>c. refers h b c \<longrightarrow> c \<in> set ?rest \<union> set (a # seen)"
      using 2(2) [OF Some] by blast+
    have "set (a # ?rest) \<subseteq> {b. \<exists>r \<in> roots h (v # pending). (refers h)\<^sup>*\<^sup>* r b}"
      using IH(3) a(1,2) by (auto simp: roots_Cons intro: converse_rtranclp_into_rtranclp)
    moreover have "roots h (v # pending) \<subseteq> set (a # ?rest) \<union> set seen" using IH(4) a(1,2) by (auto simp: roots_Cons)
    moreover have "\<forall>b \<in> set (a # ?rest). \<forall>c. refers h b c \<longrightarrow> c \<in> set (a # ?rest) \<union> set seen" using IH(4,5) by auto
    moreover have "distinct (a # ?rest)" "set (a # ?rest) \<inter> set seen = {}" using IH(1,2) a(3) by auto
    ultimately show ?thesis unfolding loop by blast
  next
    case None
    have loop: "sources_loop h (v # pending) seen = sources_loop h pending seen"
      using None by (simp add: sources_loop.simps)
    have "roots h (v # pending) - roots h pending \<subseteq> set seen"
      using None by (auto simp: roots_Cons new_source_def isErrorRecord_def split: cell_value.splits if_splits)
    moreover have "roots h pending \<subseteq> roots h (v # pending)" by (simp add: roots_Cons)
    moreover note 2(1) [OF None]
    ultimately show ?thesis unfolding loop by blast
  qed
qed

lemma sources_first: "a < length h \<Longrightarrow> \<exists>rest. getServerErrorSources h (Ref a) = a # rest"
  by (simp add: getServerErrorSources_def sources_loop.simps new_source_def isErrorRecord_def)

lemma safe_key: "a < length h \<Longrightarrow> ob_safe (h ! a) \<Longrightarrow> getServerErrorMessageKey h (Ref a) = code_key h a"
  using sources_first [of a h] by (auto simp: getServerErrorMessageKey_def split: option.split)

lemma sources_valid: "a \<in> set (getServerErrorSources h v) \<Longrightarrow> a < length h"
proof -
  assume "a \<in> set (getServerErrorSources h v)"
  then obtain r where "r \<in> roots h [v]" "(refers h)\<^sup>*\<^sup>* r a"
    using sources_loop_spec [of h "[v]" "[]"] by (auto simp: getServerErrorSources_def)
  then show ?thesis by (auto simp: roots_def refers_def elim: rtranclp.cases)
qed


section \<open>Lemmas: a wrapped error\<close>

text \<open>A heap whose values refer to its own cells.\<close>

definition valid :: "heap \<Rightarrow> cell_value \<Rightarrow> bool" where
  "valid h v = (case v of Ref a \<Rightarrow> a < length h | _ \<Rightarrow> True)"

definition closed_heap :: "heap \<Rightarrow> bool" where
  "closed_heap h = list_all (\<lambda>ob. list_all (\<lambda>(k, v). valid h v) (ob_props ob)) h"

lemma field_valid: "closed_heap h \<Longrightarrow> a < length h \<Longrightarrow> valid h (get_field h a k)"
  by (auto simp: closed_heap_def list_all_iff get_field_def valid_def split: option.split dest!: map_of_SomeD)

lemma sub_valid: "closed_heap h \<Longrightarrow> isErrorRecord h v \<Longrightarrow> valid h (sub h v k)"
  by (auto simp: isErrorRecord_def sub_def field_valid split: cell_value.splits)

lemma field_extend: "a < length h \<Longrightarrow> get_field (h @ [e]) a k = get_field h a k"
  by (simp add: get_field_def nth_append)

lemma record_extend: "valid h v \<Longrightarrow> isErrorRecord (h @ [e]) v = isErrorRecord h v"
  by (auto simp: valid_def isErrorRecord_def split: cell_value.split)

lemma sub_extend: "isErrorRecord h v \<Longrightarrow> sub (h @ [e]) v k = sub h v k"
  by (auto simp: isErrorRecord_def sub_def field_extend split: cell_value.split)

lemmas extend_simps = field_extend record_extend [OF field_valid] sub_extend

lemma origins_extend: "closed_heap h \<Longrightarrow> a < length h \<Longrightarrow> origins (h @ [e]) a = origins h a"
  by (simp add: origins_def extend_simps)

lemma origins_valid: "closed_heap h \<Longrightarrow> a < length h \<Longrightarrow> list_all (valid h) (origins h a)"
  by (simp add: origins_def field_valid sub_valid)

text \<open>A new cell that nothing refers to is not reached, whether or not it counts as seen.\<close>

lemma loop_extend:
  "closed_heap h \<Longrightarrow> list_all (valid h) pending \<Longrightarrow> set outer \<subseteq> {length h} \<Longrightarrow>
     sources_loop (h @ [e]) pending (seen @ outer) = sources_loop h pending seen"
proof (induction h pending seen rule: sources_loop.induct)
  case (2 h v pending seen)
  have same: "new_source (h @ [e]) (seen @ outer) v = new_source h seen v"
    using 2(4,5) by (auto simp: new_source_def isErrorRecord_def valid_def split: cell_value.split)
  show ?case
  proof (cases "new_source h seen v")
    case None
    then show ?thesis using 2(1) [OF None 2(3)] 2(4,5) same by (simp add: sources_loop.simps)
  next
    case (Some a)
    then have a: "a < length h" by (simp add: new_source_Some)
    then show ?thesis
      using 2(2) [OF Some 2(3)] 2(3-5) Some same by (simp add: sources_loop.simps origins_extend origins_valid)
  qed
qed (simp add: sources_loop.simps)

lemma sources_extend:
  "closed_heap h \<Longrightarrow> valid h v \<Longrightarrow> getServerErrorSources (h @ [e]) v = getServerErrorSources h v"
  using loop_extend [of h "[v]" "[]" e "[]"] by (simp add: getServerErrorSources_def)

lemma loop_undefined: "sources_loop h (us @ Undefined # ws) seen = sources_loop h (us @ ws) seen"
proof (induction h "us @ ws" seen arbitrary: us ws rule: sources_loop.induct)
  case (1 h seen)
  then show ?case by (simp add: sources_loop.simps new_source_def)
next
  case (2 h v pending seen)
  show ?case
  proof (cases us)
    case Nil
    then show ?thesis by (simp add: sources_loop.simps(2) [of _ Undefined] new_source_def)
  next
    case (Cons u us')
    then have p: "pending = us' @ ws" "u = v" using 2(3) by simp_all
    show ?thesis
    proof (cases "new_source h seen v")
      case None
      then show ?thesis using 2(1) [OF None p(1)] by (simp add: Cons p sources_loop.simps)
    next
      case (Some a)
      then show ?thesis using 2(2) [OF Some, of us' "ws @ origins h a"] by (simp add: Cons p sources_loop.simps)
    qed
  qed
qed

lemma first_some_cong: "(\<And>x. x \<in> set xs \<Longrightarrow> f x = g x) \<Longrightarrow> first_some f xs = first_some g xs"
  by (induction xs) (auto split: option.split)

lemma new_error_fields:
  "get_field (h @ [new_error m v]) (length h) ''message'' = Text m" "get_field (h @ [new_error m v]) (length h) ''cause'' = v"
  "get_field (h @ [new_error m v]) (length h) ''name'' = Text (js ''Error'')"
  "get_field (h @ [new_error m v]) (length h) ''response'' = Undefined"
  "get_field (h @ [new_error m v]) (length h) ''error'' = Undefined"
  "get_field (h @ [new_error m v]) (length h) ''code'' = Undefined"
  "get_field (h @ [new_error m v]) (length h) ''status'' = Undefined"
  by (simp_all add: get_field_def nth_append new_error_def js_def)

lemma new_error_flags:
  "ob_safe (new_error m v) = False" "ob_cancel (new_error m v) = False"
  "isRawPayloadSource (h @ [new_error m v]) (length h) = False"
  by (simp_all add: new_error_def isRawPayloadSource_def)

lemma wrapped_sources:
  assumes "closed_heap h" "valid h v"
  shows "getServerErrorSources (h @ [new_error m v]) (Ref (length h)) = length h # getServerErrorSources h v"
proof -
  let ?h = "h @ [new_error m v]" and ?n = "length h"
  have "origins ?h ?n = [v, Undefined]" by (simp add: origins_def new_error_fields isErrorRecord_def)
  then have "getServerErrorSources ?h (Ref ?n) = ?n # sources_loop ?h ([v] @ Undefined # []) [?n]"
    by (simp add: getServerErrorSources_def sources_loop.simps(2) [of _ "Ref _"] new_source_def isErrorRecord_def)
  then show ?thesis
    using loop_extend [OF assms(1), of "[v]" "[?n]" "new_error m v" "[]"] assms(2) loop_undefined [of ?h "[v]" "[]" "[?n]"]
    by (simp add: getServerErrorSources_def)
qed

lemmas cell_defs = code_key_def source_status_def isRawPayloadSource_def payload_message_def rawPayloadField_def

text \<open>What a source says does not depend on later cells.\<close>

lemma source_extend:
  assumes "closed_heap h" "a < length h"
  shows "code_key (h @ [e]) a = code_key h a" "source_status (h @ [e]) a = source_status h a"
    "payload_message (h @ [e]) a = payload_message h a" "isRawPayloadSource (h @ [e]) a = isRawPayloadSource h a"
    "rawPayloadField (h @ [e]) a k = rawPayloadField h a k"
  using assms by (simp_all add: cell_defs extend_simps nth_append Let_def cong: if_cong option.case_cong)

lemma first_key_extend:
  "closed_heap h \<Longrightarrow> \<forall>a \<in> set as. a < length h \<Longrightarrow> first_key (h @ [e]) as = first_key h as"
  by (induction as) (simp_all add: source_extend nth_append split: option.split)

lemma find_extend: "\<forall>a \<in> set as. a < length h \<Longrightarrow> find (\<lambda>a. ob_safe ((h @ [e]) ! a)) as = find (\<lambda>a. ob_safe (h ! a)) as"
  by (induction as) (simp_all add: nth_append)

lemma fields_extend:
  assumes "closed_heap h" "\<forall>a \<in> set as. a < length h"
  shows "rawPayloadStringField (h @ [e]) as k = rawPayloadStringField h as k"
    "rawPayloadDetails (h @ [e]) as = rawPayloadDetails h as"
    "first_some (source_status (h @ [e])) as = first_some (source_status h) as"
    "first_some (payload_message (h @ [e])) as = first_some (payload_message h) as"
    "first_some (\<lambda>a. messageText (get_field (h @ [e]) a ''message'')) as = first_some (\<lambda>a. messageText (get_field h a ''message'')) as"
  using assms
  by (auto simp: rawPayloadStringField_def rawPayloadDetails_def source_extend field_extend
      intro!: first_some_cong arg_cong2 [where f = or_else])

lemma plain_message_extend:
  "closed_heap h \<Longrightarrow> \<forall>a \<in> set as. a < length h \<Longrightarrow> plain_message t (h @ [e]) as v f = plain_message t h as v f"
  by (simp add: plain_message_def first_key_extend fields_extend Let_def cong: option.case_cong if_cong)

lemma safe_message_extend:
  assumes "closed_heap h" "a < length h"
  shows "safe_message t (h @ [e]) a f = safe_message t h a f"
proof -
  have "\<forall>b \<in> set (getServerErrorSources h (Ref a)). b < length h" by (simp add: sources_valid)
  moreover have "getServerErrorSources (h @ [e]) (Ref a) = getServerErrorSources h (Ref a)"
    using assms by (simp add: sources_extend valid_def)
  ultimately show ?thesis
    using assms by (simp add: safe_message_def getServerErrorMessageKey_def first_key_extend field_extend cong: option.case_cong)
qed

lemma found: "find P xs = Some x \<Longrightarrow> x \<in> set xs \<and> P x"
  by (metis find_Some_iff nth_mem)

lemma message_extend:
  assumes "closed_heap h" "valid h v"
  shows "getServerErrorMessage t (h @ [e]) v f = getServerErrorMessage t h v f"
proof -
  have "\<forall>b \<in> set (getServerErrorSources h v). b < length h" by (simp add: sources_valid)
  then show ?thesis
    using assms
    by (auto simp: getServerErrorMessage_def Let_def sources_extend find_extend plain_message_extend safe_message_extend
        split: option.split dest!: found)
qed

text \<open>A message that was chosen is chosen again.\<close>

lemma messageText_self: "messageText (Text s) = Some m \<Longrightarrow> m = s"
  by (simp add: messageText_def split: if_splits)

lemma messageText_again: "messageText v = Some m \<Longrightarrow> messageText (Text m) = Some m"
  by (auto simp: messageText_def split: cell_value.splits if_splits)

lemma first_some_again: "first_some f xs = Some m \<Longrightarrow> \<exists>x \<in> set xs. f x = Some m"
  by (induction xs) (auto split: option.splits)

lemma or_else_simps: "or_else (Some x) y = x" "or_else None y = y"
  by (simp_all add: or_else_def)

lemma plain_message_wrapped:
  assumes "closed_heap h" "\<forall>a \<in> set as. a < length h" "m = plain_message t h as v (Some (or_else f []))"
  shows "plain_message t (h @ [new_error m v]) (length h # as) (Ref (length h)) f = plain_message t h as v f"
proof -
  let ?h = "h @ [new_error m v]" and ?n = "length h"
  let ?says = "first_some (\<lambda>a. messageText (get_field h a ''message'')) as"
  have cell: "code_key ?h ?n = None" "payload_message ?h ?n = None" "source_status ?h ?n = None"
    by (simp_all add: code_key_def payload_message_def source_status_def new_error_fields new_error_flags isErrorRecord_def)
  have keep: "first_key ?h (?n # as) = first_key h as" "first_some (payload_message ?h) (?n # as) = first_some (payload_message h) as"
    "first_some (source_status ?h) (?n # as) = first_some (source_status h) as"
    "first_some (\<lambda>a. messageText (get_field ?h a ''message'')) (?n # as) =
       (case messageText (Text m) of Some x \<Rightarrow> Some x | None \<Rightarrow> ?says)"
    using assms(1,2) by (simp_all add: cell new_error_flags new_error_fields first_key_extend fields_extend cong: option.case_cong)
  have blank: "messageText (Text []) = None" "messageText (Ref a) = None" for a
    by (simp_all add: messageText_def trim_def trim_start_def trim_end_def)
  show ?thesis
  proof (cases "first_key h as = None \<and> first_some (payload_message h) as = None
      \<and> first_some (source_status h) as \<notin> {Some (Fin 304), Some (Fin 204)}")
    case False
    then show ?thesis
      unfolding plain_message_def keep by (auto simp: Let_def cong: option.case_cong split: option.split)
  next
    case True
    then have m: "m = (case ?says of Some x \<Rightarrow> x | None \<Rightarrow> (case messageText v of Some x \<Rightarrow> x | None \<Rightarrow> or_else f []))"
      using assms(3) by (simp add: plain_message_def Let_def or_else_simps cong: option.case_cong)
    have "messageText (Text m) = Some m" if "?says \<noteq> None \<or> messageText v \<noteq> None"
      using that m first_some_again [of _ as] messageText_again by (fastforce split: option.splits)
    then have "messageText (Text m) = (if ?says \<noteq> None \<or> messageText v \<noteq> None then Some m else messageText (Text (or_else f [])))"
      using m by auto
    then show ?thesis
      using True m unfolding plain_message_def keep
      by (cases f; cases "messageText v") (auto simp: Let_def or_else_simps blank split: option.splits if_splits dest: messageText_self)
  qed
qed

lemma wrapped_message:
  assumes "closed_heap h" "valid h v" "m = getServerErrorMessage t h v (Some (or_else f []))"
  shows "getServerErrorMessage t (h @ [new_error m v]) (Ref (length h)) f = getServerErrorMessage t h v f"
proof -
  have "\<forall>b \<in> set (getServerErrorSources h v). b < length h" by (simp add: sources_valid)
  then show ?thesis
    using assms plain_message_wrapped [OF assms(1), of "getServerErrorSources h v" m t v f]
    by (auto simp: getServerErrorMessage_def Let_def wrapped_sources new_error_flags find_extend safe_message_extend
        split: option.splits dest!: found)
qed

section \<open>Properties\<close>

text \<open>
  C26.  The sources of an error are exactly the objects that are reached from it by \<open>response.data\<close>, \<open>cause\<close> and \<open>error\<close>,
  each once and the error first, whether or not the references run in circles; the search always ends.
\<close>

theorem error_sources_exact:
  assumes "a < length h"
  shows "set (getServerErrorSources h (Ref a)) = {b. (refers h)\<^sup>*\<^sup>* a b} \<and> distinct (getServerErrorSources h (Ref a))
    \<and> hd (getServerErrorSources h (Ref a)) = a"
proof -
  let ?s = "getServerErrorSources h (Ref a)"
  have spec: "distinct ?s" "?s \<noteq> []" "hd ?s = a" "set ?s \<subseteq> {b. (refers h)\<^sup>*\<^sup>* a b}" "\<And>b c. b \<in> set ?s \<Longrightarrow> refers h b c \<Longrightarrow> c \<in> set ?s"
    using sources_loop_spec [of h "[Ref a]" "[]"] sources_first [OF assms]
    by (auto simp: getServerErrorSources_def roots_Cons split: if_splits)
  have "b \<in> set ?s" if "(refers h)\<^sup>*\<^sup>* a b" for b
    using that by induction (use spec in \<open>auto intro: hd_in_set [of ?s, simplified spec]\<close>)
  with spec show ?thesis by blast
qed

text \<open>
  C24.  An error that hides its details, however it is wrapped, shows only the translation of its own code, its own message or the fallback,
  and no code, hint or structured details: what it was caused by cannot be seen.
\<close>

theorem safe_error_hides:
  assumes "find (\<lambda>a. ob_safe (h ! a)) (getServerErrorSources h v) = Some a"
  shows "getServerErrorDetails t h v f =
      \<lparr>sd_message = getServerErrorMessage t h v f, sd_code = None, sd_hint = None, sd_details = Undefined\<rparr>
    \<and> getServerErrorMessage t h v f =
        t (case code_key h a of
             Some key \<Rightarrow> key
           | None \<Rightarrow> Literally (case messageText (get_field h a ''message'') of
                 Some m \<Rightarrow> m
               | None \<Rightarrow> if or_else f [] \<noteq> [] then or_else f [] else something_wrong))"
proof -
  have a: "a < length h" "ob_safe (h ! a)" using found [OF assms] sources_valid by auto
  then have "find (\<lambda>a. ob_safe (h ! a)) (getServerErrorSources h (Ref a)) = Some a" using sources_first [OF a(1)] by auto
  then have "getServerErrorMessage t h (Ref a) f = getServerErrorMessage t h v f" using assms by (simp add: getServerErrorMessage_def)
  then show ?thesis
    using assms safe_key [OF a]
    by (simp add: getServerErrorDetails_def getServerErrorMessage_def safe_message_def split: option.split)
qed

text \<open>
  C25.  Wrapping loses nothing: an error made of any failure, by \<open>createServerError\<close>, has the failure's message, code, hint and details,
  its status and message key, and counts as a cancellation exactly when the failure does.
\<close>

theorem wrapping_preserves:
  assumes "closed_heap h" "valid h v" "createServerError t h v f = (h', w)"
  shows "getServerErrorDetails t h' w f = getServerErrorDetails t h v f
    \<and> getServerErrorMessageKey h' w = getServerErrorMessageKey h v \<and> getServerErrorStatus h' w = getServerErrorStatus h v
    \<and> isServerErrorCancelled h' w = isServerErrorCancelled h v"
proof -
  define m where "m = getServerErrorMessage t h v (Some (or_else f []))"
  let ?h = "h @ [new_error m v]" and ?s = "getServerErrorSources h v"
  have w: "h' = ?h" "w = Ref (length h)" using assms(3) by (simp_all add: createServerError_def m_def)
  have s: "\<forall>a \<in> set ?s. a < length h" by (simp add: sources_valid)
  note wrapped = wrapped_sources [OF assms(1,2)]
  have cell: "code_key ?h (length h) = None" "source_status ?h (length h) = None"
    by (simp_all add: code_key_def source_status_def new_error_fields isErrorRecord_def)
  have "getServerErrorMessage t ?h (Ref a) f = getServerErrorMessage t h (Ref a) f" if "a \<in> set ?s" for a
    using that s assms(1) by (intro message_extend) (auto simp: valid_def)
  moreover have "rawPayloadStringField ?h (length h # ?s) k = rawPayloadStringField h ?s k"
      "rawPayloadDetails ?h (length h # ?s) = rawPayloadDetails h ?s" for k
    using fields_extend(1,2) [OF assms(1) s, of "new_error m v"]
    by (simp_all add: rawPayloadStringField_def rawPayloadDetails_def new_error_flags)
  ultimately have "getServerErrorDetails t ?h (Ref (length h)) f = getServerErrorDetails t h v f"
    using wrapped_message [OF assms(1,2) m_def] s
    by (auto simp: getServerErrorDetails_def Let_def wrapped new_error_flags find_extend split: option.split dest!: found)
  moreover have "isServerErrorCancelled ?h (Ref (length h)) = isServerErrorCancelled h v"
    using s by (auto simp: isServerErrorCancelled_def wrapped list_ex_iff new_error_flags new_error_fields field_extend nth_append js_def)
  ultimately show ?thesis
    using first_key_extend [OF assms(1) s] fields_extend(3) [OF assms(1) s]
    by (simp add: w getServerErrorMessageKey_def getServerErrorStatus_def wrapped cell new_error_flags)
qed

section \<open>Examples\<close>

text \<open>
  An error whose cause is an HTTP error, which carries the reply \<open>{error: {code, message}}\<close> and refers back to the first;
  and a sign-in error that hides the same reply.
\<close>

definition example_heap :: heap where
  "example_heap =
     [\<lparr>ob_props = [(js ''message'', Text (js ''failed'')), (js ''cause'', Ref 1)], ob_isError = True, ob_safe = False, ob_cancel = False\<rparr>,
      \<lparr>ob_props = [(js ''response'', Ref 2), (js ''cause'', Ref 0)], ob_isError = True, ob_safe = False, ob_cancel = False\<rparr>,
      \<lparr>ob_props = [(js ''status'', Number (Fin 409)), (js ''data'', Ref 3)], ob_isError = False, ob_safe = False, ob_cancel = False\<rparr>,
      \<lparr>ob_props = [(js ''error'', Ref 4)], ob_isError = False, ob_safe = False, ob_cancel = False\<rparr>,
      \<lparr>ob_props = [(js ''code'', Text (js ''LANE_IN_USE'')), (js ''message'', Text (js ''in use''))],
       ob_isError = False, ob_safe = False, ob_cancel = False\<rparr>,
      \<lparr>ob_props = [(js ''message'', Text (js ''sign-in'')), (js ''cause'', Ref 3)], ob_isError = True, ob_safe = True, ob_cancel = False\<rparr>]"

lemmas example_simps =
  example_heap_def getServerErrorSources_def sources_loop.simps new_source_def isErrorRecord_def origins_def get_field_def sub_def
  js_def code_key_def messageText_def inherited_properties_def or_else_def

definition example_t :: "message_key \<Rightarrow> jsstr" where
  "example_t k = (case k of Literally s \<Rightarrow> s | Inherited s \<Rightarrow> s)"

lemma example_sources: "getServerErrorSources example_heap (Ref 0) = [0, 1, 3, 4]"
  by (simp add: example_simps)

lemma example_safe_sources: "getServerErrorSources example_heap (Ref 5) = [5, 3, 4]"
  by (simp add: example_simps)

lemma example_closed: "closed_heap example_heap"
  by (simp add: closed_heap_def example_heap_def valid_def)

theorem error_sources_exact_witness:
  "(0::nat) < length example_heap \<and> getServerErrorSources example_heap (Ref 0) = [0, 1, 3, 4] \<and> {b. (refers example_heap)\<^sup>*\<^sup>* 0 b} = {0, 1, 3, 4}"
  using error_sources_exact [of 0 example_heap] by (simp add: example_sources) (simp add: example_heap_def)

theorem safe_error_hides_witness:
  "getServerErrorDetails example_t example_heap (Ref 5) None =
     \<lparr>sd_message = js ''sign-in'', sd_code = None, sd_hint = None, sd_details = Undefined\<rparr>"
proof -
  have "find (\<lambda>a. ob_safe (example_heap ! a)) (getServerErrorSources example_heap (Ref 5)) = Some 5"
    by (simp add: example_safe_sources) (simp add: example_heap_def)
  moreover have "code_key example_heap 5 = None" "messageText (get_field example_heap 5 ''message'') = Some (js ''sign-in'')"
    by code_simp+
  ultimately show ?thesis using safe_error_hides [of example_heap "Ref 5" 5 example_t None] by (simp add: example_t_def)
qed

theorem wrapping_preserves_witness:
  "closed_heap example_heap \<and> valid example_heap (Ref 0)
   \<and> (case createServerError example_t example_heap (Ref 0) None of
        (h', w) \<Rightarrow> getServerErrorDetails example_t h' w None =
          \<lparr>sd_message = js ''in use'', sd_code = Some (js ''LANE_IN_USE''), sd_hint = None, sd_details = Undefined\<rparr>)"
proof -
  obtain h' w where c: "createServerError example_t example_heap (Ref 0) None = (h', w)" by fastforce
  have v: "valid example_heap (Ref 0)" by (simp add: valid_def example_heap_def)
  have "getServerErrorDetails example_t example_heap (Ref 0) None =
      \<lparr>sd_message = js ''in use'', sd_code = Some (js ''LANE_IN_USE''), sd_hint = None, sd_details = Undefined\<rparr>"
    by code_simp
  then show ?thesis using wrapping_preserves [OF example_closed v c] c v example_closed by simp
qed

end
