(* ===== verification/ChannelList.thy ===== *)
theory ChannelList
  imports ChannelForm "HOL-Library.Multiset"
begin

text \<open>
  The channel list: \<open>features/channels/lib/channel-utils.ts\<close> (keys, models, protocols, attention, rows by tag),
  \<open>upstream-update-utils.ts\<close> (models that an upstream added or removed) and
  \<open>channel-field-update.ts\<close> (delayed saving of a number that is edited in a row).
\<close>

section \<open>Channels\<close>

text \<open>\<open>null\<close> and \<open>undefined\<close> are both \<open>None\<close> in the optional fields: nothing here tells them apart.  The code casts \<open>id\<close> and \<open>status\<close>
  of a tag row from a string and from \<open>undefined\<close>, so that these two are values of any type.\<close>

record channel_info =
  ci_is_multi_key :: bool
  ci_multi_key_size :: jsnum
  ci_multi_key_status_list :: "(jsstr \<times> jsnum) list option"
  ci_multi_key_disabled_reason :: "(jsstr \<times> jsstr) list option"
  ci_multi_key_disabled_time :: "(jsstr \<times> jsnum) list option"
  ci_multi_key_polling_index :: jsnum
  ci_multi_key_mode :: jsstr

record channel =
  chan_id :: jsval
  chan_type :: jsnum
  chan_key :: jsstr
  chan_openai_organization :: "jsstr option"
  chan_test_model :: "jsstr option"
  chan_status :: jsval
  chan_name :: jsstr
  chan_created_time :: jsnum
  chan_test_time :: jsnum
  chan_response_time :: jsnum
  chan_base_url :: "jsstr option"
  chan_other :: jsstr
  chan_balance :: jsnum
  chan_balance_updated_time :: jsnum
  chan_models :: jsstr
  chan_used_quota :: jsnum
  chan_model_mapping :: "jsstr option"
  chan_status_code_mapping :: "jsstr option"
  chan_auto_ban :: "jsnum option"
  chan_other_info :: jsstr
  chan_tag :: "jsstr option"
  chan_setting :: "jsstr option"
  chan_param_override :: "jsstr option"
  chan_header_override :: "jsstr option"
  chan_remark :: jsstr
  chan_max_input_tokens :: jsnum
  chan_channel_info :: "channel_info option"
  chan_settings :: jsstr

record tag_row = channel +
  row_children :: "channel list"

definition isChannelEnabled :: "channel \<Rightarrow> bool" where
  "isChannelEnabled channel = strict_eq (chan_status channel) (JNum (Fin 1))"

definition isMultiKeyChannel :: "channel \<Rightarrow> bool" where
  "isMultiKeyChannel channel = (case chan_channel_info channel of Some info \<Rightarrow> ci_is_multi_key info | None \<Rightarrow> False)"

section \<open>Keys and models\<close>

definition newline :: nat where
  "newline = 10"

definition nonblank_lines :: "jsstr \<Rightarrow> jsstr list" where
  "nonblank_lines s = filter (\<lambda>k. trim k \<noteq> []) (split_on newline s)"

text \<open>\<open>s.slice(-n)\<close>\<close>

definition last_chars :: "nat \<Rightarrow> jsstr \<Rightarrow> jsstr" where
  "last_chars n s = drop (length s - n) s"

definition formatChannelKey :: "jsstr \<Rightarrow> bool \<Rightarrow> jsstr" where
  "formatChannelKey key isMultiKey =
     (if key = [] then []
      else if isMultiKey then dec_string (length (nonblank_lines key)) @ js '' keys''
      else if length key \<le> 16 then take 4 key @ js ''...'' @ last_chars 4 key
      else take 8 key @ js ''...'' @ last_chars 8 key)"

definition formatKeyPreview :: "jsstr \<Rightarrow> nat \<Rightarrow> jsstr" where
  "formatKeyPreview key maxLength =
     (if key = [] then [] else if length key \<le> maxLength then key else take maxLength key @ js ''...'')"

definition countKeys :: "jsstr \<Rightarrow> nat" where
  "countKeys key = (if key = [] then 0 else length (nonblank_lines key))"

definition parseModelsList :: "jsstr \<Rightarrow> jsstr list" where
  "parseModelsList models =
     (if models = [] then [] else filter (\<lambda>m. 0 < length m) (map trim (split_on (ch (CHR '','')) models)))"

definition formatModelsString :: "jsstr list \<Rightarrow> jsstr" where
  "formatModelsString models = join (js '','') models"

definition validateChannelName :: "jsstr \<Rightarrow> bool" where
  "validateChannelName name = (0 < length (trim name))"

definition validateApiKey :: "jsstr \<Rightarrow> bool" where
  "validateApiKey key = (0 < length (trim key))"

definition validateModels :: "jsstr \<Rightarrow> bool" where
  "validateModels models = (0 < length (parseModelsList models))"

record deduplicated =
  dd_text :: jsstr
  dd_before :: nat
  dd_after :: nat
  dd_removed :: int

text \<open>\<open>keyLines.forEach\<close>; the set has the elements of the list.\<close>

fun dedup_lines :: "jsstr list \<Rightarrow> jsstr list \<Rightarrow> jsstr list" where
  "dedup_lines [] keys = keys"
| "dedup_lines (line # rest) keys =
     dedup_lines rest (if trim line \<noteq> [] \<and> trim line \<notin> set keys then keys @ [trim line] else keys)"

definition deduplicateKeys :: "jsstr \<Rightarrow> deduplicated" where
  "deduplicateKeys keysText =
     (if keysText = [] \<or> trim keysText = [] then \<lparr>dd_text = [], dd_before = 0, dd_after = 0, dd_removed = 0\<rparr>
      else
        (let keyLines = split_on newline keysText;
             keys = dedup_lines keyLines [] in
         \<lparr>dd_text = join [newline] keys, dd_before = length keyLines, dd_after = length keys,
          dd_removed = int (length keyLines) - int (length keys)\<rparr>))"

section \<open>Settings and protocols\<close>

definition empty_settings :: jsval where
  "empty_settings = JObj []"

definition parseChannelSettings :: "jsstr option \<Rightarrow> jsval" where
  "parseChannelSettings s =
     (case s of Some t \<Rightarrow> if t = [] then empty_settings else or_else (json_parse t) empty_settings | None \<Rightarrow> empty_settings)"

definition parseChannelOtherSettings :: "jsstr option \<Rightarrow> jsval" where
  "parseChannelOtherSettings s =
     (case s of
        Some t \<Rightarrow> if t = [] \<or> t = js ''{}'' then empty_settings else or_else (json_parse t) empty_settings
      | None \<Rightarrow> empty_settings)"

definition validateChannelSettings :: "jsstr \<Rightarrow> bool" where
  "validateChannelSettings s = (if s = [] \<or> trim s = [] then True else json_parse s \<noteq> None)"

definition CHANNEL_PROTOCOL_OPTIONS :: "(jsstr \<times> nat \<times> jsstr) list" where
  "CHANNEL_PROTOCOL_OPTIONS =
     [(js ''openai-chat'', 1, js ''OpenAI compatible (/v1/chat/completions)''),
      (js ''openai-responses'', 1, js ''OpenAI Responses (/v1/responses)''),
      (js ''anthropic'', 14, js ''Anthropic (/v1/messages)''),
      (js ''gemini'', 24, js ''Gemini (/v1beta/models/{model}:generateContent)'')]"

definition CHANNEL_PROTOCOL_CUSTOM_VALUE :: jsstr where
  "CHANNEL_PROTOCOL_CUSTOM_VALUE = js ''custom''"

text \<open>\<open>CHANNEL_PROTOCOL_PRESENTATION\<close>: the long and the short label.\<close>

definition CHANNEL_PROTOCOL_PRESENTATION :: "(jsstr \<times> jsstr \<times> jsstr) list" where
  "CHANNEL_PROTOCOL_PRESENTATION =
     [(js ''openai-chat'', js ''OpenAI compatible (/v1/chat/completions)'', js ''OpenAI compatible''),
      (js ''openai-responses'', js ''OpenAI Responses (/v1/responses)'', js ''OpenAI Responses''),
      (js ''anthropic'', js ''Anthropic (/v1/messages)'', js ''Anthropic''),
      (js ''gemini'', js ''Gemini (/v1beta/models/{model}:generateContent)'', js ''Gemini''),
      (CHANNEL_PROTOCOL_CUSTOM_VALUE, js ''Custom'', js ''Custom'')]"

definition PROTOCOLS_BY_ADAPTER_TYPE :: "(nat \<times> jsstr list) list" where
  "PROTOCOLS_BY_ADAPTER_TYPE =
     foldl (\<lambda>groups (v, type, label). map_set type (or_else (map_of groups type) [] @ [v]) groups) [] CHANNEL_PROTOCOL_OPTIONS"

text \<open>The candidates of a type, which is any number.\<close>

definition candidates :: "jsnum \<Rightarrow> jsstr list option" where
  "candidates type = map_option snd (find (\<lambda>(n, protocols). num_eq (num_of_nat n) type) PROTOCOLS_BY_ADAPTER_TYPE)"

definition getChannelProtocol :: "jsnum \<Rightarrow> jsval \<Rightarrow> jsstr option" where
  "getChannelProtocol type otherSettings =
     (if isChannelProtocol (get_prop otherSettings (js ''protocol''))
      then (case get_prop otherSettings (js ''protocol'') of JStr p \<Rightarrow> Some p | _ \<Rightarrow> None)
      else (case candidates type of
          None \<Rightarrow> None
        | Some [] \<Rightarrow> None
        | Some [p] \<Rightarrow> Some p
        | Some _ \<Rightarrow> Some (fst (hd CHANNEL_PROTOCOL_OPTIONS))))"

definition getChannelProtocolFromChannel :: "channel \<Rightarrow> jsstr option" where
  "getChannelProtocolFromChannel channel =
     getChannelProtocol (chan_type channel) (parseChannelOtherSettings (Some (chan_settings channel)))"

text \<open>The short label of a name; every protocol has one.\<close>

definition shortLabel :: "jsstr \<Rightarrow> jsstr" where
  "shortLabel p = (case map_of CHANNEL_PROTOCOL_PRESENTATION p of Some (label, short) \<Rightarrow> short | None \<Rightarrow> [])"

definition getChannelProtocolLabelKey :: "jsstr option \<Rightarrow> jsstr" where
  "getChannelProtocolLabelKey protocol =
     (case protocol of Some p \<Rightarrow> shortLabel p | None \<Rightarrow> shortLabel CHANNEL_PROTOCOL_CUSTOM_VALUE)"

definition getChannelProtocolIconType :: "jsstr option \<Rightarrow> jsnum \<Rightarrow> jsnum" where
  "getChannelProtocolIconType protocol fallbackType =
     (case protocol of
        None \<Rightarrow> fallbackType
      | Some p \<Rightarrow> (case map_of CHANNEL_PROTOCOL_OPTIONS p of Some (type, label) \<Rightarrow> num_of_nat type | None \<Rightarrow> fallbackType))"

definition CHANNEL_PROTOCOL_FILTER_OPTIONS :: "(jsstr \<times> jsstr) list" where
  "CHANNEL_PROTOCOL_FILTER_OPTIONS =
     map (\<lambda>(v, type, label). (v, shortLabel v)) CHANNEL_PROTOCOL_OPTIONS
     @ [(CHANNEL_PROTOCOL_CUSTOM_VALUE, shortLabel CHANNEL_PROTOCOL_CUSTOM_VALUE)]"

text \<open>\<open>resolveProtocolLabelKey\<close> of \<open>channel-status-display.ts\<close>.\<close>

definition resolveProtocolLabelKey :: "channel option \<Rightarrow> jsstr option \<Rightarrow> jsstr option" where
  "resolveProtocolLabelKey rowChannel adapterType =
     (case rowChannel of
        Some channel \<Rightarrow> Some (getChannelProtocolLabelKey (getChannelProtocolFromChannel channel))
      | None \<Rightarrow>
          if or_else adapterType [] = [] then None
          else
            (let normalized = lower_ascii (trim (or_else adapterType [])) in
             if normalized \<in> set (map js [''openai'', ''openai-chat'', ''openai-compatible'', ''openai_compatible''])
             then Some (shortLabel (js ''openai-chat''))
             else if normalized \<in> set (map js [''openai-responses'', ''openai_responses'']) then Some (shortLabel (js ''openai-responses''))
             else if normalized \<in> set (map js [''anthropic'', ''claude'']) then Some (shortLabel (js ''anthropic''))
             else if normalized \<in> set (map js [''gemini'', ''google'']) then Some (shortLabel (js ''gemini''))
             else None))"

section \<open>Attention\<close>

definition low_balance :: "channel \<Rightarrow> bool" where
  "low_balance channel \<longleftrightarrow> num_lt (Fin 0) (chan_balance channel) \<and> num_lt (chan_balance channel) (Fin 1)"

definition all_keys_disabled :: "channel \<Rightarrow> bool" where
  "all_keys_disabled channel =
     (case chan_channel_info channel of
        None \<Rightarrow> False
      | Some info \<Rightarrow>
          ci_is_multi_key info
          \<and> (case ci_multi_key_status_list info of
               Some statuses \<Rightarrow> num_le (ci_multi_key_size info) (num_of_nat (length statuses))
             | None \<Rightarrow> False))"

definition channelNeedsAttention :: "channel \<Rightarrow> bool" where
  "channelNeedsAttention channel =
     (if strict_eq (chan_status channel) (JNum (Fin 3)) then True
      else if low_balance channel then True
      else if all_keys_disabled channel then True
      else False)"

definition getAttentionReason :: "channel \<Rightarrow> jsstr option" where
  "getAttentionReason channel =
     (if strict_eq (chan_status channel) (JNum (Fin 3)) then Some (js ''Auto-disabled'')
      else if low_balance channel then Some (js ''Low balance'')
      else if all_keys_disabled channel then Some (js ''All keys disabled'')
      else None)"

section \<open>Rows by tag\<close>

definition tag_of :: "channel \<Rightarrow> jsstr" where
  "tag_of channel = or_else (chan_tag channel) []"

definition new_tag_row :: "jsstr \<Rightarrow> channel \<Rightarrow> tag_row" where
  "new_tag_row tag channel =
     channel.extend
       (channel\<lparr>chan_key := tag, chan_id := JStr tag, chan_tag := Some tag, chan_name := tag, chan_type := Fin 0,
          chan_status := JUndef, chan_used_quota := Fin 0, chan_response_time := Fin 0, chan_balance := Fin 0,
          chan_test_time := Fin 0, chan_created_time := Fin 0, chan_balance_updated_time := Fin 0, chan_models := []\<rparr>)
       (tag_row.fields [])"

definition add_child :: "tag_row \<Rightarrow> channel \<Rightarrow> tag_row" where
  "add_child row channel =
     (let childCount = length (row_children row) + 1;
          row' = row\<lparr>row_children := row_children row @ [channel],
                    chan_used_quota := num_add (chan_used_quota row) (chan_used_quota channel),
                    chan_response_time :=
                      num_div (num_add (num_mul (chan_response_time row) (num_of_nat (childCount - 1))) (chan_response_time channel))
                        (num_of_nat childCount)\<rparr> in
      if strict_eq (chan_status channel) (JNum (Fin 1)) then row'\<lparr>chan_status := JNum (Fin 1)\<rparr>
      else if chan_status row' = JUndef then row'\<lparr>chan_status := chan_status channel\<rparr>
      else row')"

text \<open>The map and the result share their rows, in the same order.\<close>

definition aggregate_step :: "(jsstr \<times> tag_row) list \<Rightarrow> channel \<Rightarrow> (jsstr \<times> tag_row) list" where
  "aggregate_step rows channel =
     (let tag = tag_of channel;
          tagMap = (if map_of rows tag = None then map_set tag (new_tag_row tag channel) rows else rows) in
      case map_of tagMap tag of
        None \<Rightarrow> tagMap
      | Some row \<Rightarrow> map_set tag (add_child row channel) tagMap)"

definition aggregateChannelsByTag :: "channel list \<Rightarrow> tag_row list" where
  "aggregateChannelsByTag channels = map snd (foldl aggregate_step [] channels)"

datatype table_row = ChannelRow channel | TagRow tag_row

definition isTagAggregateRow :: "table_row \<Rightarrow> bool" where
  "isTagAggregateRow row = (case row of TagRow _ \<Rightarrow> True | ChannelRow _ \<Rightarrow> False)"

definition getChannelTableRowId :: "table_row \<Rightarrow> js_error + jsstr" where
  "getChannelTableRowId row =
     (case row of
        TagRow r \<Rightarrow> Inr (js ''tag:'' @ or_else (chan_tag r) [])
      | ChannelRow c \<Rightarrow> and_then (js_string (chan_id c)) (\<lambda>n. Inr (js ''channel:'' @ n)))"

section \<open>Models of the upstream\<close>

definition normalizeModelList :: "jsval \<Rightarrow> js_error + jsstr list" where
  "normalizeModelList models =
     (case js_or models (JArr []) of
        JArr xs \<Rightarrow>
          and_then (mapM (\<lambda>model. js_string (js_or model (JStr []))) xs) (\<lambda>names.
            Inr (uniq (filter (\<lambda>n. n \<noteq> []) (map trim names))))
      | _ \<Rightarrow> Inl TypeError)"

record upstream_update_meta =
  um_enabled :: bool
  um_pendingAddModels :: "jsstr list"
  um_pendingRemoveModels :: "jsstr list"

definition parsed_settings :: "jsval \<Rightarrow> jsval" where
  "parsed_settings settings =
     (case settings of
        JObj es \<Rightarrow> JObj es
      | JStr s \<Rightarrow> or_else (json_parse s) JNull
      | _ \<Rightarrow> JNull)"

definition parseUpstreamUpdateMeta :: "jsval \<Rightarrow> js_error + upstream_update_meta" where
  "parseUpstreamUpdateMeta settings =
     (let parsed = parsed_settings settings in
      if \<not> truthy parsed \<or> \<not> typeof_object parsed
      then Inr \<lparr>um_enabled = False, um_pendingAddModels = [], um_pendingRemoveModels = []\<rparr>
      else
        and_then (normalizeModelList (js_or (fld parsed ''upstream_model_update_last_detected_models'') (JArr []))) (\<lambda>added.
        and_then (normalizeModelList (js_or (fld parsed ''upstream_model_update_last_removed_models'') (JArr []))) (\<lambda>removed.
          Inr \<lparr>um_enabled = (fld parsed ''upstream_model_update_check_enabled'' = JBool True),
               um_pendingAddModels = added, um_pendingRemoveModels = removed\<rparr>)))"

section \<open>Delayed updates of a field\<close>

text \<open>
  \<open>createChannelFieldUpdateScheduler\<close>.  The timers are the argument \<open>timers\<close> of the code: \<open>set_timer\<close> starts one and tells its number,
  \<open>clear_timer\<close> stops one.  The calls of \<open>onUpdate\<close> are listed.
\<close>

definition CHANNEL_FIELD_UPDATE_DELAY_MS :: nat where
  "CHANNEL_FIELD_UPDATE_DELAY_MS = 800"

record 't scheduler =
  sc_timeoutId :: "nat option"
  sc_pendingValue :: "jsnum option"
  sc_timers :: 't
  sc_updates :: "jsnum list"

definition createScheduler :: "'t \<Rightarrow> 't scheduler" where
  "createScheduler timers = \<lparr>sc_timeoutId = None, sc_pendingValue = None, sc_timers = timers, sc_updates = []\<rparr>"

definition clearPendingTimer :: "(nat \<Rightarrow> 't \<Rightarrow> 't) \<Rightarrow> 't scheduler \<Rightarrow> 't scheduler" where
  "clearPendingTimer clear_timer s =
     (case sc_timeoutId s of
        None \<Rightarrow> s
      | Some i \<Rightarrow> s\<lparr>sc_timers := clear_timer i (sc_timers s), sc_timeoutId := None\<rparr>)"

definition commitPendingValue :: "(nat \<Rightarrow> 't \<Rightarrow> 't) \<Rightarrow> 't scheduler \<Rightarrow> 't scheduler" where
  "commitPendingValue clear_timer s =
     (let s' = clearPendingTimer clear_timer s in
      case sc_pendingValue s' of
        None \<Rightarrow> s'
      | Some v \<Rightarrow> s'\<lparr>sc_pendingValue := None, sc_updates := sc_updates s' @ [v]\<rparr>)"

definition scheduleValue :: "(nat \<Rightarrow> 't \<Rightarrow> nat \<times> 't) \<Rightarrow> (nat \<Rightarrow> 't \<Rightarrow> 't) \<Rightarrow> jsnum \<Rightarrow> 't scheduler \<Rightarrow> 't scheduler" where
  "scheduleValue set_timer clear_timer v s =
     (let s' = (clearPendingTimer clear_timer s)\<lparr>sc_pendingValue := Some v\<rparr>;
          (i, timers) = set_timer CHANNEL_FIELD_UPDATE_DELAY_MS (sc_timers s') in
      s'\<lparr>sc_timeoutId := Some i, sc_timers := timers\<rparr>)"

text \<open>
  What happens to a scheduler: a value is scheduled, the row is left (\<open>flush\<close>), or a running timer ends, which stops it and calls \<open>commitPendingValue\<close>.
\<close>

datatype edit = Schedule jsnum | Flush | Elapse nat

inductive edits ::
  "(nat \<Rightarrow> 't \<Rightarrow> nat \<times> 't) \<Rightarrow> (nat \<Rightarrow> 't \<Rightarrow> 't) \<Rightarrow> ('t \<Rightarrow> nat set) \<Rightarrow> 't scheduler \<Rightarrow> edit list \<Rightarrow> 't scheduler \<Rightarrow> bool"
  for set_timer clear_timer running s where
  edits_none: "edits set_timer clear_timer running s [] s"
| edits_schedule: "edits set_timer clear_timer running s es s' \<Longrightarrow>
    edits set_timer clear_timer running s (es @ [Schedule v]) (scheduleValue set_timer clear_timer v s')"
| edits_flush: "edits set_timer clear_timer running s es s' \<Longrightarrow>
    edits set_timer clear_timer running s (es @ [Flush]) (commitPendingValue clear_timer s')"
| edits_elapse: "edits set_timer clear_timer running s es s' \<Longrightarrow> i \<in> running (sc_timers s') \<Longrightarrow>
    edits set_timer clear_timer running s (es @ [Elapse i]) (commitPendingValue clear_timer (s'\<lparr>sc_timers := clear_timer i (sc_timers s')\<rparr>))"

text \<open>What the edits mean: a value waits until the next one replaces it or a pause saves it.\<close>

definition meaning_step :: "jsnum list \<times> jsnum option \<Rightarrow> edit \<Rightarrow> jsnum list \<times> jsnum option" where
  "meaning_step m e =
     (case e of
        Schedule v \<Rightarrow> (fst m, Some v)
      | _ \<Rightarrow> (case snd m of Some v \<Rightarrow> (fst m @ [v], None) | None \<Rightarrow> m))"

definition meaning :: "edit list \<Rightarrow> jsnum list \<times> jsnum option" where
  "meaning es = foldl meaning_step ([], None) es"

text \<open>The timers of a browser: the next number and the running ones with their delays.\<close>

record browser_timers =
  bt_next :: nat
  bt_running :: "(nat \<times> nat) list"

definition browser_set :: "nat \<Rightarrow> browser_timers \<Rightarrow> nat \<times> browser_timers" where
  "browser_set delay t = (bt_next t, \<lparr>bt_next = bt_next t + 1, bt_running = (bt_next t, delay) # bt_running t\<rparr>)"

definition browser_clear :: "nat \<Rightarrow> browser_timers \<Rightarrow> browser_timers" where
  "browser_clear i t = t\<lparr>bt_running := filter (\<lambda>(j, delay). j \<noteq> i) (bt_running t)\<rparr>"

definition browser_running :: "browser_timers \<Rightarrow> nat set" where
  "browser_running t = fst ` set (bt_running t)"

section \<open>Lemmas: delayed updates\<close>

text \<open>Timers, as the scheduler relies on them.\<close>

locale timers =
  fixes set_timer :: "nat \<Rightarrow> 't \<Rightarrow> nat \<times> 't"
    and clear_timer :: "nat \<Rightarrow> 't \<Rightarrow> 't"
    and running :: "'t \<Rightarrow> nat set"
  assumes running_set: "set_timer delay t = (i, t') \<Longrightarrow> running t' = insert i (running t)"
    and running_clear: "running (clear_timer i t) = running t - {i}"
begin

text \<open>A timer runs exactly while a value waits, and it is the one that the scheduler remembers.\<close>

definition in_step :: "'t scheduler \<Rightarrow> jsnum list \<times> jsnum option \<Rightarrow> bool" where
  "in_step s m \<longleftrightarrow>
     sc_updates s = fst m \<and> sc_pendingValue s = snd m \<and> running (sc_timers s) = set_option (sc_timeoutId s)
     \<and> (sc_timeoutId s = None \<longleftrightarrow> sc_pendingValue s = None)"

lemma clear_in_step:
  "in_step s m \<Longrightarrow> sc_timeoutId (clearPendingTimer clear_timer s) = None \<and> running (sc_timers (clearPendingTimer clear_timer s)) = {}
     \<and> sc_updates (clearPendingTimer clear_timer s) = fst m \<and> sc_pendingValue (clearPendingTimer clear_timer s) = snd m"
  by (auto simp: in_step_def clearPendingTimer_def running_clear split: option.split)

lemma commit_in_step: "in_step s m \<Longrightarrow> in_step (commitPendingValue clear_timer s) (meaning_step m Flush)"
  using clear_in_step [of s m] by (auto simp: in_step_def commitPendingValue_def Let_def meaning_step_def split: option.split)

lemma schedule_in_step: "in_step s m \<Longrightarrow> in_step (scheduleValue set_timer clear_timer v s) (meaning_step m (Schedule v))"
  using clear_in_step [of s m] by (auto simp: in_step_def scheduleValue_def Let_def meaning_step_def split: prod.split dest: running_set)

lemma elapse_in_step:
  assumes "in_step s m" "i \<in> running (sc_timers s)"
  shows "in_step (commitPendingValue clear_timer (s\<lparr>sc_timers := clear_timer i (sc_timers s)\<rparr>)) (meaning_step m (Elapse i))"
  using assms
  by (auto simp: in_step_def commitPendingValue_def clearPendingTimer_def Let_def meaning_step_def running_clear split: option.split)

lemma edits_in_step:
  "edits set_timer clear_timer running (createScheduler t) es s \<Longrightarrow> running t = {} \<Longrightarrow> in_step s (meaning es)"
proof (induction rule: edits.induct)
  case edits_none
  then show ?case by (simp add: in_step_def createScheduler_def meaning_def)
next
  case (edits_flush es s')
  then show ?case using commit_in_step by (simp add: meaning_def)
qed (simp_all add: meaning_def schedule_in_step elapse_in_step)

end

interpretation browser: timers browser_set browser_clear browser_running
  by unfold_locales (auto simp: browser_set_def browser_clear_def browser_running_def)

section \<open>Lemmas: rows by tag\<close>

lemma uniq_snoc: "uniq (xs @ [x]) = set_add (uniq xs) x"
  by (simp add: uniq_def)

lemma map_set_graph:
  "distinct ks \<Longrightarrow> k \<in> set ks \<Longrightarrow> map_set k v (map (\<lambda>x. (x, f x)) ks) = map (\<lambda>x. (x, if x = k then v else f x)) ks"
  by (induction ks) auto

lemma map_set_new: "k \<notin> fst ` set m \<Longrightarrow> map_set k v m = m @ [(k, v)]"
  by (induction m) auto

lemma map_of_graph: "map_of (map (\<lambda>x. (x, f x)) ks) k = (if k \<in> set ks then Some (f k) else None)"
  by (induction ks) auto

text \<open>The row of a tag, from the channels that have it.\<close>

definition row_for :: "jsstr \<Rightarrow> channel list \<Rightarrow> tag_row" where
  "row_for t cs = foldl add_child (new_tag_row t (hd cs)) cs"

definition with_tag :: "channel list \<Rightarrow> jsstr \<Rightarrow> channel list" where
  "with_tag cs t = filter (\<lambda>c. tag_of c = t) cs"

lemma with_tag_ne: "t \<in> tag_of ` set cs \<Longrightarrow> with_tag cs t \<noteq> []"
  by (auto simp: with_tag_def filter_empty_conv)

lemma row_for_snoc: "cs \<noteq> [] \<Longrightarrow> row_for t (cs @ [c]) = add_child (row_for t cs) c"
  by (simp add: row_for_def)

lemma aggregate_step_old: "map_of m (tag_of c) = Some r \<Longrightarrow> aggregate_step m c = map_set (tag_of c) (add_child r c) m"
  by (simp add: aggregate_step_def Let_def)

lemma aggregate_step_new:
  assumes "map_of m (tag_of c) = None"
  shows "aggregate_step m c = m @ [(tag_of c, add_child (new_tag_row (tag_of c) c) c)]"
proof -
  have new: "tag_of c \<notin> fst ` set m" using assms by (simp add: map_of_eq_None_iff)
  then have "map_set (tag_of c) v (m @ [(tag_of c, w)]) = m @ [(tag_of c, v)]" for v w by (induction m) auto
  then show ?thesis using assms new by (simp add: aggregate_step_def Let_def map_set_new map_add_def)
qed

text \<open>The rows are those of the tags in the order in which the tags first occur.\<close>

lemma aggregate_rows: "foldl aggregate_step [] cs = map (\<lambda>t. (t, row_for t (with_tag cs t))) (uniq (map tag_of cs))"
proof (induction cs rule: rev_induct)
  case Nil
  show ?case by (simp add: uniq_def)
next
  case (snoc c cs)
  let ?ts = "uniq (map tag_of cs)" and ?t = "tag_of c"
  have other: "with_tag (cs @ [c]) u = with_tag cs u" if "u \<noteq> ?t" for u using that by (simp add: with_tag_def)
  have same: "with_tag (cs @ [c]) ?t = with_tag cs ?t @ [c]" by (simp add: with_tag_def)
  show ?case
  proof (cases "?t \<in> set ?ts")
    case True
    then have "row_for ?t (with_tag (cs @ [c]) ?t) = add_child (row_for ?t (with_tag cs ?t)) c"
      by (simp add: same row_for_snoc with_tag_ne)
    then show ?thesis
      using snoc True by (auto simp: aggregate_step_old map_of_graph map_set_graph uniq_snoc set_add_def other)
  next
    case False
    then have "with_tag cs ?t = []" by (auto simp: with_tag_def filter_empty_conv image_iff)
    then have "row_for ?t (with_tag (cs @ [c]) ?t) = add_child (new_tag_row ?t c) c" by (simp add: same row_for_def)
    moreover have "map (\<lambda>t. (t, row_for t (with_tag (cs @ [c]) t))) ?ts = map (\<lambda>t. (t, row_for t (with_tag cs t))) ?ts"
      using False other by (intro map_cong) (auto simp: image_iff)
    moreover have "aggregate_step (map (\<lambda>t. (t, row_for t (with_tag cs t))) ?ts) c =
        map (\<lambda>t. (t, row_for t (with_tag cs t))) ?ts @ [(?t, add_child (new_tag_row ?t c) c)]"
      using False by (intro aggregate_step_new) (simp add: map_of_graph)
    ultimately show ?thesis using snoc False by (simp add: uniq_snoc set_add_def)
  qed
qed

lemma add_child_fields:
  "row_children (add_child r c) = row_children r @ [c]" "chan_tag (add_child r c) = chan_tag r"
  "chan_used_quota (add_child r c) = num_add (chan_used_quota r) (chan_used_quota c)"
  by (simp_all add: add_child_def Let_def)

lemma add_child_status:
  "chan_status (add_child r c) =
     (if isChannelEnabled c then JNum (Fin 1) else if chan_status r = JUndef then chan_status c else chan_status r)"
  by (simp add: add_child_def Let_def isChannelEnabled_def)

lemma new_tag_row_fields:
  "row_children (new_tag_row t c) = []" "chan_tag (new_tag_row t c) = Some t" "chan_used_quota (new_tag_row t c) = Fin 0"
  "chan_status (new_tag_row t c) = JUndef"
  by (simp_all add: new_tag_row_def channel.defs tag_row.defs)

lemma foldl_add_child:
  "row_children (foldl add_child r cs) = row_children r @ cs" "chan_tag (foldl add_child r cs) = chan_tag r"
  "chan_used_quota (foldl add_child r cs) = foldl num_add (chan_used_quota r) (map chan_used_quota cs)"
  by (induction cs arbitrary: r) (simp_all add: add_child_fields)

text \<open>Enabled if a child is, otherwise as the first child that has a status.\<close>

definition status_of_children :: "channel list \<Rightarrow> jsval" where
  "status_of_children cs =
     (if list_ex isChannelEnabled cs then JNum (Fin 1)
      else (case find (\<lambda>c. chan_status c \<noteq> JUndef) cs of Some c \<Rightarrow> chan_status c | None \<Rightarrow> JUndef))"

lemma foldl_add_child_status:
  "chan_status (foldl add_child r cs) =
     (if list_ex isChannelEnabled cs then JNum (Fin 1)
      else if chan_status r \<noteq> JUndef then chan_status r
      else status_of_children cs)"
  by (induction cs arbitrary: r) (auto simp: add_child_status status_of_children_def split: option.split)

lemma row_for_fields:
  "row_children (row_for t cs) = cs" "chan_tag (row_for t cs) = Some t"
  "chan_used_quota (row_for t cs) = foldl num_add (Fin 0) (map chan_used_quota cs)"
  "chan_status (row_for t cs) = status_of_children cs"
  by (simp_all add: row_for_def foldl_add_child foldl_add_child_status new_tag_row_fields status_of_children_def)

section \<open>Lemmas: keys\<close>

lemma trim_subset: "set (trim s) \<subseteq> set s"
proof -
  have "set (trim s) \<subseteq> set (trim_start s)" unfolding trim_def using trim_end_prefix by (rule set_mono_prefix)
  also have "\<dots> \<subseteq> set s" by (auto simp: trim_start_def dest: set_dropWhileD)
  finally show ?thesis .
qed

lemma trim_blank: "trim s = [] \<longleftrightarrow> (\<forall>c \<in> set s. is_ws c)"
proof
  assume "trim s = []"
  then have "\<forall>c \<in> set (dropWhile is_ws s). is_ws c" by (simp add: trim_def trim_start_def trim_end_def dropWhile_eq_Nil_conv)
  then show "\<forall>c \<in> set s. is_ws c" by (metis hd_dropWhile hd_in_set dropWhile_eq_Nil_conv)
next
  assume "\<forall>c \<in> set s. is_ws c"
  then show "trim s = []" using trim_hd trim_subset hd_in_set by blast
qed

lemma set_split_on: "set s \<subseteq> insert c (\<Union> (set ` set (split_on c s)))"
proof (induction s)
  case (Cons x s)
  then show ?case by (cases "split_on c s") auto
qed simp

text \<open>The keys of a text: its lines, trimmed, without blank ones.\<close>

definition keys_of :: "jsstr \<Rightarrow> jsstr list" where
  "keys_of s = filter (\<lambda>k. k \<noteq> []) (map trim (split_on newline s))"

lemma keys_of_Nil: "trim s = [] \<Longrightarrow> keys_of s = []"
proof -
  assume "trim s = []"
  then have ws: "\<forall>c \<in> set s. is_ws c" by (simp add: trim_blank)
  have "set l \<subseteq> set s" if "l \<in> set (split_on newline s)" for l
    using that by (induction s arbitrary: l) (fastforce split: list.splits if_splits)+
  with ws show ?thesis by (auto simp: keys_of_def filter_empty_conv trim_blank)
qed

lemma keys_of_ne: "keys_of s = [] \<Longrightarrow> trim s = []"
proof -
  assume "keys_of s = []"
  then have "\<forall>l \<in> set (split_on newline s). \<forall>c \<in> set l. is_ws c" by (auto simp: keys_of_def filter_empty_conv trim_blank)
  moreover have "is_ws newline" by (simp add: newline_def is_ws_def)
  ultimately have "\<forall>c \<in> set s. is_ws c" using set_split_on [of s newline] by blast
  then show ?thesis by (simp add: trim_blank)
qed

lemma keys_of_good: "k \<in> set (keys_of s) \<Longrightarrow> k \<noteq> [] \<and> trim k = k \<and> newline \<notin> set k"
  using trim_subset split_on_parts by (fastforce simp: keys_of_def)

lemma keys_of_join: "\<forall>k \<in> set ks. k \<noteq> [] \<and> trim k = k \<and> newline \<notin> set k \<Longrightarrow> keys_of (join [newline] ks) = ks"
proof (cases "ks = []")
  case False
  assume good: "\<forall>k \<in> set ks. k \<noteq> [] \<and> trim k = k \<and> newline \<notin> set k"
  then have "map trim ks = ks" by (intro map_idI) blast
  then show ?thesis using False good by (simp add: keys_of_def split_on_join filter_id_conv)
qed (simp add: keys_of_def)

lemma dedup_lines_uniq: "dedup_lines ls keys = foldl set_add keys (filter (\<lambda>k. k \<noteq> []) (map trim ls))"
  by (induction ls arbitrary: keys) (auto simp: set_add_def)

lemma dedup_text: "dd_text (deduplicateKeys s) = join [newline] (uniq (keys_of s))"
  by (auto simp: deduplicateKeys_def Let_def dedup_lines_uniq keys_of_Nil) (simp_all add: uniq_def keys_of_def)

lemma dedup_after: "dd_after (deduplicateKeys s) = length (uniq (keys_of s))"
  by (auto simp: deduplicateKeys_def Let_def dedup_lines_uniq keys_of_Nil) (simp_all add: uniq_def keys_of_def)

lemma countKeys_keys: "countKeys s = length (keys_of s)"
proof -
  have "length (nonblank_lines s) = length (keys_of s)" by (simp add: nonblank_lines_def keys_of_def filter_map comp_def)
  then show ?thesis by (simp add: countKeys_def keys_of_def)
qed

section \<open>Lemmas: what edits mean\<close>

fun scheduled :: "edit list \<Rightarrow> jsnum list" where
  "scheduled [] = []"
| "scheduled (Schedule v # es) = v # scheduled es"
| "scheduled (_ # es) = scheduled es"

lemma scheduled_append: "scheduled (es @ fs) = scheduled es @ scheduled fs"
  by (induction es rule: scheduled.induct) simp_all

lemma subseq_snoc: "subseq xs zs \<Longrightarrow> subseq (xs @ [v]) (zs @ [v])"
  by (rule list_emb_append_mono) simp_all

definition saved_or_waiting :: "jsnum list \<times> jsnum option \<Rightarrow> jsnum list" where
  "saved_or_waiting m = fst m @ (case snd m of Some v \<Rightarrow> [v] | None \<Rightarrow> [])"

text \<open>Values are saved in the order of their edits, at most once each, and the last one is never lost.\<close>

lemma meaning_keeps:
  "subseq (saved_or_waiting (meaning es)) (scheduled es)
   \<and> (scheduled es \<noteq> [] \<longrightarrow> saved_or_waiting (meaning es) \<noteq> [] \<and> last (saved_or_waiting (meaning es)) = last (scheduled es))"
proof (induction es rule: rev_induct)
  case Nil
  show ?case by (simp add: meaning_def saved_or_waiting_def)
next
  case (snoc e es)
  let ?m = "meaning es"
  have step: "meaning (es @ [f]) = meaning_step ?m f" for f by (simp add: meaning_def)
  show ?case
  proof (cases e)
    case (Schedule v)
    have "subseq (fst ?m) (saved_or_waiting ?m)" by (auto simp: saved_or_waiting_def intro: prefix_imp_subseq)
    then have "subseq (fst ?m) (scheduled es)" using snoc subseq_order.trans by blast
    moreover have "saved_or_waiting (meaning (es @ [e])) = fst ?m @ [v]" "scheduled (es @ [e]) = scheduled es @ [v]"
      using Schedule by (simp_all add: step meaning_step_def saved_or_waiting_def scheduled_append)
    ultimately show ?thesis by (simp add: subseq_snoc)
  qed (use snoc in \<open>auto simp: step meaning_step_def saved_or_waiting_def scheduled_append split: option.splits\<close>)
qed

section \<open>Lemmas: attention, masks, protocols and model lists\<close>

lemma attention_has_reason: "channelNeedsAttention c \<longleftrightarrow> getAttentionReason c \<noteq> None"
  by (simp add: channelNeedsAttention_def getAttentionReason_def)

text \<open>A key of more than sixteen characters shows its first and last eight; one of at most eight shows all of them.\<close>

lemma long_key_masked:
  "16 < length p + length m + length s \<Longrightarrow> length p = 8 \<Longrightarrow> length s = 8 \<Longrightarrow> formatChannelKey (p @ m @ s) False = p @ js ''...'' @ s"
  by (auto simp: formatChannelKey_def last_chars_def)

lemma short_key_shown:
  assumes "length k \<le> 8" "length k = length k'" "formatChannelKey k False = formatChannelKey k' False"
  shows "k = k'"
proof (cases "k = []")
  case False
  have halves: "take 4 k = take 4 k' \<and> last_chars 4 k = last_chars 4 k'"
    using assms False by (auto simp: formatChannelKey_def last_chars_def append_eq_append_conv min_def split: if_splits)
  show ?thesis
  proof (rule nth_equalityI)
    fix i assume i: "i < length k"
    show "k ! i = k' ! i"
    proof (cases "i < 4")
      case True
      then show ?thesis using halves by (metis nth_take)
    next
      case False
      let ?d = "length k - 4"
      have "drop ?d k ! (i - ?d) = drop ?d k' ! (i - ?d)" using halves assms(2) by (simp add: last_chars_def)
      then show ?thesis using False i assms(1,2) by simp
    qed
  qed (rule assms(2))
qed (use assms in simp)

lemma protocols_by_type:
  "PROTOCOLS_BY_ADAPTER_TYPE = [(1, [js ''openai-chat'', js ''openai-responses'']), (14, [js ''anthropic'']), (24, [js ''gemini''])]"
  by (simp add: PROTOCOLS_BY_ADAPTER_TYPE_def CHANNEL_PROTOCOL_OPTIONS_def or_else_def)

text \<open>Every protocol that a channel can have is one of the four, has a filter, and is read back from the settings that name it.\<close>

lemma protocol_offered: "getChannelProtocol type settings = Some p \<Longrightarrow> isChannelProtocol (JStr p) \<and> p \<in> fst ` set CHANNEL_PROTOCOL_FILTER_OPTIONS"
  by (auto simp: getChannelProtocol_def candidates_def protocols_by_type isChannelProtocol_def CHANNEL_PROTOCOL_OPTIONS_def
      CHANNEL_PROTOCOL_FILTER_OPTIONS_def split: if_splits option.splits list.splits jsval.splits)

lemma protocol_of_settings: "isChannelProtocol (JStr p) \<Longrightarrow> getChannelProtocol type (JObj ((js ''protocol'', JStr p) # es)) = Some p"
  by (simp add: getChannelProtocol_def get_prop_def)

text \<open>A list of models has each model once, trimmed and not blank, and is its own normal form.\<close>

lemma normalizeModelList_normal:
  assumes "normalizeModelList v = Inr ms"
  shows "distinct ms \<and> (\<forall>m \<in> set ms. m \<noteq> [] \<and> trim m = m) \<and> normalizeModelList (JArr (map JStr ms)) = Inr ms"
proof -
  have good: "distinct ms" "\<forall>m \<in> set ms. m \<noteq> [] \<and> trim m = m"
    using assms by (auto simp: normalizeModelList_def and_then_simps split: jsval.splits sum.splits)
  have "mapM (\<lambda>model. js_string (js_or model (JStr []))) (map JStr ms) = Inr ms"
    using good(2) by (auto simp: mapM_Inr list_all2_map1 list_all2_same js_or_def truthy_def js_string.simps)
  moreover have "map trim ms = ms" using good(2) by (intro map_idI) blast
  ultimately have "normalizeModelList (JArr (map JStr ms)) = Inr ms"
    using good by (simp add: normalizeModelList_def js_or_def truthy_def and_then_simps filter_id_conv uniq_distinct)
  with good show ?thesis by simp
qed

section \<open>Properties\<close>

text \<open>
  C33.  In tag mode there is one row per tag, in the order in which tags first occur (channels without a tag share the row of the empty tag),
  every channel is a child of exactly the row of its tag, in order, and a row has the summed quota of its children and is enabled exactly when a child is,
  having otherwise the first status of a child; the ids of the rows are distinct.
\<close>

theorem tag_rows_partition:
  shows "map chan_tag (aggregateChannelsByTag cs) = map Some (uniq (map tag_of cs))
    \<and> (\<forall>row \<in> set (aggregateChannelsByTag cs).
         row_children row \<noteq> [] \<and> row_children row = filter (\<lambda>c. Some (tag_of c) = chan_tag row) cs
         \<and> chan_used_quota row = foldl num_add (Fin 0) (map chan_used_quota (row_children row))
         \<and> chan_status row = status_of_children (row_children row))
    \<and> mset (concat (map row_children (aggregateChannelsByTag cs))) = mset cs
    \<and> distinct (map (\<lambda>row. getChannelTableRowId (TagRow row)) (aggregateChannelsByTag cs))"
proof -
  let ?ts = "uniq (map tag_of cs)"
  have rows: "aggregateChannelsByTag cs = map (\<lambda>t. row_for t (with_tag cs t)) ?ts"
    by (simp add: aggregateChannelsByTag_def aggregate_rows)
  have "mset (concat (map (with_tag cs) ts)) = mset (filter (\<lambda>c. tag_of c \<in> set ts) cs)" if "distinct ts" for ts
    using that
  proof (induction ts)
    case (Cons t ts)
    have "mset (filter (\<lambda>c. tag_of c \<in> set (t # ts)) cs) = mset (with_tag cs t) + mset (filter (\<lambda>c. tag_of c \<in> set ts) cs)"
      using Cons.prems unfolding with_tag_def by (induction cs) auto
    then show ?case using Cons by simp
  qed simp
  from this [of ?ts] have "mset (concat (map (with_tag cs) ?ts)) = mset cs"
    by (simp add: filter_id_conv [THEN iffD2])
  moreover have "distinct (map (\<lambda>t. (Inr (js ''tag:'' @ t) :: js_error + jsstr)) ?ts)" by (simp add: distinct_map inj_on_def)
  moreover have "map row_children (aggregateChannelsByTag cs) = map (with_tag cs) ?ts" by (simp add: rows row_for_fields)
  ultimately show ?thesis
    by (auto simp: rows row_for_fields comp_def getChannelTableRowId_def or_else_def with_tag_ne) (simp_all add: with_tag_def)
qed

text \<open>
  Removing duplicate keys leaves, one per line, the keys of the text (its lines, trimmed and not blank), each once and in the order of their
  first occurrence; it counts them as they are counted elsewhere, and doing it again changes and removes nothing.
\<close>

lemma keys_deduplicated:
  "keys_of (dd_text (deduplicateKeys s)) = uniq (keys_of s)
   \<and> dd_after (deduplicateKeys s) = countKeys (dd_text (deduplicateKeys s))
   \<and> set (keys_of (dd_text (deduplicateKeys s))) = set (keys_of s)
   \<and> dd_text (deduplicateKeys (dd_text (deduplicateKeys s))) = dd_text (deduplicateKeys s)
   \<and> dd_removed (deduplicateKeys (dd_text (deduplicateKeys s))) = 0"
proof -
  let ?ks = "uniq (keys_of s)" and ?t = "dd_text (deduplicateKeys s)"
  have keys: "keys_of ?t = ?ks" using keys_of_good by (simp add: dedup_text keys_of_join)
  have "dd_removed (deduplicateKeys ?t) = 0"
  proof (cases "?ks = []")
    case True
    then have "?t = []" by (simp add: dedup_text)
    then show ?thesis by (simp add: deduplicateKeys_def [of "[]"])
  next
    case False
    then have "split_on newline ?t = ?ks" using keys_of_good by (auto simp: dedup_text intro!: split_on_join)
    moreover have "dedup_lines (split_on newline ?t) [] = uniq (keys_of ?t)" by (simp add: dedup_lines_uniq uniq_def keys_of_def)
    ultimately show ?thesis by (simp add: deduplicateKeys_def [of ?t] Let_def keys uniq_distinct)
  qed
  then show ?thesis by (simp add: keys dedup_after countKeys_keys dedup_text [of ?t] uniq_distinct) (simp add: dedup_text)
qed

text \<open>
  C32.  However a number is edited, left and paused upon, the updates that are sent are what the edits mean: a value is sent once, in order,
  and only when no newer one replaced it; the last edit was sent or is waiting, and it waits exactly while the one timer runs.
\<close>

theorem field_updates_debounced:
  assumes "edits browser_set browser_clear browser_running (createScheduler t) es s" "browser_running t = {}"
  shows "sc_updates s = fst (meaning es) \<and> sc_pendingValue s = snd (meaning es)
    \<and> browser_running (sc_timers s) = set_option (sc_timeoutId s) \<and> (sc_timeoutId s = None \<longleftrightarrow> sc_pendingValue s = None)
    \<and> subseq (saved_or_waiting (sc_updates s, sc_pendingValue s)) (scheduled es)
    \<and> (scheduled es \<noteq> [] \<longrightarrow> saved_or_waiting (sc_updates s, sc_pendingValue s) \<noteq> []
         \<and> last (saved_or_waiting (sc_updates s, sc_pendingValue s)) = last (scheduled es))"
  using browser.edits_in_step [OF assms] meaning_keeps [of es] by (simp add: browser.in_step_def)

section \<open>Examples\<close>

definition example_channel :: "nat \<Rightarrow> jsstr option \<Rightarrow> nat \<Rightarrow> nat \<Rightarrow> channel" where
  "example_channel i tag status quota =
     \<lparr>chan_id = JNum (num_of_nat i), chan_type = Fin 1, chan_key = [], chan_openai_organization = None, chan_test_model = None,
      chan_status = JNum (Fin (of_nat status)), chan_name = js ''example'', chan_created_time = Fin 0, chan_test_time = Fin 0,
      chan_response_time = Fin 0, chan_base_url = None, chan_other = [], chan_balance = Fin 0, chan_balance_updated_time = Fin 0,
      chan_models = [], chan_used_quota = num_of_nat quota, chan_model_mapping = None, chan_status_code_mapping = None,
      chan_auto_ban = None, chan_other_info = [], chan_tag = tag, chan_setting = None, chan_param_override = None,
      chan_header_override = None, chan_remark = [], chan_max_input_tokens = Fin 0, chan_channel_info = None, chan_settings = js ''{}''\<rparr>"

definition example_channels :: "channel list" where
  "example_channels = [example_channel 1 (Some (js ''a'')) 2 10, example_channel 2 None 1 5, example_channel 3 (Some (js ''a'')) 1 7]"

theorem tag_rows_partition_witness:
  "map chan_tag (aggregateChannelsByTag example_channels) = [Some (js ''a''), Some []]
   \<and> row_children (hd (aggregateChannelsByTag example_channels)) = [hd example_channels, last example_channels]
   \<and> chan_status (hd (aggregateChannelsByTag example_channels)) = JNum (Fin 1)"
proof -
  let ?rows = "aggregateChannelsByTag example_channels"
  have tags: "map chan_tag ?rows = [Some (js ''a''), Some []]"
    using tag_rows_partition [of example_channels]
    by (simp add: example_channels_def example_channel_def tag_of_def or_else_def uniq_def set_add_def js_def)
  then have first: "chan_tag (hd ?rows) = Some (js ''a'')" "hd ?rows \<in> set ?rows" by (cases ?rows; simp)+
  then have "row_children (hd ?rows) = filter (\<lambda>c. tag_of c = js ''a'') example_channels"
    "chan_status (hd ?rows) = status_of_children (row_children (hd ?rows))"
    using tag_rows_partition [of example_channels] by auto
  with tags show ?thesis
    by (simp add: example_channels_def example_channel_def tag_of_def or_else_def js_def status_of_children_def isChannelEnabled_def)
qed

text \<open>A value is edited twice, the timer of the second edit ends, and a third edit waits.\<close>

definition example_timers :: browser_timers where
  "example_timers = \<lparr>bt_next = 1, bt_running = []\<rparr>"

definition example_edits :: "edit list" where
  "example_edits = [Schedule (Fin 5), Schedule (Fin 7), Elapse 2, Schedule (Fin 9)]"

lemma example_run:
  "edits browser_set browser_clear browser_running (createScheduler example_timers) example_edits
     \<lparr>sc_timeoutId = Some 3, sc_pendingValue = Some (Fin 9), sc_timers = \<lparr>bt_next = Suc 3, bt_running = [(3, 800)]\<rparr>, sc_updates = [Fin 7]\<rparr>"
proof -
  let ?E = "edits browser_set browser_clear browser_running (createScheduler example_timers)"
  have step1: "?E ([] @ [Schedule (Fin 5)]) (scheduleValue browser_set browser_clear (Fin 5) (createScheduler example_timers))"
    by (intro edits_schedule edits_none)
  note step2 = edits_schedule [OF step1, of "Fin 7"]
  let ?s = "scheduleValue browser_set browser_clear (Fin 7) (scheduleValue browser_set browser_clear (Fin 5) (createScheduler example_timers))"
  have "2 \<in> browser_running (sc_timers ?s)"
    by (simp add: scheduleValue_def clearPendingTimer_def createScheduler_def example_timers_def browser_set_def browser_clear_def browser_running_def)
  from edits_schedule [OF edits_elapse [OF step2 this], of "Fin 9"] show ?thesis
    by (simp add: example_edits_def scheduleValue_def clearPendingTimer_def commitPendingValue_def createScheduler_def example_timers_def
        browser_set_def browser_clear_def CHANNEL_FIELD_UPDATE_DELAY_MS_def numeral_2_eq_2 numeral_3_eq_3)
qed

theorem field_updates_debounced_witness:
  "\<exists>s. edits browser_set browser_clear browser_running (createScheduler example_timers) example_edits s
     \<and> browser_running example_timers = {} \<and> sc_updates s = [Fin 7] \<and> sc_pendingValue s = Some (Fin 9)
     \<and> browser_running (sc_timers s) = {3}"
proof -
  have idle: "browser_running example_timers = {}" by (simp add: browser_running_def example_timers_def)
  have "meaning example_edits = ([Fin 7], Some (Fin 9))" by (simp add: meaning_def meaning_step_def example_edits_def)
  then show ?thesis using example_run idle field_updates_debounced [OF example_run idle] by fastforce
qed

end
