(* ===== verification/Spec2Isabelle.thy ===== *)
theory Spec2Isabelle
  imports BillingProperties BillingStructure DisplayProofs BillingRules StatusCodeRules Sha256
    RouteEvents Lanes ChannelRules Messages AuthSession ChannelFormProofs
    PlaygroundState ChatHandlerProofs ServerErrors ChannelList
begin

text \<open>
  The console of the PowerBarRations gateway, the TypeScript code under \<open>src/web/src\<close>: a shallow
  embedding of its libraries and the theorems that make them correct.

  \<^bold>\<open>The program.\<close>  The gateway is a Go server that relays requests to upstream channels; the console
  is a React application that configures it and watches it.  Pages and components render; the logic
  is in libraries, and those are modelled here.  The parts and how they interact:

  \<^item> \<^bold>\<open>Billing expressions\<close> (\<open>features/usage-logs/lib/billing-expression\<close>).  A price is an
    expression of a small language.  \<open>parser.ts\<close> lexes and parses it, checks types and the shape
    of fixed prices and caches compilations; \<open>runtime.ts\<close> evaluates a compiled expression on token
    counts and a request; \<open>types.ts\<close> has the tree, the diagnostics and the bounded traversal;
    \<open>structure.ts\<close> splits expression text; \<open>display.ts\<close> reads price tables off compiled trees;
    \<open>../billing-expr.ts\<close> separates the request rules of an expression from its price for the logs.
  \<^item> \<^bold>\<open>Lanes\<close>.  \<open>lib/route-events.ts\<close> keeps a stream of lane states open, parses it, and reconciles
    it with polling; \<open>features/routes/lib\<close> orders the members of a lane and derives what is shown.
  \<^item> \<^bold>\<open>Session\<close>.  \<open>lib/auth-session.ts\<close> with \<open>stores/auth-store.ts\<close>, \<open>lib/pbr-auth.ts\<close>,
    \<open>lib/session-hint.ts\<close> and \<open>lib/auth-session-sync.ts\<close> decides whether the visitor is signed in.
  \<^item> \<^bold>\<open>Channel configuration\<close>.  \<open>lib/http-status-code-rules.ts\<close> and, in
    \<open>features/channels/lib\<close>, \<open>model-mapping-validation.ts\<close> and \<open>status-code-risk-guard.ts\<close> check
    the fields of a channel; \<open>advanced-custom.ts\<close> has the routes of an advanced custom channel, and
    \<open>channel-form.ts\<close> turns a channel into a form, checks the form, which calls the validation of
    routes, and turns it into the payloads and the JSON texts that are stored.  \<open>channel-utils.ts\<close> derives the
    rows of the list, and \<open>channel-field-update.ts\<close> saves a number edited in a row after a pause.
  \<^item> \<^bold>\<open>Errors\<close>.  \<open>lib/server-error-message.ts\<close> decides, for every part, what a failed request says.
  \<^item> \<^bold>\<open>Playground\<close> (\<open>features/playground\<close>): a test conversation.  \<open>lib/message\<close> has its messages, how
    streamed chunks change them and what is shown of them; \<open>lib/streaming\<close>, \<open>api.ts\<close> and
    \<open>hooks/use-stream-request.ts\<close> the requests; \<open>hooks/use-chat-handler.ts\<close> and
    \<open>hooks/use-playground-conversation.ts\<close> run a request for a conversation through them;
    \<open>lib/storage\<close> and \<open>hooks/use-playground-state.ts\<close> keep configuration and messages in the browser.
  \<^item> \<^bold>\<open>Digest\<close>: \<open>lib/sha256.ts\<close>, used where the browser offers no crypto interface.

  \<^bold>\<open>The language.\<close>  \<open>JsPrelude\<close>: strings as lists of UTF-16 code units and the operations used of
  them, maps and sets in insertion order, thrown errors as the left summand of a sum
  (\<open>and_then\<close>).  \<open>JsNumber\<close>: IEEE doubles as rationals with a rounding function, decimal numerals
  and number printing; \<open>JsMath\<close> adds rounding to integers and shows that rounding never carries a
  value across a double.  \<open>JsValue\<close>: values of unknown type.  \<open>JsDate\<close>: the UTC calendar.
  \<open>JsJson\<close>: \<open>JSON.parse\<close>, truthiness and property access.  \<open>JsNumberPrint\<close>: seventeen digits name a
  double, so that \<open>Number(String(x))\<close> is \<open>x\<close>.  \<open>JsJsonPrint\<close>: \<open>JSON.stringify\<close>, and that parsing its text
  gives the value back.

  \<^bold>\<open>Theories and what they show.\<close>

  \<^item> \<open>BillingTypes\<close> (\<open>types.ts\<close>): nodes, diagnostics, \<open>visitExpression\<close>.
  \<^item> \<open>BillingLexer\<close>, \<open>BillingParser\<close> (\<open>parser.ts\<close>, class \<open>BillingParser\<close>): the parser threads the
    record of the object's fields; its recursion carries fuel.  Parsed trees are well formed and
    their nodes are told apart by their spans; the fuel never runs out.
  \<^item> \<open>Memo\<close>, \<open>BillingCompile\<close> (the rest of \<open>parser.ts\<close>): type checker, request rules, fixed pricing,
    compilation.  \<open>Memo\<close> is the interface of a bounded cache, interpreted on the association list of
    at most 128 compilations; caching is invisible.
  \<^item> \<open>BillingRuntime\<close> (\<open>runtime.ts\<close>), \<open>RuntimeProofs\<close>: the evaluator as a state transformer with
    errors.  The locales \<open>runtime_relation\<close> and \<open>runtime_frame\<close> state what every evaluation keeps
    of the state and are interpreted for the depth counter, the request rules, the price and the
    table of zone times; type soundness is proved on top.  \<open>BillingArithmetic\<close>: exactness of integer
    arithmetic against unbounded integers.  \<open>TimeTable\<close>: the table of zone times is invisible.
  \<^item> \<open>BillingTyping\<close>: the typing rules of the language as an inductive judgement, one rule for each construct,
    stated without the checker; the checker accepts exactly the trees that have a type.
  \<^item> \<open>BillingProperties\<close>: the properties of the language, its compiler and its runtime.
  \<^item> \<open>BillingStructure\<close> (\<open>structure.ts\<close>): splitting and unwrapping lose nothing.  \<open>BillingFactors\<close>: what the
    two loops compute, by a scan of the text: the pieces between top-level asterisks, and matching
    parentheses around a balanced text.
  \<^item> \<open>BillingDisplay\<close>, \<open>DisplayProofs\<close> (\<open>display.ts\<close>): the table shown agrees with the evaluator,
    the audio form included; time branches partition the clock.
  \<^item> \<open>BillingRules\<close> (\<open>billing-expr.ts\<close>): the split into price and rules keeps every factor of the product, as
    \<open>BillingFactors\<close> specifies them, and sees nothing of the cache; when it throws; two expressions that it gets wrong.
  \<^item> \<open>RouteEvents\<close>: the event parser equals a reading of the whole text, however it is cut; backoff
    bounds in doubles; reconciliation; the connection loop as a step function on the events its
    awaits deliver, with invariant, termination after \<open>close\<close> and retry before it.
  \<^item> \<open>Lanes\<close>: dragging moves one member; resolution of upstream names and where it throws.
  \<^item> \<open>AuthSession\<close>: the store and the epoch as a world that other code may change during every await;
    a refresh ends after at most eight requests and its outcome tells the state of the store.  The
    locale \<open>session_refresher\<close> is what the entry points need of a refresh; it is interpreted on the
    runner, and headers are shown to match the store, with the one window in which they carry no credential.
  \<^item> \<open>StatusCodeRules\<close>: rules mean what their segments mean and their normal form is stable.
  \<^item> \<open>ChannelRules\<close>: repairs of the model list repair; the redirect guard is exact.
  \<^item> \<open>AdvancedCustom\<close>, \<open>AdvancedCustomProofs\<close> (\<open>advanced-custom.ts\<close>): routes are values of any type, and
    reading them may throw.  The one-pass validation accepts exactly the configurations of an
    order-free description of good routes plus a pairwise condition; a configuration survives saving and
    loading; all that the editor offers is valid; what replacing routes keeps; a stored text on which the
    statistics throw.
  \<^item> \<open>ChannelForm\<close>, \<open>ChannelFormProofs\<close> (\<open>channel-form.ts\<close>): forms and channels are objects.  The extra
    settings that a form stores survive loading and saving again, while a text of another origin may be
    rewritten; what is stored of the type-specific settings is specified key by key with the numbers of the
    channel types; an update never replaces a key that was not entered.
  \<^item> \<open>Messages\<close>: reasoning tags lose nothing; streaming and repair on load, with the two
    places where the code does less than it says.
  \<^item> \<open>PlaygroundStorage\<close> (\<open>lib/storage\<close>): the storages of the browser as state that may be full or
    unavailable; the locale \<open>key_value_storage\<close> is what the code needs of one and is interpreted on the list
    of entries.  A client key never stays in the storage that outlives the tab; what loading messages keeps.
  \<^item> \<open>PlaygroundState\<close> (\<open>hooks/use-playground-state.ts\<close>, \<open>lib/state\<close>): setters queue updates,
    which run at any time up to the next rendering.  A changed configuration survives a reload, and
    unmounting saves the newest messages shown; the hypotheses on storage and schema are those of the
    theorems, and the witnesses use schemas with the fields of \<open>storage-schema.ts\<close>.
  \<^item> \<open>StreamRequest\<close> (\<open>lib/streaming\<close>, \<open>api.ts\<close>, \<open>hooks/use-stream-request.ts\<close>): the controller as a step
    relation in which sources emit anything at any time.  At most one source is open and callbacks come in
    order.  The locales \<open>current_client\<close> and \<open>related_client\<close> are what the controller's client provides.
  \<^item> \<open>ChatHandler\<close>, \<open>ChatHandlerProofs\<close> (\<open>hooks/use-chat-handler.ts\<close>,
    \<open>hooks/use-playground-conversation.ts\<close>): the handlers interpret both locales; updates of messages wait in
    a queue until a render.  Stopping is final, the text of a stream is shown whole whatever the timing, and a
    message without a client key strands a running request.
  \<^item> \<open>ServerErrors\<close> (\<open>lib/server-error-message.ts\<close>): errors are cells of a heap that may refer to each other in
    circles.  The sources of an error are exactly the objects it reaches; an error that hides its details
    cannot be seen through; wrapping an error changes nothing that is shown of it.
  \<^item> \<open>ChannelList\<close> (\<open>channel-utils.ts\<close>, \<open>upstream-update-utils.ts\<close>, \<open>channel-field-update.ts\<close>): rows by tag partition
    the channels; keys are deduplicated and masked as lemmas say; the locale \<open>timers\<close> is what the delayed update
    of a field needs of timers and is interpreted on those of a browser, and the updates sent are what the
    edits mean.
  \<^item> \<open>Sha256\<close>: the in-place digest is that of FIPS 180-4.

  \<^bold>\<open>Bounds and fuel.\<close>  The parser's fuel is 30010: the lexer refuses more than 10000 lexemes and the
  nesting limit is 128, and \<open>parse_never_out_of_fuel\<close> shows that this is enough for every source.
  Traversals are limited to 256 levels by the source itself.  Every other recursion is structural
  or has a termination proof; \<open>JSON.parse\<close> recurses on ever shorter text.

  \<^bold>\<open>Parameters.\<close>  \<open>new URL\<close> is a function argument of the checks of routes and proxies.  The Unicode lower-case mapping, the time-zone database and the clock are fields of a
  host record of the runtime; the date library of the lanes is a record of two functions; network
  replies, timers and the interference of other code are arguments; identifiers and translations
  likewise, and so are the events of an event source and the results of \<open>fetch\<close>; a schema maps a value to the
  parsed one or to none.  Which errors a library takes for cancellations is a field of the object.

  \<^bold>\<open>Not modelled.\<close>  The Go server.  React components and pages, which render and wire events, and the
  hooks but those of the playground.  HTTP clients, the browser lock and broadcast channels, which are I/O.
  Generated routes, translations and styles.  Of the libraries: currency and number formatting (\<open>lib/currency.ts\<close>, \<open>lib/format.ts\<close> and what
  the channel list derives from them), which rest on the locale-dependent formatting of the browser, icons and badges, and the tables of
  options, parameters and input controls of the playground.  The schema library (zod) is a parameter of the
  playground's storage and absent from the channel form; React is modelled as documented, by the queue of
  updates that a render runs.
\<close>

end
